(* ===== verification/Prelude.thy ===== *)
theory Prelude
  imports Main "HOL-Library.Char_ord"
begin

text \<open>
  Shared vocabulary of the development: JavaScript strings and the string methods the
  sources call, JSON-like values (the \<open>Record<string, unknown>\<close> tool inputs), and the
  generic list facts the components rely on.

  A JavaScript string is a list of UTF-16 code units; here it is a HOL \<open>string\<close>, so the code
  units are those below 256 (Latin-1). Message texts that contain a dash or an arrow outside
  that range are written with ASCII letters; no branch of the code reads them.
\<close>

named_theorems js_simps \<open>unfolding of the JavaScript string and object operations\<close>

section \<open>Characters\<close>

definition is_word_char :: "char \<Rightarrow> bool" where
  "is_word_char c \<longleftrightarrow>
     (CHR ''a'' \<le> c \<and> c \<le> CHR ''z'') \<or> (CHR ''A'' \<le> c \<and> c \<le> CHR ''Z'') \<or>
     (CHR ''0'' \<le> c \<and> c \<le> CHR ''9'') \<or> c = CHR ''_''"

definition is_digit_char :: "char \<Rightarrow> bool" where
  "is_digit_char c \<longleftrightarrow> CHR ''0'' \<le> c \<and> c \<le> CHR ''9''"

text \<open>JavaScript white space and line terminators below code unit 256 (also \<open>\s\<close> and \<open>trim\<close>).\<close>

definition is_space_char :: "char \<Rightarrow> bool" where
  "is_space_char c \<longleftrightarrow>
     c \<in> {CHR 0x09, CHR 0x0A, CHR 0x0B, CHR 0x0C, CHR 0x0D, CHR 0x20, CHR 0xA0}"

text \<open>The line terminators a regular expression dot refuses.\<close>

definition is_line_end :: "char \<Rightarrow> bool" where
  "is_line_end c \<longleftrightarrow> c = CHR 0x0A \<or> c = CHR 0x0D"

text \<open>\<open>toLowerCase\<close> on Latin-1: the ASCII capitals, and 0xC0 to 0xDE but for 0xD7.\<close>

definition lower_char :: "char \<Rightarrow> char" where
  "lower_char c =
     (if (CHR ''A'' \<le> c \<and> c \<le> CHR ''Z'') \<or> (CHR 0xC0 \<le> c \<and> c \<le> CHR 0xDE \<and> c \<noteq> CHR 0xD7)
      then char_of (of_char c + (32::nat)) else c)"

definition upper_ascii :: "char \<Rightarrow> char" where
  "upper_ascii c = (if CHR ''a'' \<le> c \<and> c \<le> CHR ''z'' then char_of (of_char c - (32::nat)) else c)"

definition lower_ascii :: "char \<Rightarrow> char" where
  "lower_ascii c = (if CHR ''A'' \<le> c \<and> c \<le> CHR ''Z'' then char_of (of_char c + (32::nat)) else c)"

section \<open>String methods\<close>

definition js_toLowerCase :: "string \<Rightarrow> string" where
  "js_toLowerCase s = map lower_char s"

fun js_startsWith :: "string \<Rightarrow> string \<Rightarrow> bool" where
  "js_startsWith s [] = True"
| "js_startsWith [] (p # ps) = False"
| "js_startsWith (c # cs) (p # ps) = (c = p \<and> js_startsWith cs ps)"

definition js_endsWith :: "string \<Rightarrow> string \<Rightarrow> bool" where
  "js_endsWith s p = js_startsWith (rev s) (rev p)"

fun js_includes :: "string \<Rightarrow> string \<Rightarrow> bool" where
  "js_includes [] p = (p = [])"
| "js_includes (c # cs) p = (js_startsWith (c # cs) p \<or> js_includes cs p)"

definition js_trimStart :: "string \<Rightarrow> string" where
  "js_trimStart s = dropWhile is_space_char s"

definition js_trim :: "string \<Rightarrow> string" where
  "js_trim s = rev (dropWhile is_space_char (rev (js_trimStart s)))"

text \<open>\<open>s.split(sep)\<close> for a one-character separator: never empty, \<open>''\<close> gives \<open>['']\<close>.\<close>

fun js_split :: "char \<Rightarrow> string \<Rightarrow> string list" where
  "js_split sep [] = [[]]"
| "js_split sep (c # cs) =
     (if c = sep then [] # js_split sep cs
      else (case js_split sep cs of [] \<Rightarrow> [[c]] | w # ws \<Rightarrow> (c # w) # ws))"

fun js_join :: "string \<Rightarrow> string list \<Rightarrow> string" where
  "js_join sep [] = []"
| "js_join sep [x] = x"
| "js_join sep (x # y # ys) = x @ sep @ js_join sep (y # ys)"

text \<open>Decimal text of a natural number, as \<open>String(n)\<close> and template literals print it.\<close>

fun show_nat :: "nat \<Rightarrow> string" where
  "show_nat n = (if n < 10 then [char_of (48 + n)]
                 else show_nat (n div 10) @ [char_of (48 + n mod 10)])"

declare show_nat.simps [simp del]

lemma js_startsWith_iff: "js_startsWith s p \<longleftrightarrow> (\<exists>t. s = p @ t)"
  by (induction s p rule: js_startsWith.induct) auto

lemma js_startsWith_append [simp]: "js_startsWith (p @ t) p"
  by (auto simp: js_startsWith_iff)

lemma js_startsWith_refl [simp]: "js_startsWith s s"
  using js_startsWith_append [of s "[]"] by simp

lemma js_endsWith_iff: "js_endsWith s p \<longleftrightarrow> (\<exists>t. s = t @ p)"
proof -
  have "js_endsWith s p \<longleftrightarrow> (\<exists>t. rev s = rev p @ t)"
    by (simp add: js_endsWith_def js_startsWith_iff)
  also have "\<dots> \<longleftrightarrow> (\<exists>t. s = t @ p)"
    by (metis rev_append rev_rev_ident)
  finally show ?thesis .
qed

lemma js_includes_iff: "js_includes s p \<longleftrightarrow> (\<exists>a b. s = a @ p @ b)"
proof (induction s)
  case Nil
  then show ?case by auto
next
  case (Cons c cs)
  note IH = Cons.IH
  show ?case
  proof
    assume "js_includes (c # cs) p"
    then consider "js_startsWith (c # cs) p" | "js_includes cs p" by auto
    then show "\<exists>a b. c # cs = a @ p @ b"
    proof cases
      case 1
      then show ?thesis by (metis append_Nil js_startsWith_iff)
    next
      case 2
      then show ?thesis by (metis IH append_Cons)
    qed
  next
    assume "\<exists>a b. c # cs = a @ p @ b"
    then obtain a b where ab: "c # cs = a @ p @ b" by blast
    show "js_includes (c # cs) p"
    proof (cases a)
      case Nil
      with ab have "js_startsWith (c # cs) p" by (metis append_Nil js_startsWith_append)
      then show ?thesis by simp
    next
      case (Cons d a')
      with ab have "cs = a' @ p @ b" by simp
      then have "js_includes cs p" using IH by blast
      then show ?thesis by simp
    qed
  qed
qed

lemma js_split_not_Nil [simp]: "js_split sep s \<noteq> []"
  by (cases s) (auto split: list.splits)

lemma js_split_append:
  "sep \<notin> set a \<Longrightarrow> js_split sep (a @ sep # b) = a # js_split sep b"
  by (induction a) auto

lemma js_split_single: "sep \<notin> set a \<Longrightarrow> js_split sep a = [a]"
  by (induction a) auto

text \<open>Splitting off a prefix whose elements all satisfy a predicate.\<close>

lemma split_prefix_Cons:
  "(\<exists>u v. x # xs = u @ v \<and> (\<forall>c \<in> set u. P c) \<and> Q v) \<longleftrightarrow>
     Q (x # xs) \<or> P x \<and> (\<exists>u v. xs = u @ v \<and> (\<forall>c \<in> set u. P c) \<and> Q v)" (is "?L \<longleftrightarrow> ?R")
proof
  assume ?L
  then obtain u v where uv: "x # xs = u @ v" "\<forall>c \<in> set u. P c" "Q v" by blast
  then show ?R by (cases u) auto
next
  assume ?R
  then show ?L
  proof
    assume "Q (x # xs)"
    then show ?L by (intro exI [of _ "[]"] exI [of _ "x # xs"]) simp
  next
    assume "P x \<and> (\<exists>u v. xs = u @ v \<and> (\<forall>c \<in> set u. P c) \<and> Q v)"
    then obtain u v where "P x" "xs = u @ v" "\<forall>c \<in> set u. P c" "Q v" by blast
    then show ?L by (intro exI [of _ "x # u"] exI [of _ v]) simp
  qed
qed

lemma split_prefix_Nil:
  "(\<exists>u v. [] = u @ v \<and> (\<forall>c \<in> set u. P c) \<and> Q v) \<longleftrightarrow> Q []"
  by auto

section \<open>JSON-like values\<close>

text \<open>
  A tool input is an object parsed from JSON: an association list in property order. A number
  carries its printed text, so no floating point arithmetic is needed to serialise it.
\<close>

datatype json =
    JNull
  | JBool bool
  | JNum string
  | JStr string
  | JArr "json list"
  | JObj "(string \<times> json) list"

type_synonym obj = "(string \<times> json) list"

text \<open>\<open>typeof input.k === 'string'\<close>, with the string.\<close>

definition str_field :: "obj \<Rightarrow> string \<Rightarrow> string option" where
  "str_field i k = (case map_of i k of Some (JStr s) \<Rightarrow> Some s | _ \<Rightarrow> None)"

lemma str_field_Some_iff: "str_field i k = Some s \<longleftrightarrow> map_of i k = Some (JStr s)"
  by (auto simp: str_field_def split: option.splits json.splits)

section \<open>First match over a list\<close>

text \<open>The shape \<open>for (const x of xs) if (p(x)) return f(x)\<close>, shared by all rule tables.\<close>

fun first_map :: "('a \<Rightarrow> 'b option) \<Rightarrow> 'a list \<Rightarrow> 'b option" where
  "first_map f [] = None"
| "first_map f (x # xs) = (case f x of Some y \<Rightarrow> Some y | None \<Rightarrow> first_map f xs)"

lemma first_map_None_iff: "first_map f xs = None \<longleftrightarrow> (\<forall>x \<in> set xs. f x = None)"
  by (induction xs) (auto split: option.splits)

lemma first_map_Some_iff:
  "first_map f xs = Some y \<longleftrightarrow>
     (\<exists>as x bs. xs = as @ x # bs \<and> f x = Some y \<and> (\<forall>a \<in> set as. f a = None))"
proof (induction xs)
  case Nil
  then show ?case by simp
next
  case (Cons z zs)
  show ?case
  proof (cases "f z")
    case None
    then have "first_map f (z # zs) = Some y \<longleftrightarrow> first_map f zs = Some y" by simp
    also have "\<dots> \<longleftrightarrow> (\<exists>as x bs. z # zs = as @ x # bs \<and> f x = Some y \<and> (\<forall>a \<in> set as. f a = None))"
      (is "_ \<longleftrightarrow> ?R")
    proof
      assume "first_map f zs = Some y"
      then obtain as x bs where "zs = as @ x # bs" "f x = Some y" "\<forall>a \<in> set as. f a = None"
        using Cons.IH by blast
      with None show ?R by (intro exI [of _ "z # as"]) auto
    next
      assume ?R
      then obtain as x bs where "z # zs = as @ x # bs" "f x = Some y" "\<forall>a \<in> set as. f a = None"
        by blast
      with None show "first_map f zs = Some y"
        unfolding Cons.IH by (cases as) auto
    qed
    finally show ?thesis .
  next
    case (Some w)
    then show ?thesis
      by (auto simp: Cons_eq_append_conv intro: exI [of _ "[]"])
  qed
qed

lemma first_map_append:
  "first_map f (xs @ ys) = (case first_map f xs of Some y \<Rightarrow> Some y | None \<Rightarrow> first_map f ys)"
  by (induction xs) (auto split: option.splits)

section \<open>Interface: a component as a state machine\<close>

text \<open>
  A component with an initial state, a step relation and an invariant each step keeps. The
  states it can be in are those reachable from the initial one.
\<close>

locale machine =
  fixes init :: 's
    and step :: "'s \<Rightarrow> 's \<Rightarrow> bool"
    and inv :: "'s \<Rightarrow> bool"
  assumes inv_init: "inv init"
    and inv_step: "inv s \<Longrightarrow> step s t \<Longrightarrow> inv t"
begin

lemma inv_reachable: "step\<^sup>*\<^sup>* init s \<Longrightarrow> inv s"
  by (induction rule: rtranclp_induct) (auto intro: inv_init inv_step)

lemma inv_run: "step\<^sup>*\<^sup>* s t \<Longrightarrow> inv s \<Longrightarrow> inv t"
  by (induction rule: rtranclp_induct) (auto intro: inv_step)

end

lemma first_map_cong [fundef_cong]:
  "xs = ys \<Longrightarrow> (\<And>x. x \<in> set ys \<Longrightarrow> f x = g x) \<Longrightarrow> first_map f xs = first_map g ys"
  by (induction xs arbitrary: ys) (auto split: option.splits)

end
