(* ===== verification/JsMap.thy ===== *)
theory JsMap
  imports Prelude "HOL-Library.AList"
begin

text \<open>
  The JavaScript \<open>Map\<close>: an association list in insertion order with distinct keys. \<open>set\<close> on a
  present key keeps its place, \<open>set\<close> on a new key appends, \<open>delete\<close> closes the gap. The stores
  and registries of the engine are clients of the interface \<open>keyed_store\<close>.
\<close>

type_synonym ('k, 'v) js_map = "('k \<times> 'v) list"

definition map_set :: "'k \<Rightarrow> 'v \<Rightarrow> ('k, 'v) js_map \<Rightarrow> ('k, 'v) js_map" where
  "map_set k v m = AList.update k v m"

definition map_get :: "('k, 'v) js_map \<Rightarrow> 'k \<Rightarrow> 'v option" where
  "map_get m k = map_of m k"

definition map_has :: "('k, 'v) js_map \<Rightarrow> 'k \<Rightarrow> bool" where
  "map_has m k = (map_of m k \<noteq> None)"

definition map_delete :: "'k \<Rightarrow> ('k, 'v) js_map \<Rightarrow> ('k, 'v) js_map" where
  "map_delete k m = AList.delete k m"

definition map_ok :: "('k, 'v) js_map \<Rightarrow> bool" where
  "map_ok m = distinct (map fst m)"

section \<open>The store interface\<close>

locale keyed_store =
  fixes empty :: "'m"
    and update :: "'k \<Rightarrow> 'v \<Rightarrow> 'm \<Rightarrow> 'm"
    and remove :: "'k \<Rightarrow> 'm \<Rightarrow> 'm"
    and find :: "'m \<Rightarrow> 'k \<Rightarrow> 'v option"
    and size_of :: "'m \<Rightarrow> nat"
    and ok :: "'m \<Rightarrow> bool"
  assumes ok_empty: "ok empty"
    and ok_update: "ok m \<Longrightarrow> ok (update k v m)"
    and ok_remove: "ok m \<Longrightarrow> ok (remove k m)"
    and find_empty: "find empty k = None"
    and find_update: "ok m \<Longrightarrow> find (update k v m) k' = (if k' = k then Some v else find m k')"
    and find_remove: "ok m \<Longrightarrow> find (remove k m) k' = (if k' = k then None else find m k')"
    and size_dom: "ok m \<Longrightarrow> finite {k. find m k \<noteq> None} \<and> size_of m = card {k. find m k \<noteq> None}"
begin

lemma last_write_wins: "ok m \<Longrightarrow> find (update k w (update k v m)) = find (update k w m)"
  by (rule ext) (simp add: find_update ok_update)

lemma update_commute:
  "ok m \<Longrightarrow> k \<noteq> k' \<Longrightarrow> find (update k v (update k' v' m)) = find (update k' v' (update k v m))"
  by (rule ext) (simp add: find_update ok_update)

lemma remove_update: "ok m \<Longrightarrow> find (remove k (update k v m)) = find (remove k m)"
  by (rule ext) (simp add: find_update find_remove ok_update)

lemma size_update:
  "ok m \<Longrightarrow> size_of (update k v m) = (if find m k = None then Suc (size_of m) else size_of m)"
proof -
  assume ok: "ok m"
  have dom: "{k'. find (update k v m) k' \<noteq> None} = insert k {k'. find m k' \<noteq> None}"
    using ok by (auto simp: find_update)
  have fin: "finite {k'. find m k' \<noteq> None}" and sz: "size_of m = card {k'. find m k' \<noteq> None}"
    using size_dom [OF ok] by auto
  have "size_of (update k v m) = card (insert k {k'. find m k' \<noteq> None})"
    using size_dom [OF ok_update [OF ok, of k v]] by (simp only: dom)
  then show ?thesis
    using fin sz by (auto simp: insert_absorb)
qed

end

section \<open>The map implements it\<close>

lemma map_ok_dom: "map_ok m \<Longrightarrow> length m = card {k. map_of m k \<noteq> None}"
proof -
  assume "map_ok m"
  then have "length m = card (set (map fst m))"
    using distinct_card [of "map fst m"] by (simp add: map_ok_def)
  also have "set (map fst m) = {k. map_of m k \<noteq> None}"
    by (metis (no_types) Collect_cong dom_def dom_map_of_conv_image_fst set_map)
  finally show ?thesis .
qed

interpretation jm: keyed_store "[]" map_set map_delete map_get length map_ok
proof
  fix m :: "('a, 'b) js_map" and k k' :: 'a and v :: 'b
  show "map_ok ([] :: ('a, 'b) js_map)" by (simp add: map_ok_def)
  show "map_ok m \<Longrightarrow> map_ok (map_set k v m)"
    by (simp add: map_ok_def map_set_def distinct_update)
  show "map_ok m \<Longrightarrow> map_ok (map_delete k m)"
    by (simp add: map_ok_def map_delete_def distinct_delete)
  show "map_get [] k = (None :: 'b option)" by (simp add: map_get_def)
  show "map_get (map_set k v m) k' = (if k' = k then Some v else map_get m k')"
    by (simp add: map_get_def map_set_def update_conv)
  show "map_get (map_delete k m) k' = (if k' = k then None else map_get m k')"
    by (simp add: map_get_def map_delete_def delete_conv)
  show "map_ok m \<Longrightarrow> finite {k. map_get m k \<noteq> None} \<and> length m = card {k. map_get m k \<noteq> None}"
    using finite_dom_map_of [of m] by (simp add: map_get_def map_ok_dom dom_def)
qed

lemmas js_map_defs = map_set_def map_get_def map_has_def map_delete_def

end
