(* ===== verification/Hitl.thy ===== *)
theory Hitl
  imports JsMap
begin

text \<open>
  Human approval of tool calls (packages/loom/src/permissions/hitl.ts). A promise returned by
  \<open>requestApproval\<close> is a token; the pending map sends a request id to the token of its
  \<open>resolve\<close> callback, and every timer set and not yet cleared or fired is listed with the
  request id its callback deletes. \<open>resolutions\<close> records each call of a \<open>resolve\<close> callback.
\<close>

datatype hitl_event = ApprovalNeeded string | ApprovalResponse string bool

record HumanInTheLoop =
  hasHandler :: bool
  pendingRequests :: "(string, nat) js_map"
  timers :: "(nat \<times> string) list"
  nextToken :: nat
  resolutions :: "(nat \<times> bool) list"
  emitted :: "hitl_event list"

definition hitl_new :: HumanInTheLoop where
  "hitl_new = \<lparr>hasHandler = False, pendingRequests = [], timers = [], nextToken = 0,
               resolutions = [], emitted = []\<rparr>"

text \<open>\<open>clearTimeout\<close> of the timer that belongs to a token.\<close>

definition clear_timer :: "nat \<Rightarrow> (nat \<times> string) list \<Rightarrow> (nat \<times> string) list" where
  "clear_timer t ts = filter (\<lambda>x. fst x \<noteq> t) ts"

definition onApprovalNeeded :: "HumanInTheLoop \<Rightarrow> HumanInTheLoop" where
  "onApprovalNeeded h = h\<lparr>hasHandler := True\<rparr>"

definition removeHandler :: "HumanInTheLoop \<Rightarrow> HumanInTheLoop" where
  "removeHandler h = h\<lparr>hasHandler := False\<rparr>"

text \<open>
  \<open>Inl False\<close> is the promise that is already denied because nobody listens; \<open>Inr t\<close> is the
  promise that resolves when token \<open>t\<close> does.
\<close>

definition requestApproval :: "string \<Rightarrow> HumanInTheLoop \<Rightarrow> (bool + nat) \<times> HumanInTheLoop" where
  "requestApproval requestId h =
     (if \<not> hasHandler h then (Inl False, h)
      else (let t = nextToken h in
        (Inr t, h\<lparr>timers := timers h @ [(t, requestId)],
                  pendingRequests := map_set requestId t (pendingRequests h),
                  nextToken := Suc t,
                  emitted := emitted h @ [ApprovalNeeded requestId]\<rparr>)))"

text \<open>The timer callback: it deletes by request id and denies its own promise.\<close>

definition timeout_fires :: "nat \<Rightarrow> string \<Rightarrow> HumanInTheLoop \<Rightarrow> HumanInTheLoop" where
  "timeout_fires t requestId h =
     h\<lparr>timers := clear_timer t (timers h),
       pendingRequests := map_delete requestId (pendingRequests h),
       resolutions := resolutions h @ [(t, False)]\<rparr>"

definition respond :: "string \<Rightarrow> bool \<Rightarrow> HumanInTheLoop \<Rightarrow> bool \<times> HumanInTheLoop" where
  "respond requestId approved h =
     (case map_get (pendingRequests h) requestId of
        None \<Rightarrow> (False, h)
      | Some t \<Rightarrow>
          (True, h\<lparr>timers := clear_timer t (timers h),
                   pendingRequests := map_delete requestId (pendingRequests h),
                   resolutions := resolutions h @ [(t, approved)],
                   emitted := emitted h @ [ApprovalResponse requestId approved]\<rparr>))"

definition hasPending :: "HumanInTheLoop \<Rightarrow> string \<Rightarrow> bool" where
  "hasPending h requestId = map_has (pendingRequests h) requestId"

text \<open>The loop of \<open>approveAll\<close> and \<open>denyAll\<close>: every pending promise gets the same answer.\<close>

definition settle_all :: "bool \<Rightarrow> HumanInTheLoop \<Rightarrow> HumanInTheLoop" where
  "settle_all approved h =
     h\<lparr>timers := fold (\<lambda>p. clear_timer (snd p)) (pendingRequests h) (timers h),
       resolutions := resolutions h @ map (\<lambda>p. (snd p, approved)) (pendingRequests h),
       emitted := emitted h @ map (\<lambda>p. ApprovalResponse (fst p) approved) (pendingRequests h),
       pendingRequests := []\<rparr>"

definition approveAll :: "HumanInTheLoop \<Rightarrow> HumanInTheLoop" where
  "approveAll h = settle_all True h"

definition denyAll :: "HumanInTheLoop \<Rightarrow> HumanInTheLoop" where
  "denyAll h = settle_all False h"

definition pendingCount :: "HumanInTheLoop \<Rightarrow> nat" where
  "pendingCount h = length (pendingRequests h)"

definition dispose :: "HumanInTheLoop \<Rightarrow> HumanInTheLoop" where
  "dispose h = (denyAll h)\<lparr>hasHandler := False\<rparr>"

section \<open>The state machine\<close>

datatype hitl_label =
  LHandler | LNoHandler | LRequest string | LTimeout nat | LRespond string bool
  | LApproveAll | LDenyAll | LDispose

inductive hitl_step :: "hitl_label \<Rightarrow> HumanInTheLoop \<Rightarrow> HumanInTheLoop \<Rightarrow> bool" where
  st_handler: "hitl_step LHandler h (onApprovalNeeded h)"
| st_nohandler: "hitl_step LNoHandler h (removeHandler h)"
| st_request: "hitl_step (LRequest i) h (snd (requestApproval i h))"
| st_timeout: "(t, i) \<in> set (timers h) \<Longrightarrow> hitl_step (LTimeout t) h (timeout_fires t i h)"
| st_respond: "hitl_step (LRespond i b) h (snd (respond i b h))"
| st_approveAll: "hitl_step LApproveAll h (approveAll h)"
| st_denyAll: "hitl_step LDenyAll h (denyAll h)"
| st_dispose: "hitl_step LDispose h (dispose h)"

inductive_simps hitl_step_simps:
  "hitl_step LHandler h h'" "hitl_step LNoHandler h h'" "hitl_step (LRequest i) h h'"
  "hitl_step (LTimeout t) h h'" "hitl_step (LRespond i b) h h'" "hitl_step LApproveAll h h'"
  "hitl_step LDenyAll h h'" "hitl_step LDispose h h'"

definition hitl_any :: "HumanInTheLoop \<Rightarrow> HumanInTheLoop \<Rightarrow> bool" where
  "hitl_any h h' \<longleftrightarrow> (\<exists>l. hitl_step l h h')"

text \<open>
  The invariant: a pending entry has a live timer that names it; a token is resolved or has a
  live timer, never both; no token is resolved twice.
\<close>

definition hitl_inv :: "HumanInTheLoop \<Rightarrow> bool" where
  "hitl_inv h \<longleftrightarrow>
     map_ok (pendingRequests h) \<and>
     (\<forall>(i, t) \<in> set (pendingRequests h). (t, i) \<in> set (timers h)) \<and>
     distinct (map fst (timers h)) \<and> distinct (map fst (resolutions h)) \<and>
     fst ` set (timers h) \<inter> fst ` set (resolutions h) = {} \<and>
     fst ` set (timers h) \<union> fst ` set (resolutions h) = {..<nextToken h}"

lemma set_clear_timer [simp]: "set (clear_timer t ts) = {x \<in> set ts. fst x \<noteq> t}"
  by (auto simp: clear_timer_def)

lemma distinct_clear_timer [simp]:
  "distinct (map fst ts) \<Longrightarrow> distinct (map fst (clear_timer t ts))"
  by (simp add: clear_timer_def distinct_map_filter)

lemma set_fold_clear:
  "set (fold (\<lambda>p. clear_timer (snd p)) ps ts) = {x \<in> set ts. fst x \<notin> snd ` set ps}"
  by (induction ps arbitrary: ts) auto

lemma distinct_fold_clear:
  "distinct (map fst ts) \<Longrightarrow> distinct (map fst (fold (\<lambda>p. clear_timer (snd p)) ps ts))"
  by (induction ps arbitrary: ts) auto

lemma set_map_delete: "set (map_delete k m) = {x \<in> set m. fst x \<noteq> k}"
  by (auto simp: map_delete_def AList.delete_eq)

lemma set_map_set: "map_ok m \<Longrightarrow> set (map_set k v m) = insert (k, v) {x \<in> set m. fst x \<noteq> k}"
  unfolding map_set_def map_ok_def by (induction m) (auto split: if_splits, force+)

text \<open>Tokens of pending entries are distinct, because timers are.\<close>

lemma pending_tokens_distinct:
  assumes "hitl_inv h"
  shows "distinct (map snd (pendingRequests h))"
proof -
  have ok: "map_ok (pendingRequests h)" and d: "distinct (map fst (timers h))"
    and sub: "\<forall>(i, t) \<in> set (pendingRequests h). (t, i) \<in> set (timers h)"
    using assms by (auto simp: hitl_inv_def)
  have "inj_on snd (set (pendingRequests h))"
  proof (rule inj_onI)
    fix x y assume "x \<in> set (pendingRequests h)" "y \<in> set (pendingRequests h)" "snd x = snd y"
    with sub have "(snd x, fst x) \<in> set (timers h)" "(snd x, fst y) \<in> set (timers h)"
      by (auto simp: case_prod_beta)
    with d have "fst x = fst y" by (metis eq_key_imp_eq_value)
    with \<open>snd x = snd y\<close> show "x = y" by (simp add: prod_eq_iff)
  qed
  moreover have "distinct (pendingRequests h)"
    using ok by (simp add: map_ok_def distinct_map)
  ultimately show ?thesis by (simp add: distinct_map)
qed

section \<open>Every operation keeps the invariant\<close>

lemma hitl_invD:
  assumes "hitl_inv h"
  shows "map_ok (pendingRequests h)"
    and "(i, t) \<in> set (pendingRequests h) \<Longrightarrow> (t, i) \<in> set (timers h)"
    and "distinct (map fst (timers h))" and "distinct (map fst (resolutions h))"
    and "fst ` set (timers h) \<inter> fst ` set (resolutions h) = {}"
    and "fst ` set (timers h) \<union> fst ` set (resolutions h) = {..<nextToken h}"
  using assms by (auto simp: hitl_inv_def)

lemma hitl_inv_new: "hitl_inv hitl_new"
  by (simp add: hitl_inv_def hitl_new_def map_ok_def)

lemma hitl_inv_handler:
  "hitl_inv h \<Longrightarrow> hitl_inv (onApprovalNeeded h)" "hitl_inv h \<Longrightarrow> hitl_inv (removeHandler h)"
  by (auto simp: hitl_inv_def onApprovalNeeded_def removeHandler_def)

lemma hitl_inv_request:
  assumes "hitl_inv h"
  shows "hitl_inv (snd (requestApproval i h))"
proof (cases "hasHandler h")
  case True
  note inv = hitl_invD [OF assms]
  have fresh: "nextToken h \<notin> fst ` set (timers h) \<union> fst ` set (resolutions h)"
    unfolding inv(6) by simp
  have "fst ` set (timers h @ [(nextToken h, i)]) \<union> fst ` set (resolutions h) =
      insert (nextToken h) {..<nextToken h}"
    using inv(6) by auto
  also have "\<dots> = {..<Suc (nextToken h)}" by auto
  finally have tok: "fst ` set (timers h @ [(nextToken h, i)]) \<union> fst ` set (resolutions h) =
      {..<Suc (nextToken h)}" .
  show ?thesis
    unfolding hitl_inv_def requestApproval_def Let_def
    using True inv fresh tok
    by (auto simp: set_map_set jm.ok_update)
qed (simp add: requestApproval_def assms)

text \<open>Moving a token from the timers to the resolutions.\<close>

lemma token_moves:
  assumes "hitl_inv h" and "(t, i) \<in> set (timers h)"
  shows "fst ` set (clear_timer t (timers h)) \<union> fst ` set (resolutions h @ [(t, b)]) = {..<nextToken h}"
    and "fst ` set (clear_timer t (timers h)) \<inter> fst ` set (resolutions h @ [(t, b)]) = {}"
    and "distinct (map fst (resolutions h @ [(t, b)]))"
proof -
  note inv = hitl_invD [OF assms(1)]
  have t: "t \<in> fst ` set (timers h)" using assms(2) by (force intro: rev_image_eqI)
  have minus: "fst ` set (clear_timer t (timers h)) = fst ` set (timers h) - {t}" by auto
  show "fst ` set (clear_timer t (timers h)) \<union> fst ` set (resolutions h @ [(t, b)]) = {..<nextToken h}"
    unfolding minus using t inv(6) by auto
  show "fst ` set (clear_timer t (timers h)) \<inter> fst ` set (resolutions h @ [(t, b)]) = {}"
    unfolding minus using inv(5) by auto
  show "distinct (map fst (resolutions h @ [(t, b)]))"
    using t inv(4,5) by auto
qed

text \<open>After a settlement of token \<open>t\<close>, named \<open>i\<close>, the entry of \<open>i\<close> is gone and no other uses \<open>t\<close>.\<close>

lemma pending_after_settle:
  assumes "hitl_inv h" and "(t, i) \<in> set (timers h)" and "(j, u) \<in> set (map_delete i (pendingRequests h))"
  shows "(u, j) \<in> set (clear_timer t (timers h))"
proof -
  note inv = hitl_invD [OF assms(1)]
  from assms(3) have ju: "(j, u) \<in> set (pendingRequests h)" "j \<noteq> i" by (auto simp: set_map_delete)
  then have uj: "(u, j) \<in> set (timers h)" using inv(2) by blast
  have "u \<noteq> t" using uj assms(2) inv(3) ju(2) by (metis eq_key_imp_eq_value)
  with uj show ?thesis by simp
qed

lemma hitl_inv_timeout:
  assumes "hitl_inv h" and "(t, i) \<in> set (timers h)"
  shows "hitl_inv (timeout_fires t i h)"
  unfolding hitl_inv_def timeout_fires_def
  using hitl_invD(1,3) [OF assms(1)] token_moves [OF assms, of False] pending_after_settle [OF assms]
  by (simp add: jm.ok_remove case_prod_beta del: set_clear_timer)

lemma hitl_inv_respond:
  assumes "hitl_inv h"
  shows "hitl_inv (snd (respond i b h))"
proof (cases "map_get (pendingRequests h) i")
  case None
  with assms show ?thesis by (simp add: respond_def)
next
  case (Some t)
  then have "(i, t) \<in> set (pendingRequests h)" by (simp add: map_get_def map_of_SomeD)
  then have ti: "(t, i) \<in> set (timers h)" by (rule hitl_invD(2) [OF assms])
  show ?thesis
    unfolding hitl_inv_def respond_def
    using Some hitl_invD(1,3) [OF assms] token_moves [OF assms ti, of b]
      pending_after_settle [OF assms ti]
    by (simp add: jm.ok_remove case_prod_beta del: set_clear_timer)
qed

lemma hitl_inv_settle_all:
  assumes "hitl_inv h"
  shows "hitl_inv (settle_all b h)"
proof -
  note inv = hitl_invD [OF assms]
  let ?P = "snd ` set (pendingRequests h)" and ?T = "fst ` set (timers h)"
  have sub: "?P \<subseteq> ?T" using inv(2) by force
  have T: "fst ` set (fold (\<lambda>p. clear_timer (snd p)) (pendingRequests h) (timers h)) = ?T - ?P"
    unfolding set_fold_clear by auto
  have R: "fst ` set (resolutions h @ map (\<lambda>p. (snd p, b)) (pendingRequests h)) =
      fst ` set (resolutions h) \<union> ?P"
    by (auto simp: image_Un image_image)
  have dR: "distinct (map fst (resolutions h @ map (\<lambda>p. (snd p, b)) (pendingRequests h)))"
  proof -
    have eq: "map fst (map (\<lambda>p. (snd p, b)) (pendingRequests h)) = map snd (pendingRequests h)"
      by simp
    have "set (map snd (pendingRequests h)) \<inter> set (map fst (resolutions h)) = {}"
      using sub inv(5) by auto
    with inv(4) pending_tokens_distinct [OF assms] show ?thesis
      unfolding map_append distinct_append eq by blast
  qed
  have un: "(?T - ?P) \<union> (fst ` set (resolutions h) \<union> ?P) = {..<nextToken h}"
    using sub inv(6) by blast
  have dis: "(?T - ?P) \<inter> (fst ` set (resolutions h) \<union> ?P) = {}"
    using inv(5) by blast
  show ?thesis
    unfolding hitl_inv_def settle_all_def
    using distinct_fold_clear [OF inv(3)] dR T R un dis
    by (simp add: map_ok_def)
qed

lemma hitl_inv_dispose: "hitl_inv h \<Longrightarrow> hitl_inv (dispose h)"
  using hitl_inv_settle_all [of h False] by (simp add: dispose_def denyAll_def hitl_inv_def)

lemmas hitl_inv_ops = hitl_inv_handler hitl_inv_request hitl_inv_timeout hitl_inv_respond
  hitl_inv_settle_all hitl_inv_dispose

lemma hitl_inv_step: "hitl_inv h \<Longrightarrow> hitl_step l h h' \<Longrightarrow> hitl_inv h'"
  by (erule hitl_step.cases) (simp_all add: hitl_inv_ops approveAll_def denyAll_def)

interpretation hm: machine hitl_new hitl_any hitl_inv
  by unfold_locales (auto simp: hitl_any_def hitl_inv_new intro: hitl_inv_step)

section \<open>Properties\<close>

text \<open>
  C26: In every reachable state of the approval system no promise hangs and none is settled
  twice: a token that was handed out is either resolved or has a live timer, never both, each
  token is resolved at most once, and every pending entry has the timer that will expire it.
\<close>

theorem hitl_no_hang_no_double:
  assumes "hitl_any\<^sup>*\<^sup>* hitl_new h"
  shows "(\<forall>t. t < nextToken h \<longleftrightarrow> t \<in> fst ` set (timers h) \<union> fst ` set (resolutions h))
    \<and> fst ` set (timers h) \<inter> fst ` set (resolutions h) = {}
    \<and> distinct (map fst (resolutions h))
    \<and> (\<forall>i t. map_get (pendingRequests h) i = Some t \<longrightarrow> (t, i) \<in> set (timers h))"
proof -
  note inv = hitl_invD [OF hm.inv_reachable [OF assms]]
  have "\<forall>i t. map_get (pendingRequests h) i = Some t \<longrightarrow> (t, i) \<in> set (timers h)"
    using inv(2) by (auto simp: map_get_def dest: map_of_SomeD)
  then show ?thesis using inv(4,5,6) by blast
qed

theorem hitl_no_hang_no_double_witness:
  "hitl_any\<^sup>*\<^sup>* hitl_new (snd (requestApproval ''a'' (onApprovalNeeded hitl_new)))
   \<and> (0, ''a'') \<in> set (timers (snd (requestApproval ''a'' (onApprovalNeeded hitl_new))))"
proof -
  let ?h = "snd (requestApproval ''a'' (onApprovalNeeded hitl_new))"
  have r: "hitl_any\<^sup>*\<^sup>* hitl_new ?h"
    by (rule converse_rtranclp_into_rtranclp [OF _ r_into_rtranclp, of _ _ "onApprovalNeeded hitl_new"])
       (auto simp: hitl_any_def intro: hitl_step.intros)
  have "map_get (pendingRequests ?h) ''a'' = Some 0"
    by (simp add: requestApproval_def onApprovalNeeded_def hitl_new_def map_get_def map_set_def)
  with r hitl_no_hang_no_double [OF r] show ?thesis by blast
qed



text \<open>
  Two requests with one id interfere. The stale timer of the first deletes the entry of
  the second, so an answer to the second, whose promise is still unresolved, is refused.
\<close>

theorem stale_timer_drops_live_request:
  "\<exists>h. hitl_any\<^sup>*\<^sup>* hitl_new h \<and> (1, i) \<in> set (timers h) \<and> 1 \<notin> fst ` set (resolutions h)
     \<and> \<not> hasPending h i \<and> fst (respond i True h) = False"
proof -
  let ?h1 = "onApprovalNeeded hitl_new"
  let ?h2 = "snd (requestApproval i ?h1)" and ?h3 = "snd (requestApproval i (snd (requestApproval i ?h1)))"
  let ?h4 = "timeout_fires 0 i ?h3"
  note defs = requestApproval_def onApprovalNeeded_def hitl_new_def map_get_def map_set_def
    timeout_fires_def clear_timer_def map_delete_def hasPending_def map_has_def respond_def
  have t: "(0, i) \<in> set (timers ?h3)" by (simp add: defs)
  have "hitl_any hitl_new ?h1" "hitl_any ?h1 ?h2" "hitl_any ?h2 ?h3" "hitl_any ?h3 ?h4"
    using t by (auto simp: hitl_any_def intro: hitl_step.intros)
  then have "hitl_any\<^sup>*\<^sup>* hitl_new ?h4" by (meson converse_rtranclp_into_rtranclp rtranclp.rtrancl_refl)
  moreover have "(1, i) \<in> set (timers ?h4) \<and> 1 \<notin> fst ` set (resolutions ?h4)
     \<and> \<not> hasPending ?h4 i \<and> fst (respond i True ?h4) = False"
    by (simp add: defs)
  ultimately show ?thesis by blast
qed

end
