(* ===== verification/JsRegex.thy ===== *)
theory JsRegex
  imports Prelude
begin

text \<open>
  The regular expressions of the sources: the fragment of JavaScript's \<open>RegExp\<close> they use
  (classes, sequence, alternation, repetition, word boundary, anchors, a one-character
  negative look-behind), an executable matcher for \<open>RegExp.prototype.test\<close>, and its
  correctness against the declarative matching relation.

  A position is the character just before it (\<open>None\<close> at the start of the subject) and the
  rest of the subject; that is all a boundary, an anchor or the look-behind reads.
\<close>

datatype regex =
    REmpty
  | RClass "char \<Rightarrow> bool"
  | RSeq regex regex
  | RAlt regex regex
  | RStar regex
  | RWordB
  | RStart
  | REnd
  | RNotBehind char

type_synonym rpos = "char option \<times> string"

section \<open>The matching relation\<close>

definition at_boundary :: "rpos \<Rightarrow> bool" where
  "at_boundary p =
     ((case fst p of None \<Rightarrow> False | Some c \<Rightarrow> is_word_char c) \<noteq>
      (case snd p of [] \<Rightarrow> False | c # _ \<Rightarrow> is_word_char c))"

inductive rmatch :: "regex \<Rightarrow> rpos \<Rightarrow> rpos \<Rightarrow> bool" where
  rm_empty: "rmatch REmpty p p"
| rm_class: "P c \<Longrightarrow> rmatch (RClass P) (b, c # cs) (Some c, cs)"
| rm_seq: "rmatch r p q \<Longrightarrow> rmatch r' q q' \<Longrightarrow> rmatch (RSeq r r') p q'"
| rm_altl: "rmatch r p q \<Longrightarrow> rmatch (RAlt r r') p q"
| rm_altr: "rmatch r' p q \<Longrightarrow> rmatch (RAlt r r') p q"
| rm_star0: "rmatch (RStar r) p p"
| rm_star: "rmatch r p q \<Longrightarrow> rmatch (RStar r) q q' \<Longrightarrow> rmatch (RStar r) p q'"
| rm_wordb: "at_boundary p \<Longrightarrow> rmatch RWordB p p"
| rm_start: "rmatch RStart (None, s) (None, s)"
| rm_end: "rmatch REnd (b, []) (b, [])"
| rm_notbehind: "b \<noteq> Some c \<Longrightarrow> rmatch (RNotBehind c) (b, s) (b, s)"

inductive_simps rmatch_simps [simp]:
  "rmatch REmpty p q"
  "rmatch (RClass P) p q"
  "rmatch (RSeq r r') p q"
  "rmatch (RAlt r r') p q"
  "rmatch RWordB p q"
  "rmatch RStart p q"
  "rmatch REnd p q"
  "rmatch (RNotBehind c) p q"

inductive_cases rmatch_starE: "rmatch (RStar r) p q"

section \<open>The matcher\<close>

fun star_ends :: "(rpos \<Rightarrow> rpos list) \<Rightarrow> nat \<Rightarrow> rpos \<Rightarrow> rpos list" where
  "star_ends f 0 p = [p]"
| "star_ends f (Suc n) p =
     p # concat (map (star_ends f n) (filter (\<lambda>q. length (snd q) < length (snd p)) (f p)))"

primrec ends :: "regex \<Rightarrow> rpos \<Rightarrow> rpos list" where
  "ends REmpty p = [p]"
| "ends (RClass P) p =
     (case snd p of [] \<Rightarrow> [] | c # cs \<Rightarrow> if P c then [(Some c, cs)] else [])"
| "ends (RSeq r r') p = concat (map (ends r') (ends r p))"
| "ends (RAlt r r') p = ends r p @ ends r' p"
| "ends (RStar r) p = star_ends (ends r) (length (snd p)) p"
| "ends RWordB p = (if at_boundary p then [p] else [])"
| "ends RStart p = (if fst p = None then [p] else [])"
| "ends REnd p = (if snd p = [] then [p] else [])"
| "ends (RNotBehind c) p = (if fst p \<noteq> Some c then [p] else [])"

fun test_from :: "regex \<Rightarrow> char option \<Rightarrow> string \<Rightarrow> bool" where
  "test_from r b [] = (ends r (b, []) \<noteq> [])"
| "test_from r b (c # cs) = (ends r (b, c # cs) \<noteq> [] \<or> test_from r (Some c) cs)"

definition re_test :: "regex \<Rightarrow> string \<Rightarrow> bool" where
  "re_test r s = test_from r None s"

section \<open>Derived forms\<close>

definition rplus :: "regex \<Rightarrow> regex" where "rplus r = RSeq r (RStar r)"
definition ropt :: "regex \<Rightarrow> regex" where "ropt r = RAlt r REmpty"

fun rrep :: "nat \<Rightarrow> regex \<Rightarrow> regex" where
  "rrep 0 r = REmpty"
| "rrep (Suc n) r = RSeq r (rrep n r)"

definition rrep_min :: "nat \<Rightarrow> regex \<Rightarrow> regex" where
  "rrep_min n r = RSeq (rrep n r) (RStar r)"

text \<open>\<open>r{n,m}\<close>.\<close>

fun rup_to :: "nat \<Rightarrow> regex \<Rightarrow> regex" where
  "rup_to 0 r = REmpty"
| "rup_to (Suc n) r = ropt (RSeq r (rup_to n r))"

definition rrep_range :: "nat \<Rightarrow> nat \<Rightarrow> regex \<Rightarrow> regex" where
  "rrep_range n m r = RSeq (rrep n r) (rup_to (m - n) r)"

fun rlit :: "string \<Rightarrow> regex" where
  "rlit [] = REmpty"
| "rlit [c] = RClass (\<lambda>x. x = c)"
| "rlit (c # d # cs) = RSeq (RClass (\<lambda>x. x = c)) (rlit (d # cs))"

fun rseqs :: "regex list \<Rightarrow> regex" where
  "rseqs [] = REmpty"
| "rseqs [r] = r"
| "rseqs (r # r' # rs) = RSeq r (rseqs (r' # rs))"

fun ralts :: "regex list \<Rightarrow> regex" where
  "ralts [] = RClass (\<lambda>_. False)"
| "ralts [r] = r"
| "ralts (r # r' # rs) = RAlt r (ralts (r' # rs))"

definition rwords :: "string list \<Rightarrow> regex" where
  "rwords ws = ralts (map rlit ws)"

definition rset :: "string \<Rightarrow> regex" where
  "rset cs = RClass (\<lambda>c. c \<in> set cs)"

definition rnset :: "string \<Rightarrow> regex" where
  "rnset cs = RClass (\<lambda>c. c \<notin> set cs)"

definition in_range :: "char \<Rightarrow> char \<Rightarrow> char \<Rightarrow> bool" where
  "in_range a b c \<longleftrightarrow> a \<le> c \<and> c \<le> b"

definition is_alpha :: "char \<Rightarrow> bool" where
  "is_alpha c \<longleftrightarrow> in_range (CHR ''a'') (CHR ''z'') c \<or> in_range (CHR ''A'') (CHR ''Z'') c"

definition is_alnum :: "char \<Rightarrow> bool" where
  "is_alnum c \<longleftrightarrow> is_alpha c \<or> is_digit_char c"

definition rspace :: regex where "rspace = RClass is_space_char"
definition rspaces :: regex where "rspaces = RStar rspace"
definition rspaces1 :: regex where "rspaces1 = rplus rspace"
definition rdigit :: regex where "rdigit = RClass is_digit_char"
definition rwordc :: regex where "rwordc = RClass is_word_char"
definition rdot :: regex where "rdot = RClass (\<lambda>c. \<not> is_line_end c)"
definition ranys :: regex where "ranys = RStar rdot"

text \<open>\<open>\b word \b\<close>, the commonest pattern of the rule tables.\<close>

definition rword :: "string \<Rightarrow> regex" where
  "rword w = rseqs [RWordB, rlit w, RWordB]"

text \<open>
  The \<open>i\<close> flag, for patterns whose classes are sets of ASCII characters written without
  negation: a character matches when it does in one of its ASCII cases.
\<close>

primrec rci :: "regex \<Rightarrow> regex" where
  "rci REmpty = REmpty"
| "rci (RClass P) = RClass (\<lambda>c. P c \<or> P (lower_ascii c) \<or> P (upper_ascii c))"
| "rci (RSeq r r') = RSeq (rci r) (rci r')"
| "rci (RAlt r r') = RAlt (rci r) (rci r')"
| "rci (RStar r) = RStar (rci r)"
| "rci RWordB = RWordB"
| "rci RStart = RStart"
| "rci REnd = REnd"
| "rci (RNotBehind c) = RNotBehind c"

section \<open>Correctness of the matcher\<close>

text \<open>A match consumes a prefix of the rest; one that consumes nothing does not move.\<close>

lemma rmatch_progress:
  "rmatch r p q \<Longrightarrow> q = p \<or> length (snd q) < length (snd p)"
  by (induction rule: rmatch.induct) auto

lemma star_ends_sound:
  assumes f: "\<And>p q. q \<in> set (f p) \<Longrightarrow> rmatch r p q"
  shows "q \<in> set (star_ends f n p) \<Longrightarrow> rmatch (RStar r) p q"
proof (induction n arbitrary: p)
  case 0
  then show ?case by (auto intro: rm_star0)
next
  case (Suc n)
  then show ?case by (auto intro: rm_star0 rm_star f)
qed

lemma star_ends_complete:
  assumes f: "\<And>p q. rmatch r p q \<Longrightarrow> q \<in> set (f p)"
  shows "rmatch (RStar r) p q \<Longrightarrow> length (snd p) \<le> n \<Longrightarrow> q \<in> set (star_ends f n p)"
proof (induction "RStar r" p q arbitrary: n rule: rmatch.induct)
  case (rm_star0 p)
  then show ?case by (cases n) auto
next
  case (rm_star p q q')
  show ?case
  proof (cases "q = p")
    case True
    with rm_star show ?thesis by blast
  next
    case False
    with rm_star.hyps(1) have less: "length (snd q) < length (snd p)"
      using rmatch_progress by blast
    with rm_star.prems obtain m where n: "n = Suc m" by (cases n) auto
    from less rm_star.prems n have "length (snd q) \<le> m" by simp
    then have "q' \<in> set (star_ends f m q)" by (rule rm_star.hyps(4))
    with less n f [OF rm_star.hyps(1)] show ?thesis
      by (auto simp del: split_paired_Ex intro!: disjI2 bexI [of _ q])
  qed
qed

theorem ends_correct: "q \<in> set (ends r p) \<longleftrightarrow> rmatch r p q"
proof (induction r arbitrary: p q)
  case (RClass P)
  then show ?case by (cases p) (auto split: list.splits)
next
  case (RStar r)
  show ?case
  proof
    assume "q \<in> set (ends (RStar r) p)"
    then show "rmatch (RStar r) p q"
      using star_ends_sound [of "ends r" r] RStar.IH by auto
  next
    assume "rmatch (RStar r) p q"
    then show "q \<in> set (ends (RStar r) p)"
      using star_ends_complete [of r "ends r"] RStar.IH by auto
  qed
next
  case REnd
  then show ?case by (cases p) auto
next
  case RStart
  then show ?case by (cases p) auto
next
  case (RNotBehind c)
  then show ?case by (cases p) auto
next
  case (RSeq r1 r2)
  have "q \<in> set (ends (RSeq r1 r2) p) \<longleftrightarrow> (\<exists>m. m \<in> set (ends r1 p) \<and> q \<in> set (ends r2 m))"
    by auto
  then show ?case unfolding RSeq.IH by simp
qed auto

lemma ends_not_Nil_iff: "ends r p \<noteq> [] \<longleftrightarrow> (\<exists>q. rmatch r p q)"
  unfolding ends_correct [symmetric] by (cases "ends r p") (auto simp del: split_paired_Ex)

text \<open>\<open>test\<close> looks for a match at every position of the subject.\<close>

definition before :: "char option \<Rightarrow> string \<Rightarrow> char option" where
  "before b pre = (if pre = [] then b else Some (last pre))"

lemma test_from_iff:
  "test_from r b s \<longleftrightarrow> (\<exists>pre rest q. s = pre @ rest \<and> rmatch r (before b pre, rest) q)"
proof (induction r b s rule: test_from.induct)
  case (1 r b)
  show ?case by (auto simp: before_def ends_not_Nil_iff simp del: split_paired_Ex)
next
  case (2 r b c cs)
  have here: "ends r (b, c # cs) \<noteq> [] \<longleftrightarrow> (\<exists>q. rmatch r (b, c # cs) q)"
    by (rule ends_not_Nil_iff)
  show ?case
  proof
    assume "test_from r b (c # cs)"
    then consider q where "rmatch r (b, c # cs) q"
      | pre rest q where "cs = pre @ rest" "rmatch r (before (Some c) pre, rest) q"
      using here "2.IH" by (metis test_from.simps(2))
    then show "\<exists>pre rest q. c # cs = pre @ rest \<and> rmatch r (before b pre, rest) q"
    proof cases
      case 1
      then have "rmatch r (before b [], c # cs) q" by (simp add: before_def)
      then show ?thesis by (metis append_Nil)
    next
      case 2
      then have "rmatch r (before b (c # pre), rest) q"
        by (simp add: before_def split: if_splits)
      with 2(1) show ?thesis by (metis append_Cons)
    qed
  next
    assume "\<exists>pre rest q. c # cs = pre @ rest \<and> rmatch r (before b pre, rest) q"
    then obtain pre rest q where *: "c # cs = pre @ rest" "rmatch r (before b pre, rest) q"
      by blast
    show "test_from r b (c # cs)"
    proof (cases pre)
      case Nil
      with * have "rmatch r (b, c # cs) q" by (simp add: before_def)
      with here have "ends r (b, c # cs) \<noteq> []" by blast
      then show ?thesis by simp
    next
      case (Cons d pre')
      with * have "cs = pre' @ rest" "rmatch r (before (Some c) pre', rest) q"
        by (auto simp: before_def split: if_splits)
      with "2.IH" have "test_from r (Some c) cs" by blast
      then show ?thesis by simp
    qed
  qed
qed

corollary re_test_iff:
  "re_test r s \<longleftrightarrow> (\<exists>pre rest q. s = pre @ rest \<and> rmatch r (before None pre, rest) q)"
  by (simp add: re_test_def test_from_iff)

end
