(* ===== verification/Glob.thy ===== *)
theory Glob
  imports JsRegex
begin

text \<open>
  Tool-name patterns. Four places of the engine turn a glob into a regular expression by
  rewriting strings and then run \<open>new RegExp('^' + src + '$').test(name)\<close>. This theory models
  what they share: \<open>String.prototype.replace\<close> with a global literal pattern, the \<open>RegExp\<close>
  constructor on the sources such a rewriting can produce, and the anchored test. It proves
  that the test is the direct glob matching of the pattern, token by token.
\<close>

section \<open>Global replacement of a literal\<close>

fun js_replaceAll :: "string \<Rightarrow> string \<Rightarrow> string \<Rightarrow> string" where
  "js_replaceAll pat rep [] = []"
| "js_replaceAll pat rep (c # cs) =
     (if pat \<noteq> [] \<and> js_startsWith (c # cs) pat
      then rep @ js_replaceAll pat rep (drop (length pat) (c # cs))
      else c # js_replaceAll pat rep cs)"

lemma js_replaceAll_hit:
  "pat \<noteq> [] \<Longrightarrow> js_replaceAll pat rep (pat @ s) = rep @ js_replaceAll pat rep s"
  by (cases pat) (simp_all add: js_startsWith_iff)

lemma js_replaceAll_miss:
  "pat \<noteq> [] \<Longrightarrow> hd pat \<notin> set u \<Longrightarrow> js_replaceAll pat rep (u @ s) = u @ js_replaceAll pat rep s"
proof (induction u)
  case (Cons c u)
  then have "\<not> js_startsWith (c # u @ s) pat" by (cases pat) auto
  with Cons show ?case by auto
qed simp

section \<open>Sources of the generated expressions\<close>

text \<open>The characters with a meaning in a regular expression, but for the star.\<close>

definition metas :: string where
  "metas = [CHR ''.'', CHR ''+'', CHR ''?'', CHR ''^'', CHR ''$'', CHR ''{'', CHR ''}'',
            CHR ''('', CHR '')'', CHR ''|'', CHR ''['', CHR '']'', CHR 0x5C]"

text \<open>A piece of a generated expression: a literal, \<open>[^.]*\<close>, \<open>.*\<close> or a bare dot.\<close>

datatype gtok = GLit char | GSeg | GAny | GDot

fun tok_regex :: "gtok \<Rightarrow> regex" where
  "tok_regex (GLit c) = RClass (\<lambda>x. x = c)"
| "tok_regex GSeg = RStar (RClass (\<lambda>x. x \<noteq> CHR ''.''))"
| "tok_regex GAny = ranys"
| "tok_regex GDot = rdot"

text \<open>
  The \<open>RegExp\<close> constructor on the sources made of these pieces. \<open>None\<close> is a source outside
  this fragment (a group, a class, a quantifier of the pattern's own, or a syntax error).
\<close>

fun parse_src :: "string \<Rightarrow> gtok list option" where
  "parse_src [] = Some []"
| "parse_src (c # cs) =
     (if c = CHR 0x5C then
        (case cs of
           d # ds \<Rightarrow> if d \<in> set metas then map_option ((#) (GLit d)) (parse_src ds) else None
         | [] \<Rightarrow> None)
      else if js_startsWith (c # cs) ''[^.]*'' then map_option ((#) GSeg) (parse_src (drop 4 cs))
      else if js_startsWith (c # cs) ''.*'' then map_option ((#) GAny) (parse_src (drop 1 cs))
      else if c = CHR ''.'' then map_option ((#) GDot) (parse_src cs)
      else if c \<in> set metas \<or> c = CHR ''*'' then None
      else map_option ((#) (GLit c)) (parse_src cs))"

declare parse_src.simps(2) [simp del]

definition anchored :: "gtok list \<Rightarrow> regex" where
  "anchored ts = RSeq RStart (foldr (\<lambda>t r. RSeq (tok_regex t) r) ts REnd)"

definition anchored_test :: "string \<Rightarrow> string \<Rightarrow> bool option" where
  "anchored_test src name = map_option (\<lambda>ts. re_test (anchored ts) name) (parse_src src)"

section \<open>Direct matching\<close>

function tok_match :: "gtok list \<Rightarrow> string \<Rightarrow> bool" where
  "tok_match [] s = (s = [])"
| "tok_match (GLit c # ts) s = (case s of [] \<Rightarrow> False | x # xs \<Rightarrow> x = c \<and> tok_match ts xs)"
| "tok_match (GDot # ts) s = (case s of [] \<Rightarrow> False | x # xs \<Rightarrow> \<not> is_line_end x \<and> tok_match ts xs)"
| "tok_match (GSeg # ts) s =
     (tok_match ts s \<or>
      (case s of [] \<Rightarrow> False | x # xs \<Rightarrow> x \<noteq> CHR ''.'' \<and> tok_match (GSeg # ts) xs))"
| "tok_match (GAny # ts) s =
     (tok_match ts s \<or>
      (case s of [] \<Rightarrow> False | x # xs \<Rightarrow> \<not> is_line_end x \<and> tok_match (GAny # ts) xs))"
  by pat_completeness auto
termination
  by (relation "measures [\<lambda>(ts, s). length ts + length s]") auto

declare tok_match.simps(4,5) [simp del]

lemma tok_match_star:
  "tok_match (GSeg # ts) s \<longleftrightarrow> (\<exists>u v. s = u @ v \<and> (\<forall>c \<in> set u. c \<noteq> CHR ''.'') \<and> tok_match ts v)"
proof (induction s)
  case Nil
  show ?case by (simp add: tok_match.simps(4))
next
  case (Cons x xs)
  show ?case
    by (subst tok_match.simps(4)) (simp add: Cons.IH split_prefix_Cons)
qed

lemma tok_match_any:
  "tok_match (GAny # ts) s \<longleftrightarrow> (\<exists>u v. s = u @ v \<and> (\<forall>c \<in> set u. \<not> is_line_end c) \<and> tok_match ts v)"
proof (induction s)
  case Nil
  show ?case by (simp add: tok_match.simps(5))
next
  case (Cons x xs)
  show ?case
    by (subst tok_match.simps(5)) (simp add: Cons.IH split_prefix_Cons)
qed

section \<open>The anchored test is direct matching\<close>

text \<open>A starred class consumes exactly the prefixes all of whose characters are in the class.\<close>

lemma rmatch_star_class:
  "rmatch (RStar (RClass P)) p q \<longleftrightarrow>
     (\<exists>u. snd p = u @ snd q \<and> fst q = before (fst p) u \<and> (\<forall>c \<in> set u. P c))" (is "?L \<longleftrightarrow> ?R")
proof
  assume ?L
  then show ?R
  proof (induction "RStar (RClass P)" p q rule: rmatch.induct)
    case (rm_star0 p)
    then show ?case by (auto simp: before_def)
  next
    case (rm_star p q q')
    from rm_star.hyps(1) obtain b c cs where pq: "p = (b, c # cs)" "q = (Some c, cs)" "P c"
      by auto
    from rm_star.hyps(3) obtain u where "snd q = u @ snd q'" "fst q' = before (fst q) u"
      "\<forall>c \<in> set u. P c" by auto
    with pq show ?case by (intro exI [of _ "c # u"]) (auto simp: before_def)
  qed
next
  assume ?R
  then obtain u where "snd p = u @ snd q" "fst q = before (fst p) u" "\<forall>c \<in> set u. P c" by blast
  then show ?L
  proof (induction u arbitrary: p)
    case Nil
    then have "q = p" by (simp add: before_def prod_eq_iff)
    then show ?case by (simp add: rm_star0)
  next
    case (Cons c u)
    have "rmatch (RStar (RClass P)) (Some c, u @ snd q) q"
      using Cons.prems by (intro Cons.IH) (auto simp: before_def)
    moreover have "rmatch (RClass P) p (Some c, u @ snd q)"
      using Cons.prems by (cases p) auto
    ultimately show ?case by (rule rm_star [rotated])
  qed
qed

lemma rmatch_tokens:
  "(\<exists>q. rmatch (foldr (\<lambda>t r. RSeq (tok_regex t) r) ts REnd) (b, s) q) \<longleftrightarrow> tok_match ts s"
proof (induction ts arbitrary: b s)
  case Nil
  then show ?case by auto
next
  case (Cons t ts)
  have IH: "(\<exists>q. rmatch (foldr (\<lambda>t r. RSeq (tok_regex t) r) ts REnd) p q) \<longleftrightarrow> tok_match ts (snd p)"
    for p using Cons.IH [of "fst p" "snd p"] by simp
  have "(\<exists>q. rmatch (foldr (\<lambda>t r. RSeq (tok_regex t) r) (t # ts) REnd) (b, s) q) \<longleftrightarrow>
        (\<exists>m. rmatch (tok_regex t) (b, s) m \<and> tok_match ts (snd m))"
    unfolding IH [symmetric] by (simp del: split_paired_Ex) (metis prod.exhaust_sel)
  also have "\<dots> \<longleftrightarrow> tok_match (t # ts) s"
  proof (cases t)
    case GSeg
    then show ?thesis
      by (auto simp: rmatch_star_class tok_match_star)
  next
    case GAny
    then show ?thesis
      by (auto simp: ranys_def rdot_def rmatch_star_class tok_match_any)
  qed (auto simp: rdot_def split: list.splits)
  finally show ?case .
qed

lemma re_test_anchored: "re_test (anchored ts) s \<longleftrightarrow> tok_match ts s"
proof -
  have "re_test (anchored ts) s \<longleftrightarrow>
      (\<exists>pre rest q. s = pre @ rest \<and> before None pre = None \<and>
         rmatch (foldr (\<lambda>t r. RSeq (tok_regex t) r) ts REnd) (before None pre, rest) q)"
    by (simp add: re_test_iff anchored_def) metis
  also have "\<dots> \<longleftrightarrow> (\<exists>q. rmatch (foldr (\<lambda>t r. RSeq (tok_regex t) r) ts REnd) (None, s) q)"
    by (auto simp: before_def)
  finally show ?thesis by (simp only: rmatch_tokens)
qed

section \<open>Printing the pieces and reading them back\<close>

fun tok_src :: "gtok \<Rightarrow> string" where
  "tok_src (GLit c) = (if c \<in> set metas then [CHR 0x5C, c] else [c])"
| "tok_src GSeg = ''[^.]*''"
| "tok_src GAny = ''.*''"
| "tok_src GDot = ''.''"

text \<open>A printed token list is read back, as long as no literal star and no bare dot occur.\<close>

fun tok_ok :: "gtok \<Rightarrow> bool" where
  "tok_ok (GLit c) = (c \<noteq> CHR ''*'')"
| "tok_ok GDot = False"
| "tok_ok _ = True"

lemma parse_src_toks:
  "list_all tok_ok ts \<Longrightarrow> parse_src (concat (map tok_src ts)) = Some ts"
proof (induction ts)
  case (Cons t ts)
  then show ?case
    by (cases t) (auto simp: parse_src.simps(2) metas_def)
qed simp

lemma anchored_test_toks:
  "list_all tok_ok ts \<Longrightarrow> anchored_test (concat (map tok_src ts)) s = Some (tok_match ts s)"
  by (simp add: anchored_test_def parse_src_toks re_test_anchored)

section \<open>Patterns whose star matches anything\<close>

text \<open>Four of the engine's matchers read every star as \<open>.*\<close>. Their common meaning:\<close>

definition any_toks :: "string \<Rightarrow> gtok list" where
  "any_toks p = map (\<lambda>c. if c = CHR ''*'' then GAny else GLit c) p"

definition name_glob :: "string \<Rightarrow> string \<Rightarrow> bool" where
  "name_glob p n \<longleftrightarrow> p = ''*'' \<or> p = n \<or> tok_match (any_toks p) n"

text \<open>\<open>str.replace(/[.+?^${}()|[\]\\]/g, '\\$&')\<close>, with or without the star in the class.\<close>

definition escape_metas :: "string \<Rightarrow> string" where
  "escape_metas s = concat (map (\<lambda>c. if c \<in> set metas then [CHR 0x5C, c] else [c]) s)"

definition escapeRegex :: "string \<Rightarrow> string" where
  "escapeRegex s =
     concat (map (\<lambda>c. if c \<in> set metas \<or> c = CHR ''*'' then [CHR 0x5C, c] else [c]) s)"

lemma any_toks_ok: "list_all tok_ok (any_toks p)"
  by (auto simp: any_toks_def list_all_iff)

lemma star_not_meta [simp]: "CHR ''*'' \<notin> set metas"
  by (simp add: metas_def)

lemma escapeRegex_simps [simp]:
  "escapeRegex [] = []"
  "c \<noteq> CHR ''*'' \<Longrightarrow> escapeRegex (c # s) = tok_src (GLit c) @ escapeRegex s"
  by (auto simp: escapeRegex_def)

lemma any_toks_simps [simp]:
  "any_toks [] = []"
  "any_toks (c # p) = (if c = CHR ''*'' then GAny else GLit c) # any_toks p"
  by (simp_all add: any_toks_def)

lemma js_join_Cons: "xs \<noteq> [] \<Longrightarrow> js_join sep (x # xs) = x @ sep @ js_join sep xs"
  by (cases xs) auto

lemma js_join_head: "js_join sep ((a @ x) # xs) = a @ js_join sep (x # xs)"
  by (cases xs) auto

lemma split_escape_join:
  "js_join ''.*'' (map escapeRegex (js_split (CHR ''*'') p)) = concat (map tok_src (any_toks p))"
proof (induction p)
  case (Cons c p)
  obtain w ws where w: "js_split (CHR ''*'') p = w # ws" by (meson js_split_not_Nil neq_Nil_conv)
  show ?case
  proof (cases "c = CHR ''*''")
    case True
    with Cons w show ?thesis by (simp add: js_join_Cons)
  next
    case False
    with Cons w show ?thesis
      by (simp add: js_join_head del: tok_src.simps(1))
  qed
qed simp

lemma tok_match_literals:
  "CHR ''*'' \<notin> set p \<Longrightarrow> tok_match (any_toks p) n \<longleftrightarrow> p = n"
proof (induction p arbitrary: n)
  case (Cons c p)
  then show ?case by (cases n) auto
qed auto

lemma tok_match_self: "tok_match (any_toks p) p"
proof (induction p)
  case (Cons c p)
  show ?case
  proof (cases "c = CHR ''*''")
    case True
    have "tok_match (GAny # any_toks p) (c # p)"
      unfolding tok_match_any
      using True Cons.IH by (intro exI [of _ "[c]"] exI [of _ p]) (simp add: is_line_end_def)
    with True show ?thesis by simp
  qed (use Cons.IH in simp)
qed simp

lemma tok_match_any_any: "tok_match (GAny # GAny # ts) s \<longleftrightarrow> tok_match (GAny # ts) s"
proof
  assume "tok_match (GAny # GAny # ts) s"
  then obtain u v where uv: "s = u @ v" "\<forall>c \<in> set u. \<not> is_line_end c" "tok_match (GAny # ts) v"
    unfolding tok_match_any [of "GAny # ts"] by blast
  then obtain u' v' where "v = u' @ v'" "\<forall>c \<in> set u'. \<not> is_line_end c" "tok_match ts v'"
    unfolding tok_match_any [of ts] by blast
  with uv show "tok_match (GAny # ts) s"
    unfolding tok_match_any [of ts] by (intro exI [of _ "u @ u'"] exI [of _ v']) auto
next
  assume "tok_match (GAny # ts) s"
  then show "tok_match (GAny # GAny # ts) s"
    by (subst tok_match.simps(5)) simp
qed

section \<open>Interface: matching a tool name\<close>

text \<open>
  What every client of a glob matcher relies on: a name matches itself, and the pattern
  \<open>*\<close> matches every name.
\<close>

locale name_matcher =
  fixes nmatch :: "string \<Rightarrow> string \<Rightarrow> bool"
  assumes nmatch_self: "nmatch n n"
    and nmatch_all: "nmatch n ''*''"
begin

lemma first_wildcard:
  "first_map (\<lambda>r. if nmatch n (pat r) then Some (act r) else None) (xs @ [w]) \<noteq> None"
  if "pat w = ''*''" for xs w and pat :: "'r \<Rightarrow> string" and act :: "'r \<Rightarrow> 'd"
  using that by (simp add: first_map_append nmatch_all split: option.splits)

lemma first_exact:
  "first_map (\<lambda>r. if nmatch n (pat r) then Some (act r) else None) (x # xs) = Some (act x)"
  if "pat x = n" for x xs and pat :: "'r \<Rightarrow> string" and act :: "'r \<Rightarrow> 'd"
  using that by (simp add: nmatch_self)

end

end
