(* ===== verification/Permissions.thy ===== *)
theory Permissions
  imports Glob JsMap
begin

text \<open>
  The permission evaluator of the engine (packages/loom/src/permissions): modes, rules, the
  session store of remembered decisions and \<open>PermissionEvaluator.evaluate\<close>.

  A safety rule is a callback. Some of them (the zone manager's) carry state of their own, so
  a rule here takes and returns the state \<open>'s\<close> its closure owns.
\<close>

section \<open>Types\<close>

datatype PermissionMode = ModeAuto | ModeAsk | ModeDeny | ModeAllowlist

datatype PolicyDecision = Allow | Ask

record PermissionRule =
  rule_pattern :: string
  rule_decision :: PolicyDecision
  rule_reason :: "string option"

record SecurityContext =
  ctx_userId :: "string option"
  ctx_sessionId :: string
  ctx_agentId :: "string option"
  ctx_mode :: PermissionMode

type_synonym 's SafetyRule = "string \<Rightarrow> obj \<Rightarrow> 's \<Rightarrow> PolicyDecision option \<times> 's"

definition BUILT_IN_SAFETY_RULES :: "'s SafetyRule list" where
  "BUILT_IN_SAFETY_RULES = []"

section \<open>Session store\<close>

type_synonym SessionPermissionStore = "(string, PolicyDecision) js_map"

definition store_new :: SessionPermissionStore where
  "store_new = []"

definition store_remember :: "string \<Rightarrow> PolicyDecision \<Rightarrow> SessionPermissionStore \<Rightarrow> SessionPermissionStore" where
  "store_remember toolName d st = map_set toolName d st"

definition store_check :: "SessionPermissionStore \<Rightarrow> string \<Rightarrow> PolicyDecision option" where
  "store_check st toolName = map_get st toolName"

definition store_forget :: "string \<Rightarrow> SessionPermissionStore \<Rightarrow> SessionPermissionStore" where
  "store_forget toolName st = map_delete toolName st"

definition store_clear :: "SessionPermissionStore \<Rightarrow> SessionPermissionStore" where
  "store_clear st = []"

definition store_size :: "SessionPermissionStore \<Rightarrow> nat" where
  "store_size st = length st"

interpretation sps: keyed_store store_new store_remember store_forget store_check store_size map_ok
  unfolding store_new_def store_remember_def store_forget_def store_check_def store_size_def
  by (rule jm.keyed_store_axioms)

section \<open>Glob matching\<close>

definition glob_star_mark :: string where
  "glob_star_mark = ''@@GLOB_STAR@@''"

text \<open>The four replacements that turn a pattern into the source of a regular expression.\<close>

definition glob_regexStr :: "string \<Rightarrow> string" where
  "glob_regexStr pattern =
     js_replaceAll glob_star_mark ''.*''
       (js_replaceAll ''*'' ''[^.]*''
         (js_replaceAll ''**'' glob_star_mark
           (js_replaceAll ''.'' [CHR 0x5C, CHR ''.''] pattern)))"

text \<open>\<open>None\<close>: the pattern has regular expression syntax of its own.\<close>

definition matchesGlob :: "string \<Rightarrow> string \<Rightarrow> bool option" where
  "matchesGlob toolName pattern =
     (if pattern = toolName then Some True
      else if pattern = ''*'' then Some True
      else anchored_test (glob_regexStr pattern) toolName)"

section \<open>The evaluator\<close>

fun defaultForMode :: "PermissionMode \<Rightarrow> PolicyDecision" where
  "defaultForMode ModeAuto = Allow"
| "defaultForMode ModeAsk = Ask"
| "defaultForMode ModeDeny = Ask"
| "defaultForMode ModeAllowlist = Ask"

record 's PermissionEvaluator =
  ev_rules :: "PermissionRule list"
  ev_safetyRules :: "'s SafetyRule list"
  ev_sessionStore :: SessionPermissionStore

definition evaluator_new ::
  "PermissionRule list option \<Rightarrow> 's SafetyRule list option \<Rightarrow> SessionPermissionStore option \<Rightarrow>
   's PermissionEvaluator" where
  "evaluator_new rules safety store =
     \<lparr>ev_rules = (case rules of Some r \<Rightarrow> r | None \<Rightarrow> []),
      ev_safetyRules = (case safety of Some r \<Rightarrow> r | None \<Rightarrow> BUILT_IN_SAFETY_RULES),
      ev_sessionStore = (case store of Some s \<Rightarrow> s | None \<Rightarrow> store_new)\<rparr>"

text \<open>Loop 1: the first safety rule with an opinion, run in order on the closures' state.\<close>

fun run_safety :: "'s SafetyRule list \<Rightarrow> string \<Rightarrow> obj \<Rightarrow> 's \<Rightarrow> PolicyDecision option \<times> 's" where
  "run_safety [] toolName input s = (None, s)"
| "run_safety (rule # rules) toolName input s =
     (case rule toolName input s of
        (Some d, s') \<Rightarrow> (Some d, s')
      | (None, s') \<Rightarrow> run_safety rules toolName input s')"

text \<open>Loop 3: first matching rule. The outer \<open>None\<close> is a pattern outside the glob fragment.\<close>

fun match_rules :: "PermissionRule list \<Rightarrow> string \<Rightarrow> PolicyDecision option option" where
  "match_rules [] toolName = Some None"
| "match_rules (rule # rules) toolName =
     (case matchesGlob toolName (rule_pattern rule) of
        None \<Rightarrow> None
      | Some True \<Rightarrow> Some (Some (rule_decision rule))
      | Some False \<Rightarrow> match_rules rules toolName)"

definition evaluator_evaluate ::
  "'s PermissionEvaluator \<Rightarrow> string \<Rightarrow> obj \<Rightarrow> SecurityContext \<Rightarrow> 's \<Rightarrow> PolicyDecision option \<times> 's" where
  "evaluator_evaluate ev toolName input context s =
     (case run_safety (ev_safetyRules ev) toolName input s of
        (Some d, s') \<Rightarrow> (Some d, s')
      | (None, s') \<Rightarrow>
          (case store_check (ev_sessionStore ev) toolName of
             Some d \<Rightarrow> (Some d, s')
           | None \<Rightarrow>
               (case match_rules (ev_rules ev) toolName of
                  None \<Rightarrow> (None, s')
                | Some (Some d) \<Rightarrow> (Some d, s')
                | Some None \<Rightarrow> (Some (defaultForMode (ctx_mode context)), s'))))"

definition evaluator_remember :: "string \<Rightarrow> PolicyDecision \<Rightarrow> 's PermissionEvaluator \<Rightarrow> 's PermissionEvaluator" where
  "evaluator_remember toolName d ev =
     ev\<lparr>ev_sessionStore := store_remember toolName d (ev_sessionStore ev)\<rparr>"

definition evaluator_addRule :: "PermissionRule \<Rightarrow> 's PermissionEvaluator \<Rightarrow> 's PermissionEvaluator" where
  "evaluator_addRule rule ev = ev\<lparr>ev_rules := ev_rules ev @ [rule]\<rparr>"

definition evaluator_removeRule :: "string \<Rightarrow> 's PermissionEvaluator \<Rightarrow> 's PermissionEvaluator" where
  "evaluator_removeRule pattern ev =
     ev\<lparr>ev_rules := filter (\<lambda>r. rule_pattern r \<noteq> pattern) (ev_rules ev)\<rparr>"

definition evaluator_setRules :: "PermissionRule list \<Rightarrow> 's PermissionEvaluator \<Rightarrow> 's PermissionEvaluator" where
  "evaluator_setRules rules ev = ev\<lparr>ev_rules := rules\<rparr>"

definition evaluator_clearSession :: "'s PermissionEvaluator \<Rightarrow> 's PermissionEvaluator" where
  "evaluator_clearSession ev = ev\<lparr>ev_sessionStore := store_clear (ev_sessionStore ev)\<rparr>"

section \<open>The rewriting is glob matching\<close>

text \<open>The documented meaning: \<open>**\<close> any sequence, \<open>*\<close> a sequence within a segment.\<close>

fun glob_toks :: "string \<Rightarrow> gtok list" where
  "glob_toks [] = []"
| "glob_toks [c] = [if c = CHR ''*'' then GSeg else GLit c]"
| "glob_toks (c # d # cs) =
     (if c = CHR ''*'' \<and> d = CHR ''*'' then GAny # glob_toks cs
      else (if c = CHR ''*'' then GSeg else GLit c) # glob_toks (d # cs))"

text \<open>A pattern with no regular expression syntax but dots and stars, and no mark character.\<close>

definition plain_pattern :: "string \<Rightarrow> bool" where
  "plain_pattern p \<longleftrightarrow> (\<forall>c \<in> set p. (c \<in> set metas \<longrightarrow> c = CHR ''.'') \<and> c \<noteq> CHR ''@'')"

text \<open>The intermediate strings of the chain, printed from the tokens.\<close>

fun tok_marked :: "gtok \<Rightarrow> string" where
  "tok_marked GSeg = ''*''"
| "tok_marked GAny = glob_star_mark"
| "tok_marked t = tok_src t"

fun tok_half :: "gtok \<Rightarrow> string" where
  "tok_half GAny = glob_star_mark"
| "tok_half t = tok_src t"

definition tok_plain :: "gtok \<Rightarrow> bool" where
  "tok_plain t \<longleftrightarrow> (case t of GLit c \<Rightarrow> c \<noteq> CHR ''*'' \<and> c \<noteq> CHR ''@'' | GDot \<Rightarrow> False | _ \<Rightarrow> True)"

lemma glob_toks_plain: "plain_pattern p \<Longrightarrow> list_all tok_plain (glob_toks p)"
  by (induction p rule: glob_toks.induct) (auto simp: plain_pattern_def tok_plain_def)

lemma replace_dots:
  "plain_pattern p \<Longrightarrow>
   js_replaceAll ''.'' [CHR 0x5C, CHR ''.''] p = concat (map (\<lambda>c. tok_src (GLit c)) p)"
  by (induction p) (auto simp: plain_pattern_def metas_def)

lemma replace_marks:
  "plain_pattern p \<Longrightarrow>
   js_replaceAll ''**'' glob_star_mark (concat (map (\<lambda>c. tok_src (GLit c)) p)) =
   concat (map tok_marked (glob_toks p))"
proof (induction p rule: glob_toks.induct)
  case (3 c d cs)
  have d_star: "js_startsWith (tok_src (GLit d) @ x) ''*'' \<longleftrightarrow> d = CHR ''*''" for x
    by (auto simp: metas_def)
  show ?case
  proof (cases "c = CHR ''*''")
    case True
    then show ?thesis
      using 3 d_star by (cases "d = CHR ''*''") (auto simp: plain_pattern_def metas_def)
  next
    case False
    then show ?thesis
      using 3 by (auto simp: plain_pattern_def metas_def)
  qed
qed (auto simp: plain_pattern_def metas_def)

lemma replace_toks:
  assumes "pat \<noteq> []"
    and "\<And>t. t \<in> set ts \<Longrightarrow> f t = pat \<and> g t = rep \<or> hd pat \<notin> set (f t) \<and> g t = f t"
  shows "js_replaceAll pat rep (concat (map f ts)) = concat (map g ts)"
  using assms(2)
proof (induction ts)
  case (Cons t ts)
  then have IH: "js_replaceAll pat rep (concat (map f ts)) = concat (map g ts)" by simp
  from Cons.prems have "f t = pat \<and> g t = rep \<or> hd pat \<notin> set (f t) \<and> g t = f t" by simp
  then show ?case
    by (elim disjE conjE) (simp_all add: IH assms(1) js_replaceAll_hit js_replaceAll_miss)
qed simp

lemma glob_regexStr_toks:
  assumes "plain_pattern p"
  shows "glob_regexStr p = concat (map tok_src (glob_toks p))"
proof -
  have plain: "\<And>t. t \<in> set (glob_toks p) \<Longrightarrow> tok_plain t"
    using glob_toks_plain [OF assms] by (simp add: list_all_iff)
  have "js_replaceAll ''*'' ''[^.]*'' (concat (map tok_marked (glob_toks p))) =
      concat (map tok_half (glob_toks p))"
  proof (rule replace_toks)
    fix t assume "t \<in> set (glob_toks p)"
    then have "tok_plain t" by (rule plain)
    then show "tok_marked t = ''*'' \<and> tok_half t = ''[^.]*'' \<or>
        hd ''*'' \<notin> set (tok_marked t) \<and> tok_half t = tok_marked t"
      by (cases t) (auto simp: tok_plain_def glob_star_mark_def)
  qed simp
  moreover have "js_replaceAll glob_star_mark ''.*'' (concat (map tok_half (glob_toks p))) =
      concat (map tok_src (glob_toks p))"
  proof (rule replace_toks)
    fix t assume "t \<in> set (glob_toks p)"
    then have "tok_plain t" by (rule plain)
    then show "tok_half t = glob_star_mark \<and> tok_src t = ''.*'' \<or>
        hd glob_star_mark \<notin> set (tok_half t) \<and> tok_src t = tok_half t"
      by (cases t) (auto simp: tok_plain_def glob_star_mark_def metas_def)
  qed (simp add: glob_star_mark_def)
  ultimately show ?thesis
    by (simp only: glob_regexStr_def replace_dots [OF assms] replace_marks [OF assms])
qed

lemma tok_plain_ok: "tok_plain t \<Longrightarrow> tok_ok t"
  by (cases t) (auto simp: tok_plain_def)

lemma matchesGlob_plain:
  assumes "plain_pattern p"
  shows "matchesGlob n p = Some (p = n \<or> p = ''*'' \<or> tok_match (glob_toks p) n)"
proof -
  have "list_all tok_ok (glob_toks p)"
    using glob_toks_plain [OF assms] by (auto simp: list_all_iff tok_plain_ok)
  then show ?thesis
    by (simp add: matchesGlob_def glob_regexStr_toks [OF assms] anchored_test_toks)
qed

text \<open>The evaluator's matcher as the name matcher its clients expect.\<close>

definition glob_holds :: "string \<Rightarrow> string \<Rightarrow> bool" where
  "glob_holds n p \<longleftrightarrow> matchesGlob n p = Some True"

interpretation pg: name_matcher glob_holds
  by unfold_locales (simp_all add: glob_holds_def matchesGlob_def)

definition plain_rules :: "PermissionRule list \<Rightarrow> bool" where
  "plain_rules rs \<longleftrightarrow> (\<forall>r \<in> set rs. plain_pattern (rule_pattern r))"

lemma match_rules_plain:
  "plain_rules rs \<Longrightarrow>
   match_rules rs n =
     Some (first_map (\<lambda>r. if glob_holds n (rule_pattern r) then Some (rule_decision r) else None) rs)"
  by (induction rs) (auto simp: plain_rules_def matchesGlob_plain glob_holds_def)

lemma match_rules_SomeD:
  "match_rules rs n = Some (Some d) \<Longrightarrow> \<exists>r \<in> set rs. glob_holds n (rule_pattern r) \<and> rule_decision r = d"
  by (induction rs) (auto simp: glob_holds_def split: option.splits bool.splits)

section \<open>Safety rules\<close>

lemma run_safety_append:
  "run_safety (pre @ post) n i s =
     (case run_safety pre n i s of (Some d, s') \<Rightarrow> (Some d, s') | (None, s') \<Rightarrow> run_safety post n i s')"
  by (induction pre arbitrary: s) (auto split: prod.splits option.splits)

lemma evaluate_safety:
  "run_safety (ev_safetyRules ev) n i s = (Some d, s') \<Longrightarrow> evaluator_evaluate ev n i c s = (Some d, s')"
  by (simp add: evaluator_evaluate_def)

lemma evaluate_no_safety:
  "run_safety (ev_safetyRules ev) n i s = (None, s') \<Longrightarrow>
   evaluator_evaluate ev n i c s =
     ((case store_check (ev_sessionStore ev) n of
         Some d \<Rightarrow> Some d
       | None \<Rightarrow> (case match_rules (ev_rules ev) n of
                   None \<Rightarrow> None
                 | Some (Some d) \<Rightarrow> Some d
                 | Some None \<Rightarrow> Some (defaultForMode (ctx_mode c)))), s')"
  by (simp add: evaluator_evaluate_def split: option.splits)

section \<open>Properties\<close>

text \<open>
  C35: The chain of string replacements behind \<open>matchesGlob\<close>, run through the regular
  expression engine, is exactly the documented glob matching (\<open>**\<close> any sequence, \<open>*\<close> within a
  segment, other characters themselves) for every pattern without regular expression syntax,
  apart from the two fast paths (equal strings, and a lone star, which matches every name).
\<close>

theorem matchesGlob_is_glob:
  assumes "plain_pattern pattern"
  shows "matchesGlob toolName pattern =
    Some (pattern = toolName \<or> pattern = ''*'' \<or> tok_match (glob_toks pattern) toolName)"
  by (rule matchesGlob_plain [OF assms])

theorem matchesGlob_is_glob_witness:
  "matchesGlob ''fs.readFile'' ''fs.*'' = Some True \<and> matchesGlob ''fs.a.b'' ''fs.*'' = Some False"
proof -
  have p: "plain_pattern ''fs.*''" by (simp add: plain_pattern_def metas_def)
  show ?thesis
    unfolding matchesGlob_is_glob [OF p] by (simp add: tok_match.simps)
qed

text \<open>
  C38: A configured safety rule that asks is final: the first rule with an opinion decides, so
  no remembered decision, no user rule and no mode (\<open>auto\<close> included) can turn its \<open>ask\<close> into
  \<open>allow\<close>.
\<close>

theorem safety_ask_final:
  assumes "ev_safetyRules ev = pre @ rule # post"
    and "run_safety pre toolName input s = (None, s1)"
    and "rule toolName input s1 = (Some Ask, s2)"
  shows "evaluator_evaluate
      (ev\<lparr>ev_sessionStore := store, ev_rules := rules\<rparr>) toolName input context s = (Some Ask, s2)"
  by (rule evaluate_safety) (simp add: assms run_safety_append)

theorem safety_ask_final_witness:
  "evaluator_evaluate
     \<lparr>ev_rules = [\<lparr>rule_pattern = ''*'', rule_decision = Allow, rule_reason = None\<rparr>],
      ev_safetyRules = [\<lambda>n i s. (Some Ask, s)], ev_sessionStore = [(''bash'', Allow)]\<rparr>
     ''bash'' [] \<lparr>ctx_userId = None, ctx_sessionId = ''s'', ctx_agentId = None, ctx_mode = ModeAuto\<rparr> ()
   = (Some Ask, ())"
  using safety_ask_final [of
      "\<lparr>ev_rules = [], ev_safetyRules = [\<lambda>n i s. (Some Ask, s)], ev_sessionStore = []\<rparr>"
      "[]" "\<lambda>n i s. (Some Ask, s)" "[]" "''bash''" "[]" "()" "()" "()"
      "[\<lparr>rule_pattern = ''*'', rule_decision = Allow, rule_reason = None\<rparr>]" "[(''bash'', Allow)]"]
  by simp

text \<open>
  C30: With plain patterns the evaluator always answers, and outside \<open>auto\<close> mode it answers
  \<open>allow\<close> only for a reason: a safety rule allowed, or none had an opinion and the decision was
  remembered as allow or the first user rule that matches the name (as a glob) allows.
\<close>

theorem evaluate_allow_has_reason:
  assumes "plain_rules (ev_rules ev)" and "ctx_mode context \<noteq> ModeAuto"
  shows "\<exists>d. fst (evaluator_evaluate ev toolName input context s) = Some d \<and>
    (d = Allow \<longleftrightarrow>
       (case fst (run_safety (ev_safetyRules ev) toolName input s) of
          Some d' \<Rightarrow> d' = Allow
        | None \<Rightarrow>
            (case store_check (ev_sessionStore ev) toolName of
               Some d' \<Rightarrow> d' = Allow
             | None \<Rightarrow> first_map (\<lambda>r. if glob_holds toolName (rule_pattern r)
                                     then Some (rule_decision r) else None) (ev_rules ev) = Some Allow)))"
proof (cases "run_safety (ev_safetyRules ev) toolName input s")
  case (Pair opinion s')
  show ?thesis
  proof (cases opinion)
    case (Some d)
    with Pair show ?thesis by (simp add: evaluate_safety)
  next
    case None
    have "defaultForMode (ctx_mode context) = Ask"
      using assms(2) by (cases "ctx_mode context") auto
    with Pair None show ?thesis
      by (auto simp: evaluate_no_safety match_rules_plain [OF assms(1)] split: option.splits)
  qed
qed

theorem evaluate_allow_has_reason_witness:
  "\<exists>d. fst (evaluator_evaluate
        (evaluator_new (Some [\<lparr>rule_pattern = ''fs.*'', rule_decision = Allow, rule_reason = None\<rparr>]) None None)
        ''bash'' []
        \<lparr>ctx_userId = None, ctx_sessionId = ''s'', ctx_agentId = None, ctx_mode = ModeDeny\<rparr> ()) = Some d
      \<and> d \<noteq> Allow"
proof -
  let ?ev = "evaluator_new (Some [\<lparr>rule_pattern = ''fs.*'', rule_decision = Allow, rule_reason = None\<rparr>])
      None None :: unit PermissionEvaluator"
  let ?c = "\<lparr>ctx_userId = None, ctx_sessionId = ''s'', ctx_agentId = None, ctx_mode = ModeDeny\<rparr>"
  have p: "plain_pattern ''fs.*''" by (simp add: plain_pattern_def metas_def)
  then have "plain_rules (ev_rules ?ev)" by (simp add: plain_rules_def evaluator_new_def)
  moreover have "ctx_mode ?c \<noteq> ModeAuto" by simp
  ultimately obtain d where d: "fst (evaluator_evaluate ?ev ''bash'' [] ?c ()) = Some d"
    "d = Allow \<longleftrightarrow> (case fst (run_safety (ev_safetyRules ?ev) ''bash'' [] ()) of
          Some d' \<Rightarrow> d' = Allow
        | None \<Rightarrow>
            (case store_check (ev_sessionStore ?ev) ''bash'' of
               Some d' \<Rightarrow> d' = Allow
             | None \<Rightarrow> first_map (\<lambda>r. if glob_holds ''bash'' (rule_pattern r)
                                     then Some (rule_decision r) else None) (ev_rules ?ev) = Some Allow))"
    using evaluate_allow_has_reason [of ?ev ?c "''bash''" "[]" "()"] by blast
  have "\<not> glob_holds ''bash'' ''fs.*''"
    by (simp add: glob_holds_def matchesGlob_plain [OF p] tok_match.simps)
  then have "d \<noteq> Allow"
    unfolding d(2)
    by (simp add: evaluator_new_def BUILT_IN_SAFETY_RULES_def store_check_def store_new_def map_get_def)
  with d(1) show ?thesis by blast
qed

text \<open>
  C26: A remembered decision holds for its tool until it is forgotten and for no other tool: after
  \<open>remember\<close> (no safety rule having an opinion) the tool gets that decision in every mode, other
  tools get what they got before, and clearing the session restores the rules.
\<close>

theorem remember_is_local:
  assumes "run_safety (ev_safetyRules ev) toolName input s = (None, s')"
    and "map_ok (ev_sessionStore ev)"
  shows "fst (evaluator_evaluate (evaluator_remember toolName d ev) toolName input context s) = Some d
    \<and> (other \<noteq> toolName \<longrightarrow>
        evaluator_evaluate (evaluator_remember toolName d ev) other input' context' s'' =
        evaluator_evaluate ev other input' context' s'')
    \<and> evaluator_clearSession (evaluator_remember toolName d ev) = evaluator_clearSession ev"
proof -
  have find: "store_check (store_remember toolName d (ev_sessionStore ev)) n =
      (if n = toolName then Some d else store_check (ev_sessionStore ev) n)" for n
    by (rule sps.find_update [OF assms(2)])
  then show ?thesis
    using assms(1)
    by (auto simp: evaluator_remember_def evaluator_evaluate_def evaluator_clearSession_def
        store_clear_def split: prod.splits option.splits)
qed

theorem remember_is_local_witness:
  "fst (evaluator_evaluate (evaluator_remember ''bash'' Allow (evaluator_new None None None)) ''bash'' []
      \<lparr>ctx_userId = None, ctx_sessionId = ''s'', ctx_agentId = None, ctx_mode = ModeAsk\<rparr> ()) = Some Allow"
proof -
  let ?ev = "evaluator_new None None None :: unit PermissionEvaluator"
  have a: "run_safety (ev_safetyRules ?ev) ''bash'' [] () = (None, ())"
    by (simp add: evaluator_new_def BUILT_IN_SAFETY_RULES_def)
  have b: "map_ok (ev_sessionStore ?ev)" by (simp add: evaluator_new_def store_new_def map_ok_def)
  show ?thesis using remember_is_local [OF a b] by blast
qed

end
