(* ===== verification/JsValue.thy ===== *)
theory JsValue
  imports Prelude Complex_Main
begin

text \<open>
  Conversions of the JavaScript standard library the sources call on untrusted text:
  \<open>parseInt\<close> with a radix, \<open>Number\<close> on a string, and \<open>JSON.stringify\<close> on a tool input.
  Number values are exact (no rounding to a double); a number that is not finite is a value of
  its own.
\<close>

section \<open>Digits\<close>

definition digit_value :: "char \<Rightarrow> nat option" where
  "digit_value c =
     (if CHR ''0'' \<le> c \<and> c \<le> CHR ''9'' then Some (of_char c - 48)
      else if CHR ''a'' \<le> c \<and> c \<le> CHR ''z'' then Some (of_char c - 87)
      else if CHR ''A'' \<le> c \<and> c \<le> CHR ''Z'' then Some (of_char c - 55)
      else None)"

definition is_radix_digit :: "nat \<Rightarrow> char \<Rightarrow> bool" where
  "is_radix_digit r c = (case digit_value c of Some d \<Rightarrow> d < r | None \<Rightarrow> False)"

definition digits_value :: "nat \<Rightarrow> string \<Rightarrow> nat" where
  "digits_value r s = foldl (\<lambda>n c. n * r + (case digit_value c of Some d \<Rightarrow> d | None \<Rightarrow> 0)) 0 s"

section \<open>parseInt\<close>

text \<open>Leading white space, a sign, and the longest run of digits; \<open>None\<close> is \<open>NaN\<close>.\<close>

definition split_sign :: "string \<Rightarrow> bool \<times> string" where
  "split_sign s = (case s of
       c # cs \<Rightarrow> if c = CHR ''-'' then (True, cs) else if c = CHR ''+'' then (False, cs) else (False, s)
     | [] \<Rightarrow> (False, []))"

definition parseInt :: "string \<Rightarrow> nat \<Rightarrow> int option" where
  "parseInt s radix =
     (let (neg, body) = split_sign (js_trimStart s); ds = takeWhile (is_radix_digit radix) body
      in if ds = [] then None
         else Some (if neg then - int (digits_value radix ds) else int (digits_value radix ds)))"

section \<open>Number\<close>

datatype js_number = NaN | Infinite bool | Fin rat

definition all_digits :: "nat \<Rightarrow> string \<Rightarrow> bool" where
  "all_digits r s \<longleftrightarrow> s \<noteq> [] \<and> list_all (is_radix_digit r) s"

definition prefixed_literal :: "nat \<Rightarrow> string \<Rightarrow> js_number" where
  "prefixed_literal r s = (if all_digits r s then Fin (of_nat (digits_value r s)) else NaN)"

text \<open>\<open>digits . digits\<close> with at least one digit: the integer read and the scale.\<close>

definition mantissa :: "string \<Rightarrow> (nat \<times> nat) option" where
  "mantissa s = (case js_split (CHR ''.'') s of
       [i] \<Rightarrow> if all_digits 10 i then Some (digits_value 10 i, 0) else None
     | [i, f] \<Rightarrow> if all_digits 10 (i @ f) then Some (digits_value 10 (i @ f), length f) else None
     | _ \<Rightarrow> None)"

definition exponent :: "string \<Rightarrow> int option" where
  "exponent s = (let (neg, ds) = split_sign s in
     if all_digits 10 ds then Some (if neg then - int (digits_value 10 ds) else int (digits_value 10 ds))
     else None)"

definition scale10 :: "rat \<Rightarrow> int \<Rightarrow> rat" where
  "scale10 q e = (if 0 \<le> e then q * 10 ^ nat e else q / 10 ^ nat (- e))"

definition is_exp_mark :: "char \<Rightarrow> bool" where
  "is_exp_mark c \<longleftrightarrow> c = CHR ''e'' \<or> c = CHR ''E''"

definition decimal_literal :: "string \<Rightarrow> rat option" where
  "decimal_literal s =
     (let m = takeWhile (\<lambda>c. \<not> is_exp_mark c) s; r = dropWhile (\<lambda>c. \<not> is_exp_mark c) s
      in case mantissa m of
           None \<Rightarrow> None
         | Some (n, k) \<Rightarrow>
             (if r = [] then Some (scale10 (of_nat n) (- int k))
              else map_option (\<lambda>e. scale10 (of_nat n) (e - int k)) (exponent (tl r))))"

definition js_Number :: "string \<Rightarrow> js_number" where
  "js_Number s =
     (let t = js_trim s in
      if t = [] then Fin 0
      else if js_startsWith t ''0x'' \<or> js_startsWith t ''0X'' then prefixed_literal 16 (drop 2 t)
      else if js_startsWith t ''0o'' \<or> js_startsWith t ''0O'' then prefixed_literal 8 (drop 2 t)
      else if js_startsWith t ''0b'' \<or> js_startsWith t ''0B'' then prefixed_literal 2 (drop 2 t)
      else (let (neg, body) = split_sign t in
        if body = ''Infinity'' then Infinite neg
        else (case decimal_literal body of
                None \<Rightarrow> NaN
              | Some q \<Rightarrow> Fin (if neg then - q else q))))"

section \<open>JSON.stringify\<close>

definition hex_digit :: "nat \<Rightarrow> char" where
  "hex_digit n = (if n < 10 then char_of (48 + n) else char_of (87 + n))"

definition json_escape :: "char \<Rightarrow> string" where
  "json_escape c =
     (if c = CHR 0x22 then [CHR 0x5C, CHR 0x22]
      else if c = CHR 0x5C then [CHR 0x5C, CHR 0x5C]
      else if c = CHR 0x08 then [CHR 0x5C, CHR ''b'']
      else if c = CHR 0x09 then [CHR 0x5C, CHR ''t'']
      else if c = CHR 0x0A then [CHR 0x5C, CHR ''n'']
      else if c = CHR 0x0C then [CHR 0x5C, CHR ''f'']
      else if c = CHR 0x0D then [CHR 0x5C, CHR ''r'']
      else if of_char c < (32::nat)
        then [CHR 0x5C, CHR ''u'', CHR ''0'', CHR ''0'', hex_digit (of_char c div 16), hex_digit (of_char c mod 16)]
      else [c])"

definition json_string :: "string \<Rightarrow> string" where
  "json_string s = [CHR 0x22] @ concat (map json_escape s) @ [CHR 0x22]"

fun json_stringify :: "json \<Rightarrow> string" where
  "json_stringify JNull = ''null''"
| "json_stringify (JBool b) = (if b then ''true'' else ''false'')"
| "json_stringify (JNum n) = n"
| "json_stringify (JStr s) = json_string s"
| "json_stringify (JArr xs) = ''['' @ js_join '','' (map json_stringify xs) @ '']''"
| "json_stringify (JObj kvs) =
     ''{'' @ js_join '','' (map (\<lambda>(k, v). json_string k @ '':'' @ json_stringify v) kvs) @ ''}''"

section \<open>Printing and reading numbers\<close>

lemma digits_value_snoc:
  "digits_value r (s @ [c]) = digits_value r s * r + (case digit_value c of Some d \<Rightarrow> d | None \<Rightarrow> 0)"
  by (simp add: digits_value_def)

lemma char_of_digit: "n < 10 \<Longrightarrow> digit_value (char_of (48 + n)) = Some n"
proof -
  assume "n < 10"
  then have "n \<in> {0,1,2,3,4,5,6,7,8,9}" by auto
  then show ?thesis by (elim insertE emptyE) (simp_all add: digit_value_def less_eq_char_def)
qed

lemma show_nat_digits:
  "digits_value 10 (show_nat n) = n \<and> all_digits 10 (show_nat n)"
proof (induction n rule: show_nat.induct)
  case (1 n)
  show ?case
  proof (cases "n < 10")
    case True
    then show ?thesis
      by (subst show_nat.simps, subst (2) show_nat.simps)
        (simp add: digits_value_def all_digits_def is_radix_digit_def char_of_digit)
  next
    case False
    have "n mod 10 < 10" by simp
    with False 1 show ?thesis
      by (subst show_nat.simps, subst (2) show_nat.simps)
        (simp add: digits_value_snoc all_digits_def is_radix_digit_def char_of_digit)
  qed
qed

lemma all_digits_chars:
  "all_digits 10 s \<Longrightarrow> c \<in> set s \<Longrightarrow> CHR ''0'' \<le> c \<and> c \<le> CHR ''9''"
proof -
  assume "all_digits 10 s" "c \<in> set s"
  then obtain d where d: "digit_value c = Some d" "d < 10"
    by (auto simp: all_digits_def list_all_iff is_radix_digit_def split: option.splits)
  have "97 \<le> (of_char c :: nat)" if "CHR ''a'' \<le> c" using that by (simp add: less_eq_char_def)
  moreover have "65 \<le> (of_char c :: nat)" if "CHR ''A'' \<le> c" using that by (simp add: less_eq_char_def)
  ultimately show ?thesis using d by (auto simp: digit_value_def split: if_splits)
qed

end
