(* ===== verification/ZoneTypes.thy ===== *)
theory ZoneTypes
  imports Permissions JsValue
begin

text \<open>
  The zone security system, data and policy (packages/loom/src/zones/types.ts, policy.ts and
  defaults.ts): the seven levels with their numeric order, classifications and decisions,
  combination rules, configurations per security level, and the threshold policy.
\<close>

section \<open>Zone levels\<close>

datatype ZoneLevel = SAFE | WORKSPACE | BUILD | NETWORK | EXTERNAL | MACHINE | NEVER

fun zone_num :: "ZoneLevel \<Rightarrow> nat" where
  "zone_num SAFE = 0"
| "zone_num WORKSPACE = 1"
| "zone_num BUILD = 2"
| "zone_num NETWORK = 3"
| "zone_num EXTERNAL = 4"
| "zone_num MACHINE = 5"
| "zone_num NEVER = 6"

lemma zone_num_inject [simp]: "zone_num a = zone_num b \<longleftrightarrow> a = b"
  by (cases a; cases b) simp_all

text \<open>Levels are compared as numbers, so the library's lemmas on linear orders apply to them.\<close>

instantiation ZoneLevel :: linorder
begin

definition less_eq_ZoneLevel :: "ZoneLevel \<Rightarrow> ZoneLevel \<Rightarrow> bool" where
  "less_eq_ZoneLevel a b \<longleftrightarrow> zone_num a \<le> zone_num b"

definition less_ZoneLevel :: "ZoneLevel \<Rightarrow> ZoneLevel \<Rightarrow> bool" where
  "less_ZoneLevel a b \<longleftrightarrow> zone_num a < zone_num b"

instance
  by standard (auto simp: less_eq_ZoneLevel_def less_ZoneLevel_def)

end

lemmas zone_order = less_eq_ZoneLevel_def less_ZoneLevel_def

lemma zone_le_NEVER [simp]: "(z::ZoneLevel) \<le> NEVER"
  by (cases z) (simp_all add: zone_order)

lemma zone_SAFE_le [simp]: "SAFE \<le> (z::ZoneLevel)"
  by (simp add: zone_order)

lemma zone_less_NEVER_iff: "(z::ZoneLevel) < NEVER \<longleftrightarrow> z \<noteq> NEVER"
  by (cases z) (simp_all add: zone_order)

text \<open>The names of the levels, as strings, and the map back.\<close>

fun ZONE_LEVEL_NAMES :: "ZoneLevel \<Rightarrow> string" where
  "ZONE_LEVEL_NAMES SAFE = ''safe''"
| "ZONE_LEVEL_NAMES WORKSPACE = ''workspace''"
| "ZONE_LEVEL_NAMES BUILD = ''build''"
| "ZONE_LEVEL_NAMES NETWORK = ''network''"
| "ZONE_LEVEL_NAMES EXTERNAL = ''external''"
| "ZONE_LEVEL_NAMES MACHINE = ''machine''"
| "ZONE_LEVEL_NAMES NEVER = ''never''"

definition ZONE_NAME_LEVELS :: "string \<rightharpoonup> ZoneLevel" where
  "ZONE_NAME_LEVELS = map_of
     [(''safe'', SAFE), (''workspace'', WORKSPACE), (''build'', BUILD), (''network'', NETWORK),
      (''external'', EXTERNAL), (''machine'', MACHINE), (''never'', NEVER)]"

section \<open>Classifications and decisions\<close>

datatype ClassifierLayer = LExact | LPattern | LCategory | LInputAnalysis | LDefault

datatype SeverityTag = SevInfo | SevWarn | SevCritical

record ZoneClassification =
  level :: ZoneLevel
  zoneName :: string
  reason :: string
  classifier :: ClassifierLayer
  severityTag :: "SeverityTag option"
  severityReason :: "string option"

record CombinationToolEntry =
  entry_toolName :: string
  entry_zone :: ZoneLevel
  entry_timestamp :: int
  entry_tags :: "string list"

record CombinationBlockReason =
  block_rule :: string
  block_recentTools :: "CombinationToolEntry list"
  block_explanation :: string

record ZoneDecision =
  classification :: ZoneClassification
  decision :: PolicyDecision
  explanation :: string
  combinationBlock :: "CombinationBlockReason option"

section \<open>Configuration\<close>

record CombinationTrigger =
  trigger_tag :: string
  trigger_zone :: "ZoneLevel option"
  trigger_toolPattern :: "string option"
  trigger_inputPattern :: "regex option"

record CombinationRule =
  combo_name :: string
  combo_description :: string
  combo_triggers :: "CombinationTrigger list"
  combo_decision :: PolicyDecision
  combo_windowMs :: "int option"

record ZoneOverride =
  ov_toolPattern :: string
  ov_level :: ZoneLevel
  ov_reason :: "string option"

datatype SecurityLevel = Permissive | Standard | Strict | Paranoid

record ZoneConfig =
  securityLevel :: SecurityLevel
  maxAutoZone :: ZoneLevel
  maxAskZone :: ZoneLevel
  combinationRules :: "CombinationRule list"
  overrides :: "ZoneOverride list"

datatype ExpansionScope = Once | Session | ToolPattern

record ZoneExpansion =
  exp_level :: ZoneLevel
  exp_toolPattern :: string
  exp_grantedAt :: int
  exp_expiresAt :: "int option"
  exp_scope :: ExpansionScope

record ZoneContext =
  zc_toolName :: string
  zc_input :: obj
  zc_toolCategory :: "string option"
  zc_toolIsReadOnly :: "bool option"
  zc_sessionId :: string
  zc_agentId :: "string option"
  zc_workspacePath :: "string option"

section \<open>Policy\<close>

definition evaluateZonePolicy :: "ZoneClassification \<Rightarrow> ZoneConfig \<Rightarrow> PolicyDecision" where
  "evaluateZonePolicy cl config = (if level cl \<le> maxAutoZone config then Allow else Ask)"

section \<open>Default configurations\<close>

definition trigger :: "string \<Rightarrow> ZoneLevel \<Rightarrow> regex option \<Rightarrow> CombinationTrigger" where
  "trigger tag z re = \<lparr>trigger_tag = tag, trigger_zone = Some z, trigger_toolPattern = None,
     trigger_inputPattern = re\<rparr>"

definition EXFILTRATION_RULE :: CombinationRule where
  "EXFILTRATION_RULE = \<lparr>combo_name = ''exfiltration-prevention'',
     combo_description = ''Block network access after reading sensitive files'',
     combo_triggers =
       [trigger ''read-secrets'' SAFE (Some (rci (ralts
          [rseqs [rlit ''.'', rwords [''env'', ''pem'', ''key'', ''p12'', ''pfx'', ''jks''], RWordB],
           rlit ''credentials'', rlit ''id_rsa'', rlit ''id_ed25519'', rlit ''.aws/'', rlit ''.ssh/'',
           rseqs [rlit ''secret'', ropt (rset ''_-''), rlit ''key''],
           rlit ''.netrc'', rlit ''.npmrc'', rlit ''.pypirc'']))),
        trigger ''network-access'' NETWORK None],
     combo_decision = Ask, combo_windowMs = Some 120000\<rparr>"

definition CREDENTIAL_HARVESTING_RULE :: CombinationRule where
  "CREDENTIAL_HARVESTING_RULE = \<lparr>combo_name = ''credential-harvesting'',
     combo_description = ''Block network after searching for credentials'',
     combo_triggers =
       [trigger ''search-credentials'' SAFE (Some (rci (ralts
          [rlit ''password'', rlit ''secret'', rlit ''token'',
           rseqs [rlit ''api'', ropt (rset ''_-''), rlit ''key''],
           rseqs [rlit ''private'', ropt (rset ''_-''), rlit ''key''],
           rlit ''credential'', rlit ''bearer'', rlit ''authorization'']))),
        trigger ''network-access'' NETWORK None],
     combo_decision = Ask, combo_windowMs = Some 120000\<rparr>"

definition SHELL_AFTER_SECRETS_RULE :: CombinationRule where
  "SHELL_AFTER_SECRETS_RULE = \<lparr>combo_name = ''shell-after-secrets'',
     combo_description = ''Require approval for shell execution after reading sensitive files'',
     combo_triggers =
       [trigger ''read-secrets'' SAFE (Some (rci (ralts
          [rseqs [rlit ''.'', rwords [''env'', ''pem'', ''key''], RWordB],
           rlit ''credentials'', rlit ''id_rsa'', rlit ''id_ed25519'', rlit ''.aws/'', rlit ''.ssh/'']))),
        trigger ''shell-execution'' BUILD None],
     combo_decision = Ask, combo_windowMs = Some 60000\<rparr>"

definition DNS_EXFILTRATION_RULE :: CombinationRule where
  "DNS_EXFILTRATION_RULE = \<lparr>combo_name = ''dns-exfiltration'',
     combo_description = ''Block DNS queries after reading sensitive files'',
     combo_triggers =
       [trigger ''read-secrets'' SAFE (Some (rci (ralts
          [rseqs [rlit ''.'', rwords [''env'', ''pem'', ''key''], RWordB],
           rlit ''credentials'', rlit ''id_rsa'', rlit ''.aws/'', rlit ''.ssh/'']))),
        trigger ''dns-query'' BUILD
          (Some (rci (rseqs [RWordB, rwords [''dig'', ''nslookup'', ''host''], RWordB])))],
     combo_decision = Ask, combo_windowMs = Some 60000\<rparr>"

definition CLIPBOARD_EXFIL_RULE :: CombinationRule where
  "CLIPBOARD_EXFIL_RULE = \<lparr>combo_name = ''clipboard-exfiltration'',
     combo_description = ''Require approval for clipboard access after reading sensitive files'',
     combo_triggers =
       [trigger ''read-secrets'' SAFE (Some (rci (ralts
          [rseqs [rlit ''.'', rwords [''env'', ''pem'', ''key''], RWordB],
           rlit ''credentials'', rlit ''id_rsa'', rlit ''.aws/'', rlit ''.ssh/'']))),
        trigger ''clipboard-access'' BUILD
          (Some (rci (rseqs [RWordB, rwords [''pbcopy'', ''pbpaste'', ''xclip'', ''xsel'', ''clip''], RWordB])))],
     combo_decision = Ask, combo_windowMs = Some 60000\<rparr>"

definition DEFAULT_COMBINATION_RULES :: "CombinationRule list" where
  "DEFAULT_COMBINATION_RULES =
     [EXFILTRATION_RULE, CREDENTIAL_HARVESTING_RULE, SHELL_AFTER_SECRETS_RULE,
      DNS_EXFILTRATION_RULE, CLIPBOARD_EXFIL_RULE]"

fun ZONE_CONFIGS :: "SecurityLevel \<Rightarrow> ZoneConfig" where
  "ZONE_CONFIGS Permissive = \<lparr>securityLevel = Permissive, maxAutoZone = NETWORK, maxAskZone = MACHINE,
     combinationRules = DEFAULT_COMBINATION_RULES, overrides = []\<rparr>"
| "ZONE_CONFIGS Standard = \<lparr>securityLevel = Standard, maxAutoZone = WORKSPACE, maxAskZone = MACHINE,
     combinationRules = DEFAULT_COMBINATION_RULES, overrides = []\<rparr>"
| "ZONE_CONFIGS Strict = \<lparr>securityLevel = Strict, maxAutoZone = SAFE, maxAskZone = BUILD,
     combinationRules = DEFAULT_COMBINATION_RULES, overrides = []\<rparr>"
| "ZONE_CONFIGS Paranoid = \<lparr>securityLevel = Paranoid, maxAutoZone = SAFE, maxAskZone = SAFE,
     combinationRules = DEFAULT_COMBINATION_RULES, overrides = []\<rparr>"

record ConfigOverrides =
  co_maxAutoZone :: "ZoneLevel option"
  co_maxAskZone :: "ZoneLevel option"
  co_combinationRules :: "CombinationRule list option"
  co_overrides :: "ZoneOverride list option"

text \<open>The operator \<open>??\<close>.\<close>

definition nullish :: "'a option \<Rightarrow> 'a \<Rightarrow> 'a" where
  "nullish x d = (case x of Some y \<Rightarrow> y | None \<Rightarrow> d)"

definition createZoneConfig :: "SecurityLevel \<Rightarrow> ConfigOverrides option \<Rightarrow> ZoneConfig" where
  "createZoneConfig lvl ovs =
     (let base = ZONE_CONFIGS lvl in
      case ovs of
        None \<Rightarrow> base
      | Some ov \<Rightarrow> \<lparr>securityLevel = lvl,
          maxAutoZone = nullish (co_maxAutoZone ov) (maxAutoZone base),
          maxAskZone = nullish (co_maxAskZone ov) (maxAskZone base),
          combinationRules = nullish (co_combinationRules ov) (combinationRules base),
          overrides = nullish (co_overrides ov) (overrides base)\<rparr>)"

section \<open>Facts about the configuration\<close>

lemma zone_names_roundtrip: "ZONE_NAME_LEVELS (ZONE_LEVEL_NAMES z) = Some z"
  by (cases z) (simp_all add: ZONE_NAME_LEVELS_def)

lemma default_configs_below_NEVER: "maxAutoZone (ZONE_CONFIGS l) < NEVER"
  by (cases l) (simp_all add: zone_order)

lemma default_rules_no_toolPattern:
  "r \<in> set DEFAULT_COMBINATION_RULES \<Longrightarrow> t \<in> set (combo_triggers r) \<Longrightarrow> trigger_toolPattern t = None"
  by (auto simp: DEFAULT_COMBINATION_RULES_def EXFILTRATION_RULE_def CREDENTIAL_HARVESTING_RULE_def
      SHELL_AFTER_SECRETS_RULE_def DNS_EXFILTRATION_RULE_def CLIPBOARD_EXFIL_RULE_def trigger_def)

lemma default_rules_two_triggers:
  "r \<in> set DEFAULT_COMBINATION_RULES \<Longrightarrow> length (combo_triggers r) = 2"
  by (auto simp: DEFAULT_COMBINATION_RULES_def EXFILTRATION_RULE_def CREDENTIAL_HARVESTING_RULE_def
      SHELL_AFTER_SECRETS_RULE_def DNS_EXFILTRATION_RULE_def CLIPBOARD_EXFIL_RULE_def)

end
