(* ===== verification/ShellSecurity.thy ===== *)
theory ShellSecurity
  imports JsRegex
begin

text \<open>
  The shell command validator (packages/loom/src/tools/builtins/shell-security.ts): the five
  tables of patterns, in the source's order, and \<open>validateCommand\<close>. A pattern stands for its own
  \<open>source\<close> text in the results. The table of look-alike white space keeps the one code unit of
  the source's class that is below 256.
\<close>

datatype ValidationLevel = Blocked | Dangerous | Injection | Exfiltration | Sensitive | Ok

datatype matched_pattern = PatternLength | PatternSource regex

record ValidationResult =
  safe :: bool
  vlevel :: ValidationLevel
  vreason :: "string option"
  vpattern :: "matched_pattern option"

record ValidationOptions =
  allowInjection :: bool
  allowDangerous :: bool
  customBlocklist :: "regex list option"
  customAllowlist :: "string list option"

definition no_options :: ValidationOptions where
  "no_options = \<lparr>allowInjection = False, allowDangerous = False,
     customBlocklist = None, customAllowlist = None\<rparr>"

type_synonym pattern_rule = "regex \<times> string"

section \<open>The tables\<close>

definition LEVEL1_BLOCKED :: "pattern_rule list" where
  "LEVEL1_BLOCKED =
    [(rseqs [rlit '':()'', rspaces, rlit ''{'', rspaces, rlit '':'', rspaces, rlit ''|'', rspaces, rlit '':'', rspaces, rlit ''&'', rspaces, rlit ''}'', rspaces, ropt (rlit '';''), rspaces, rlit '':''],
       ''Fork bomb detected''),
     (rci (rword ''forkbomb''),
       ''Fork bomb keyword''),
     (rseqs [rword ''dd'', ranys, RWordB, rlit ''of=/dev/'', RClass (\<lambda>c. in_range (CHR ''a'') (CHR ''z'') c)],
       ''dd writing to block device''),
     (rword ''mkfs'',
       ''Filesystem format command''),
     (rword ''fdisk'',
       ''Disk partitioning command''),
     (rword ''parted'',
       ''Disk partitioning command''),
     (rseqs [RWordB, rlit ''init'', rspaces1, rlit ''0'', RWordB],
       ''System halt (init 0)''),
     (rseqs [RWordB, rlit ''init'', rspaces1, rlit ''6'', RWordB],
       ''System reboot (init 6)''),
     (rword ''shutdown'',
       ''System shutdown command''),
     (rword ''reboot'',
       ''System reboot command''),
     (rword ''halt'',
       ''System halt command''),
     (rword ''poweroff'',
       ''System poweroff command''),
     (rseqs [RWordB, rlit ''kill'', rspaces1, rlit ''-9'', rspaces1, rlit ''-1'', RWordB],
       ''Kill all processes''),
     (rseqs [RWordB, rlit ''killall'', rspaces1, rlit ''-9'', RWordB],
       ''Kill all by name with SIGKILL''),
     (rseqs [rlit ''>'', rspaces, rlit ''/dev/sd'', RClass (\<lambda>c. in_range (CHR ''a'') (CHR ''z'') c)],
       ''Redirect to block device''),
     (rseqs [rlit ''>'', rspaces, rlit ''/dev/nvme''],
       ''Redirect to NVMe device''),
     (rseqs [RWordB, rlit ''rm'', rspaces1, rlit ''-'', RStar (RClass is_alpha), rlit ''r'', RStar (RClass is_alpha), rlit ''f'', RStar (RClass is_alpha), rspaces1, rlit ''/'', rspaces, REnd],
       ''rm -rf / (wipe root filesystem)''),
     (rseqs [RWordB, rlit ''rm'', rspaces1, rlit ''-'', RStar (RClass is_alpha), rlit ''r'', RStar (RClass is_alpha), rlit ''f'', RStar (RClass is_alpha), rspaces1, rlit ''/*''],
       ''rm -rf /* (wipe root contents)''),
     (rword ''insmod'',
       ''Kernel module insertion''),
     (rword ''rmmod'',
       ''Kernel module removal''),
     (rword ''flashrom'',
       ''Firmware flash utility'')]"

definition LEVEL2_DANGEROUS :: "pattern_rule list" where
  "LEVEL2_DANGEROUS =
    [(rseqs [RWordB, rlit ''rm'', rspaces1, rlit ''-'', RStar (RClass is_alpha), rlit ''r'', RStar (RClass is_alpha), rlit ''f''],
       ''Recursive force delete (rm -rf)''),
     (rseqs [RWordB, rlit ''rm'', rspaces1, rlit ''-'', RStar (RClass is_alpha), rlit ''f'', RStar (RClass is_alpha), rlit ''r''],
       ''Recursive force delete (rm -fr)''),
     (rword ''sudo'',
       ''Privilege escalation (sudo)''),
     (rseqs [RWordB, rlit ''su'', rspaces1, ropt (rlit ''-''), rspaces, rwordc],
       ''Switch user (su)''),
     (rword ''doas'',
       ''Privilege escalation (doas)''),
     (rword ''pkexec'',
       ''Privilege escalation (pkexec)''),
     (rseqs [RWordB, rlit ''chmod'', rspaces1, ropt (rseqs [rlit ''-'', RStar (RClass is_alpha), rspaces1]), rlit ''777'', RWordB],
       ''World-writable permissions (chmod 777)''),
     (rseqs [RWordB, rlit ''chmod'', rspaces1, ropt (rseqs [rlit ''-'', RStar (RClass is_alpha), rspaces1]), rlit ''a+rwx'', RWordB],
       ''World-writable permissions (chmod a+rwx)''),
     (rseqs [RWordB, rlit ''chmod'', rspaces1, ropt (rseqs [rlit ''-'', RStar (RClass is_alpha), rspaces1]), rlit ''+s'', RWordB],
       ''Set SUID/SGID bit''),
     (rseqs [rword ''curl'', ranys, rlit ''|'', rspaces, ropt (rseqs [rlit ''sudo'', rspaces1]), ropt (rlit ''ba''), rlit ''sh'', RWordB],
       ''Pipe network content to shell (curl|sh)''),
     (rseqs [rword ''wget'', ranys, rlit ''|'', rspaces, ropt (rseqs [rlit ''sudo'', rspaces1]), ropt (rlit ''ba''), rlit ''sh'', RWordB],
       ''Pipe network content to shell (wget|sh)''),
     (rseqs [rword ''curl'', ranys, rlit ''|'', rspaces, ropt (rseqs [rlit ''sudo'', rspaces1]), rlit ''python''],
       ''Pipe network content to python''),
     (rseqs [rlit ''>'', rspaces, rlit ''/etc/''],
       ''Overwrite system config (/etc/)''),
     (rseqs [rlit ''>'', rspaces, rlit ''~/.bashrc'', RWordB],
       ''Overwrite shell config (.bashrc)''),
     (rseqs [rlit ''>'', rspaces, rlit ''~/.zshrc'', RWordB],
       ''Overwrite shell config (.zshrc)''),
     (rseqs [rlit ''>'', rspaces, rlit ''~/.profile'', RWordB],
       ''Overwrite shell profile''),
     (rseqs [rlit ''>'', rspaces, rlit ''~/.ssh/''],
       ''Overwrite SSH config''),
     (rseqs [RWordB, rlit ''sudo'', rspaces1, rwords [''apt'', ''apt-get'', ''yum'', ''dnf'', ''pacman'', ''brew'', ''pip'', ''npm''], RWordB],
       ''Package manager with sudo''),
     (rseqs [RWordB, rlit ''docker'', rspaces1, rlit ''run'', RWordB, ranys, rlit ''--privileged''],
       ''Docker privileged mode''),
     (rseqs [RWordB, rlit ''docker'', rspaces1, rlit ''run'', RWordB, ranys, rlit ''--pid=host''],
       ''Docker host PID namespace''),
     (rseqs [RWordB, rlit ''docker'', rspaces1, rlit ''run'', RWordB, ranys, rlit ''--net=host''],
       ''Docker host network''),
     (rseqs [RWordB, rlit ''nc'', rspaces1, rlit ''-'', RStar (RClass is_alpha), rlit ''l''],
       ''Netcat listener''),
     (rseqs [RWordB, rlit ''python'', ropt (rlit ''3''), rspaces1, rlit ''-m'', rspaces1, rlit ''http.server'', RWordB],
       ''Python HTTP server''),
     (rci (rseqs [rword ''socat'', ranys, rword ''TCP-LISTEN'']),
       ''Socat TCP listener''),
     (rword ''wipe'',
       ''Disk wipe utility''),
     (rword ''shred'',
       ''Secure file deletion (shred)''),
     (rword ''srm'',
       ''Secure file deletion (srm)''),
     (rseqs [RWordB, rlit ''crontab'', rspaces1, rlit ''-'', rset ''er''],
       ''Crontab modification''),
     (rword ''iptables'',
       ''Firewall modification''),
     (rword ''nft'',
       ''nftables modification''),
     (rword ''ufw'',
       ''UFW firewall modification''),
     (rseqs [RWordB, rlit ''xargs'', rspaces1, ranys, rword ''rm''],
       ''xargs with rm (indirect mass delete)''),
     (rseqs [RWordB, rlit ''xargs'', rspaces1, ranys, rword ''chmod''],
       ''xargs with chmod (indirect permission change)''),
     (rseqs [rword ''find'', ranys, rlit ''-exec'', RWordB],
       ''find -exec (indirect command execution)''),
     (rseqs [rword ''find'', ranys, rlit ''-execdir'', RWordB],
       ''find -execdir (indirect command execution)''),
     (rseqs [rword ''find'', ranys, rlit ''-delete'', RWordB],
       ''find -delete (indirect file deletion)''),
     (rseqs [RWordB, rlit ''alias'', rspaces1, rplus (rwordc), rlit ''=''],
       ''Shell alias redefinition''),
     (rseqs [RWordB, rlit ''function'', rspaces1, rplus (rwordc), rspaces, rlit ''(''],
       ''Shell function definition''),
     (rseqs [RWordB, rlit ''export'', rspaces1, rwords [''PATH'', ''LD_PRELOAD'', ''LD_LIBRARY_PATH'', ''DYLD_'']],
       ''Critical environment variable modification''),
     (rseqs [RWordB, rlit ''LD_PRELOAD'', rspaces, rlit ''=''],
       ''LD_PRELOAD injection'')]"

definition LEVEL3_INJECTION :: "pattern_rule list" where
  "LEVEL3_INJECTION =
    [(rlit ''$('',
       ''Command substitution $(...)''),
     (rseqs [RNotBehind (CHR 0x5C), rlit ''`'', RStar (RClass (\<lambda>c. \<not> (c = CHR ''`''))), rlit ''`''],
       ''Backtick command substitution''),
     (rseqs [rlit ''${'', RStar (RClass (\<lambda>c. \<not> (c = CHR ''}''))), RClass (\<lambda>c. \<not> (is_alnum c \<or> c = CHR ''_'' \<or> c = CHR ''}''))],
       ''Complex parameter expansion ${...}''),
     (rlit ''<('',
       ''Process substitution <(...)''),
     (rlit ''>('',
       ''Process substitution >(...)''),
     (rlit ''=('',
       ''Zsh process substitution =(...)''),
     (rseqs [RWordB, rlit ''IFS'', rspaces, rlit ''=''],
       ''IFS variable manipulation''),
     (rlit ''$IFS'',
       ''IFS variable reference''),
     (rseqs [rlit ''${'', RStar (RClass (\<lambda>c. \<not> (c = CHR ''}''))), rlit ''IFS''],
       ''IFS in parameter expansion''),
     (rseqs [rlit ''%3'', rset ''bB''],
       ''URL-encoded semicolon (command chaining obfuscation)''),
     (rseqs [rlit ''$'', rset [CHR 0x27], rlit '';'', rset [CHR 0x27]],
       ''ANSI-C encoded semicolon''),
     (rseqs [rlit ''&'', rspaces, REnd],
       ''Backgrounded command''),
     (rset [CHR 0x0D],
       ''Carriage return in command (possible injection)''),
     (rseqs [rset [CHR 0x0A], ranys, rset [CHR 0x0A]],
       ''Multiple newlines in command (possible multi-command injection)''),
     (rset [CHR 0x00],
       ''Null byte in command''),
     (rlit ''%00'',
       ''URL-encoded null byte''),
     (RClass (\<lambda>c. c = CHR 0xA0),
       ''Unicode whitespace (possible obfuscation)''),
     (rseqs [RWordB, rlit ''eval'', rspace],
       ''eval command (arbitrary code execution)''),
     (rseqs [RWordB, rlit ''source'', rspace],
       ''source command (script execution)''),
     (rseqs [RWordB, rlit ''.'', rspaces1, rlit ''/''],
       ''Dot-source command''),
     (rseqs [rlit ''$'', rset [CHR 0x27], rset [CHR 0x5C], rlit ''x'', RClass (\<lambda>c. is_digit_char c \<or> in_range (CHR ''a'') (CHR ''f'') c \<or> in_range (CHR ''A'') (CHR ''F'') c)],
       ''ANSI-C hex escape in argument''),
     (rseqs [rlit ''$'', rset [CHR 0x27], rset [CHR 0x5C], rrep 3 (RClass (\<lambda>c. in_range (CHR ''0'') (CHR ''7'') c))],
       ''ANSI-C octal escape in argument'')]"

definition LEVEL4_EXFILTRATION :: "pattern_rule list" where
  "LEVEL4_EXFILTRATION =
    [(rlit ''/proc/self/environ'',
       ''Process environment access (/proc/self/environ)''),
     (rseqs [rlit ''/proc/'', rplus (RClass is_digit_char), rlit ''/environ''],
       ''Process environment access (/proc/*/environ)''),
     (rseqs [rword ''printenv'', ranys, rlit ''|'', rspaces, rwords [''curl'', ''wget'', ''nc'', ''ncat''], RWordB],
       ''Environment exfiltration via network''),
     (rseqs [rword ''env'', ranys, rlit ''|'', rspaces, rwords [''curl'', ''wget'', ''nc'', ''ncat''], RWordB],
       ''Environment exfiltration via network''),
     (rseqs [rword ''cat'', ranys, rlit ''.env'', RWordB, ranys, rlit ''|'', rspaces, rwords [''curl'', ''wget'', ''nc'']],
       ''.env file exfiltration''),
     (rseqs [rword ''cat'', ranys, rlit ''.'', rwords [''key'', ''pem''], RWordB, ranys, rlit ''|'', rspaces, rwords [''curl'', ''wget'', ''nc'']],
       ''Key/cert file exfiltration''),
     (rseqs [rword ''cat'', ranys, rlit ''credentials'', RWordB, ranys, rlit ''|'', rspaces, rwords [''curl'', ''wget'', ''nc'']],
       ''Credentials file exfiltration''),
     (rseqs [rword ''cat'', ranys, rlit ''~/.ssh/id_'', ranys, rlit ''|'', rspaces, rwords [''curl'', ''wget'', ''nc'']],
       ''SSH key exfiltration''),
     (rseqs [rword ''cat'', ranys, rlit ''.ssh/id_''],
       ''SSH private key access''),
     (rseqs [RWordB, rlit ''git'', rspaces1, rlit ''config'', rspaces1, rlit ''--get'', rspaces1, rlit ''credential''],
       ''Git credential access''),
     (rseqs [RWordB, rlit ''git'', rspaces1, rlit ''credential'', rspaces1, rlit ''fill''],
       ''Git credential fill''),
     (rseqs [rword ''cat'', ranys, rlit ''.'', ropt (rwords [''bash_'', ''zsh_'']), rlit ''history'', RWordB, ranys, rlit ''|'', rspaces, rwords [''curl'', ''wget'', ''nc'']],
       ''Shell history exfiltration''),
     (rseqs [rword ''cat'', ranys, rlit ''.aws/credentials'', RWordB],
       ''AWS credentials access''),
     (rseqs [rlit ''.'', rwords [''env'', ''key'', ''pem'', ''p12'', ''pfx'', ''jks''], RWordB, ranys, rlit ''|'', rspaces, rwords [''curl'', ''wget'', ''nc'', ''ncat'', ''netcat''], RWordB],
       ''Sensitive file piped to network''),
     (rseqs [rword ''base64'', ranys, rlit ''|'', rspaces, rwords [''curl'', ''wget'', ''nc''], RWordB],
       ''Base64 encoded data to network''),
     (rseqs [RWordB, rwords [''pbpaste'', ''xclip'', ''xsel''], RWordB, ranys, rlit ''|'', rspaces, rwords [''curl'', ''wget'', ''nc'']],
       ''Clipboard exfiltration''),
     (rseqs [rword ''dig'', ranys, rlit ''$(''],
       ''DNS exfiltration via command substitution''),
     (rseqs [rword ''nslookup'', ranys, rlit ''$(''],
       ''DNS exfiltration via command substitution'')]"

definition LEVEL5_SENSITIVE :: "pattern_rule list" where
  "LEVEL5_SENSITIVE =
    [(rseqs [RWordB, rrep 4 (rdigit), ropt (RClass (\<lambda>c. is_space_char c \<or> c = CHR ''-'')), rrep 4 (rdigit), ropt (RClass (\<lambda>c. is_space_char c \<or> c = CHR ''-'')), rrep 4 (rdigit), ropt (RClass (\<lambda>c. is_space_char c \<or> c = CHR ''-'')), rrep 4 (rdigit), RWordB],
       ''Possible credit card number in command''),
     (rseqs [RWordB, rrep 3 (rdigit), rlit ''-'', rrep 2 (rdigit), rlit ''-'', rrep 4 (rdigit), RWordB],
       ''Possible SSN in command''),
     (rseqs [rwords [''postgres'', ''mysql'', ''mongodb'', ''redis''], rlit ''://'', rplus (RClass (\<lambda>c. \<not> (c = CHR '':''))), rlit '':'', rplus (RClass (\<lambda>c. \<not> (c = CHR ''@''))), rlit ''@''],
       ''Database connection string with password''),
     (rseqs [RWordB, rlit ''eyJ'', rrep_min 10 (RClass (\<lambda>c. is_alnum c \<or> c = CHR ''_'' \<or> c = CHR ''-'')), rlit ''.'', rrep_min 10 (RClass (\<lambda>c. is_alnum c \<or> c = CHR ''_'' \<or> c = CHR ''-'')), rlit ''.'', rrep_min 10 (RClass (\<lambda>c. is_alnum c \<or> c = CHR ''_'' \<or> c = CHR ''-''))],
       ''JWT token in command''),
     (rseqs [RWordB, rwords [''AKIA'', ''ASIA''], rrep 16 (RClass (\<lambda>c. in_range (CHR ''A'') (CHR ''Z'') c \<or> is_digit_char c)), RWordB],
       ''AWS access key in command''),
     (rseqs [RWordB, rlit ''sk-'', rrep_min 20 (RClass is_alnum), RWordB],
       ''API key pattern (sk-...) in command''),
     (rseqs [RWordB, rlit ''sk-ant-'', rrep_min 20 (RClass is_alnum), RWordB],
       ''Anthropic API key in command''),
     (rseqs [RWordB, rlit ''ghp_'', rrep 36 (RClass is_alnum), RWordB],
       ''GitHub personal access token in command''),
     (rseqs [RWordB, rlit ''gho_'', rrep 36 (RClass is_alnum), RWordB],
       ''GitHub OAuth token in command''),
     (rseqs [RWordB, rlit ''sk_live_'', rrep_min 20 (RClass is_alnum), RWordB],
       ''Stripe live key in command''),
     (rseqs [RWordB, rlit ''AIza'', rrep 35 (RClass (\<lambda>c. is_alnum c \<or> c = CHR ''_'' \<or> c = CHR ''-'')), RWordB],
       ''Google API key in command''),
     (rseqs [RWordB, rlit ''Bearer'', rspaces1, rrep_min 20 (RClass (\<lambda>c. is_alnum c \<or> c = CHR ''_'' \<or> c = CHR ''.'' \<or> c = CHR ''-'')), RWordB],
       ''Bearer token in command''),
     (rseqs [rlit ''-----BEGIN'', rspaces1, ropt (ralts [rseqs [rlit ''RSA'', rspaces1], rseqs [rlit ''EC'', rspaces1], rseqs [rlit ''DSA'', rspaces1], rseqs [rlit ''ENCRYPTED'', rspaces1]]), rlit ''PRIVATE'', rspaces1, rlit ''KEY-----''],
       ''Private key in command'')]"

section \<open>The validator\<close>

definition ok_result :: "string option \<Rightarrow> ValidationResult" where
  "ok_result r = \<lparr>safe = True, vlevel = Ok, vreason = r, vpattern = None\<rparr>"

definition flagged :: "ValidationLevel \<Rightarrow> string \<Rightarrow> matched_pattern \<Rightarrow> ValidationResult" where
  "flagged l r p = \<lparr>safe = False, vlevel = l, vreason = Some r, vpattern = Some p\<rparr>"

text \<open>One pass over a table: the first pattern that matches the command.\<close>

definition scan_table :: "ValidationLevel \<Rightarrow> pattern_rule list \<Rightarrow> string \<Rightarrow> ValidationResult option" where
  "scan_table l tab command =
     first_map (\<lambda>(p, r). if re_test p command then Some (flagged l r (PatternSource p)) else None) tab"

definition check_allowlist :: "ValidationOptions \<Rightarrow> string \<Rightarrow> ValidationResult option" where
  "check_allowlist opts command =
     (case customAllowlist opts of
        None \<Rightarrow> None
      | Some prefixes \<Rightarrow>
          first_map (\<lambda>prefix. if js_startsWith (js_trim command) prefix
             then Some (ok_result (Some (''Allowed by custom allowlist: '' @ prefix))) else None) prefixes)"

definition check_blocklist :: "ValidationOptions \<Rightarrow> string \<Rightarrow> ValidationResult option" where
  "check_blocklist opts command =
     (case customBlocklist opts of
        None \<Rightarrow> None
      | Some patterns \<Rightarrow>
          first_map (\<lambda>p. if re_test p command
             then Some (flagged Blocked ''Matched custom blocklist'' (PatternSource p)) else None) patterns)"

definition validateCommand :: "string \<Rightarrow> ValidationOptions \<Rightarrow> ValidationResult" where
  "validateCommand command opts =
     (if js_trim command = [] then ok_result (Some ''Empty command'')
      else if 100000 < length command then
        flagged Blocked ''Command exceeds 100KB limit'' PatternLength
      else (case check_allowlist opts command of Some r \<Rightarrow> r
      | None \<Rightarrow> (case check_blocklist opts command of Some r \<Rightarrow> r
      | None \<Rightarrow> (case scan_table Blocked LEVEL1_BLOCKED command of Some r \<Rightarrow> r
      | None \<Rightarrow> (case (if allowDangerous opts then None
                     else scan_table Dangerous LEVEL2_DANGEROUS command) of Some r \<Rightarrow> r
      | None \<Rightarrow> (case (if allowInjection opts then None
                     else scan_table Injection LEVEL3_INJECTION command) of Some r \<Rightarrow> r
      | None \<Rightarrow> (case scan_table Exfiltration LEVEL4_EXFILTRATION command of Some r \<Rightarrow> r
      | None \<Rightarrow> (case scan_table Sensitive LEVEL5_SENSITIVE command of Some r \<Rightarrow> r
      | None \<Rightarrow> ok_result None))))))))"

section \<open>Lemmas\<close>

definition hits :: "pattern_rule list \<Rightarrow> string \<Rightarrow> bool" where
  "hits tab command \<longleftrightarrow> (\<exists>(p, r) \<in> set tab. re_test p command)"

lemma scan_table_None_iff: "scan_table l tab c = None \<longleftrightarrow> \<not> hits tab c"
  by (auto simp: scan_table_def first_map_None_iff hits_def split: if_splits)

lemma scan_table_SomeD:
  "scan_table l tab c = Some r \<Longrightarrow> \<not> safe r \<and> vlevel r = l \<and> hits tab c"
  by (auto simp: scan_table_def first_map_Some_iff hits_def flagged_def split: if_splits)

lemma check_allowlist_SomeD: "check_allowlist opts c = Some r \<Longrightarrow> safe r \<and> vlevel r = Ok"
  by (auto simp: check_allowlist_def ok_result_def first_map_Some_iff split: option.splits if_splits)

lemma check_blocklist_SomeD: "check_blocklist opts c = Some r \<Longrightarrow> \<not> safe r \<and> vlevel r = Blocked"
  by (auto simp: check_blocklist_def flagged_def first_map_Some_iff split: option.splits if_splits)

lemma ok_result_simps [simp]: "safe (ok_result r)" "vlevel (ok_result r) = Ok"
  by (simp_all add: ok_result_def)

lemma flagged_simps [simp]: "\<not> safe (flagged l r p)" "vlevel (flagged l r p) = l"
  by (simp_all add: flagged_def)

lemmas scan_dests = scan_table_SomeD check_allowlist_SomeD check_blocklist_SomeD

text \<open>A check that can only flag: the result is safe when it found nothing and the rest is safe.\<close>

lemma safe_scan_then:
  "safe (case scan_table l tab c of Some r \<Rightarrow> r | None \<Rightarrow> k) \<longleftrightarrow> scan_table l tab c = None \<and> safe k"
  by (cases "scan_table l tab c") (auto dest: scan_table_SomeD)

lemma safe_opt_scan_then:
  "safe (case (if b then None else scan_table l tab c) of Some r \<Rightarrow> r | None \<Rightarrow> k) \<longleftrightarrow>
     (b \<or> scan_table l tab c = None) \<and> safe k"
  by (cases b) (simp_all add: safe_scan_then)

lemma safe_blocklist_then:
  "safe (case check_blocklist opts c of Some r \<Rightarrow> r | None \<Rightarrow> k) \<longleftrightarrow> check_blocklist opts c = None \<and> safe k"
  by (cases "check_blocklist opts c") (auto dest: check_blocklist_SomeD)

lemmas safe_then = safe_scan_then safe_opt_scan_then safe_blocklist_then

lemma check_blocklist_None_iff:
  "check_blocklist opts c = None \<longleftrightarrow>
     (\<forall>ps. customBlocklist opts = Some ps \<longrightarrow> \<not> (\<exists>p \<in> set ps. re_test p c))"
  by (cases "customBlocklist opts") (auto simp: check_blocklist_def first_map_None_iff)

lemma validate_safe_iff:
  assumes "customAllowlist opts = None"
  shows "safe (validateCommand command opts) \<longleftrightarrow>
      js_trim command = [] \<or>
      (length command \<le> 100000
       \<and> (\<forall>ps. customBlocklist opts = Some ps \<longrightarrow> \<not> (\<exists>p \<in> set ps. re_test p command))
       \<and> \<not> hits LEVEL1_BLOCKED command
       \<and> (allowDangerous opts \<or> \<not> hits LEVEL2_DANGEROUS command)
       \<and> (allowInjection opts \<or> \<not> hits LEVEL3_INJECTION command)
       \<and> \<not> hits LEVEL4_EXFILTRATION command
       \<and> \<not> hits LEVEL5_SENSITIVE command)"
proof -
  have al: "check_allowlist opts command = None" by (simp add: check_allowlist_def assms)
  show ?thesis
    unfolding validateCommand_def al option.case(1) if_distrib [of safe] safe_then
      ok_result_simps flagged_simps scan_table_None_iff check_blocklist_None_iff
    by (simp add: not_less)
qed

lemma unsafe_not_Ok: "\<not> safe (validateCommand c opts) \<Longrightarrow> vlevel (validateCommand c opts) \<noteq> Ok"
  by (auto simp: validateCommand_def Let_def split: option.splits if_splits dest: scan_dests)

lemma validate_level1:
  assumes "js_trim c \<noteq> []" "length c \<le> 100000" "hits LEVEL1_BLOCKED c"
    "customAllowlist opts = None" "customBlocklist opts = None"
  shows "\<not> safe (validateCommand c opts)" "vlevel (validateCommand c opts) = Blocked"
proof -
  obtain r where r: "scan_table Blocked LEVEL1_BLOCKED c = Some r"
    using assms(3) scan_table_None_iff [of Blocked LEVEL1_BLOCKED c] by auto
  with assms have "validateCommand c opts = r"
    by (simp add: validateCommand_def check_allowlist_def check_blocklist_def)
  with scan_table_SomeD [OF r] show "\<not> safe (validateCommand c opts)" "vlevel (validateCommand c opts) = Blocked"
    by auto
qed

section \<open>Properties\<close>

text \<open>
  C23: Without a custom allowlist, the validator calls a command safe exactly when it is blank, or
  within the length limit and free of every pattern of the levels that are on: the custom
  blocklist and levels 1, 4 and 5 always, level 2 unless dangerous commands are allowed, level
  3 unless injection is allowed. Safe and level \<open>ok\<close> are the same.
\<close>

theorem validateCommand_safe_iff:
  assumes "customAllowlist opts = None"
  shows "safe (validateCommand command opts) \<longleftrightarrow>
      js_trim command = [] \<or>
      (length command \<le> 100000
       \<and> (\<forall>ps. customBlocklist opts = Some ps \<longrightarrow> \<not> (\<exists>p \<in> set ps. re_test p command))
       \<and> \<not> hits LEVEL1_BLOCKED command
       \<and> (allowDangerous opts \<or> \<not> hits LEVEL2_DANGEROUS command)
       \<and> (allowInjection opts \<or> \<not> hits LEVEL3_INJECTION command)
       \<and> \<not> hits LEVEL4_EXFILTRATION command
       \<and> \<not> hits LEVEL5_SENSITIVE command)"
  by (rule validate_safe_iff [OF assms])

text \<open>\<open>ls -la\<close> meets no pattern of any table.\<close>

lemma ls_clean:
  "\<not> hits LEVEL1_BLOCKED ''ls -la''" "\<not> hits LEVEL2_DANGEROUS ''ls -la''"
  "\<not> hits LEVEL3_INJECTION ''ls -la''" "\<not> hits LEVEL4_EXFILTRATION ''ls -la''"
  "\<not> hits LEVEL5_SENSITIVE ''ls -la''"
  unfolding scan_table_None_iff [symmetric, of _ _ Blocked] by code_simp+

theorem validateCommand_safe_iff_witness: "safe (validateCommand ''ls -la'' no_options)"
  using validateCommand_safe_iff [of no_options "''ls -la''"] ls_clean by (simp add: no_options_def)

text \<open>
  The custom allowlist bypasses every level: a command with an allowlisted prefix is declared
  safe whatever follows, level 1 included, although level 1 is documented as impossible to
  override.
\<close>

theorem allowlist_bypasses_level1:
  assumes "customAllowlist opts = Some prefixes" and "prefix \<in> set prefixes"
    and "js_startsWith (js_trim command) prefix" and "length command \<le> 100000"
  shows "safe (validateCommand command opts)"
proof -
  have "check_allowlist opts command \<noteq> None"
    using assms(1-3) by (auto simp: check_allowlist_def first_map_None_iff)
  then obtain r where "check_allowlist opts command = Some r" by blast
  moreover from this have "safe r" using check_allowlist_SomeD by blast
  ultimately show ?thesis using assms(4) by (simp add: validateCommand_def)
qed

theorem allowlist_bypasses_level1_witness:
  "hits LEVEL1_BLOCKED ''echo x; rm -rf /'' \<and>
   safe (validateCommand ''echo x; rm -rf /'' (no_options\<lparr>customAllowlist := Some [''echo'']\<rparr>))"
proof
  have "scan_table Blocked LEVEL1_BLOCKED ''echo x; rm -rf /'' \<noteq> None" by code_simp
  then show "hits LEVEL1_BLOCKED ''echo x; rm -rf /''" unfolding scan_table_None_iff by simp
  have "js_startsWith (js_trim ''echo x; rm -rf /'') ''echo''" by code_simp
  then show "safe (validateCommand ''echo x; rm -rf /'' (no_options\<lparr>customAllowlist := Some [''echo'']\<rparr>))"
    by (intro allowlist_bypasses_level1 [of _ "[''echo'']" "''echo''"]) simp_all
qed

end
