(* ===== verification/ZoneClassifier.thy ===== *)
theory ZoneClassifier
  imports ZoneTypes ShellSecurity "HOL-Library.Word"
begin

text \<open>
  The five-layer classifier (packages/loom/src/zones/classifier.ts): exact names, profile
  overrides, categories, input analysis (shell commands, URLs, paths, tool names) and defaults.

  \<open>new URL(url)\<close> is the platform's URL parser; the classifier reads its \<open>hostname\<close>. It is the
  parameter \<open>url_hostname\<close>, with \<open>None\<close> for a constructor that throws.
\<close>

unbundle bit_operations_syntax

record InnerResult =
  in_level :: ZoneLevel
  in_reason :: string
  in_severityTag :: "SeverityTag option"
  in_severityReason :: "string option"

section \<open>Layer 1: exact names\<close>

definition EXACT_ZONE_MAP :: "string \<rightharpoonup> ZoneLevel" where
  "EXACT_ZONE_MAP = map_of
     [(''readFile'', SAFE), (''listFiles'', SAFE), (''glob'', SAFE), (''grep'', SAFE),
      (''web_search'', SAFE), (''ask_user'', SAFE), (''filesystem.readFile'', SAFE),
      (''filesystem.listFiles'', SAFE), (''filesystem.glob'', SAFE), (''filesystem.grep'', SAFE),
      (''filesystem.exists'', SAFE), (''search.web'', SAFE),
      (''agent_spawn'', WORKSPACE),
      (''writeFile'', BUILD), (''editFile'', BUILD), (''createFile'', BUILD),
      (''filesystem.writeFile'', BUILD), (''filesystem.editFile'', BUILD),
      (''filesystem.createFile'', BUILD),
      (''shell_execute'', BUILD), (''shell.execute'', BUILD), (''bash'', BUILD),
      (''web_fetch'', NETWORK), (''fetch'', NETWORK), (''browser.navigate'', NETWORK)]"

section \<open>Layer 2: patterns\<close>

definition dbl_mark :: string where
  "dbl_mark = ''@@DBL@@''"

definition pattern_finalRegex :: "string \<Rightarrow> string" where
  "pattern_finalRegex pattern =
     js_replaceAll dbl_mark ''.*''
       (js_replaceAll ''*'' ''.*''
         (js_replaceAll ''**'' dbl_mark (escape_metas pattern)))"

text \<open>The escaped source always compiles, so the \<open>catch\<close> branch is the value \<open>False\<close>.\<close>

definition matchesPattern :: "string \<Rightarrow> string \<Rightarrow> bool" where
  "matchesPattern toolName pattern =
     (if pattern = toolName then True
      else if pattern = ''*'' then True
      else (case anchored_test (pattern_finalRegex pattern) toolName of
              Some b \<Rightarrow> b
            | None \<Rightarrow> False))"

section \<open>Layer 3: categories\<close>

definition classifyByCategory :: "string option \<Rightarrow> bool option \<Rightarrow> ZoneLevel option" where
  "classifyByCategory category isReadOnly =
     (if category = Some ''filesystem'' then Some (if isReadOnly = Some True then SAFE else WORKSPACE)
      else if category = Some ''search'' then Some SAFE
      else if category = Some ''memory'' then Some SAFE
      else if category = Some ''agent'' then Some WORKSPACE
      else if category = Some ''shell'' then Some BUILD
      else if category = Some ''browser'' then Some NETWORK
      else if category = Some ''custom'' then Some BUILD
      else if category = Some ''mcp'' then Some EXTERNAL
      else None)"

section \<open>Layer 4: shell commands\<close>

definition SHELL_INTENT_PATTERNS :: "(regex \<times> ZoneLevel \<times> string) list" where
  "SHELL_INTENT_PATTERNS =
    [(rword ''docker'', MACHINE, ''Docker operation''),
     (rword ''kubectl'', MACHINE, ''Kubernetes operation''),
     (rseqs [rword ''aws'', rspace], MACHINE, ''AWS CLI operation''),
     (rword ''gcloud'', MACHINE, ''Google Cloud operation''),
     (rseqs [rword ''az'', rspace], MACHINE, ''Azure CLI operation''),
     (rseqs [rword ''ssh'', rspace], MACHINE, ''SSH connection''),
     (rseqs [rword ''cat'', ranys, rlit ''~/.'', rwords [''ssh'', ''aws'', ''gnupg''], rlit ''/''], MACHINE, ''Read sensitive directory''),
     (rseqs [rlit ''/proc/'', ralts [rlit ''self'', rplus (rdigit)], rlit ''/environ''], MACHINE, ''Process environment access''),
     (rseqs [RWordB, rlit ''git'', rspaces1, rlit ''push'', RWordB], EXTERNAL, ''Git push (visible to team)''),
     (rseqs [RWordB, rlit ''git'', rspaces1, rlit ''remote'', rspaces1, rwords [''add'', ''set-url'', ''remove''], RWordB], EXTERNAL, ''Git remote modification''),
     (rseqs [RWordB, rlit ''npm'', rspaces1, rlit ''publish'', RWordB], EXTERNAL, ''Publish npm package''),
     (rci (rseqs [rword ''vercel'', ranys, rword ''deploy'']), EXTERNAL, ''Deploy to Vercel''),
     (rseqs [RWordB, rlit ''gh'', rspaces1, rwords [''pr'', ''issue''], rspaces1, rwords [''create'', ''close'', ''merge''], RWordB], EXTERNAL, ''GitHub PR/issue operation''),
     (rword ''heroku'', EXTERNAL, ''Heroku operation''),
     (rword ''railway'', EXTERNAL, ''Railway deployment''),
     (rseqs [RWordB, rlit ''fly'', rspaces1, rlit ''deploy'', RWordB], EXTERNAL, ''Fly.io deployment''),
     (rseqs [RWordB, rlit ''terraform'', rspaces1, rwords [''apply'', ''destroy'', ''import''], RWordB], EXTERNAL, ''Terraform infrastructure change''),
     (rseqs [RWordB, rlit ''pulumi'', rspaces1, rwords [''up'', ''destroy'', ''preview''], RWordB], EXTERNAL, ''Pulumi infrastructure change''),
     (rseqs [RWordB, rlit ''cdk'', rspaces1, rlit ''deploy'', RWordB], EXTERNAL, ''AWS CDK deployment''),
     (rseqs [RWordB, rlit ''serverless'', rspaces1, rlit ''deploy'', RWordB], EXTERNAL, ''Serverless deployment''),
     (rseqs [RWordB, rlit ''git'', rspaces1, rlit ''push'', RWordB, ranys, rlit ''--force''], EXTERNAL, ''Git force push (destructive)''),
     (rseqs [RWordB, rlit ''gh'', rspaces1, rlit ''release'', rspaces1, rlit ''create'', RWordB], EXTERNAL, ''GitHub release creation''),
     (rword ''curl'', NETWORK, ''Network request (curl)''),
     (rword ''wget'', NETWORK, ''Network request (wget)''),
     (rseqs [rword ''nc'', rspace], NETWORK, ''Netcat connection''),
     (rseqs [RWordB, rlit ''npm'', rspaces1, rwords [''install'', ''ci''], RWordB], BUILD, ''Package install (npm)''),
     (rseqs [RWordB, rlit ''pip'', rspaces1, rlit ''install'', RWordB], BUILD, ''Package install (pip)''),
     (rseqs [RWordB, rlit ''yarn'', rspaces1, rwords [''add'', ''install''], RWordB], BUILD, ''Package install (yarn)''),
     (rseqs [RWordB, rlit ''pnpm'', rspaces1, rwords [''add'', ''install''], RWordB], BUILD, ''Package install (pnpm)''),
     (rseqs [RWordB, rlit ''cargo'', rspaces1, rlit ''build'', RWordB], BUILD, ''Cargo build''),
     (rseqs [RStart, rspaces, ralts [rseqs [rlit ''npm'', rspaces1, rlit ''test''], rseqs [rlit ''npm'', rspaces1, rlit ''run'', rspaces1, rlit ''test''], rlit ''pytest'', rlit ''vitest'', rlit ''jest''], RWordB], BUILD, ''Test execution''),
     (rseqs [RStart, rspaces, ralts [rseqs [rlit ''npm'', rspaces1, rlit ''run'', rspaces1, rlit ''build''], rlit ''make'', rlit ''tsc'', rseqs [rlit ''go'', rspaces1, rlit ''build'']], RWordB], BUILD, ''Build command''),
     (rseqs [RStart, rspaces, rwords [''ls'', ''pwd'', ''echo'', ''cat'', ''head'', ''tail'', ''wc'', ''file'', ''stat'', ''which'', ''type'', ''whoami'', ''hostname'', ''date'', ''uptime'', ''uname''], rspace], SAFE, ''Read-only command''),
     (rseqs [RStart, rspaces, rwords [''ls'', ''pwd'', ''echo'', ''cat'', ''head'', ''tail'', ''wc'', ''file'', ''stat'', ''which'', ''type'', ''whoami'', ''hostname'', ''date'', ''uptime'', ''uname''], REnd], SAFE, ''Read-only command''),
     (rseqs [RStart, rspaces, rlit ''git'', rspaces1, ralts [rlit ''status'', rlit ''log'', rlit ''diff'', rlit ''show'', rlit ''branch'', rlit ''tag'', rlit ''describe'', rseqs [rlit ''remote'', rspaces1, rlit ''-v'']], RWordB], SAFE, ''Read-only git command''),
     (rseqs [RStart, rspaces, rlit ''git'', rspaces1, rwords [''add'', ''commit'', ''stash'', ''checkout'', ''switch'', ''merge'', ''rebase'', ''reset''], RWordB], WORKSPACE, ''Local git operation'')]"

text \<open>The loop keeps the highest level so far (\<open>-1\<close> at first) and the reason it was set with.\<close>

fun intent_loop ::
  "(regex \<times> ZoneLevel \<times> string) list \<Rightarrow> string \<Rightarrow> (ZoneLevel \<times> string) option \<Rightarrow>
   (ZoneLevel \<times> string) option" where
  "intent_loop [] command best = best"
| "intent_loop ((re, l, rsn) # tab) command best =
     intent_loop tab command
       (if re_test re command \<and> (case best of None \<Rightarrow> True | Some (h, _) \<Rightarrow> h < l)
        then Some (l, rsn) else best)"

definition text_of :: "string option \<Rightarrow> string" where
  "text_of r = (case r of Some s \<Rightarrow> s | None \<Rightarrow> ''undefined'')"

definition flagged_shell ::
  "ZoneLevel \<Rightarrow> string \<Rightarrow> SeverityTag \<Rightarrow> string \<Rightarrow> ValidationResult \<Rightarrow> InnerResult" where
  "flagged_shell l label tag note v =
     \<lparr>in_level = l, in_reason = label @ text_of (vreason v), in_severityTag = Some tag,
      in_severityReason = Some (note @ text_of (vreason v))\<rparr>"

definition intent_result :: "string \<Rightarrow> InnerResult option" where
  "intent_result command =
     map_option (\<lambda>(l, r). \<lparr>in_level = l, in_reason = r, in_severityTag = None, in_severityReason = None\<rparr>)
       (intent_loop SHELL_INTENT_PATTERNS command None)"

definition classifyShellCommand :: "string \<Rightarrow> InnerResult option" where
  "classifyShellCommand command =
     (if command = [] \<or> js_trim command = [] then None
      else (let validation = validateCommand command no_options in
        if \<not> safe validation then
          (case vlevel validation of
             Blocked \<Rightarrow> Some (flagged_shell NEVER ''Blocked: '' SevCritical
               ''shell-security flagged this command as catastrophic: '' validation)
           | Dangerous \<Rightarrow> Some (flagged_shell MACHINE ''Dangerous: '' SevWarn
               ''shell-security flagged this command as dangerous: '' validation)
           | Injection \<Rightarrow> Some (flagged_shell MACHINE ''Possible injection pattern: '' SevWarn
               ''shell-security flagged a possible injection pattern (note: this regex has known false positives on common idioms like $(...) and heredocs): '' validation)
           | Exfiltration \<Rightarrow> Some (flagged_shell MACHINE ''Possible exfiltration pattern: '' SevWarn
               ''shell-security flagged a possible exfiltration pattern: '' validation)
           | Sensitive \<Rightarrow> Some (flagged_shell MACHINE ''Sensitive data: '' SevInfo
               ''shell-security noticed sensitive-looking data in the command: '' validation)
           | Ok \<Rightarrow> intent_result command)
        else intent_result command))"

section \<open>Layer 4: URLs\<close>

definition fin_in :: "int \<Rightarrow> int \<Rightarrow> js_number \<Rightarrow> bool" where
  "fin_in a b n = (case n of Fin q \<Rightarrow> of_int a \<le> q \<and> q \<le> of_int b | _ \<Rightarrow> False)"

text \<open>\<open>isNaN(p) || p < 0 || p > 255\<close>.\<close>

definition not_octet :: "js_number \<Rightarrow> bool" where
  "not_octet n \<longleftrightarrow> \<not> fin_in 0 255 n"

definition isPrivateIPv4 :: "string \<Rightarrow> bool" where
  "isPrivateIPv4 ip =
     (case map js_Number (js_split (CHR ''.'') ip) of
        [a, b, c, d] \<Rightarrow>
          if list_ex not_octet [a, b, c, d] then False
          else if a = Fin 0 then True
          else if a = Fin 10 then True
          else if a = Fin 127 then True
          else if a = Fin 169 \<and> b = Fin 254 then True
          else if a = Fin 172 \<and> fin_in 16 31 b then True
          else if a = Fin 192 \<and> b = Fin 168 then True
          else False
      | _ \<Rightarrow> False)"

definition METADATA_HOSTS :: "string list" where
  "METADATA_HOSTS = [''metadata.google.internal'', ''metadata.goog'', ''metadata'', ''instance-data'']"

definition INTERNAL_SUFFIXES :: "string list" where
  "INTERNAL_SUFFIXES = [''.internal'', ''.local'', ''.localhost'', ''.corp'', ''.lan'', ''.intranet'']"

text \<open>\<open>hostname.replace(/^\[|\]$/g, '')\<close>.\<close>

definition strip_brackets :: "string \<Rightarrow> string" where
  "strip_brackets h =
     (let h' = (if js_startsWith h ''['' then drop 1 h else h)
      in if js_endsWith h' '']'' then butlast h' else h')"

text \<open>The four bytes of a 32-bit address: \<open>(num >>> k) & 0xFF\<close>.\<close>

definition ip_byte :: "nat \<Rightarrow> 32 word \<Rightarrow> nat" where
  "ip_byte k w = unat (drop_bit k w AND 0xFF)"

definition decimal_ip :: "nat \<Rightarrow> string" where
  "decimal_ip num =
     (let w = (of_nat num :: 32 word)
      in show_nat (ip_byte 24 w) @ ''.'' @ show_nat (ip_byte 16 w) @ ''.'' @
         show_nat (ip_byte 8 w) @ ''.'' @ show_nat (ip_byte 0 w))"

definition octal_ip :: "string \<Rightarrow> string option" where
  "octal_ip bare =
     (let parts = js_split (CHR ''.'') bare in
      if length parts = 4 then
        (let octets = map (\<lambda>p. parseInt p (if js_startsWith p ''0'' \<and> length p > 1 then 8 else 10)) parts
         in if list_all (\<lambda>x. case x of Some n \<Rightarrow> 0 \<le> n \<and> n \<le> 255 | None \<Rightarrow> False) octets
            then Some (js_join ''.'' (map (\<lambda>x. show_nat (nat (the x))) octets))
            else None)
      else None)"

definition all_numeric_re :: regex where
  "all_numeric_re = rseqs [RStart, rplus rdigit, REnd]"

definition octal_re :: regex where
  "octal_re = rseqs [RStart, rlit ''0'', RStar (RClass (in_range (CHR ''0'') (CHR ''7''))), rlit ''.'']"

definition dotted_re :: regex where
  "dotted_re = rseqs [RStart, rrep_range 1 3 rdigit, rlit ''.'', rrep_range 1 3 rdigit, rlit ''.'',
     rrep_range 1 3 rdigit, rlit ''.'', rrep_range 1 3 rdigit, REnd]"

text \<open>The reason when the host is internal, \<open>None\<close> when it is not.\<close>

definition internal_dotted :: "string \<Rightarrow> string option" where
  "internal_dotted bare =
     (if re_test dotted_re bare \<and> isPrivateIPv4 bare then Some (''Private IPv4: '' @ bare)
      else first_map (\<lambda>suffix. if js_endsWith bare suffix
                               then Some (''Internal hostname suffix: '' @ suffix) else None)
             INTERNAL_SUFFIXES)"

definition internal_numeric :: "string \<Rightarrow> string option" where
  "internal_numeric bare =
     (case parseInt bare 10 of
        Some num \<Rightarrow>
          (if 0 \<le> num \<and> num \<le> 0xFFFFFFFF \<and> isPrivateIPv4 (decimal_ip (nat num))
           then Some (''Decimal IP '' @ bare @ '' = '' @ decimal_ip (nat num) @ '' (private)'')
           else None)
      | None \<Rightarrow> None)"

definition internal_host :: "string \<Rightarrow> string option" where
  "internal_host bare =
     (if bare = ''localhost'' \<or> bare = ''localhost.localdomain'' then Some ''Localhost''
      else if bare \<in> set METADATA_HOSTS then Some (''Cloud metadata endpoint: '' @ bare)
      else if bare = ''::1'' \<or> bare = ''::'' \<or> bare = ''0:0:0:0:0:0:0:1'' \<or> bare = ''0:0:0:0:0:0:0:0''
        then Some ''IPv6 loopback''
      else if js_startsWith bare ''fe80:'' \<or> js_startsWith bare ''fe80%'' then Some ''IPv6 link-local''
      else if js_startsWith bare ''::ffff:'' \<and> isPrivateIPv4 (drop 7 bare)
        then Some (''IPv4-mapped IPv6 private address: '' @ bare)
      else if re_test all_numeric_re bare then internal_numeric bare
      else if re_test octal_re bare then
        (case octal_ip bare of
           Some ip \<Rightarrow> if isPrivateIPv4 ip then Some (''Octal IP '' @ bare @ '' = '' @ ip @ '' (private)'')
                      else internal_dotted bare
         | None \<Rightarrow> internal_dotted bare)
      else internal_dotted bare)"

definition isInternalUrl :: "(string \<Rightarrow> string option) \<Rightarrow> string \<Rightarrow> string option" where
  "isInternalUrl url_hostname url =
     (case url_hostname url of
        None \<Rightarrow> None
      | Some h \<Rightarrow> internal_host (strip_brackets (js_toLowerCase h)))"

definition URL_FIELD_NAMES :: "string list" where
  "URL_FIELD_NAMES = [''url'', ''href'', ''uri'', ''endpoint'', ''target_url'', ''webhook_url'',
     ''api_url'', ''remote_url'', ''service_url'', ''base_url'', ''redirect_url'',
     ''callback_url'', ''remote'', ''destination'']"

definition is_url :: "string \<Rightarrow> bool" where
  "is_url v \<longleftrightarrow> js_startsWith v ''http://'' \<or> js_startsWith v ''https://'' \<or> js_startsWith v ''ftp://''"

definition extractUrl :: "obj \<Rightarrow> string option" where
  "extractUrl input =
     first_map (\<lambda>field. case str_field input field of
                          Some v \<Rightarrow> if is_url v then Some v else None
                        | None \<Rightarrow> None) URL_FIELD_NAMES"

section \<open>Layer 4: file paths\<close>

definition PATH_FIELD_NAMES :: "string list" where
  "PATH_FIELD_NAMES = [''file_path'', ''path'', ''filePath'', ''target'', ''source'', ''destination'',
     ''directory'', ''dir'', ''folder'', ''filename'']"

definition SENSITIVE_PATH_PATTERNS :: "(regex \<times> string) list" where
  "SENSITIVE_PATH_PATTERNS =
    [(rci (rseqs [rlit ''/'', rwords [''.ssh'', ''.gnupg'', ''.aws''], rlit ''/'']),
       ''Sensitive credentials directory''),
     (rci (rseqs [rlit ''.'', rwords [''bashrc'', ''zshrc'', ''profile'', ''bash_profile'', ''zprofile'', ''zshenv''], REnd]),
       ''Shell startup file''),
     (rci (rseqs [rlit ''/'', ralts [rlit ''.env'', rseqs [rlit ''.env.'', rplus (rwordc)]], REnd]),
       ''Environment file''),
     (rci (rseqs [rlit ''/credentials'', ropt (rlit ''.json''), REnd]),
       ''Credentials file''),
     (rci (rseqs [rlit ''/id_'', rwords [''rsa'', ''ed25519'', ''ecdsa'', ''dsa''], ropt (rlit ''.pub''), REnd]),
       ''SSH key''),
     (rci (rseqs [rlit ''.'', rwords [''pem'', ''key'', ''p12'', ''pfx'', ''jks''], REnd]),
       ''Certificate/key file''),
     (rci (rseqs [rlit ''/.netrc'', REnd]),
       ''Netrc credentials''),
     (rci (rseqs [rlit ''/.gitconfig'', REnd]),
       ''Git configuration''),
     (rci (rseqs [rlit ''/.npmrc'', REnd]),
       ''NPM configuration (may contain tokens)''),
     (rci (rseqs [rlit ''/secret'', ropt (rset ''_-''), rlit ''key'']),
       ''Secret key file'')]"

definition system_dir_re :: regex where
  "system_dir_re = rci (rseqs [RStart, rlit ''/'',
     rwords [''etc'', ''usr'', ''bin'', ''sbin'', ''boot'', ''sys'', ''proc'', ''dev''], rlit ''/''])"

definition input_path :: "obj \<Rightarrow> string option" where
  "input_path input =
     first_map (\<lambda>field. case str_field input field of
                          Some v \<Rightarrow> if v \<noteq> [] then Some v else None
                        | None \<Rightarrow> None) PATH_FIELD_NAMES"

definition machine_path :: "string \<Rightarrow> SeverityTag \<Rightarrow> string \<Rightarrow> InnerResult" where
  "machine_path rsn tag note =
     \<lparr>in_level = MACHINE, in_reason = rsn, in_severityTag = Some tag, in_severityReason = Some note\<rparr>"

definition sensitive_path :: "string \<Rightarrow> InnerResult option" where
  "sensitive_path filePath =
     first_map (\<lambda>(pattern, rsn). if re_test pattern filePath
         then Some (machine_path (''Sensitive path: '' @ rsn @ '' ('' @ filePath @ '')'') SevCritical
                (''This path looks sensitive: '' @ rsn @
                 ''. The user sees the prompt and decides whether to grant access.''))
         else None) SENSITIVE_PATH_PATTERNS"

definition truthy :: "string option \<Rightarrow> bool" where
  "truthy s = (case s of Some t \<Rightarrow> t \<noteq> [] | None \<Rightarrow> False)"

definition system_dir_result :: "string \<Rightarrow> InnerResult" where
  "system_dir_result filePath = machine_path (''System directory access: '' @ filePath) SevCritical
     ''Writing to a system directory can affect the whole machine.''"

definition classifyFilePath :: "obj \<Rightarrow> string option \<Rightarrow> InnerResult option" where
  "classifyFilePath input workspacePath =
     (case input_path input of
        None \<Rightarrow> None
      | Some filePath \<Rightarrow>
        (case sensitive_path filePath of
           Some r \<Rightarrow> Some r
         | None \<Rightarrow>
           if js_includes filePath ''..'' then
             Some (machine_path (''Path traversal detected: '' @ filePath) SevWarn
               (''Path contains '' @ [CHR 0x27] @ ''..'' @ [CHR 0x27] @
                '' segments -- may escape the workspace. Confirm the resolved target before proceeding.''))
           else if truthy workspacePath \<and> js_startsWith filePath ''/''
                   \<and> \<not> js_startsWith filePath (the workspacePath) then
             (if re_test system_dir_re filePath then Some (system_dir_result filePath)
              else Some (machine_path (''Outside workspace: '' @ filePath) SevWarn
                     ''This path is outside the workspace root.''))
           else if \<not> truthy workspacePath \<and> js_startsWith filePath ''/'' then
             (if re_test system_dir_re filePath then Some (system_dir_result filePath)
              else Some (machine_path (''Absolute path without workspace context: '' @ filePath) SevWarn
                     (''Absolute path on a session with no workspace root -- can'' @ [CHR 0x27] @
                      ''t verify scope.'')))
           else None))"

section \<open>Layer 4: tool names\<close>

definition includes_any :: "string \<Rightarrow> string list \<Rightarrow> bool" where
  "includes_any s ws = list_ex (js_includes s) ws"

definition classifyByToolName :: "string \<Rightarrow> (ZoneLevel \<times> string) option" where
  "classifyByToolName toolName =
     (let lower = js_toLowerCase toolName in
      if includes_any lower [''deploy'', ''publish'', ''release'']
        then Some (EXTERNAL, ''Tool name suggests deployment: '' @ toolName)
      else if includes_any lower [''delete'', ''remove'', ''destroy'', ''drop'']
        then Some (EXTERNAL, ''Tool name suggests destructive action: '' @ toolName)
      else if includes_any lower [''send'', ''post'', ''notify'', ''email'', ''message'']
        then Some (EXTERNAL, ''Tool name suggests communication: '' @ toolName)
      else if includes_any lower [''execute'', ''exec'', ''run'', ''spawn'']
        then Some (BUILD, ''Tool name suggests execution: '' @ toolName)
      else if includes_any lower [''write'', ''update'', ''modify'', ''edit'', ''patch'']
        then Some (WORKSPACE, ''Tool name suggests write operation: '' @ toolName)
      else if includes_any lower [''read'', ''get'', ''list'', ''search'', ''find'', ''query'', ''fetch'', ''describe'']
        then Some (SAFE, ''Tool name suggests read operation: '' @ toolName)
      else None)"

section \<open>The classifier\<close>

definition zone_result :: "ZoneLevel \<Rightarrow> string \<Rightarrow> ClassifierLayer \<Rightarrow> ZoneClassification" where
  "zone_result l rsn layer = \<lparr>level = l, zoneName = ZONE_LEVEL_NAMES l, reason = rsn,
     classifier = layer, severityTag = None, severityReason = None\<rparr>"

definition analysed :: "ZoneLevel \<Rightarrow> InnerResult \<Rightarrow> ZoneClassification" where
  "analysed l r = \<lparr>level = l, zoneName = ZONE_LEVEL_NAMES l, reason = in_reason r,
     classifier = LInputAnalysis, severityTag = in_severityTag r, severityReason = in_severityReason r\<rparr>"

definition isShellTool :: "string \<Rightarrow> bool" where
  "isShellTool toolName \<longleftrightarrow> toolName = ''shell_execute'' \<or> toolName = ''shell.execute'' \<or> toolName = ''bash''"

text \<open>Layers 1 to 3. \<open>None\<close>: go on with the input.\<close>

definition classify_exact :: "ZoneContext \<Rightarrow> ZoneClassification option" where
  "classify_exact ctx =
     (case EXACT_ZONE_MAP (zc_toolName ctx) of
        None \<Rightarrow> None
      | Some exactZone \<Rightarrow>
          if isShellTool (zc_toolName ctx) \<and> str_field (zc_input ctx) ''command'' \<noteq> None then None
          else (case classifyFilePath (zc_input ctx) (zc_workspacePath ctx) of
                  Some r \<Rightarrow> if exactZone < in_level r then Some (analysed (in_level r) r)
                            else Some (zone_result exactZone (''Known tool: '' @ zc_toolName ctx) LExact)
                | None \<Rightarrow> Some (zone_result exactZone (''Known tool: '' @ zc_toolName ctx) LExact)))"

definition classify_override :: "ZoneContext \<Rightarrow> ZoneOverride list option \<Rightarrow> ZoneClassification option" where
  "classify_override ctx ovs =
     first_map (\<lambda>ov. if matchesPattern (zc_toolName ctx) (ov_toolPattern ov)
         then Some (zone_result (ov_level ov)
                (nullish (ov_reason ov)
                   (''Override: '' @ ov_toolPattern ov @ '' -> '' @ ZONE_LEVEL_NAMES (ov_level ov))) LPattern)
         else None) (nullish ovs [])"

definition classify_category :: "ZoneContext \<Rightarrow> ZoneClassification option" where
  "classify_category ctx =
     (if \<not> isShellTool (zc_toolName ctx) \<or> str_field (zc_input ctx) ''command'' = None then
        map_option (\<lambda>z. zone_result z
            (''Category '' @ [CHR 0x27] @ text_of (zc_toolCategory ctx) @ [CHR 0x27] @ '' '' @
             (if zc_toolIsReadOnly ctx = Some True then ''(read-only)'' else [])) LCategory)
          (classifyByCategory (zc_toolCategory ctx) (zc_toolIsReadOnly ctx))
      else None)"

text \<open>Layer 4a.\<close>

definition classify_command :: "string \<Rightarrow> ZoneClassification" where
  "classify_command command =
     (case classifyShellCommand command of
        Some r \<Rightarrow> analysed (max (in_level r) BUILD) r
      | None \<Rightarrow> zone_result BUILD (''Shell command: '' @ take 60 command) LInputAnalysis)"

text \<open>Layers 4b to 5.\<close>

definition classify_url :: "(string \<Rightarrow> string option) \<Rightarrow> string \<Rightarrow> ZoneClassification" where
  "classify_url url_hostname url =
     (case isInternalUrl url_hostname url of
        Some rsn \<Rightarrow> zone_result MACHINE (''SSRF risk -- '' @ rsn) LInputAnalysis
      | None \<Rightarrow> zone_result NETWORK (''Network access: '' @ take 80 url) LInputAnalysis)"

definition classify_rest :: "(string \<Rightarrow> string option) \<Rightarrow> ZoneContext \<Rightarrow> ZoneClassification" where
  "classify_rest url_hostname ctx =
     (case extractUrl (zc_input ctx) of
        Some url \<Rightarrow> classify_url url_hostname url
      | None \<Rightarrow>
        (case classifyFilePath (zc_input ctx) (zc_workspacePath ctx) of
           Some r \<Rightarrow> analysed (in_level r) r
         | None \<Rightarrow>
           (case classifyByToolName (zc_toolName ctx) of
              Some (l, rsn) \<Rightarrow> zone_result l rsn LInputAnalysis
            | None \<Rightarrow>
              if js_startsWith (zc_toolName ctx) ''mcp__'' \<or> js_startsWith (zc_toolName ctx) ''mcp.''
              then zone_result EXTERNAL (''Unknown MCP tool defaults to external zone: '' @ zc_toolName ctx) LDefault
              else zone_result BUILD (''Unknown tool defaults to build zone: '' @ zc_toolName ctx) LDefault)))"

definition classifyToolCall ::
  "(string \<Rightarrow> string option) \<Rightarrow> ZoneContext \<Rightarrow> ZoneOverride list option \<Rightarrow> ZoneClassification" where
  "classifyToolCall url_hostname ctx ovs =
     (case classify_exact ctx of
        Some c \<Rightarrow> c
      | None \<Rightarrow>
        (case classify_override ctx ovs of
           Some c \<Rightarrow> c
         | None \<Rightarrow>
           (case classify_category ctx of
              Some c \<Rightarrow> c
            | None \<Rightarrow>
              (case str_field (zc_input ctx) ''command'' of
                 Some command \<Rightarrow> classify_command command
               | None \<Rightarrow> classify_rest url_hostname ctx))))"

section \<open>Pattern matching is glob matching\<close>

fun tok_dbl :: "gtok \<Rightarrow> string" where
  "tok_dbl GSeg = ''*''"
| "tok_dbl GAny = dbl_mark"
| "tok_dbl t = tok_src t"

fun tok_dbl_any :: "gtok \<Rightarrow> string" where
  "tok_dbl_any GSeg = ''.*''"
| "tok_dbl_any GAny = dbl_mark"
| "tok_dbl_any t = tok_src t"

fun seg_to_any :: "gtok \<Rightarrow> gtok" where
  "seg_to_any GSeg = GAny"
| "seg_to_any t = t"

lemma escape_metas_toks: "escape_metas p = concat (map (\<lambda>c. tok_src (GLit c)) p)"
  by (simp add: escape_metas_def)

lemma tok_src_lit_star: "js_startsWith (tok_src (GLit d) @ x) ''*'' \<longleftrightarrow> d = CHR ''*''"
  by (auto simp: metas_def)

lemma replace_dbl:
  "js_replaceAll ''**'' dbl_mark (concat (map (\<lambda>c. tok_src (GLit c)) p)) =
   concat (map tok_dbl (glob_toks p))"
proof (induction p rule: glob_toks.induct)
  case (3 c d cs)
  show ?case
  proof (cases "c = CHR ''*''")
    case True
    then show ?thesis
      using 3 tok_src_lit_star [of d] by (cases "d = CHR ''*''") (auto simp: metas_def)
  next
    case False
    then show ?thesis using 3 by (auto simp: metas_def)
  qed
qed (auto simp: metas_def)

lemma glob_toks_lit:
  "t \<in> set (glob_toks p) \<Longrightarrow> t = GSeg \<or> t = GAny \<or> (\<exists>c. t = GLit c \<and> c \<in> set p \<and> c \<noteq> CHR ''*'')"
  by (induction p rule: glob_toks.induct) (auto split: if_splits)

lemma set_tok_src_lit: "x \<noteq> CHR 0x5C \<Longrightarrow> x \<in> set (tok_src (GLit c)) \<longleftrightarrow> x = c"
  by auto

lemma pattern_finalRegex_toks:
  assumes "CHR ''@'' \<notin> set p"
  shows "pattern_finalRegex p = concat (map tok_src (map seg_to_any (glob_toks p)))"
proof -
  have 1: "js_replaceAll ''*'' ''.*'' (concat (map tok_dbl (glob_toks p))) =
      concat (map tok_dbl_any (glob_toks p))"
    by (rule replace_toks) (auto dest!: glob_toks_lit simp: dbl_mark_def set_tok_src_lit simp del: tok_src.simps(1))
  have 2: "js_replaceAll dbl_mark ''.*'' (concat (map tok_dbl_any (glob_toks p))) =
      concat (map (\<lambda>t. tok_src (seg_to_any t)) (glob_toks p))"
    using assms
    by (intro replace_toks) (auto dest!: glob_toks_lit simp: dbl_mark_def set_tok_src_lit simp del: tok_src.simps(1))
  show ?thesis
    by (simp add: pattern_finalRegex_def escape_metas_toks replace_dbl 1 2 comp_def del: tok_src.simps(1))
qed

lemma tok_match_Any_cong:
  "(\<And>s. tok_match ts s \<longleftrightarrow> tok_match ts' s) \<Longrightarrow> tok_match (GAny # ts) s \<longleftrightarrow> tok_match (GAny # ts') s"
  by (simp add: tok_match_any)

lemma tok_match_glob_any:
  "tok_match (map seg_to_any (glob_toks p)) n \<longleftrightarrow> tok_match (any_toks p) n"
proof (induction p arbitrary: n rule: glob_toks.induct)
  case (3 c d cs)
  show ?case
  proof (cases "c = CHR ''*'' \<and> d = CHR ''*''")
    case True
    then show ?thesis
      using tok_match_Any_cong [OF 3(1)] by (simp add: tok_match_any_any)
  next
    case False
    then have IH: "\<And>m. tok_match (map seg_to_any (glob_toks (d # cs))) m \<longleftrightarrow> tok_match (any_toks (d # cs)) m"
      using 3(2) by blast
    show ?thesis
    proof (cases "c = CHR ''*''")
      case True
      with False show ?thesis using tok_match_Any_cong [OF IH] by simp
    next
      case c: False
      then show ?thesis using IH by (cases n) simp_all
    qed
  qed
qed auto

lemma matchesPattern_glob:
  assumes "CHR ''@'' \<notin> set p"
  shows "matchesPattern n p \<longleftrightarrow> name_glob p n"
proof -
  have "list_all tok_ok (map seg_to_any (glob_toks p))"
    by (auto simp: list_all_iff dest!: glob_toks_lit)
  then have "anchored_test (pattern_finalRegex p) n = Some (tok_match (any_toks p) n)"
    by (simp only: pattern_finalRegex_toks [OF assms] anchored_test_toks tok_match_glob_any)
  then show ?thesis by (auto simp: matchesPattern_def name_glob_def)
qed

interpretation zp: name_matcher matchesPattern
  by unfold_locales (simp_all add: matchesPattern_def)

section \<open>Shell commands\<close>

lemma intent_loop_cases:
  "intent_loop tab c best = best \<or> (\<exists>re l r. (re, l, r) \<in> set tab \<and> re_test re c \<and> intent_loop tab c best = Some (l, r))"
proof (induction tab c best rule: intent_loop.induct)
  case (2 re l rsn tab c best)
  then show ?case by (auto split: if_splits)
qed simp

lemma intent_loop_level:
  "map_option fst (intent_loop tab c best) =
     (let L = {l. \<exists>re r. (re, l, r) \<in> set tab \<and> re_test re c} \<union> set_option (map_option fst best)
      in if L = {} then None else Some (Max L))"
proof (induction tab c best rule: intent_loop.induct)
  case (1 c best)
  then show ?case by (cases best) (auto simp: Let_def)
next
  case (2 re l rsn tab c best)
  define L where "L = {l. \<exists>re r. (re, l, r) \<in> set tab \<and> re_test re c}"
  have "L \<subseteq> (fst \<circ> snd) ` set tab" by (force simp: L_def)
  then have fin: "finite L" by (rule finite_subset) simp
  have step: "{l'. \<exists>re' r. (re', l', r) \<in> set ((re, l, rsn) # tab) \<and> re_test re' c} =
      (if re_test re c then insert l L else L)"
    by (auto simp: L_def)
  note IH = 2 [unfolded Let_def, folded L_def]
  show ?case
  proof (cases "re_test re c")
    case False
    then show ?thesis using IH unfolding step Let_def by (simp add: L_def)
  next
    case True
    show ?thesis
    proof (cases best)
      case None
      then show ?thesis using IH True unfolding step Let_def by (simp add: insert_commute)
    next
      case (Some b)
      obtain h hr where b: "b = (h, hr)" by (cases b)
      have hl: "Max (insert h (insert l L)) = Max (insert (max h l) L)"
        using fin by (cases "L = {}") (simp_all add: max.assoc)
      show ?thesis
        using IH True Some b hl unfolding step Let_def
        by (cases "h < l") (auto simp: insert_commute max_def not_less dest: leD)
    qed
  qed
qed

text \<open>What the intent table says of a command: the levels of the patterns that match it.\<close>

definition intent_levels :: "string \<Rightarrow> ZoneLevel set" where
  "intent_levels c = set (map (\<lambda>(re, l, r). l) (filter (\<lambda>(re, l, r). re_test re c) SHELL_INTENT_PATTERNS))"

lemma intent_levels_iff:
  "intent_levels c = {l. \<exists>re r. (re, l, r) \<in> set SHELL_INTENT_PATTERNS \<and> re_test re c}"
  by (force simp: intent_levels_def)

lemma finite_intent_levels: "finite (intent_levels c)"
  by (simp add: intent_levels_def)

lemma intent_result_level:
  "map_option in_level (intent_result c) = (if intent_levels c = {} then None else Some (Max (intent_levels c)))"
proof -
  have "map_option in_level (intent_result c) = map_option fst (intent_loop SHELL_INTENT_PATTERNS c None)"
    by (simp add: intent_result_def option.map_comp comp_def case_prod_beta)
  then show ?thesis
    by (simp add: intent_loop_level Let_def intent_levels_iff)
qed

section \<open>Addresses\<close>

lemma ip_byte_nat: "ip_byte k w = unat w div 2 ^ k mod 256"
proof -
  have "drop_bit k w AND 0xFF = take_bit 8 (drop_bit k w)"
    by (simp add: take_bit_eq_mask mask_eq_exp_minus_1)
  then have "unat (drop_bit k w AND 0xFF) = take_bit 8 (drop_bit k (take_bit 32 (unat w)))"
    by (simp only: unsigned_take_bit_eq unsigned_drop_bit_eq) simp
  moreover have "take_bit 32 (unat w) = unat w"
    using unsigned_less [of w, where ?'a = nat] by (simp add: take_bit_eq_mod)
  ultimately show ?thesis by (simp add: ip_byte_def drop_bit_eq_div take_bit_eq_mod)
qed

lemma digit_char_facts:
  assumes "CHR ''0'' \<le> c \<and> c \<le> CHR ''9''"
  shows "\<not> is_space_char c" "\<not> is_exp_mark c" "c \<noteq> CHR ''.''" "c \<noteq> CHR ''-''" "c \<noteq> CHR ''+''"
    "c \<noteq> CHR ''x''" "c \<noteq> CHR ''X''" "c \<noteq> CHR ''o''" "c \<noteq> CHR ''O''" "c \<noteq> CHR ''b''" "c \<noteq> CHR ''B''"
    "c \<noteq> CHR ''I''" "c \<noteq> CHR '':''" "c \<noteq> CHR ''l''" "c \<noteq> CHR ''m''" "c \<noteq> CHR ''i''" "c \<noteq> CHR ''f''" "is_digit_char c"
  using assms by (auto simp: less_eq_char_def is_space_char_def is_exp_mark_def is_digit_char_def)

lemma js_trim_no_space: "\<forall>c \<in> set s. \<not> is_space_char c \<Longrightarrow> js_trim s = s"
proof -
  assume h: "\<forall>c \<in> set s. \<not> is_space_char c"
  have id: "dropWhile is_space_char t = t" if "\<forall>c \<in> set t. \<not> is_space_char c" for t
    using that by (cases t) auto
  show ?thesis using h by (simp add: js_trim_def js_trimStart_def id)
qed

lemma js_Number_show_nat: "js_Number (show_nat n) = Fin (of_nat n)"
proof -
  let ?s = "show_nat n"
  have d: "digits_value 10 ?s = n" "all_digits 10 ?s" using show_nat_digits by auto
  then have ne: "?s \<noteq> []" by (simp add: all_digits_def)
  have ch: "CHR ''0'' \<le> c \<and> c \<le> CHR ''9''" if "c \<in> set ?s" for c
    using d(2) that by (rule all_digits_chars)
  note facts = digit_char_facts [OF ch]
  have trim: "js_trim ?s = ?s" by (rule js_trim_no_space) (auto dest: facts)
  have pre: "\<not> js_startsWith ?s [a, x]" if "x \<notin> set ?s" for a x
    using that by (auto simp: js_startsWith_iff)
  have sign: "split_sign ?s = (False, ?s)"
    using facts(4,5) by (cases ?s) (auto simp: split_sign_def)
  have inf: "?s \<noteq> ''Infinity''" using facts(12) by force
  have split: "js_split (CHR ''.'') ?s = [?s]"
    using facts(3) by (intro js_split_single) blast
  have "takeWhile (\<lambda>c. \<not> is_exp_mark c) ?s = ?s" "dropWhile (\<lambda>c. \<not> is_exp_mark c) ?s = []"
    using facts(2) by auto
  then have dec: "decimal_literal ?s = Some (of_nat n)"
    using d by (simp only: decimal_literal_def Let_def) (simp add: mantissa_def split scale10_def)
  show ?thesis
  proof -
    have "x \<notin> set ?s" if "x \<in> {CHR ''x'', CHR ''X'', CHR ''o'', CHR ''O'', CHR ''b'', CHR ''B''}" for x
      using that facts(6-11) by blast
    then show ?thesis using ne by (simp add: js_Number_def Let_def trim sign inf dec pre)
  qed
qed

text \<open>The private and reserved blocks of IPv4, as intervals of 32-bit addresses.\<close>

definition private_range :: "nat \<Rightarrow> bool" where
  "private_range n \<longleftrightarrow>
     n < 0x01000000 \<or> 0x0A000000 \<le> n \<and> n < 0x0B000000 \<or> 0x7F000000 \<le> n \<and> n < 0x80000000 \<or>
     0xA9FE0000 \<le> n \<and> n < 0xA9FF0000 \<or> 0xAC100000 \<le> n \<and> n < 0xAC200000 \<or>
     0xC0A80000 \<le> n \<and> n < 0xC0A90000"

definition dotted :: "nat \<Rightarrow> string" where
  "dotted n = show_nat (n div 2 ^ 24 mod 256) @ ''.'' @ show_nat (n div 2 ^ 16 mod 256) @ ''.'' @
     show_nat (n div 2 ^ 8 mod 256) @ ''.'' @ show_nat (n mod 256)"

lemma decimal_ip_dotted: "n < 2 ^ 32 \<Longrightarrow> decimal_ip n = dotted n"
  by (simp add: decimal_ip_def dotted_def ip_byte_nat unat_of_nat Let_def)

lemma show_nat_chars: "c \<in> set (show_nat n) \<Longrightarrow> CHR ''0'' \<le> c \<and> c \<le> CHR ''9''"
  using show_nat_digits [of n] all_digits_chars by blast

lemmas show_nat_facts = digit_char_facts [OF show_nat_chars]

lemma show_nat_not_Nil [simp]: "show_nat n \<noteq> []"
  using show_nat_digits [of n] by (simp add: all_digits_def)

lemma no_dot: "CHR ''.'' \<notin> set (show_nat n)"
  using show_nat_facts(3) by blast

lemma split_dotted:
  "js_split (CHR ''.'') (dotted n) =
     [show_nat (n div 2 ^ 24 mod 256), show_nat (n div 2 ^ 16 mod 256),
      show_nat (n div 2 ^ 8 mod 256), show_nat (n mod 256)]"
  by (simp add: dotted_def js_split_append js_split_single no_dot)

lemma byte_octet: "x < 256 \<Longrightarrow> \<not> not_octet (Fin (of_nat x))"
  by (simp add: not_octet_def fin_in_def)

lemma isPrivate_bytes:
  fixes a b c d :: nat
  assumes "js_split (CHR ''.'') ip = map show_nat [a, b, c, d]" "a < 256" "b < 256" "c < 256" "d < 256"
  shows "isPrivateIPv4 ip \<longleftrightarrow> a = 0 \<or> a = 10 \<or> a = 127 \<or> a = 169 \<and> b = 254 \<or>
    a = 172 \<and> 16 \<le> b \<and> b \<le> 31 \<or> a = 192 \<and> b = 168"
proof -
  have eq: "of_nat x = (numeral k :: rat) \<longleftrightarrow> x = numeral k" for x k
    by (metis of_nat_eq_iff of_nat_numeral)
  have le: "(numeral k :: rat) \<le> of_nat x \<longleftrightarrow> numeral k \<le> x" "of_nat x \<le> (numeral k :: rat) \<longleftrightarrow> x \<le> numeral k" for x k
    by (metis of_nat_le_iff of_nat_numeral)+
  have z: "of_nat x = (0 :: rat) \<longleftrightarrow> x = 0" for x by simp
  show ?thesis
    using assms by (simp add: isPrivateIPv4_def js_Number_show_nat byte_octet eq le z fin_in_def)
qed

lemma private_range_bytes:
  assumes "n < 2 ^ 32"
  shows "private_range n \<longleftrightarrow> (let a = n div 2 ^ 24 mod 256; b = n div 2 ^ 16 mod 256 in
    a = 0 \<or> a = 10 \<or> a = 127 \<or> a = 169 \<and> b = 254 \<or> a = 172 \<and> 16 \<le> b \<and> b \<le> 31 \<or> a = 192 \<and> b = 168)"
proof -
  define q where "q = n div 65536"
  define a where "a = q div 256"
  define b where "b = q mod 256"
  have q: "q < 65536" using assms by (simp add: q_def)
  have ab: "n div 2 ^ 24 mod 256 = a" "n div 2 ^ 16 mod 256 = b"
    using q div_mult2_eq [of n 65536 256] by (simp_all add: a_def b_def q_def)
  have qab: "q = a * 256 + b" "b < 256" by (simp_all add: a_def b_def)
  have le: "k * 65536 \<le> n \<longleftrightarrow> k \<le> q" for k
    unfolding q_def by (simp add: less_eq_div_iff_mult_less_eq)
  have lt: "n < k * 65536 \<longleftrightarrow> q < k" for k
    using le [of k] by (meson not_less)
  have "private_range n \<longleftrightarrow> q < 0x100 \<or> 0xA00 \<le> q \<and> q < 0xB00 \<or> 0x7F00 \<le> q \<and> q < 0x8000 \<or>
      0xA9FE \<le> q \<and> q < 0xA9FF \<or> 0xAC10 \<le> q \<and> q < 0xAC20 \<or> 0xC0A8 \<le> q \<and> q < 0xC0A9"
    using le [of "0xA00"] lt [of "0x100"] lt [of "0xB00"] le [of "0x7F00"] lt [of "0x8000"]
      le [of "0xA9FE"] lt [of "0xA9FF"] le [of "0xAC10"] lt [of "0xAC20"] le [of "0xC0A8"] lt [of "0xC0A9"]
    by (simp add: private_range_def)
  also have "\<dots> \<longleftrightarrow> a = 0 \<or> a = 10 \<or> a = 127 \<or> a = 169 \<and> b = 254 \<or> a = 172 \<and> 16 \<le> b \<and> b \<le> 31 \<or>
      a = 192 \<and> b = 168"
  proof -
    have le2: "x * 256 + y \<le> q \<longleftrightarrow> x < a \<or> x = a \<and> y \<le> b" if "y < 256" for x y
      using that qab by (cases x a rule: linorder_cases) auto
    have lt2: "q < x * 256 + y \<longleftrightarrow> a < x \<or> x = a \<and> b < y" if "y < 256" for x y
      using le2 [OF that, of x] by auto
    have "q < 0x100 \<longleftrightarrow> a = 0" using lt2 [of 0 1] by auto
    moreover have "0xA00 \<le> q \<and> q < 0xB00 \<longleftrightarrow> a = 10" using le2 [of 0 10] lt2 [of 0 11] by auto
    moreover have "0x7F00 \<le> q \<and> q < 0x8000 \<longleftrightarrow> a = 127" using le2 [of 0 127] lt2 [of 0 128] by auto
    moreover have "0xA9FE \<le> q \<and> q < 0xA9FF \<longleftrightarrow> a = 169 \<and> b = 254"
      using le2 [of 254 169] lt2 [of 255 169] by auto
    moreover have "0xAC10 \<le> q \<and> q < 0xAC20 \<longleftrightarrow> a = 172 \<and> 16 \<le> b \<and> b \<le> 31"
      using le2 [of 16 172] lt2 [of 32 172] by auto
    moreover have "0xC0A8 \<le> q \<and> q < 0xC0A9 \<longleftrightarrow> a = 192 \<and> b = 168"
      using le2 [of 168 192] lt2 [of 169 192] by auto
    ultimately show ?thesis by blast
  qed
  finally show ?thesis unfolding Let_def ab .
qed

lemma isPrivate_dotted:
  assumes "n < 2 ^ 32"
  shows "isPrivateIPv4 (dotted n) \<longleftrightarrow> private_range n"
proof -
  have lt: "m mod 256 < (256::nat)" for m by simp
  have "js_split (CHR ''.'') (dotted n) = map show_nat
      [n div 2 ^ 24 mod 256, n div 2 ^ 16 mod 256, n div 2 ^ 8 mod 256, n mod 256]"
    by (simp only: split_dotted list.map)
  from isPrivate_bytes [OF this lt lt lt lt] show ?thesis
    unfolding private_range_bytes [OF assms] Let_def .
qed

text \<open>Reading a numeric host name.\<close>

lemma re_test_start_iff:
  "re_test (RSeq RStart r) s \<longleftrightarrow> (\<exists>q. rmatch r (None, s) q)"
proof -
  have "re_test (RSeq RStart r) s \<longleftrightarrow>
      (\<exists>pre rest q. s = pre @ rest \<and> before None pre = None \<and> rmatch r (before None pre, rest) q)"
    by (simp add: re_test_iff) metis
  also have "\<dots> \<longleftrightarrow> (\<exists>q. rmatch r (None, s) q)"
    by (auto simp: before_def simp del: split_paired_Ex)
  finally show ?thesis .
qed

lemma all_numeric_iff: "re_test all_numeric_re s \<longleftrightarrow> s \<noteq> [] \<and> list_all is_digit_char s"
proof -
  have "re_test all_numeric_re s \<longleftrightarrow>
      (\<exists>q. rmatch (RSeq rdigit (RSeq (RStar rdigit) REnd)) (None, s) q)"
    by (auto simp: all_numeric_re_def re_test_start_iff rplus_def)
  also have "\<dots> \<longleftrightarrow> s \<noteq> [] \<and> list_all is_digit_char s"
    by (cases s) (auto simp: rdigit_def rmatch_star_class list_all_iff before_def)
  finally show ?thesis .
qed

lemma radix_digit_digit: "is_digit_char c \<Longrightarrow> is_radix_digit 10 c"
proof -
  assume "is_digit_char c"
  then have "48 \<le> (of_char c :: nat)" "(of_char c :: nat) \<le> 57"
    by (simp_all add: is_digit_char_def less_eq_char_def)
  then show ?thesis
    by (auto simp: is_radix_digit_def digit_value_def less_eq_char_def)
qed

lemma parseInt_show_nat: "parseInt (show_nat n) 10 = Some (int n)"
proof -
  let ?s = "show_nat n"
  have d: "digits_value 10 ?s = n" "list_all (is_radix_digit 10) ?s"
    using show_nat_digits [of n] by (auto simp: all_digits_def)
  have trim: "js_trimStart ?s = ?s"
    using show_nat_facts(1) by (simp add: js_trimStart_def dropWhile_eq_self_iff)
  have sign: "split_sign ?s = (False, ?s)"
    using show_nat_facts(4,5) [of _ n] by (auto simp: split_sign_def split: list.splits)
  have take: "takeWhile (is_radix_digit 10) ?s = ?s"
    using d(2) by (simp add: list_all_iff)
  show ?thesis unfolding parseInt_def Let_def trim sign prod.case take by (simp add: d(1))
qed

text \<open>A host whose first character is a digit passes the named-host and IPv6 tests.\<close>

lemma internal_host_digit:
  assumes "CHR ''0'' \<le> c" "c \<le> CHR ''9''" and s: "CHR '':'' \<notin> set s"
  shows "internal_host (c # s) =
    (if re_test all_numeric_re (c # s) then internal_numeric (c # s)
     else if re_test octal_re (c # s) then
        (case octal_ip (c # s) of
           Some ip \<Rightarrow> if isPrivateIPv4 ip then Some (''Octal IP '' @ (c # s) @ '' = '' @ ip @ '' (private)'')
                      else internal_dotted (c # s)
         | None \<Rightarrow> internal_dotted (c # s))
      else internal_dotted (c # s))"
proof -
  note f = digit_char_facts [OF conjI [OF assms(1,2)]]
  have "s \<noteq> '':0:0:0:0:0:0:1''" "s \<noteq> '':0:0:0:0:0:0:0''" using s by auto
  then show ?thesis using f by (simp add: internal_host_def METADATA_HOSTS_def)
qed

lemma show_nat_Cons:
  obtains c cs where "show_nat n = c # cs" "CHR ''0'' \<le> c" "c \<le> CHR ''9''"
    "n \<noteq> 0 \<Longrightarrow> c \<noteq> CHR ''0''"
proof -
  have "n \<noteq> 0 \<Longrightarrow> hd (show_nat n) \<noteq> CHR ''0''"
  proof (induction n rule: show_nat.induct)
    case (1 n)
    show ?case
    proof (cases "n < 10")
      case True
      have "digit_value (CHR ''0'') = Some 0" by (simp add: digit_value_def)
      with 1 True show ?thesis using char_of_digit [of n] by (auto simp: show_nat.simps)
    next
      case False
      with 1 have "hd (show_nat (n div 10)) \<noteq> CHR ''0''" by simp
      with False show ?thesis by (subst show_nat.simps) simp
    qed
  qed
  then show ?thesis
    using that show_nat_chars [of _ n] by (cases "show_nat n") auto
qed

lemma show_nat_length: "n < 256 \<Longrightarrow> length (show_nat n) \<le> 3"
proof -
  assume n: "n < 256"
  then have "n div 10 div 10 < 10" by simp
  then show ?thesis
    by (subst show_nat.simps, subst show_nat.simps, subst show_nat.simps) simp
qed

lemma rmatch_upto3:
  assumes "list_all is_digit_char u" "u \<noteq> []" "length u \<le> 3"
  shows "rmatch (rrep_range 1 3 rdigit) (b, u @ s) (Some (last u), s)"
proof -
  obtain x v where u: "u = x # v" using assms(2) by (cases u) auto
  with assms have "v = [] \<or> (\<exists>y. v = [y]) \<or> (\<exists>y z. v = [y, z])"
    by (cases v; cases "tl v") auto
  with u assms(1) show ?thesis
    by (auto simp: rrep_range_def rdigit_def ropt_def numeral_2_eq_2 numeral_3_eq_3)
qed

lemma dotted_re_dotted: "re_test dotted_re (dotted n)"
proof -
  have m: "rmatch (rrep_range 1 3 rdigit) (b, show_nat (x mod 256) @ s) (Some (last (show_nat (x mod 256))), s)" for b x s
    by (rule rmatch_upto3) (use show_nat_facts(18) show_nat_length in \<open>auto simp: list_all_iff\<close>)
  have e: "rmatch (rrep_range 1 3 rdigit) (b, show_nat (x mod 256)) (Some (last (show_nat (x mod 256))), [])" for b x
    using m [of b x "[]"] by simp
  have d: "rmatch (rlit ''.'') (b, CHR ''.'' # s) (Some (CHR ''.''), s)" for b s by simp
  show ?thesis
    unfolding dotted_re_def rseqs.simps re_test_start_iff dotted_def append_Cons append_Nil
    by (rule exI, (rule rm_seq, (rule m | rule d | rule e))+, rule rm_end)
qed

lemma no_internal_suffix: "first_map (\<lambda>suffix. if js_endsWith (dotted n) suffix
    then Some (''Internal hostname suffix: '' @ suffix) else None) INTERNAL_SUFFIXES = None"
proof -
  have l: "CHR ''0'' \<le> last (dotted n)" "last (dotted n) \<le> CHR ''9''"
    using show_nat_chars [of "last (show_nat (n mod 256))" "n mod 256"] by (auto simp: dotted_def)
  have "\<not> js_endsWith (dotted n) suf" if "suf \<noteq> []" "CHR ''9'' < last suf" for suf
    using l that by (auto simp: js_endsWith_iff)
  then show ?thesis
    by (simp add: first_map_None_iff INTERNAL_SUFFIXES_def less_char_def)
qed

lemma internal_host_dotted:
  assumes n: "n < 2 ^ 32"
  shows "internal_host (dotted n) \<noteq> None \<longleftrightarrow> private_range n"
proof -
  let ?a = "n div 2 ^ 24 mod 256"
  obtain c cs where c: "show_nat ?a = c # cs" "CHR ''0'' \<le> c" "c \<le> CHR ''9''"
    "?a \<noteq> 0 \<Longrightarrow> c \<noteq> CHR ''0''" using show_nat_Cons [of ?a] by blast
  define s where "s = cs @ ''.'' @ show_nat (n div 2 ^ 16 mod 256) @ ''.'' @
     show_nat (n div 2 ^ 8 mod 256) @ ''.'' @ show_nat (n mod 256)"
  have ds: "dotted n = c # s" unfolding dotted_def c(1) s_def by simp
  have colon: "CHR '':'' \<notin> set (show_nat m)" for m using show_nat_facts(13) by blast
  then have "CHR '':'' \<notin> set s" using colon [of ?a] unfolding s_def c(1) by simp
  note host = internal_host_digit [OF c(2,3) this, folded ds]
  have "\<not> re_test all_numeric_re (dotted n)"
    by (simp add: all_numeric_iff dotted_def is_digit_char_def less_eq_char_def)
  moreover have "\<not> re_test octal_re (dotted n)" if "\<not> private_range n"
  proof -
    have "?a \<noteq> 0" using that private_range_bytes [OF n] by (auto simp: Let_def)
    then show ?thesis
      using c(4) by (auto simp: octal_re_def re_test_start_iff ds simp del: split_paired_Ex)
  qed
  ultimately show ?thesis
    using isPrivate_dotted [OF n] dotted_re_dotted [of n] no_internal_suffix [of n]
    by (auto simp: host internal_dotted_def split: option.splits)
qed

lemma internal_host_numeric:
  "internal_host (show_nat n) \<noteq> None \<longleftrightarrow> n < 2 ^ 32 \<and> private_range n"
proof -
  obtain c cs where c: "show_nat n = c # cs" "CHR ''0'' \<le> c" "c \<le> CHR ''9''" using show_nat_Cons [of n] by blast
  have "CHR '':'' \<notin> set cs" using show_nat_facts(13) [of _ n] c(1) by auto
  note host = internal_host_digit [OF c(2,3) this, folded c(1)]
  have "re_test all_numeric_re (show_nat n)"
    using show_nat_facts(18) by (auto simp: all_numeric_iff list_all_iff)
  then have "internal_host (show_nat n) \<noteq> None \<longleftrightarrow> n \<le> 0xFFFFFFFF \<and> isPrivateIPv4 (decimal_ip n)"
    by (auto simp: host internal_numeric_def parseInt_show_nat)
  also have "\<dots> \<longleftrightarrow> n < 2 ^ 32 \<and> private_range n"
    using decimal_ip_dotted [of n] isPrivate_dotted [of n] by auto
  finally show ?thesis .
qed

section \<open>Levels of the layers\<close>

lemma classifyShellCommand_level:
  assumes "js_trim c \<noteq> []"
  shows "map_option in_level (classifyShellCommand c) =
    (let v = validateCommand c no_options in
     if \<not> safe v then Some (if vlevel v = Blocked then NEVER else MACHINE)
     else if intent_levels c = {} then None else Some (Max (intent_levels c)))"
proof -
  have "c \<noteq> []" using assms by (auto simp: js_trim_def js_trimStart_def)
  with assms show ?thesis
    using unsafe_not_Ok [of c no_options]
    by (cases "vlevel (validateCommand c no_options)")
      (auto simp: classifyShellCommand_def Let_def flagged_shell_def intent_result_level)
qed

lemma level_zone_result [simp]: "level (zone_result l r k) = l" "zoneName (zone_result l r k) = ZONE_LEVEL_NAMES l"
  by (simp_all add: zone_result_def)

lemma level_analysed [simp]: "level (analysed l r) = l" "zoneName (analysed l r) = ZONE_LEVEL_NAMES l"
  by (simp_all add: analysed_def)

lemma classify_command_level:
  assumes "js_trim c \<noteq> []"
  shows "level (classify_command c) =
    (let v = validateCommand c no_options in
     if \<not> safe v then (if vlevel v = Blocked then NEVER else MACHINE)
     else Max (insert BUILD (intent_levels c)))"
proof -
  have "level (classify_command c) =
      (case map_option in_level (classifyShellCommand c) of Some l \<Rightarrow> max l BUILD | None \<Rightarrow> BUILD)"
    by (simp add: classify_command_def split: option.splits)
  then show ?thesis
    using finite_intent_levels [of c]
    by (simp add: classifyShellCommand_level [OF assms] Let_def max.commute zone_order)
qed

lemma classify_command_floor: "BUILD \<le> level (classify_command c)"
  by (simp add: classify_command_def split: option.splits)

lemma classifyFilePath_level: "classifyFilePath i w = Some r \<Longrightarrow> in_level r = MACHINE \<and> in_severityTag r \<noteq> None"
  by (auto simp: classifyFilePath_def sensitive_path_def machine_path_def system_dir_result_def first_map_Some_iff
      split: option.splits if_splits)

lemma shell_tool_exact: "isShellTool n \<Longrightarrow> EXACT_ZONE_MAP n = Some BUILD"
  by (auto simp: isShellTool_def EXACT_ZONE_MAP_def)

text \<open>A shell tool's command goes straight from the overrides to the command analysis.\<close>

lemma classify_shell_call:
  assumes "isShellTool (zc_toolName ctx)" "str_field (zc_input ctx) ''command'' = Some c"
    "classify_override ctx ovs = None"
  shows "classifyToolCall u ctx ovs = classify_command c"
  using assms shell_tool_exact [OF assms(1)]
  by (simp add: classifyToolCall_def classify_exact_def classify_category_def)

lemma classify_override_None_iff:
  "classify_override ctx ovs = None \<longleftrightarrow>
     (\<forall>ov \<in> set (nullish ovs []). \<not> matchesPattern (zc_toolName ctx) (ov_toolPattern ov))"
  by (auto simp: classify_override_def first_map_None_iff)

text \<open>Every classification carries the name of its level.\<close>

definition named :: "ZoneClassification \<Rightarrow> bool" where
  "named k \<longleftrightarrow> zoneName k = ZONE_LEVEL_NAMES (level k)"

lemma named_intros [simp]: "named (zone_result l r k)" "named (analysed l r')"
  by (simp_all add: named_def)

lemma named_exact: "classify_exact ctx = Some k \<Longrightarrow> named k"
  by (auto simp: classify_exact_def split: option.splits if_splits)

lemma named_override: "classify_override ctx ovs = Some k \<Longrightarrow> named k"
  by (auto simp: classify_override_def first_map_Some_iff split: if_splits)

lemma named_category: "classify_category ctx = Some k \<Longrightarrow> named k"
  by (auto simp: classify_category_def split: if_splits)

lemma named_rest: "named (classify_command c)" "named (classify_rest u ctx)"
  by (simp_all add: classify_command_def classify_rest_def classify_url_def split: option.split prod.split)

lemma named_classify: "named (classifyToolCall u ctx ovs)"
  by (simp add: classifyToolCall_def named_rest split: option.split)
    (blast dest: named_exact named_override named_category)

section \<open>Properties\<close>


text \<open>\<open>git push\<close> meets no pattern of the validator and one level of the intent table.\<close>

lemma push_clean:
  "\<not> hits LEVEL1_BLOCKED ''git push''" "\<not> hits LEVEL2_DANGEROUS ''git push''"
  "\<not> hits LEVEL3_INJECTION ''git push''" "\<not> hits LEVEL4_EXFILTRATION ''git push''"
  "\<not> hits LEVEL5_SENSITIVE ''git push''"
  unfolding scan_table_None_iff [symmetric, of _ _ Blocked] by code_simp+

lemma push_intents: "intent_levels ''git push'' = {EXTERNAL}"
proof -
  have "map (\<lambda>(re, l, r). l) (filter (\<lambda>(re, l, r). re_test re ''git push'') SHELL_INTENT_PATTERNS) = [EXTERNAL]"
    by code_simp
  then show ?thesis by (simp only: intent_levels_def) simp
qed

text \<open>A context with only a tool name, an input and a workspace.\<close>

definition call_ctx :: "string \<Rightarrow> obj \<Rightarrow> string option \<Rightarrow> ZoneContext" where
  "call_ctx n i w = \<lparr>zc_toolName = n, zc_input = i, zc_toolCategory = None, zc_toolIsReadOnly = None,
     zc_sessionId = [], zc_agentId = None, zc_workspacePath = w\<rparr>"

lemma call_ctx_simps [simp]:
  "zc_toolName (call_ctx n i w) = n" "zc_input (call_ctx n i w) = i" "zc_workspacePath (call_ctx n i w) = w"
  "zc_toolCategory (call_ctx n i w) = None" "zc_toolIsReadOnly (call_ctx n i w) = None"
  by (simp_all add: call_ctx_def)


text \<open>
  C32: Path analysis only raises. A tool of the exact table (other than a shell tool with a
  command) gets its table level, or \<open>MACHINE\<close> when its path argument is problematic and the table
  level is lower; in the second case the classification carries a severity. No override, category
  or other input changes it.
\<close>

theorem exact_zone_only_raised:
  assumes "EXACT_ZONE_MAP (zc_toolName ctx) = Some z"
    and "\<not> (isShellTool (zc_toolName ctx) \<and> str_field (zc_input ctx) ''command'' \<noteq> None)"
  shows "let k = classifyToolCall url_hostname ctx ovs in
    z \<le> level k
    \<and> (level k = z \<and> classifier k = LExact \<and> severityTag k = None
       \<or> level k = MACHINE \<and> classifier k = LInputAnalysis \<and> severityTag k \<noteq> None)
    \<and> (level k = z \<longleftrightarrow> classifyFilePath (zc_input ctx) (zc_workspacePath ctx) = None \<or> MACHINE \<le> z)"
proof (cases "classifyFilePath (zc_input ctx) (zc_workspacePath ctx)")
  case None
  with assms show ?thesis
    by (auto simp: Let_def classifyToolCall_def classify_exact_def zone_result_def)
next
  case (Some r)
  with classifyFilePath_level [OF Some] assms show ?thesis
    by (auto simp: Let_def classifyToolCall_def classify_exact_def zone_result_def analysed_def)
qed

theorem exact_zone_only_raised_witness:
  "level (classifyToolCall (\<lambda>_. None) (call_ctx ''readFile'' [(''path'', JStr ''/etc/passwd'')] (Some ''/ws'')) None) = MACHINE"
proof -
  have p: "classifyFilePath [(''path'', JStr ''/etc/passwd'')] (Some ''/ws'') \<noteq> None" by code_simp
  have z: "EXACT_ZONE_MAP ''readFile'' = Some SAFE" by (simp add: EXACT_ZONE_MAP_def)
  show ?thesis
    using exact_zone_only_raised [of "call_ctx ''readFile'' [(''path'', JStr ''/etc/passwd'')] (Some ''/ws'')" SAFE "\<lambda>_. None" None] p z
    by (auto simp: Let_def isShellTool_def zone_order)
qed

text \<open>
  SSRF screening is exact on IPv4 addresses. Whatever the URL parser is, when it answers with
  the canonical dotted form of a 32-bit address, or with its decimal form, the URL is classified
  as internal exactly when the address lies in one of the private or reserved blocks.
\<close>

theorem ssrf_ipv4_exact:
  assumes "n < 2 ^ 32" and "url_hostname url = Some (dotted n) \<or> url_hostname url = Some (show_nat n)"
  shows "level (classify_url url_hostname url) = (if private_range n then MACHINE else NETWORK)"
proof -
  have low: "js_toLowerCase s = s" if "\<And>c. c \<in> set s \<Longrightarrow> \<not> (CHR ''A'' \<le> c)" for s
  proof -
    have "lower_char c = c" if "\<not> (CHR ''A'' \<le> c)" for c
      using that by (auto simp: lower_char_def less_eq_char_def)
    with that show ?thesis by (simp add: js_toLowerCase_def map_idI)
  qed
  have ch: "\<not> (CHR ''A'' \<le> c)" "c \<noteq> CHR ''[''" "c \<noteq> CHR '']''"
    if "c \<in> set (dotted n) \<or> c \<in> set (show_nat n)" for c
    using that show_nat_chars by (auto simp: dotted_def less_eq_char_def dest!: show_nat_chars)
  have strip: "strip_brackets s = s" if "CHR ''['' \<notin> set s" "CHR '']'' \<notin> set s" for s
    using that by (auto simp: strip_brackets_def js_startsWith_iff js_endsWith_iff Let_def)
  obtain h where h: "url_hostname url = Some h" "h = dotted n \<or> h = show_nat n" using assms(2) by auto
  have "js_toLowerCase h = h" "strip_brackets h = h" using h(2) low [of h] strip [of h] ch by blast+
  moreover have "internal_host h \<noteq> None \<longleftrightarrow> private_range n"
    using h(2) internal_host_dotted [OF assms(1)] internal_host_numeric [of n] assms(1) by auto
  ultimately show ?thesis
    by (auto simp: classify_url_def isInternalUrl_def h(1) split: option.splits)
qed

theorem ssrf_ipv4_exact_witness:
  "level (classify_url (\<lambda>_. Some (dotted 2130706433)) ''http://127.0.0.1/'') = MACHINE"
  using ssrf_ipv4_exact [of 2130706433 "\<lambda>_. Some (dotted 2130706433)" "''http://127.0.0.1/''"]
  by (simp add: private_range_def)

text \<open>
  The workspace test is a string prefix test. A file of a sibling directory whose name extends
  the workspace's name is classified like a file of the workspace.
\<close>

theorem sibling_directory_passes:
  "level (classifyToolCall url_hostname (call_ctx ''readFile'' [(''path'', JStr ''/home/u/app-secrets/db.txt'')]
     (Some ''/home/u/app'')) ovs) = SAFE"
proof -
  have "classifyFilePath [(''path'', JStr ''/home/u/app-secrets/db.txt'')] (Some ''/home/u/app'') = None"
    by code_simp
  then show ?thesis
    by (simp add: classifyToolCall_def classify_exact_def EXACT_ZONE_MAP_def isShellTool_def)
qed

text \<open>
  IPv4-mapped IPv6 hosts are only recognised in dotted form. In the form a standard URL parser
  prints them (hexadecimal groups), the mapped loopback address is not internal.
\<close>

theorem mapped_loopback_missed:
  "isInternalUrl (\<lambda>_. Some ''[::ffff:7f00:1]'') url = None
   \<and> isInternalUrl (\<lambda>_. Some ''[::ffff:127.0.0.1]'') url \<noteq> None"
proof
  show "isInternalUrl (\<lambda>_. Some ''[::ffff:7f00:1]'') url = None" by code_simp
  show "isInternalUrl (\<lambda>_. Some ''[::ffff:127.0.0.1]'') url \<noteq> None" by code_simp
qed

end
