(* ===== verification/ZoneCombinations.thy ===== *)
theory ZoneCombinations
  imports ZoneTypes
begin

text \<open>
  Detection of dangerous combinations of calls (packages/loom/src/zones/combinations.ts): trigger
  matching, the backtracking assignment of triggers to distinct calls, and the sliding-window
  tracker. \<open>Date.now()\<close> is the argument \<open>now\<close> of the operations that read the clock.
\<close>

definition DEFAULT_WINDOW_MS :: int where "DEFAULT_WINDOW_MS = 60000"

definition DEFAULT_MAX_HISTORY :: nat where "DEFAULT_MAX_HISTORY = 100"

text \<open>An entry of the history: the recorded call with its input.\<close>

record HistoryEntry = CombinationToolEntry +
  entry_input :: "obj option"

section \<open>Trigger matching\<close>

text \<open>
  A trigger's tool pattern becomes the source of a regular expression without escaping. \<open>None\<close> is
  a source that is not a sequence of literals, dots and stars (it may fail to compile).
\<close>

definition tool_pattern_test :: "string \<Rightarrow> string \<Rightarrow> bool option" where
  "tool_pattern_test pattern toolName =
     (if pattern = ''*'' then Some True
      else if js_includes pattern ''*'' then anchored_test (js_replaceAll ''*'' ''.*'' pattern) toolName
      else Some (toolName = pattern))"

definition matchesTrigger :: "HistoryEntry \<Rightarrow> CombinationTrigger \<Rightarrow> bool option" where
  "matchesTrigger e t =
     (if (case trigger_zone t of Some z \<Rightarrow> entry_zone e < z | None \<Rightarrow> False) then Some False
      else (case (case trigger_toolPattern t of Some p \<Rightarrow> tool_pattern_test p (entry_toolName e) | None \<Rightarrow> Some True) of
              None \<Rightarrow> None
            | Some False \<Rightarrow> Some False
            | Some True \<Rightarrow>
                (case (trigger_inputPattern t, entry_input e) of
                   (Some re, Some i) \<Rightarrow> Some (re_test re (json_stringify (JObj i)))
                 | _ \<Rightarrow> Some True)))"

section \<open>Assignment\<close>

text \<open>
  The search \<open>place\<close> over the triggers from one index on, for a given matching predicate: the
  pinned trigger is skipped, the others try the candidates in order. The result is the chosen
  candidate of each remaining trigger.
\<close>

fun place ::
  "('e \<Rightarrow> 't \<Rightarrow> bool) \<Rightarrow> 'e list \<Rightarrow> nat \<Rightarrow> nat \<Rightarrow> 't list \<Rightarrow> nat \<Rightarrow> nat list \<Rightarrow> nat list option" where
  "place m cands t req [] idx used = Some []"
| "place m cands t req (trig # trigs) idx used =
     (if idx = t then map_option ((#) req) (place m cands t req trigs (Suc idx) used)
      else first_map (\<lambda>i. if i \<in> set used \<or> \<not> m (cands ! i) trig then None
                          else map_option ((#) i) (place m cands t req trigs (Suc idx) (i # used)))
             [0..<length cands])"

text \<open>The outer loop pins the required call to each trigger it satisfies in turn.\<close>

definition assign :: "('e \<Rightarrow> 't \<Rightarrow> bool) \<Rightarrow> 't list \<Rightarrow> 'e list \<Rightarrow> nat \<Rightarrow> nat list option" where
  "assign m triggers candidates requiredIndex =
     first_map (\<lambda>t. if m (candidates ! requiredIndex) (triggers ! t)
                    then place m candidates t requiredIndex triggers 0 [requiredIndex] else None)
       [0..<length triggers]"

text \<open>\<open>None\<close>: some trigger's pattern is outside the fragment for some candidate.\<close>

definition assignTriggersToDistinctCalls ::
  "CombinationTrigger list \<Rightarrow> HistoryEntry list \<Rightarrow> nat \<Rightarrow> nat list option option" where
  "assignTriggersToDistinctCalls triggers candidates requiredIndex =
     (if list_all (\<lambda>e. list_all (\<lambda>t. matchesTrigger e t \<noteq> None) triggers) candidates
      then Some (assign (\<lambda>e t. matchesTrigger e t = Some True) triggers candidates requiredIndex)
      else None)"

section \<open>The tracker\<close>

record CombinationTracker =
  history :: "HistoryEntry list"
  maxHistory :: nat

definition tracker_new :: CombinationTracker where
  "tracker_new = \<lparr>history = [], maxHistory = DEFAULT_MAX_HISTORY\<rparr>"

text \<open>\<open>while (this.history.length > this.maxHistory) this.history.shift()\<close>.\<close>

fun shift_while :: "nat \<Rightarrow> 'a list \<Rightarrow> 'a list" where
  "shift_while n [] = []"
| "shift_while n (x # xs) = (if length (x # xs) > n then shift_while n xs else x # xs)"

definition mk_entry :: "int \<Rightarrow> string \<Rightarrow> ZoneLevel \<Rightarrow> obj option \<Rightarrow> HistoryEntry" where
  "mk_entry now toolName z input = \<lparr>entry_toolName = toolName, entry_zone = z, entry_timestamp = now,
     entry_tags = [], entry_input = input\<rparr>"

definition tracker_record ::
  "int \<Rightarrow> string \<Rightarrow> ZoneLevel \<Rightarrow> obj option \<Rightarrow> CombinationTracker \<Rightarrow> CombinationTracker" where
  "tracker_record now toolName z input tr =
     tr\<lparr>history := shift_while (maxHistory tr) (history tr @ [mk_entry now toolName z input])\<rparr>"

definition window_candidates :: "int \<Rightarrow> CombinationRule \<Rightarrow> HistoryEntry list \<Rightarrow> HistoryEntry \<Rightarrow> HistoryEntry list" where
  "window_candidates now rule hist cur =
     filter (\<lambda>e. now - entry_timestamp e \<le> nullish (combo_windowMs rule) DEFAULT_WINDOW_MS) hist @ [cur]"

definition block_reason :: "CombinationRule \<Rightarrow> HistoryEntry list \<Rightarrow> nat list \<Rightarrow> CombinationBlockReason" where
  "block_reason rule candidates assignment =
     (let currentIndex = length candidates - 1;
          contributors = map (\<lambda>i. candidates ! i) (filter (\<lambda>i. i \<noteq> currentIndex) assignment)
      in \<lparr>block_rule = combo_name rule,
          block_recentTools = map (\<lambda>e. \<lparr>entry_toolName = entry_toolName e, entry_zone = entry_zone e,
             entry_timestamp = entry_timestamp e,
             entry_tags = map trigger_tag (filter (\<lambda>t. matchesTrigger e t = Some True) (combo_triggers rule))\<rparr>)
            contributors,
          block_explanation = combo_description rule\<rparr>)"

fun check_rules ::
  "int \<Rightarrow> HistoryEntry list \<Rightarrow> HistoryEntry \<Rightarrow> CombinationRule list \<Rightarrow> CombinationBlockReason option option" where
  "check_rules now hist cur [] = Some None"
| "check_rules now hist cur (rule # rules) =
     (let candidates = window_candidates now rule hist cur in
      case assignTriggersToDistinctCalls (combo_triggers rule) candidates (length candidates - 1) of
        None \<Rightarrow> None
      | Some None \<Rightarrow> check_rules now hist cur rules
      | Some (Some assignment) \<Rightarrow> Some (Some (block_reason rule candidates assignment)))"

definition tracker_check ::
  "int \<Rightarrow> string \<Rightarrow> ZoneLevel \<Rightarrow> obj \<Rightarrow> CombinationRule list \<Rightarrow> CombinationTracker \<Rightarrow>
   CombinationBlockReason option option" where
  "tracker_check now currentTool currentZone currentInput rules tr =
     (if rules = [] then Some None
      else check_rules now (history tr) (mk_entry now currentTool currentZone (Some currentInput)) rules)"

definition getRecent :: "int \<Rightarrow> int \<Rightarrow> CombinationTracker \<Rightarrow> CombinationToolEntry list" where
  "getRecent now windowMs tr =
     map CombinationToolEntry.truncate (filter (\<lambda>e. entry_timestamp e \<ge> now - windowMs) (history tr))"

definition tracker_size :: "CombinationTracker \<Rightarrow> nat" where
  "tracker_size tr = length (history tr)"

definition tracker_clear :: "CombinationTracker \<Rightarrow> CombinationTracker" where
  "tracker_clear tr = tr\<lparr>history := []\<rparr>"

section \<open>The search finds an assignment exactly when there is one\<close>

text \<open>The specification: one distinct matching call per trigger, the required call among them.\<close>

definition valid_assignment :: "('e \<Rightarrow> 't \<Rightarrow> bool) \<Rightarrow> 't list \<Rightarrow> 'e list \<Rightarrow> nat \<Rightarrow> nat list \<Rightarrow> bool" where
  "valid_assignment m trigs cands req as \<longleftrightarrow>
     length as = length trigs \<and> distinct as \<and> req \<in> set as \<and>
     (\<forall>k < length trigs. as ! k < length cands \<and> m (cands ! (as ! k)) (trigs ! k))"

text \<open>The same, for what is left of a search with trigger \<open>t\<close> pinned.\<close>

fun fits ::
  "('e \<Rightarrow> 't \<Rightarrow> bool) \<Rightarrow> 'e list \<Rightarrow> nat \<Rightarrow> nat \<Rightarrow> 't list \<Rightarrow> nat \<Rightarrow> nat list \<Rightarrow> nat list \<Rightarrow> bool" where
  "fits m cands t req [] idx used as = (as = [])"
| "fits m cands t req (trig # trigs) idx used as =
     (case as of
        [] \<Rightarrow> False
      | i # as' \<Rightarrow>
          if idx = t then i = req \<and> fits m cands t req trigs (Suc idx) used as'
          else i < length cands \<and> i \<notin> set used \<and> m (cands ! i) trig \<and>
               fits m cands t req trigs (Suc idx) (i # used) as')"

lemma place_sound: "place m cands t req trigs idx used = Some as \<Longrightarrow> fits m cands t req trigs idx used as"
proof (induction trigs arbitrary: idx used as)
  case (Cons trig trigs)
  show ?case
  proof (cases "idx = t")
    case True
    with Cons show ?thesis by auto
  next
    case False
    with Cons.prems obtain i where "i \<in> set [0..<length cands]"
      "(if i \<in> set used \<or> \<not> m (cands ! i) trig then None
        else map_option ((#) i) (place m cands t req trigs (Suc idx) (i # used))) = Some as"
      by (simp only: place.simps if_False first_map_Some_iff) (metis in_set_conv_decomp)
    with False Cons.IH show ?thesis by (auto split: if_splits)
  qed
qed simp

lemma place_complete: "fits m cands t req trigs idx used as \<Longrightarrow> place m cands t req trigs idx used \<noteq> None"
proof (induction trigs arbitrary: idx used as)
  case (Cons trig trigs)
  then obtain i as' where as: "as = i # as'" by (cases as) auto
  show ?case
  proof (cases "idx = t")
    case True
    with Cons as show ?thesis by auto
  next
    case False
    with Cons.prems as have i: "i < length cands" "i \<notin> set used" "m (cands ! i) trig"
      and "fits m cands t req trigs (Suc idx) (i # used) as'" by auto
    then have "place m cands t req trigs (Suc idx) (i # used) \<noteq> None" using Cons.IH by blast
    with i False show ?thesis
      by (auto simp: first_map_None_iff intro!: bexI [of _ i])
  qed
qed simp

lemma fits_iff:
  "req \<in> set used \<Longrightarrow> fits m cands t req trigs idx used as \<longleftrightarrow>
     length as = length trigs \<and> distinct as \<and>
     (\<forall>k < length trigs. if idx + k = t then as ! k = req
        else as ! k < length cands \<and> as ! k \<notin> set used \<and> m (cands ! (as ! k)) (trigs ! k))"
proof (induction trigs arbitrary: idx used as)
  case (Cons trig trigs)
  show ?case
  proof (cases as)
    case (Cons i as')
    let ?Q = "\<lambda>U k. if Suc (idx + k) = t then as' ! k = req
        else as' ! k < length cands \<and> as' ! k \<notin> U \<and> m (cands ! (as' ! k)) (trigs ! k)"
    have all: "(\<forall>k < length (trig # trigs). P k) \<longleftrightarrow> P 0 \<and> (\<forall>k < length trigs. P (Suc k))" for P
      by (auto simp: less_Suc_eq_0_disj)
    have mem: "x \<in> set as' \<longleftrightarrow> (\<exists>k < length trigs. as' ! k = x)" if "length as' = length trigs" for x
      using that by (auto simp: in_set_conv_nth)
    show ?thesis
    proof (cases "idx = t")
      case True
      have "fits m cands t req (trig # trigs) idx used as \<longleftrightarrow> i = req \<and> length as' = length trigs \<and>
          distinct as' \<and> (\<forall>k < length trigs. ?Q (set used) k)"
        using True Cons Cons.IH [OF Cons.prems] by simp
      also have "\<dots> \<longleftrightarrow> i = req \<and> length as' = length trigs \<and> distinct as' \<and> req \<notin> set as' \<and>
          (\<forall>k < length trigs. ?Q (set used) k)"
        using mem True \<open>req \<in> set used\<close> by auto
      finally show ?thesis unfolding all using True Cons by auto
    next
      case False
      have "fits m cands t req (trig # trigs) idx used as \<longleftrightarrow>
          i < length cands \<and> i \<notin> set used \<and> m (cands ! i) trig \<and> length as' = length trigs \<and>
          distinct as' \<and> (\<forall>k < length trigs. ?Q (set (i # used)) k)"
        using False Cons Cons.IH [of "i # used"] Cons.prems by simp
      also have "\<dots> \<longleftrightarrow> i < length cands \<and> i \<notin> set used \<and> m (cands ! i) trig \<and> length as' = length trigs \<and>
          distinct as' \<and> i \<notin> set as' \<and> (\<forall>k < length trigs. ?Q (set used) k)"
        using mem \<open>req \<in> set used\<close> by (auto split: if_splits)
      finally show ?thesis unfolding all using False Cons by auto
    qed
  qed simp
qed auto

lemma valid_iff_fits:
  assumes "req < length cands"
  shows "valid_assignment m trigs cands req as \<longleftrightarrow>
    (\<exists>t < length trigs. m (cands ! req) (trigs ! t) \<and> fits m cands t req trigs 0 [req] as)"
proof
  assume v: "valid_assignment m trigs cands req as"
  then obtain t where t: "t < length trigs" "as ! t = req"
    by (auto simp: valid_assignment_def in_set_conv_nth)
  with v have "m (cands ! req) (trigs ! t)" by (auto simp: valid_assignment_def)
  moreover have "as ! k \<noteq> req" if "k < length trigs" "k \<noteq> t" for k
    using v t that nth_eq_iff_index_eq [of as k t] by (auto simp: valid_assignment_def)
  then have "fits m cands t req trigs 0 [req] as"
    using v t by (auto simp: fits_iff valid_assignment_def)
  ultimately show "\<exists>t < length trigs. m (cands ! req) (trigs ! t) \<and> fits m cands t req trigs 0 [req] as"
    using t by blast
next
  assume "\<exists>t < length trigs. m (cands ! req) (trigs ! t) \<and> fits m cands t req trigs 0 [req] as"
  then obtain t where t: "t < length trigs" "m (cands ! req) (trigs ! t)"
    and f: "fits m cands t req trigs 0 [req] as" by blast
  have "length as = length trigs \<and> distinct as \<and> (\<forall>k < length trigs. if k = t then as ! k = req
       else as ! k < length cands \<and> as ! k \<notin> set [req] \<and> m (cands ! (as ! k)) (trigs ! k))"
    using iffD1 [OF fits_iff [OF list.set_intros(1)] f] unfolding add_0 .
  then have l: "length as = length trigs" "distinct as"
    and k: "\<And>k. k < length trigs \<Longrightarrow> if k = t then as ! k = req
       else as ! k < length cands \<and> as ! k \<notin> set [req] \<and> m (cands ! (as ! k)) (trigs ! k)" by blast+
  from k [OF t(1)] t(1) l(1) have "req \<in> set as" by (metis nth_mem)
  moreover have "as ! k < length cands \<and> m (cands ! (as ! k)) (trigs ! k)" if "k < length trigs" for k
    using k [OF that] t(2) assms by (auto split: if_splits)
  ultimately show "valid_assignment m trigs cands req as"
    using l by (auto simp: valid_assignment_def)
qed

lemma assign_sound:
  assumes "req < length cands" "assign m trigs cands req = Some as"
  shows "valid_assignment m trigs cands req as"
proof -
  from assms(2) obtain t where "t < length trigs" "m (cands ! req) (trigs ! t)"
    "place m cands t req trigs 0 [req] = Some as"
    by (auto simp: assign_def first_map_Some_iff split: if_splits) (metis atLeastLessThan_iff in_set_conv_decomp set_upt)
  then show ?thesis using place_sound valid_iff_fits [OF assms(1)] by blast
qed

lemma assign_complete:
  assumes "req < length cands" "valid_assignment m trigs cands req as"
  shows "assign m trigs cands req \<noteq> None"
proof -
  from assms obtain t where "t < length trigs" "m (cands ! req) (trigs ! t)"
    "fits m cands t req trigs 0 [req] as" using valid_iff_fits by blast
  moreover from this(3) have "place m cands t req trigs 0 [req] \<noteq> None" by (rule place_complete)
  ultimately show ?thesis
    by (auto simp: assign_def first_map_None_iff intro!: bexI [of _ t])
qed

section \<open>The tracker as a whole\<close>

text \<open>A rule the model can decide: its triggers have no tool pattern of their own.\<close>

definition plain_rule :: "CombinationRule \<Rightarrow> bool" where
  "plain_rule r \<longleftrightarrow> list_all (\<lambda>t. trigger_toolPattern t = None) (combo_triggers r)"

text \<open>Trigger matching read directly, for such a trigger.\<close>

definition trigger_holds :: "HistoryEntry \<Rightarrow> CombinationTrigger \<Rightarrow> bool" where
  "trigger_holds e t \<longleftrightarrow>
     (\<forall>z. trigger_zone t = Some z \<longrightarrow> z \<le> entry_zone e) \<and>
     (\<forall>re i. trigger_inputPattern t = Some re \<longrightarrow> entry_input e = Some i \<longrightarrow> re_test re (json_stringify (JObj i)))"

lemma matchesTrigger_plain:
  "trigger_toolPattern t = None \<Longrightarrow> matchesTrigger e t = Some (trigger_holds e t)"
  by (auto simp: matchesTrigger_def trigger_holds_def split: option.splits)

text \<open>A rule fires on a call when the calls of its window, with the call, realise its triggers.\<close>

definition fires :: "int \<Rightarrow> HistoryEntry list \<Rightarrow> HistoryEntry \<Rightarrow> CombinationRule \<Rightarrow> bool" where
  "fires now hist cur rule \<longleftrightarrow>
     (let cands = window_candidates now rule hist cur in
      \<exists>as. valid_assignment trigger_holds (combo_triggers rule) cands (length cands - 1) as)"

lemma window_candidates_not_Nil [simp]: "window_candidates now rule hist cur \<noteq> []"
  by (simp add: window_candidates_def)

lemma valid_assignment_cong:
  assumes "\<And>e t. t \<in> set trigs \<Longrightarrow> m e t = m' e t"
  shows "valid_assignment m trigs cands req as \<longleftrightarrow> valid_assignment m' trigs cands req as"
  using assms by (auto simp: valid_assignment_def)

lemma assign_plain:
  assumes "plain_rule rule" "cands \<noteq> []"
  shows "\<exists>r. assignTriggersToDistinctCalls (combo_triggers rule) cands (length cands - 1) = Some r \<and>
    (r \<noteq> None \<longleftrightarrow> (\<exists>as. valid_assignment trigger_holds (combo_triggers rule) cands (length cands - 1) as))"
proof -
  let ?m = "\<lambda>e t. matchesTrigger e t = Some True"
  have eq: "matchesTrigger e t = Some (trigger_holds e t)" if "t \<in> set (combo_triggers rule)" for e t
    using that assms(1) by (auto simp: plain_rule_def list_all_iff intro: matchesTrigger_plain)
  have v: "valid_assignment ?m (combo_triggers rule) cands k as \<longleftrightarrow>
      valid_assignment trigger_holds (combo_triggers rule) cands k as" for k as
    by (rule valid_assignment_cong) (simp add: eq)
  have len: "length cands - 1 < length cands" using assms(2) by simp
  have "assignTriggersToDistinctCalls (combo_triggers rule) cands (length cands - 1) =
      Some (assign ?m (combo_triggers rule) cands (length cands - 1))"
    by (simp add: assignTriggersToDistinctCalls_def list_all_iff eq)
  moreover have "assign ?m (combo_triggers rule) cands (length cands - 1) \<noteq> None \<longleftrightarrow>
      (\<exists>as. valid_assignment trigger_holds (combo_triggers rule) cands (length cands - 1) as)"
    using assign_sound [OF len, of ?m] assign_complete [OF len, of ?m] v by blast
  ultimately show ?thesis by blast
qed

lemma check_rules_plain:
  assumes "list_all plain_rule rules"
  shows "\<exists>r. check_rules now hist cur rules = Some r \<and>
    (r = None \<longleftrightarrow> (\<forall>rule \<in> set rules. \<not> fires now hist cur rule)) \<and>
    (\<forall>b. r = Some b \<longrightarrow> (\<exists>rule \<in> set rules. fires now hist cur rule \<and> block_rule b = combo_name rule))"
  using assms
proof (induction rules)
  case (Cons rule rules)
  let ?c = "window_candidates now rule hist cur"
  obtain r where r: "assignTriggersToDistinctCalls (combo_triggers rule) ?c (length ?c - 1) = Some r"
    "r \<noteq> None \<longleftrightarrow> fires now hist cur rule"
    using assign_plain [of rule ?c] Cons.prems by (auto simp: fires_def Let_def)
  show ?case
  proof (cases r)
    case None
    with r Cons show ?thesis by (auto simp: Let_def)
  next
    case (Some a)
    with r show ?thesis by (auto simp: Let_def block_reason_def)
  qed
qed simp

lemma tracker_answers:
  assumes "list_all plain_rule rules"
  shows "\<exists>r. tracker_check now tool z input rules tr = Some r"
  using check_rules_plain [OF assms, of now "history tr" "mk_entry now tool z (Some input)"]
  by (auto simp: tracker_check_def)

lemma shift_while_length: "length (shift_while n xs) \<le> n"
  by (induction xs) auto

lemma shift_while_drop: "shift_while n xs = drop (length xs - n) xs"
proof (induction xs)
  case (Cons x xs)
  then show ?case by (auto simp: Suc_diff_le not_less)
qed simp

text \<open>The tracker as a machine: it records and clears.\<close>

definition tracker_step :: "CombinationTracker \<Rightarrow> CombinationTracker \<Rightarrow> bool" where
  "tracker_step t t' \<longleftrightarrow> (\<exists>now n z i. t' = tracker_record now n z i t) \<or> t' = tracker_clear t"

definition tracker_inv :: "CombinationTracker \<Rightarrow> bool" where
  "tracker_inv t \<longleftrightarrow> length (history t) \<le> maxHistory t \<and> maxHistory t = DEFAULT_MAX_HISTORY"

interpretation ctm: machine tracker_new tracker_step tracker_inv
  by unfold_locales
    (auto simp: tracker_inv_def tracker_new_def tracker_step_def tracker_record_def tracker_clear_def shift_while_length)

lemma default_rules_plain: "list_all plain_rule DEFAULT_COMBINATION_RULES"
  by (auto simp: list_all_iff plain_rule_def default_rules_no_toolPattern)

lemma cleared_never_fires:
  "tracker_check now tool z input DEFAULT_COMBINATION_RULES (tracker_clear tr) = Some None"
proof -
  have "\<not> fires now [] cur rule" if r: "rule \<in> set DEFAULT_COMBINATION_RULES" for rule cur
  proof
    assume "fires now [] cur rule"
    then obtain as where "valid_assignment trigger_holds (combo_triggers rule) [cur] 0 as"
      by (auto simp: fires_def window_candidates_def)
    then have as: "length as = 2" "distinct as" "\<forall>k < 2. as ! k = 0"
      using default_rules_two_triggers [OF r] by (auto simp: valid_assignment_def)
    then have "as ! 0 = 0" "as ! 1 = 0" by simp_all
    with as(1,2) show False using nth_eq_iff_index_eq [of as 0 1] by simp
  qed
  then show ?thesis
    using check_rules_plain [OF default_rules_plain, of now "[]"]
    by (auto simp: tracker_check_def tracker_clear_def)
qed

section \<open>Properties\<close>

text \<open>
  C7: Combination detection is exact. For rules whose triggers have no tool pattern (all the
  defaults), the check always answers; it reports a block exactly when some rule's triggers can be
  matched by pairwise distinct calls of its time window together with the current call, the
  current call being one of them; and the block it reports names such a rule.
\<close>

theorem combination_check_exact:
  assumes "list_all plain_rule rules"
  shows "\<exists>r. tracker_check now tool z input rules tr = Some r
    \<and> (r \<noteq> None \<longleftrightarrow> (\<exists>rule \<in> set rules. fires now (history tr) (mk_entry now tool z (Some input)) rule))
    \<and> (\<forall>b. r = Some b \<longrightarrow> (\<exists>rule \<in> set rules. fires now (history tr) (mk_entry now tool z (Some input)) rule
                            \<and> block_rule b = combo_name rule))"
  using check_rules_plain [OF assms, of now "history tr" "mk_entry now tool z (Some input)"]
  by (cases "rules = []") (auto simp: tracker_check_def)

theorem combination_check_exact_witness:
  "\<exists>r. tracker_check 5 ''fetch'' NETWORK [] DEFAULT_COMBINATION_RULES tracker_new = Some r"
  using combination_check_exact [OF default_rules_plain] by blast

text \<open>
  One call is not a combination. With no earlier call in the window, no default rule fires,
  whatever the call is.
\<close>

theorem single_call_never_fires:
  "tracker_check now tool z input DEFAULT_COMBINATION_RULES (tracker_clear tr) = Some None"
  by (rule cleared_never_fires)

text \<open>
  The history is bounded. However many calls are recorded, a tracker made by the constructor
  holds at most 100 entries, and they are the most recent ones.
\<close>

theorem history_bounded:
  assumes "tracker_step\<^sup>*\<^sup>* tracker_new tr"
  shows "length (history tr) \<le> 100
    \<and> history (tracker_record now n z i tr) =
        drop (Suc (length (history tr)) - 100) (history tr @ [mk_entry now n z i])"
  using ctm.inv_reachable [OF assms]
  by (simp add: tracker_inv_def DEFAULT_MAX_HISTORY_def tracker_record_def shift_while_drop)

theorem history_bounded_witness:
  "length (history (tracker_record 0 ''grep'' SAFE None tracker_new)) \<le> 100"
proof -
  have "tracker_step tracker_new (tracker_record 0 ''grep'' SAFE None tracker_new)"
    by (auto simp: tracker_step_def)
  from history_bounded [OF r_into_rtranclp [of tracker_step, OF this]] show ?thesis by blast
qed

end
