(* ===== verification/ZoneExpansion.thy ===== *)
theory ZoneExpansion
  imports ZoneTypes
begin

text \<open>
  Approvals of zone escalations (packages/loom/src/zones/expansion.ts): the tracker's list of
  grants in the order they were made, with \<open>Date.now()\<close> as the argument \<open>now\<close>.
\<close>

section \<open>Pattern matching\<close>

definition expansion_matchesGlob :: "string \<Rightarrow> string \<Rightarrow> bool" where
  "expansion_matchesGlob toolName pattern =
     (if pattern = ''*'' then True
      else if pattern = toolName then True
      else if \<not> js_includes pattern ''*'' then False
      else (case anchored_test (js_replaceAll ''*'' ''.*'' (escape_metas pattern)) toolName of
              Some b \<Rightarrow> b
            | None \<Rightarrow> False))"

section \<open>The tracker\<close>

type_synonym ZoneExpansionTracker = "ZoneExpansion list"

definition expansion_grant ::
  "int \<Rightarrow> ZoneLevel \<Rightarrow> string \<Rightarrow> ExpansionScope \<Rightarrow> int option \<Rightarrow> ZoneExpansionTracker \<Rightarrow> ZoneExpansionTracker" where
  "expansion_grant now l toolPattern scope ttlMs exps =
     exps @ [\<lparr>exp_level = l, exp_toolPattern = toolPattern, exp_grantedAt = now,
              exp_expiresAt = map_option (\<lambda>t. now + t) ttlMs, exp_scope = scope\<rparr>]"

definition expired :: "int \<Rightarrow> ZoneExpansion \<Rightarrow> bool" where
  "expired now e = (case exp_expiresAt e of Some t \<Rightarrow> t \<le> now | None \<Rightarrow> False)"

definition prune :: "int \<Rightarrow> ZoneExpansionTracker \<Rightarrow> ZoneExpansionTracker" where
  "prune now exps = filter (\<lambda>e. \<not> expired now e) exps"

text \<open>The loop of \<open>check\<close> runs from the last grant to the first; here on the reversed list.\<close>

fun check_loop :: "string \<Rightarrow> ZoneLevel \<Rightarrow> ZoneExpansion list \<Rightarrow> bool \<times> ZoneExpansion list" where
  "check_loop toolName l [] = (False, [])"
| "check_loop toolName l (e # es) =
     (if exp_level e < l \<or> \<not> expansion_matchesGlob toolName (exp_toolPattern e)
      then (let (b, es') = check_loop toolName l es in (b, e # es'))
      else if exp_scope e = Once then (True, es)
      else (True, e # es))"

definition expansion_check ::
  "int \<Rightarrow> string \<Rightarrow> ZoneLevel \<Rightarrow> ZoneExpansionTracker \<Rightarrow> bool \<times> ZoneExpansionTracker" where
  "expansion_check now toolName l exps =
     (let (b, r) = check_loop toolName l (rev (prune now exps)) in (b, rev r))"

definition effectiveMaxAutoZone :: "int \<Rightarrow> ZoneLevel \<Rightarrow> ZoneExpansionTracker \<Rightarrow> ZoneLevel \<times> ZoneExpansionTracker" where
  "effectiveMaxAutoZone now baseMax exps =
     (let act = prune now exps
      in (foldl (\<lambda>mx e. if exp_toolPattern e = ''*'' \<and> mx < exp_level e then exp_level e else mx) baseMax act, act))"

definition getActive :: "int \<Rightarrow> ZoneExpansionTracker \<Rightarrow> ZoneExpansion list \<times> ZoneExpansionTracker" where
  "getActive now exps = (prune now exps, prune now exps)"

definition expansion_clear :: "ZoneExpansionTracker \<Rightarrow> ZoneExpansionTracker" where
  "expansion_clear exps = []"

definition expansion_revoke :: "string \<Rightarrow> ZoneExpansionTracker \<Rightarrow> bool \<times> ZoneExpansionTracker" where
  "expansion_revoke toolPattern exps =
     (list_ex (\<lambda>e. exp_toolPattern e = toolPattern) exps,
      filter (\<lambda>e. exp_toolPattern e \<noteq> toolPattern) exps)"

definition expansion_size :: "int \<Rightarrow> ZoneExpansionTracker \<Rightarrow> nat \<times> ZoneExpansionTracker" where
  "expansion_size now exps = (length (prune now exps), prune now exps)"

section \<open>Matching is glob matching\<close>

lemma star_replace_toks:
  "js_replaceAll ''*'' ''.*'' (escape_metas p) = concat (map tok_src (any_toks p))"
proof (induction p)
  case (Cons c p)
  then show ?case
    by (auto simp: escape_metas_def metas_def)
qed (simp add: escape_metas_def)

lemma expansion_matchesGlob_glob: "expansion_matchesGlob n p \<longleftrightarrow> name_glob p n"
proof -
  have star: "js_includes p ''*'' \<longleftrightarrow> CHR ''*'' \<in> set p"
    by (auto simp: js_includes_iff in_set_conv_decomp)
  have "anchored_test (js_replaceAll ''*'' ''.*'' (escape_metas p)) n = Some (tok_match (any_toks p) n)"
    by (simp only: star_replace_toks anchored_test_toks any_toks_ok)
  then show ?thesis
    using tok_match_literals [of p n] by (auto simp: expansion_matchesGlob_def name_glob_def star)
qed

interpretation xg: name_matcher expansion_matchesGlob
  by unfold_locales (simp_all add: expansion_matchesGlob_def)

section \<open>What a check does\<close>

definition covers :: "string \<Rightarrow> ZoneLevel \<Rightarrow> ZoneExpansion \<Rightarrow> bool" where
  "covers toolName l e \<longleftrightarrow> l \<le> exp_level e \<and> name_glob (exp_toolPattern e) toolName"

lemma check_loop_skip:
  "exp_level e < l \<or> \<not> expansion_matchesGlob n (exp_toolPattern e) \<longleftrightarrow> \<not> covers n l e"
  by (auto simp: covers_def expansion_matchesGlob_glob)

lemma check_loop_split:
  "check_loop n l es = (b, r) \<Longrightarrow>
     (\<not> b \<and> r = es \<and> (\<forall>e \<in> set es. \<not> covers n l e)) \<or>
     (\<exists>as e bs. b \<and> es = as @ e # bs \<and> (\<forall>a \<in> set as. \<not> covers n l a) \<and> covers n l e \<and>
        r = (if exp_scope e = Once then as @ bs else es))"
proof (induction es arbitrary: b r)
  case (Cons e es)
  show ?case
  proof (cases "covers n l e")
    case True
    with Cons.prems show ?thesis
      by (intro disjI2 exI [of _ "[]"] exI [of _ e] exI [of _ es])
        (auto simp: check_loop_skip split: if_splits)
  next
    case False
    obtain b' r' where c: "check_loop n l es = (b', r')" by fastforce
    with Cons.prems False have br: "b = b'" "r = e # r'" by (auto simp: check_loop_skip)
    from Cons.IH [OF c] show ?thesis
    proof (elim disjE exE conjE)
      assume "\<not> b'" "r' = es" "\<forall>e \<in> set es. \<not> covers n l e"
      with False br show ?thesis by auto
    next
      fix as x bs
      assume "b'" "es = as @ x # bs" "\<forall>a \<in> set as. \<not> covers n l a" "covers n l x"
        "r' = (if exp_scope x = Once then as @ bs else es)"
      with False br show ?thesis
        by (intro disjI2 exI [of _ "e # as"] exI [of _ x] exI [of _ bs]) auto
    qed
  qed
qed simp

text \<open>The same on the list in the order of the grants: the last covering grant answers.\<close>

lemma expansion_check_split:
  assumes "expansion_check now n l exps = (b, r)"
  shows "(\<not> b \<and> r = prune now exps \<and> (\<forall>e \<in> set (prune now exps). \<not> covers n l e)) \<or>
    (\<exists>as e bs. b \<and> prune now exps = as @ e # bs \<and> (\<forall>a \<in> set bs. \<not> covers n l a) \<and> covers n l e \<and>
       r = (if exp_scope e = Once then as @ bs else prune now exps))"
proof -
  obtain r' where c: "check_loop n l (rev (prune now exps)) = (b, r')" and r: "r = rev r'"
    using assms by (auto simp: expansion_check_def Let_def split: prod.splits)
  from check_loop_split [OF c] show ?thesis
  proof (elim disjE exE conjE)
    assume "\<not> b" "r' = rev (prune now exps)" "\<forall>e \<in> set (rev (prune now exps)). \<not> covers n l e"
    with r show ?thesis by simp
  next
    fix as e bs
    assume *: "b" "rev (prune now exps) = as @ e # bs" "\<forall>a \<in> set as. \<not> covers n l a" "covers n l e"
      "r' = (if exp_scope e = Once then as @ bs else rev (prune now exps))"
    from *(2) have "prune now exps = rev bs @ e # rev as"
      by (metis append_Cons append_Nil append_assoc rev.simps(2) rev_append rev_rev_ident)
    with * r show ?thesis
      by (intro disjI2 exI [of _ "rev bs"] exI [of _ e] exI [of _ "rev as"]) auto
  qed
qed

lemma expansion_check_iff:
  "fst (expansion_check now n l exps) \<longleftrightarrow> (\<exists>e \<in> set exps. \<not> expired now e \<and> covers n l e)"
proof -
  obtain b r where c: "expansion_check now n l exps = (b, r)" by fastforce
  have mem: "e \<in> set (prune now exps) \<longleftrightarrow> e \<in> set exps \<and> \<not> expired now e" for e
    by (auto simp: prune_def)
  from expansion_check_split [OF c] show ?thesis
  proof (elim disjE exE conjE)
    assume "\<not> b" "\<forall>e \<in> set (prune now exps). \<not> covers n l e"
    with c mem show ?thesis by auto
  next
    fix as e bs
    assume "b" "prune now exps = as @ e # bs" "covers n l e"
    moreover from this(2) have "e \<in> set (prune now exps)" by simp
    ultimately show ?thesis using c mem by auto
  qed
qed

section \<open>Properties\<close>

text \<open>
  A one-time approval is used once. When a check succeeds, either a standing grant answered
  and the active grants are unchanged, or the last covering grant was one-time and exactly that
  grant is gone; so with only one-time grants, as many checks succeed as there are covering grants.
\<close>

theorem once_grant_consumed:
  assumes "fst (expansion_check now n l exps)"
    and "\<forall>e \<in> set exps. covers n l e \<longrightarrow> exp_scope e = Once"
  shows "Suc (length (filter (\<lambda>e. covers n l e \<and> \<not> expired now e) (snd (expansion_check now n l exps)))) =
    length (filter (\<lambda>e. covers n l e \<and> \<not> expired now e) exps)"
proof -
  obtain b r where c: "expansion_check now n l exps = (b, r)" by fastforce
  with assms(1) expansion_check_split [OF c] obtain as e bs where
    s: "prune now exps = as @ e # bs" "covers n l e" "r = (if exp_scope e = Once then as @ bs else prune now exps)"
    by auto
  have e: "e \<in> set (prune now exps)" by (simp add: s(1))
  then have once: "exp_scope e = Once" "\<not> expired now e" using assms(2) s(2) by (auto simp: prune_def)
  have "length (filter (\<lambda>e. covers n l e \<and> \<not> expired now e) exps) =
      length (filter (\<lambda>e. covers n l e \<and> \<not> expired now e) (prune now exps))"
    by (simp add: prune_def conj_commute)
  also have "\<dots> = Suc (length (filter (\<lambda>e. covers n l e \<and> \<not> expired now e) (as @ bs)))"
    using s(2) once(2) by (simp add: s(1))
  finally show ?thesis using c s(3) once(1) by simp
qed

definition once_all :: ZoneExpansion where
  "once_all = \<lparr>exp_level = MACHINE, exp_toolPattern = ''*'', exp_grantedAt = 0, exp_expiresAt = None, exp_scope = Once\<rparr>"

theorem once_grant_consumed_witness:
  "length (filter (\<lambda>e. covers ''bash'' BUILD e \<and> \<not> expired 1 e) (snd (expansion_check 1 ''bash'' BUILD [once_all]))) = 0"
proof -
  have c: "covers ''bash'' BUILD once_all" "\<not> expired 1 once_all"
    by (simp_all add: covers_def once_all_def zone_order name_glob_def expired_def)
  then have "fst (expansion_check 1 ''bash'' BUILD [once_all])" by (simp add: expansion_check_iff)
  from once_grant_consumed [OF this] c show ?thesis by (simp add: once_all_def)
qed

text \<open>
  C22: Revocation is immediate and exact. After \<open>revoke\<close> of a pattern no grant for it is left,
  every other grant is kept in place, the result tells whether something was removed, and a check
  answers yes only for a remaining grant.
\<close>

theorem revoke_exact:
  "let (removed, exps') = expansion_revoke p exps in
     (removed \<longleftrightarrow> (\<exists>e \<in> set exps. exp_toolPattern e = p))
     \<and> exps' = filter (\<lambda>e. exp_toolPattern e \<noteq> p) exps
     \<and> (fst (expansion_check now n l exps') \<longleftrightarrow>
         (\<exists>e \<in> set exps. exp_toolPattern e \<noteq> p \<and> \<not> expired now e \<and> covers n l e))"
  by (auto simp: expansion_revoke_def expansion_check_iff list_ex_iff)

end
