(* ===== verification/AuditLog.thy ===== *)
theory AuditLog
  imports Prelude JsMap
begin

text \<open>
  The security audit log (packages/loom/src/security/audit.ts). Timestamps are the ISO strings of
  \<open>new Date().toISOString()\<close>, an argument of \<open>log\<close>. The export to indented JSON is not modelled.
  In the summary a tool name is a property key of a plain object; the names JavaScript objects
  inherit (such as constructor) are outside the model.
\<close>

datatype AuditDecision = AuditAllow | AuditAsk | AuditDeny

record AuditEntry =
  ae_timestamp :: string
  ae_toolName :: string
  ae_input :: obj
  ae_validation :: "string \<times> string option"
  ae_decision :: AuditDecision
  ae_outputSummary :: "string option"
  ae_durationMs :: "int option"
  ae_agentId :: "string option"
  ae_sessionId :: "string option"

record LogOptions =
  lo_validation :: "(string \<times> string option) option"
  lo_outputSummary :: "string option"
  lo_durationMs :: "int option"
  lo_agentId :: "string option"
  lo_sessionId :: "string option"

record AuditLog =
  al_entries :: "AuditEntry list"
  al_maxEntries :: nat

definition audit_new :: "nat option \<Rightarrow> AuditLog" where
  "audit_new maxEntries = \<lparr>al_entries = [], al_maxEntries = (case maxEntries of Some n \<Rightarrow> n | None \<Rightarrow> 10000)\<rparr>"

fun evict :: "nat \<Rightarrow> 'a list \<Rightarrow> 'a list" where
  "evict n [] = []"
| "evict n (x # xs) = (if length (x # xs) > n then evict n xs else x # xs)"

definition audit_record :: "AuditEntry \<Rightarrow> AuditLog \<Rightarrow> AuditLog" where
  "audit_record e log = log\<lparr>al_entries := evict (al_maxEntries log) (al_entries log @ [e])\<rparr>"

definition opt_field :: "('a \<Rightarrow> 'b option) \<Rightarrow> 'a option \<Rightarrow> 'b option" where
  "opt_field f o' = (case o' of Some x \<Rightarrow> f x | None \<Rightarrow> None)"

definition audit_log ::
  "string \<Rightarrow> string \<Rightarrow> obj \<Rightarrow> AuditDecision \<Rightarrow> LogOptions option \<Rightarrow> AuditLog \<Rightarrow> AuditLog" where
  "audit_log stamp toolName input d opts log =
     audit_record \<lparr>ae_timestamp = stamp, ae_toolName = toolName, ae_input = input,
       ae_validation = (case opt_field lo_validation opts of Some v \<Rightarrow> v | None \<Rightarrow> (''ok'', None)),
       ae_decision = d, ae_outputSummary = opt_field lo_outputSummary opts,
       ae_durationMs = opt_field lo_durationMs opts, ae_agentId = opt_field lo_agentId opts,
       ae_sessionId = opt_field lo_sessionId opts\<rparr> log"

definition getLog :: "AuditLog \<Rightarrow> AuditEntry list" where
  "getLog log = al_entries log"

definition getByTool :: "string \<Rightarrow> AuditLog \<Rightarrow> AuditEntry list" where
  "getByTool n log = filter (\<lambda>e. ae_toolName e = n) (al_entries log)"

definition getByDecision :: "AuditDecision \<Rightarrow> AuditLog \<Rightarrow> AuditEntry list" where
  "getByDecision d log = filter (\<lambda>e. ae_decision e = d) (al_entries log)"

text \<open>String comparison \<open>a <= b\<close>, by code units.\<close>

fun js_le :: "string \<Rightarrow> string \<Rightarrow> bool" where
  "js_le [] b = True"
| "js_le (x # xs) [] = False"
| "js_le (x # xs) (y # ys) = (x < y \<or> x = y \<and> js_le xs ys)"

definition getByTimeRange :: "string \<Rightarrow> string \<Rightarrow> AuditLog \<Rightarrow> AuditEntry list" where
  "getByTimeRange start end' log =
     filter (\<lambda>e. js_le start (ae_timestamp e) \<and> js_le (ae_timestamp e) end') (al_entries log)"

definition count :: "AuditLog \<Rightarrow> nat" where
  "count log = length (al_entries log)"

definition deniedCount :: "AuditLog \<Rightarrow> nat" where
  "deniedCount log = length (filter (\<lambda>e. ae_decision e = AuditDeny) (al_entries log))"

record AuditSummary =
  sum_total :: nat
  sum_allowed :: nat
  sum_denied :: nat
  sum_asked :: nat
  sum_byTool :: "(string, nat) js_map"

definition count_of :: "(string, nat) js_map \<Rightarrow> string \<Rightarrow> nat" where
  "count_of m n = (case map_get m n of Some k \<Rightarrow> k | None \<Rightarrow> 0)"

definition summary_step :: "AuditEntry \<Rightarrow> AuditSummary \<Rightarrow> AuditSummary" where
  "summary_step e s =
     (let s1 = s\<lparr>sum_byTool := map_set (ae_toolName e) (count_of (sum_byTool s) (ae_toolName e) + 1) (sum_byTool s)\<rparr>
      in case ae_decision e of
           AuditAllow \<Rightarrow> s1\<lparr>sum_allowed := sum_allowed s1 + 1\<rparr>
         | AuditDeny \<Rightarrow> s1\<lparr>sum_denied := sum_denied s1 + 1\<rparr>
         | AuditAsk \<Rightarrow> s1\<lparr>sum_asked := sum_asked s1 + 1\<rparr>)"

fun summary_loop :: "AuditEntry list \<Rightarrow> AuditSummary \<Rightarrow> AuditSummary" where
  "summary_loop [] s = s"
| "summary_loop (e # es) s = summary_loop es (summary_step e s)"

definition exportSummary :: "AuditLog \<Rightarrow> AuditSummary" where
  "exportSummary log =
     summary_loop (al_entries log)
       \<lparr>sum_total = length (al_entries log), sum_allowed = 0, sum_denied = 0, sum_asked = 0, sum_byTool = []\<rparr>"

definition audit_clear :: "AuditLog \<Rightarrow> AuditLog" where
  "audit_clear log = log\<lparr>al_entries := []\<rparr>"

section \<open>Facts\<close>

lemma evict_drop: "evict n xs = drop (length xs - n) xs"
proof (induction xs)
  case (Cons x xs)
  then show ?case by (auto simp: Suc_diff_le not_less)
qed simp

lemma summary_step_simps [simp]:
  "sum_total (summary_step e s) = sum_total s"
  "sum_allowed (summary_step e s) = sum_allowed s + (if ae_decision e = AuditAllow then 1 else 0)"
  "sum_denied (summary_step e s) = sum_denied s + (if ae_decision e = AuditDeny then 1 else 0)"
  "sum_asked (summary_step e s) = sum_asked s + (if ae_decision e = AuditAsk then 1 else 0)"
  "sum_byTool (summary_step e s) =
     map_set (ae_toolName e) (count_of (sum_byTool s) (ae_toolName e) + 1) (sum_byTool s)"
  by (cases "ae_decision e"; simp add: summary_step_def)+

lemma summary_loop_counts:
  "sum_total (summary_loop es s) = sum_total s"
  "sum_allowed (summary_loop es s) = sum_allowed s + length (filter (\<lambda>e. ae_decision e = AuditAllow) es)"
  "sum_denied (summary_loop es s) = sum_denied s + length (filter (\<lambda>e. ae_decision e = AuditDeny) es)"
  "sum_asked (summary_loop es s) = sum_asked s + length (filter (\<lambda>e. ae_decision e = AuditAsk) es)"
  by (induction es s rule: summary_loop.induct; simp)+

lemma summary_loop_byTool:
  "map_ok (sum_byTool s) \<Longrightarrow>
   count_of (sum_byTool (summary_loop es s)) n = count_of (sum_byTool s) n + length (filter (\<lambda>e. ae_toolName e = n) es)"
proof (induction es s rule: summary_loop.induct)
  case (2 e es s)
  have "map_ok (sum_byTool (summary_step e s))" using "2.prems" by (simp add: jm.ok_update)
  from "2.IH" [OF this] "2.prems" show ?case
    by (simp add: count_of_def jm.find_update)
qed simp

section \<open>Properties\<close>

text \<open>
  The audit summary adds up. The counts of allowed, denied and asked entries are the sizes of
  the corresponding selections and sum to the total, and the count of a tool is the number of its
  entries.
\<close>

theorem audit_summary_adds_up:
  "let s = exportSummary log in
     sum_total s = count log
     \<and> sum_allowed s = length (getByDecision AuditAllow log)
     \<and> sum_denied s = deniedCount log
     \<and> sum_allowed s + sum_denied s + sum_asked s = sum_total s
     \<and> (\<forall>n. count_of (sum_byTool s) n = length (getByTool n log))"
proof -
  let ?s0 = "\<lparr>sum_total = length (al_entries log), sum_allowed = 0, sum_denied = 0, sum_asked = 0, sum_byTool = []\<rparr>"
  have parts: "length (filter (\<lambda>e. ae_decision e = AuditAllow) es) + length (filter (\<lambda>e. ae_decision e = AuditDeny) es)
      + length (filter (\<lambda>e. ae_decision e = AuditAsk) es) = length es" for es
  proof (induction es)
    case (Cons e es)
    then show ?case by (cases "ae_decision e") auto
  qed simp
  have "map_ok (sum_byTool ?s0)" by (simp add: map_ok_def)
  from summary_loop_byTool [OF this, of "al_entries log"] parts [of "al_entries log"] show ?thesis
    by (simp add: Let_def exportSummary_def summary_loop_counts count_def getByDecision_def deniedCount_def
        getByTool_def count_of_def map_get_def)
qed

end
