(* ===== verification/ZoneManager.thy ===== *)
theory ZoneManager
  imports ZoneClassifier ZoneCombinations ZoneExpansion AuditLog
begin

text \<open>
  The zone manager (packages/loom/src/zones/manager.ts) and the explanation text it attaches
  (packages/loom/src/zones/explainer.ts).

  The platform's URL parser is the parameter \<open>url_parse\<close>: the host name and the path name, or
  \<open>None\<close> when \<open>new URL\<close> throws. \<open>Date.now()\<close> is the argument \<open>now\<close>; the clock is read a few times
  during one evaluation and does not advance here.
\<close>

type_synonym url_parser = "string \<Rightarrow> (string \<times> string) option"

section \<open>Explanations\<close>

definition zone_truncate :: "string \<Rightarrow> nat \<Rightarrow> string" where
  "zone_truncate str maxLen = (if length str \<le> maxLen then str else take (maxLen - 3) str @ ''...'')"

definition summarizeInput :: "string \<Rightarrow> obj \<Rightarrow> string" where
  "summarizeInput toolName input =
     (case str_field input ''command'' of Some c \<Rightarrow> zone_truncate c 120
      | None \<Rightarrow> (case str_field input ''file_path'' of Some p \<Rightarrow> p
      | None \<Rightarrow> (case str_field input ''path'' of Some p \<Rightarrow> p
      | None \<Rightarrow> (case str_field input ''url'' of Some u \<Rightarrow> zone_truncate u 100
      | None \<Rightarrow> (case str_field input ''query'' of Some q \<Rightarrow> zone_truncate q 80
      | None \<Rightarrow> (case str_field input ''pattern'' of Some p \<Rightarrow> zone_truncate p 80
      | None \<Rightarrow> toolName))))))"

definition describeFilePath :: "string \<Rightarrow> string option \<Rightarrow> string" where
  "describeFilePath path workspacePath =
     (if \<not> truthy workspacePath \<or> \<not> js_startsWith path (the workspacePath) then path
      else (let relative = drop (length (the workspacePath)) path
            in if js_startsWith relative ''/'' then ''.'' @ relative else ''./'' @ relative))"

text \<open>
  \<open>s.match(/a\s+b\s+(\S+)\s*(\S*)/)\<close> at the start of \<open>s\<close>, with its two groups: every quantifier
  is greedy and nothing after it can make it give back a character.
\<close>

definition words_at :: "string \<Rightarrow> string \<Rightarrow> string \<Rightarrow> (string \<times> string) option" where
  "words_at a b s =
     (let skip = dropWhile is_space_char; word = takeWhile (\<lambda>c. \<not> is_space_char c);
          s1 = drop (length a) s; s2 = skip s1; s3 = drop (length b) s2; s4 = skip s3;
          rest = skip (dropWhile (\<lambda>c. \<not> is_space_char c) s4)
      in if js_startsWith s a \<and> s2 \<noteq> s1 \<and> js_startsWith s2 b \<and> s4 \<noteq> s3 \<and> word s4 \<noteq> []
         then Some (word s4, word rest) else None)"

fun words_match :: "string \<Rightarrow> string \<Rightarrow> string \<Rightarrow> (string \<times> string) option" where
  "words_match a b [] = words_at a b []"
| "words_match a b (c # cs) =
     (case words_at a b (c # cs) of Some r \<Rightarrow> Some r | None \<Rightarrow> words_match a b cs)"

definition starts_cmd :: "regex list \<Rightarrow> string \<Rightarrow> bool" where
  "starts_cmd rs s = re_test (rseqs ([RStart, rspaces] @ rs)) s"

definition describeShellCommand :: "string \<Rightarrow> string" where
  "describeShellCommand command =
     (let trimmed = js_trim command in
      if starts_cmd [rlit ''git'', rspaces1, rlit ''push'', RWordB] trimmed then
        (case words_match ''git'' ''push'' trimmed of
           Some (remote, branch) \<Rightarrow> ''Push to '' @ remote @ (if branch \<noteq> [] then ''/'' @ branch else [])
         | None \<Rightarrow> ''Push to origin'')
      else if starts_cmd [rlit ''git'', rspaces1, rlit ''commit'', RWordB] trimmed then ''Create git commit''
      else if starts_cmd [rlit ''git'', rspaces1, rlit ''merge'', RWordB] trimmed then ''Merge branches''
      else if starts_cmd [rlit ''git'', rspaces1, rlit ''rebase'', RWordB] trimmed then ''Rebase branch''
      else if starts_cmd [rlit ''npm'', rspaces1, rlit ''install'', RWordB] trimmed then ''Install npm packages''
      else if starts_cmd [rlit ''npm'', rspaces1, rlit ''test'', RWordB] trimmed then ''Run tests (npm test)''
      else if starts_cmd [rlit ''npm'', rspaces1, rlit ''run'', rspaces1, rlit ''build'', RWordB] trimmed
        then ''Build project (npm run build)''
      else if starts_cmd [rlit ''npm'', rspaces1, rlit ''run'', rspaces1, rplus (RClass (\<lambda>c. \<not> is_space_char c))] trimmed
        then ''Run npm script: '' @ text_of (map_option fst (words_match ''npm'' ''run'' trimmed))
      else if starts_cmd [rlit ''pip'', rspaces1, rlit ''install'', RWordB] trimmed then ''Install Python packages''
      else if starts_cmd [rlit ''yarn'', rspaces1, rlit ''add'', RWordB] trimmed then ''Install packages (yarn)''
      else if starts_cmd [rlit ''pnpm'', rspaces1, rwords [''add'', ''install''], RWordB] trimmed then ''Install packages (pnpm)''
      else if starts_cmd [rlit ''vercel'', RWordB] trimmed then ''Deploy to Vercel''
      else if starts_cmd [rlit ''npm'', rspaces1, rlit ''publish'', RWordB] trimmed then ''Publish npm package''
      else zone_truncate trimmed 80)"

text \<open>\<open>filter((v, i, a) => a.indexOf(v) === i)\<close>: keep first occurrences.\<close>

definition first_occurrences :: "'a list \<Rightarrow> 'a list" where
  "first_occurrences xs = rev (remdups (rev xs))"

definition explainCombinationBlock :: "CombinationBlockReason \<Rightarrow> string" where
  "explainCombinationBlock block =
     (let recentNames = js_join '', '' (take 3 (first_occurrences (map entry_toolName (block_recentTools block))))
      in ''Blocked by security rule '' @ [CHR 0x22] @ block_rule block @ [CHR 0x22] @ '': '' @
         block_explanation block @ ''. Recent actions ('' @ recentNames @ '') created a risky combination.'')"

definition either_field :: "obj \<Rightarrow> string \<Rightarrow> string \<Rightarrow> string option" where
  "either_field input a b = (case str_field input a of Some s \<Rightarrow> Some s | None \<Rightarrow> str_field input b)"

definition explainZoneDecision :: "url_parser \<Rightarrow> ZoneContext \<Rightarrow> ZoneDecision \<Rightarrow> string" where
  "explainZoneDecision url_parse ctx dec =
     (let input = zc_input ctx; cl = classification dec; summary = summarizeInput (zc_toolName ctx) input in
      case combinationBlock dec of
        Some block \<Rightarrow> explainCombinationBlock block
      | None \<Rightarrow>
        (case level cl of
           SAFE \<Rightarrow> []
         | WORKSPACE \<Rightarrow>
             (let path = either_field input ''file_path'' ''path'' in
              if truthy path then ''Write to '' @ describeFilePath (the path) (zc_workspacePath ctx)
              else ''Workspace operation: '' @ summary)
         | BUILD \<Rightarrow>
             (case str_field input ''command'' of
                Some c \<Rightarrow> describeShellCommand c
              | None \<Rightarrow> ''Execute in workspace: '' @ summary)
         | NETWORK \<Rightarrow>
             (let url = either_field input ''url'' ''href'' in
              if truthy url then
                (case url_parse (the url) of
                   Some (hostname, pathname) \<Rightarrow> ''Access '' @ hostname @ (if pathname \<noteq> ''/'' then pathname else [])
                 | None \<Rightarrow> ''Network access: '' @ zone_truncate (the url) 80)
              else ''Network operation: '' @ summary)
         | EXTERNAL \<Rightarrow>
             (case str_field input ''command'' of
                Some c \<Rightarrow> describeShellCommand c @ '' -- this will be visible externally''
              | None \<Rightarrow> ''External action: '' @ summary @ ''. This may be visible to others.'')
         | MACHINE \<Rightarrow>
             (let path = either_field input ''file_path'' ''path'' in
              if truthy path then ''Access '' @ the path @ '' (outside workspace). '' @ reason cl
              else ''System-level operation: '' @ summary @ ''. '' @ reason cl)
         | NEVER \<Rightarrow> ''Blocked: '' @ reason cl))"

section \<open>The manager\<close>

record ZoneManager =
  zm_config :: ZoneConfig
  zm_combinations :: CombinationTracker
  zm_expansions :: ZoneExpansionTracker
  zm_auditLog :: "AuditLog option"

definition manager_new :: "ZoneConfig \<Rightarrow> AuditLog option \<Rightarrow> ZoneManager" where
  "manager_new config alog = \<lparr>zm_config = config, zm_combinations = tracker_new, zm_expansions = [], zm_auditLog = alog\<rparr>"

definition finish :: "url_parser \<Rightarrow> ZoneContext \<Rightarrow> ZoneDecision \<Rightarrow> ZoneDecision" where
  "finish url_parse ctx d = d\<lparr>explanation := explainZoneDecision url_parse ctx d\<rparr>"

text \<open>\<open>None\<close>: the combination check met a tool pattern outside the glob fragment.\<close>

definition manager_evaluate ::
  "url_parser \<Rightarrow> int \<Rightarrow> ZoneContext \<Rightarrow> ZoneManager \<Rightarrow> (ZoneDecision \<times> ZoneManager) option" where
  "manager_evaluate url_parse now ctx zm =
     (let config = zm_config zm;
          cl = classifyToolCall (\<lambda>u. map_option fst (url_parse u)) ctx (Some (overrides config));
          comboBlock = tracker_check now (zc_toolName ctx) (level cl) (zc_input ctx)
                         (combinationRules config) (zm_combinations zm);
          zm1 = (if combinationRules config \<noteq> []
                 then zm\<lparr>zm_combinations := tracker_record now (zc_toolName ctx) (level cl)
                           (Some (zc_input ctx)) (zm_combinations zm)\<rparr>
                 else zm)
      in case comboBlock of
           None \<Rightarrow> None
         | Some (Some block) \<Rightarrow>
             Some (finish url_parse ctx \<lparr>classification = cl, decision = Ask, explanation = [],
                     combinationBlock = Some block\<rparr>, zm1)
         | Some None \<Rightarrow>
             (let (hasExpansion, exps) = expansion_check now (zc_toolName ctx) (level cl) (zm_expansions zm1);
                  policyDecision = evaluateZonePolicy cl config;
                  final = (if hasExpansion \<and> policyDecision = Ask \<and> level cl \<noteq> NEVER then Allow else policyDecision)
              in Some (finish url_parse ctx \<lparr>classification = cl, decision = final, explanation = [],
                         combinationBlock = None\<rparr>,
                       zm1\<lparr>zm_expansions := exps\<rparr>)))"

definition audit_decision :: "PolicyDecision \<Rightarrow> AuditDecision" where
  "audit_decision d = (case d of Allow \<Rightarrow> AuditAllow | Ask \<Rightarrow> AuditAsk)"

definition asSafetyRule ::
  "url_parser \<Rightarrow> int \<Rightarrow> string \<Rightarrow> string \<Rightarrow> obj \<Rightarrow> ZoneManager \<Rightarrow> (PolicyDecision option \<times> ZoneManager) option" where
  "asSafetyRule url_parse now stamp toolName input zm =
     map_option (\<lambda>(d, zm'). (Some (decision d),
         (case zm_auditLog zm' of
            None \<Rightarrow> zm'
          | Some alog \<Rightarrow> zm'\<lparr>zm_auditLog := Some (audit_log stamp toolName input (audit_decision (decision d))
              (Some \<lparr>lo_validation = Some (''zone-'' @ zoneName (classification d),
                        Some (if explanation d \<noteq> [] then explanation d else reason (classification d))),
                     lo_outputSummary = None, lo_durationMs = None, lo_agentId = None, lo_sessionId = None\<rparr>) alog)\<rparr>)))
       (manager_evaluate url_parse now
          \<lparr>zc_toolName = toolName, zc_input = input, zc_toolCategory = None, zc_toolIsReadOnly = None,
           zc_sessionId = [], zc_agentId = None, zc_workspacePath = None\<rparr> zm)"

definition grantExpansion :: "int \<Rightarrow> string \<Rightarrow> ZoneLevel \<Rightarrow> ExpansionScope \<Rightarrow> ZoneManager \<Rightarrow> ZoneManager" where
  "grantExpansion now toolName l scope zm =
     zm\<lparr>zm_expansions := expansion_grant now l toolName scope None (zm_expansions zm)\<rparr>"

definition getExpansions :: "int \<Rightarrow> ZoneManager \<Rightarrow> ZoneExpansion list \<times> ZoneManager" where
  "getExpansions now zm = (let (r, exps) = getActive now (zm_expansions zm) in (r, zm\<lparr>zm_expansions := exps\<rparr>))"

definition revokeExpansion :: "string \<Rightarrow> ZoneManager \<Rightarrow> bool \<times> ZoneManager" where
  "revokeExpansion toolPattern zm =
     (let (r, exps) = expansion_revoke toolPattern (zm_expansions zm) in (r, zm\<lparr>zm_expansions := exps\<rparr>))"

definition resetSession :: "ZoneManager \<Rightarrow> ZoneManager" where
  "resetSession zm = zm\<lparr>zm_combinations := tracker_clear (zm_combinations zm),
     zm_expansions := expansion_clear (zm_expansions zm)\<rparr>"

section \<open>What an evaluation decides\<close>

text \<open>The classification an evaluation works with.\<close>

definition manager_classify :: "url_parser \<Rightarrow> ZoneContext \<Rightarrow> ZoneManager \<Rightarrow> ZoneClassification" where
  "manager_classify url_parse ctx zm =
     classifyToolCall (\<lambda>u. map_option fst (url_parse u)) ctx (Some (overrides (zm_config zm)))"

lemma finish_simps [simp]:
  "classification (finish u ctx d) = classification d" "decision (finish u ctx d) = decision d"
  "combinationBlock (finish u ctx d) = combinationBlock d"
  by (simp_all add: finish_def)

lemma manager_simps [simp]:
  "zm_config (grantExpansion now n l sc zm) = zm_config zm"
  "zm_combinations (grantExpansion now n l sc zm) = zm_combinations zm"
  "zm_expansions (grantExpansion now n l sc zm) = expansion_grant now l n sc None (zm_expansions zm)"
  "zm_config (manager_new c a) = c" "zm_combinations (manager_new c a) = tracker_new" "zm_expansions (manager_new c a) = []"
  by (simp_all add: grantExpansion_def manager_new_def)

lemma manager_evaluate_defined:
  assumes "list_all plain_rule (combinationRules (zm_config zm))"
  shows "\<exists>d zm'. manager_evaluate u now ctx zm = Some (d, zm')"
proof -
  obtain r where "tracker_check now (zc_toolName ctx) (level (manager_classify u ctx zm)) (zc_input ctx)
      (combinationRules (zm_config zm)) (zm_combinations zm) = Some r"
    using tracker_answers [OF assms] by blast
  then show ?thesis
    by (cases r) (auto simp: manager_evaluate_def manager_classify_def Let_def split: prod.split)
qed

lemma manager_evaluate_cases:
  assumes "manager_evaluate u now ctx zm = Some (d, zm')"
  shows "classification d = manager_classify u ctx zm"
    and "tracker_check now (zc_toolName ctx) (level (classification d)) (zc_input ctx)
           (combinationRules (zm_config zm)) (zm_combinations zm) = Some (combinationBlock d)"
    and "zm_config zm' = zm_config zm" and "zm_auditLog zm' = zm_auditLog zm"
    and "zm_combinations zm' = zm_combinations zm
       \<or> zm_combinations zm' = tracker_record now (zc_toolName ctx) (level (classification d)) (Some (zc_input ctx)) (zm_combinations zm)"
    and "decision d = (if combinationBlock d = None \<and>
           (level (classification d) \<le> maxAutoZone (zm_config zm)
            \<or> level (classification d) \<noteq> NEVER
              \<and> fst (expansion_check now (zc_toolName ctx) (level (classification d)) (zm_expansions zm)))
           then Allow else Ask)"
    and "zm_expansions zm' = (if combinationBlock d = None
           then snd (expansion_check now (zc_toolName ctx) (level (classification d)) (zm_expansions zm))
           else zm_expansions zm)"
  using assms
  by (auto simp: manager_evaluate_def manager_classify_def Let_def evaluateZonePolicy_def
      split: option.splits prod.splits if_splits)

section \<open>The manager as a machine\<close>

inductive manager_step :: "ZoneManager \<Rightarrow> ZoneManager \<Rightarrow> bool" where
  step_evaluate: "manager_evaluate u now ctx zm = Some (d, zm') \<Longrightarrow> manager_step zm zm'"
| step_rule: "asSafetyRule u now stamp n i zm = Some (r, zm') \<Longrightarrow> manager_step zm zm'"
| step_grant: "manager_step zm (grantExpansion now n l sc zm)"
| step_get: "manager_step zm (snd (getExpansions now zm))"
| step_revoke: "manager_step zm (snd (revokeExpansion p zm))"
| step_reset: "manager_step zm (resetSession zm)"

text \<open>The configuration never changes and the history stays bounded.\<close>

definition manager_inv :: "ZoneConfig \<Rightarrow> ZoneManager \<Rightarrow> bool" where
  "manager_inv cfg zm \<longleftrightarrow> zm_config zm = cfg \<and> tracker_inv (zm_combinations zm)"

lemma tracker_inv_record: "tracker_inv t \<Longrightarrow> tracker_inv (tracker_record now n z i t)"
  by (rule ctm.inv_step) (auto simp: tracker_step_def)

lemma tracker_inv_clear: "tracker_inv t \<Longrightarrow> tracker_inv (tracker_clear t)"
  by (rule ctm.inv_step) (auto simp: tracker_step_def)

lemma manager_inv_evaluate:
  "manager_inv cfg zm \<Longrightarrow> manager_evaluate u now ctx zm = Some (d, zm') \<Longrightarrow> manager_inv cfg zm'"
  using manager_evaluate_cases(3,5) [of u now ctx zm d zm'] tracker_inv_record
  by (auto simp: manager_inv_def)

lemma manager_inv_rule:
  assumes "manager_inv cfg zm" "asSafetyRule u now stamp n i zm = Some (r, zm')"
  shows "manager_inv cfg zm'"
proof -
  from assms(2) obtain d zm1 ctx where "manager_evaluate u now ctx zm = Some (d, zm1)"
    "zm_config zm' = zm_config zm1" "zm_combinations zm' = zm_combinations zm1"
    by (auto simp: asSafetyRule_def split: option.splits)
  with manager_inv_evaluate [OF assms(1)] show ?thesis by (auto simp: manager_inv_def)
qed

interpretation zmm: machine "manager_new cfg alog" manager_step "manager_inv cfg" for cfg alog
proof
  show "manager_inv cfg (manager_new cfg alog)"
    using ctm.inv_init by (simp add: manager_inv_def manager_new_def)
  fix s t
  assume inv: "manager_inv cfg s" and "manager_step s t"
  from this(2) show "manager_inv cfg t"
  proof cases
    case (step_evaluate u now ctx d)
    with inv show ?thesis by (blast intro: manager_inv_evaluate)
  next
    case (step_rule u now stamp n i r)
    with inv show ?thesis by (blast intro: manager_inv_rule)
  qed (use inv in \<open>simp_all add: manager_inv_def grantExpansion_def getExpansions_def revokeExpansion_def
      resetSession_def getActive_def expansion_revoke_def tracker_inv_clear\<close>)
qed

section \<open>Properties\<close>

text \<open>
  C6: When the zone manager lets a call through. The decision is to allow exactly when no
  combination rule fired and the call's zone is within the automatic threshold, or below \<open>NEVER\<close>
  and covered by an active approval; in every other case the user is asked. The threshold of the
  configuration that bounds asking plays no part.
\<close>

theorem manager_allows_iff:
  assumes "manager_evaluate u now ctx zm = Some (d, zm')"
  shows "classification d = manager_classify u ctx zm
    \<and> (decision d = Allow \<longleftrightarrow>
         combinationBlock d = None \<and>
         (level (classification d) \<le> maxAutoZone (zm_config zm)
          \<or> level (classification d) \<noteq> NEVER
            \<and> (\<exists>e \<in> set (zm_expansions zm). \<not> expired now e \<and> covers (zc_toolName ctx) (level (classification d)) e)))"
  using manager_evaluate_cases [OF assms] by (simp add: expansion_check_iff)

theorem manager_allows_iff_witness:
  "\<exists>d zm'. manager_evaluate (\<lambda>_. None) 0 (call_ctx ''glob'' [] None) (manager_new (ZONE_CONFIGS Standard) None) = Some (d, zm')
     \<and> classification d = manager_classify (\<lambda>_. None) (call_ctx ''glob'' [] None) (manager_new (ZONE_CONFIGS Standard) None)"
proof -
  have "list_all plain_rule (combinationRules (zm_config (manager_new (ZONE_CONFIGS Standard) None)))"
    by (simp add: manager_new_def default_rules_plain)
  then show ?thesis using manager_evaluate_defined manager_allows_iff by blast
qed

text \<open>
  C5: Catastrophic calls are always asked about. In every state a manager can reach from a
  configuration whose automatic threshold is below \<open>NEVER\<close> (all the presets), whatever approvals
  were granted, an evaluation of a call in zone \<open>NEVER\<close> answers \<open>ask\<close>.
\<close>

theorem never_always_asks:
  assumes "manager_step\<^sup>*\<^sup>* (manager_new cfg alog) zm" and "maxAutoZone cfg < NEVER"
    and "manager_evaluate u now ctx zm = Some (d, zm')" and "level (manager_classify u ctx zm) = NEVER"
  shows "decision d = Ask"
proof -
  have "zm_config zm = cfg" using zmm.inv_reachable [OF assms(1)] by (simp add: manager_inv_def)
  then show ?thesis
    using manager_evaluate_cases(1,6) [OF assms(3)] assms(2,4) by auto
qed

lemma rm_rf_never:
  assumes "overrides (zm_config zm) = []"
  shows "level (manager_classify u (call_ctx ''bash'' [(''command'', JStr ''rm -rf /'')] w) zm) = NEVER"
proof -
  have t: "js_trim ''rm -rf /'' = ''rm -rf /''" by code_simp
  have "scan_table Blocked LEVEL1_BLOCKED ''rm -rf /'' \<noteq> None" by code_simp
  then have h: "hits LEVEL1_BLOCKED ''rm -rf /''" unfolding scan_table_None_iff by simp
  have v: "\<not> safe (validateCommand ''rm -rf /'' no_options)" "vlevel (validateCommand ''rm -rf /'' no_options) = Blocked"
    by (rule validate_level1; simp add: t h no_options_def)+
  let ?ctx = "call_ctx ''bash'' [(''command'', JStr ''rm -rf /'')] w"
  have "classify_override ?ctx (Some (overrides (zm_config zm))) = None"
    by (simp add: classify_override_None_iff nullish_def assms)
  then have "manager_classify u ?ctx zm = classify_command ''rm -rf /''"
    unfolding manager_classify_def
    by (intro classify_shell_call) (simp_all add: isShellTool_def str_field_def)
  then show ?thesis using classify_command_level [of "''rm -rf /''"] t v by simp
qed

theorem never_always_asks_witness:
  "\<exists>d zm'. manager_evaluate (\<lambda>_. None) 1 (call_ctx ''bash'' [(''command'', JStr ''rm -rf /'')] None)
       (grantExpansion 0 ''*'' NEVER Session (manager_new (ZONE_CONFIGS Permissive) None)) = Some (d, zm')
     \<and> decision d = Ask"
proof -
  let ?zm = "grantExpansion 0 ''*'' NEVER Session (manager_new (ZONE_CONFIGS Permissive) None)"
  have "list_all plain_rule (combinationRules (zm_config ?zm))" by (simp add: default_rules_plain)
  then obtain d zm' where e: "manager_evaluate (\<lambda>_. None) 1
      (call_ctx ''bash'' [(''command'', JStr ''rm -rf /'')] None) ?zm = Some (d, zm')"
    using manager_evaluate_defined by blast
  have "manager_step\<^sup>*\<^sup>* (manager_new (ZONE_CONFIGS Permissive) None) ?zm"
    by (intro r_into_rtranclp step_grant)
  moreover have "maxAutoZone (ZONE_CONFIGS Permissive) < NEVER" by (rule default_configs_below_NEVER)
  moreover have "level (manager_classify (\<lambda>_. None) (call_ctx ''bash'' [(''command'', JStr ''rm -rf /'')] None) ?zm) = NEVER"
    by (rule rm_rf_never) simp
  ultimately have "decision d = Ask" using never_always_asks e by blast
  with e show ?thesis by blast
qed

text \<open>
  C22: The zone rule is final. Installed as the first safety rule of a permission evaluator, the
  manager decides every call itself: whatever the session store remembers and whatever the rules
  and the mode say, the evaluator's answer is the manager's decision for that call.
\<close>

theorem zone_rule_final:
  assumes "list_all plain_rule (combinationRules (zm_config zm))"
    and "ev_safetyRules ev = (\<lambda>n i s. the (asSafetyRule url_parse now stamp n i s)) # others"
  shows "\<exists>d zm'. manager_evaluate url_parse now (call_ctx n i None) zm = Some (d, zm')
    \<and> fst (evaluator_evaluate ev n i c zm) = Some (decision d)
    \<and> zm_expansions (snd (evaluator_evaluate ev n i c zm)) = zm_expansions zm'"
proof -
  obtain d zm' where e: "manager_evaluate url_parse now (call_ctx n i None) zm = Some (d, zm')"
    using manager_evaluate_defined [OF assms(1)] by blast
  then obtain zm2 where "asSafetyRule url_parse now stamp n i zm = Some (Some (decision d), zm2)"
    "zm_expansions zm2 = zm_expansions zm'"
    by (simp add: asSafetyRule_def call_ctx_def split: option.split)
  moreover from this(1) have "run_safety (ev_safetyRules ev) n i zm = (Some (decision d), zm2)"
    by (simp add: assms(2))
  ultimately show ?thesis using e evaluate_safety [of ev n i zm "decision d" zm2 c] by auto
qed

theorem zone_rule_final_witness:
  "\<exists>d zm'. manager_evaluate (\<lambda>_. None) 0 (call_ctx ''bash'' [] None) (manager_new (ZONE_CONFIGS Standard) None) = Some (d, zm')"
proof -
  let ?zm = "manager_new (ZONE_CONFIGS Standard) None"
  let ?ev = "evaluator_new None (Some [\<lambda>n i s. the (asSafetyRule (\<lambda>_. None) 0 [] n i s)]) None"
  have "list_all plain_rule (combinationRules (zm_config ?zm))" by (simp add: manager_new_def default_rules_plain)
  moreover have "ev_safetyRules ?ev = (\<lambda>n i s. the (asSafetyRule (\<lambda>_. None) 0 [] n i s)) # []"
    by (simp add: evaluator_new_def)
  ultimately show ?thesis using zone_rule_final [of ?zm ?ev "\<lambda>_. None" 0 "[]" "[]" "''bash''" "[]"] by blast
qed

text \<open>
  A one-time approval can be spent on a call that did not need it: the manager asks the
  expansion tracker before it looks at the policy, so a call that is allowed anyway uses up a
  one-time grant that covers it.
\<close>

theorem once_grant_spent_without_need:
  "\<exists>d zm'. manager_evaluate url_parse now (call_ctx ''glob'' [] None)
      (grantExpansion now ''*'' MACHINE Once (manager_new (ZONE_CONFIGS Standard) None)) = Some (d, zm')
    \<and> level (classification d) \<le> maxAutoZone (ZONE_CONFIGS Standard) \<and> decision d = Allow \<and> zm_expansions zm' = []"
proof -
  let ?zm = "grantExpansion now ''*'' MACHINE Once (manager_new (ZONE_CONFIGS Standard) None)"
  let ?ctx = "call_ctx ''glob'' [] None"
  have "classifyFilePath [] None = None" by code_simp
  then have l: "level (manager_classify url_parse ?ctx ?zm) = SAFE"
    by (simp add: manager_classify_def classifyToolCall_def classify_exact_def EXACT_ZONE_MAP_def isShellTool_def)
  have "list_all plain_rule (combinationRules (zm_config ?zm))" by (simp add: default_rules_plain)
  then obtain d zm' where e: "manager_evaluate url_parse now ?ctx ?zm = Some (d, zm')"
    using manager_evaluate_defined by blast
  note k = manager_evaluate_cases [OF e]
  have "tracker_new = tracker_clear tracker_new" by (simp add: tracker_new_def tracker_clear_def)
  then have "combinationBlock d = None"
    using k(2) cleared_never_fires [of now "''glob''" SAFE "[]" tracker_new] l k(1) by simp
  moreover have "snd (expansion_check now ''glob'' SAFE (expansion_grant now MACHINE ''*'' Once None [])) = []"
    by (simp add: expansion_check_def expansion_grant_def prune_def expired_def zone_order expansion_matchesGlob_def)
  ultimately show ?thesis using e k l by simp
qed

end
