(* ===== verification/DefaultRules.thy ===== *)
theory DefaultRules
  imports Permissions JsValue
begin

text \<open>
  The opt-in safety rule presets (packages/loom/src/security/default-rules.ts) for coding,
  enterprise and sandbox agents. The rules keep no state. The URL parser's host name is the
  parameter \<open>url_hostname\<close>, with \<open>None\<close> for a constructor that throws.
\<close>

definition asks_if_any :: "regex list \<Rightarrow> string \<Rightarrow> PolicyDecision option" where
  "asks_if_any ps s = first_map (\<lambda>p. if re_test p s then Some Ask else None) ps"

definition field_or_empty :: "obj \<Rightarrow> string \<Rightarrow> string" where
  "field_or_empty input k = (case str_field input k of Some s \<Rightarrow> s | None \<Rightarrow> [])"

definition path_or_empty :: "obj \<Rightarrow> string" where
  "path_or_empty input =
     (case str_field input ''file_path'' of Some s \<Rightarrow> s | None \<Rightarrow> field_or_empty input ''path'')"

definition fork_bomb_re :: regex where
  "fork_bomb_re = rseqs [rlit '':()'', rspaces, rlit ''{'', rspaces, rlit '':'', rspaces, rlit ''|'', rspaces, rlit '':&'', rspaces, rlit ''}'']"

definition dd_re :: regex where
  "dd_re = rseqs [RWordB, rlit ''dd'', rspaces1, ranys, rlit ''of=/dev/'']"

definition destructive_patterns :: "regex list" where
  "destructive_patterns =
    [rseqs [RWordB, rlit ''rm'', rspaces1, rlit ''-'', RStar (RClass is_alpha), rlit ''r'', RStar (RClass is_alpha), rlit ''f'', RStar (RClass is_alpha), rspaces1, rlit ''/''],
     rseqs [RWordB, rlit ''rm'', rspaces1, ropt (rseqs [rlit ''-'', RStar (RClass is_alpha), rlit ''f'', RStar (RClass is_alpha), rspaces1]), rlit ''/'', rspace],
     rseqs [RWordB, rlit ''sudo'', rspaces1, rlit ''rm'', RWordB],
     rword ''mkfs'',
     dd_re,
     fork_bomb_re,
     rword ''shutdown'',
     rword ''reboot'',
     rseqs [rword ''curl'', ranys, rlit ''|'', rspaces, ropt (rseqs [rlit ''sudo'', rspaces1]), ropt (rlit ''ba''), rlit ''sh'', RWordB],
     rseqs [rword ''wget'', ranys, rlit ''|'', rspaces, ropt (rseqs [rlit ''sudo'', rspaces1]), ropt (rlit ''ba''), rlit ''sh'', RWordB]]"

definition blockDestructiveShell :: "string \<Rightarrow> obj \<Rightarrow> PolicyDecision option" where
  "blockDestructiveShell toolName input =
     (if toolName \<noteq> ''shell.execute'' \<and> toolName \<noteq> ''bash'' then None
      else (let cmd = field_or_empty input ''command'' in
        if cmd = [] then None
        else (case asks_if_any destructive_patterns cmd of
                Some d \<Rightarrow> Some d
              | None \<Rightarrow> if re_test (rword ''sudo'') cmd then Some Ask else None)))"

definition is_writer :: "string \<Rightarrow> bool" where
  "is_writer toolName \<longleftrightarrow> js_includes toolName ''write'' \<or> js_includes toolName ''edit''"

definition blockSystemWrites :: "string \<Rightarrow> obj \<Rightarrow> PolicyDecision option" where
  "blockSystemWrites toolName input =
     (if \<not> is_writer toolName then None
      else (let p = path_or_empty input in
        if p = [] then None
        else first_map (\<lambda>prefix. if js_startsWith p prefix then Some Ask else None)
               [''/etc/'', ''/usr/'', ''/bin/'', ''/sbin/'', ''/boot/'', ''/sys/'', ''/proc/'', ''/dev/'']))"

definition is_quote :: "char \<Rightarrow> bool" where
  "is_quote c \<longleftrightarrow> c = CHR 0x27 \<or> c = CHR 0x22"

definition secret_patterns :: "regex list" where
  "secret_patterns =
    [rci (rseqs [ralts [rseqs [rlit ''api'', ropt (rset ''_-''), rlit ''key''], rlit ''secret'', rlit ''token'', rlit ''password''], rspaces, rset ''=:'', rspaces, RClass is_quote, rrep_min 8 (RClass (\<lambda>c. \<not> is_quote c))]),
     rseqs [rwords [''AKIA'', ''ASIA''], rrep 16 (RClass (\<lambda>c. in_range (CHR ''A'') (CHR ''Z'') c \<or> is_digit_char c))],
     rseqs [RWordB, rlit ''sk-'', rrep_min 20 (RClass is_alnum)],
     rseqs [rlit ''-----BEGIN '', ropt (rwords [''RSA '', ''EC '']), rlit ''PRIVATE KEY-----'']]"

definition flagSecrets :: "string \<Rightarrow> obj \<Rightarrow> PolicyDecision option" where
  "flagSecrets toolName input = asks_if_any secret_patterns (json_stringify (JObj input))"

definition blockShellByDefault :: "string \<Rightarrow> obj \<Rightarrow> PolicyDecision option" where
  "blockShellByDefault toolName input =
     (if toolName = ''shell.execute'' \<or> toolName = ''bash'' then Some Ask else None)"

definition internal_ip_re :: regex where
  "internal_ip_re = rci (rseqs [RStart, ralts [rlit ''10.'', rseqs [rlit ''172.'', ralts [rseqs [rlit ''1'', RClass (\<lambda>c. in_range (CHR ''6'') (CHR ''9'') c)], rseqs [rlit ''2'', rdigit], rseqs [rlit ''3'', rset ''01'']], rlit ''.''], rlit ''192.168.'', rlit ''127.'', rlit ''localhost'']])"

definition blockNetworkAccess :: "(string \<Rightarrow> string option) \<Rightarrow> string \<Rightarrow> obj \<Rightarrow> PolicyDecision option" where
  "blockNetworkAccess url_hostname toolName input =
     (if toolName \<noteq> ''browser'' \<and> toolName \<noteq> ''browser.navigate'' \<and> toolName \<noteq> ''fetch'' then None
      else (let url = field_or_empty input ''url'' in
        if url = [] then None
        else (case url_hostname url of
                Some h \<Rightarrow> if re_test internal_ip_re h then Some Ask else Some Ask
              | None \<Rightarrow> Some Ask)))"

definition strictWorkspaceBoundary :: "string \<Rightarrow> obj \<Rightarrow> PolicyDecision option" where
  "strictWorkspaceBoundary toolName input =
     (if \<not> is_writer toolName then None
      else (let p = path_or_empty input in
        if p = [] then None
        else if js_startsWith p ''/'' then Some Ask else None))"

definition ssn_re :: regex where
  "ssn_re = rseqs [RWordB, rrep 3 rdigit, rlit ''-'', rrep 2 rdigit, rlit ''-'', rrep 4 rdigit, RWordB]"

definition card_sep :: regex where
  "card_sep = ropt (RClass (\<lambda>c. is_space_char c \<or> c = CHR ''-''))"

definition card_re :: regex where
  "card_re = rseqs [RWordB, rrep 4 rdigit, card_sep, rrep 4 rdigit, card_sep, rrep 4 rdigit, card_sep, rrep 4 rdigit, RWordB]"

definition flagPII :: "string \<Rightarrow> obj \<Rightarrow> PolicyDecision option" where
  "flagPII toolName input =
     (let str = json_stringify (JObj input) in
      if re_test ssn_re str then Some Ask else if re_test card_re str then Some Ask else None)"

definition blockCatastrophic :: "string \<Rightarrow> obj \<Rightarrow> PolicyDecision option" where
  "blockCatastrophic toolName input =
     (if toolName \<noteq> ''shell.execute'' \<and> toolName \<noteq> ''bash'' then None
      else (let cmd = field_or_empty input ''command'' in
        if re_test fork_bomb_re cmd then Some Ask
        else if re_test dd_re cmd then Some Ask
        else if re_test (rword ''mkfs'') cmd then Some Ask
        else if re_test (rseqs [RWordB, rlit ''rm'', rspaces1, rlit ''-'', RStar (RClass is_alpha), rlit ''r'', RStar (RClass is_alpha), rlit ''f'', RStar (RClass is_alpha), rspaces1, rlit ''/'', rspaces, REnd]) cmd then Some Ask
        else None))"

text \<open>A rule without state, as a safety rule of the evaluator.\<close>

definition stateless :: "(string \<Rightarrow> obj \<Rightarrow> PolicyDecision option) \<Rightarrow> 's SafetyRule" where
  "stateless r = (\<lambda>n i s. (r n i, s))"

definition coding_rules :: "(string \<Rightarrow> obj \<Rightarrow> PolicyDecision option) list" where
  "coding_rules = [blockDestructiveShell, blockSystemWrites, flagSecrets]"

definition enterprise_rules :: "(string \<Rightarrow> string option) \<Rightarrow> (string \<Rightarrow> obj \<Rightarrow> PolicyDecision option) list" where
  "enterprise_rules url_hostname =
     [blockDestructiveShell, blockShellByDefault, blockNetworkAccess url_hostname, strictWorkspaceBoundary,
      blockSystemWrites, flagSecrets, flagPII]"

definition sandbox_rules :: "(string \<Rightarrow> obj \<Rightarrow> PolicyDecision option) list" where
  "sandbox_rules = [blockCatastrophic]"

definition CODING_AGENT_RULES :: "'s SafetyRule list" where
  "CODING_AGENT_RULES = map stateless coding_rules"

definition ENTERPRISE_AGENT_RULES :: "(string \<Rightarrow> string option) \<Rightarrow> 's SafetyRule list" where
  "ENTERPRISE_AGENT_RULES url_hostname = map stateless (enterprise_rules url_hostname)"

definition SANDBOX_AGENT_RULES :: "'s SafetyRule list" where
  "SANDBOX_AGENT_RULES = map stateless sandbox_rules"

section \<open>The presets only ask\<close>

definition only_asks :: "(string \<Rightarrow> obj \<Rightarrow> PolicyDecision option) \<Rightarrow> bool" where
  "only_asks r \<longleftrightarrow> (\<forall>n i. r n i \<noteq> Some Allow)"

lemma asks_if_any_asks: "asks_if_any ps s \<noteq> Some Allow"
  by (auto simp: asks_if_any_def first_map_Some_iff split: if_splits)

lemma rules_only_ask:
  "only_asks blockDestructiveShell" "only_asks blockSystemWrites" "only_asks flagSecrets"
  "only_asks blockShellByDefault" "only_asks (blockNetworkAccess u)" "only_asks strictWorkspaceBoundary"
  "only_asks flagPII" "only_asks blockCatastrophic"
proof -
  show "only_asks blockDestructiveShell"
    using asks_if_any_asks by (auto simp: only_asks_def blockDestructiveShell_def Let_def split: option.splits)
  show "only_asks blockSystemWrites"
    by (auto simp: only_asks_def blockSystemWrites_def Let_def first_map_Some_iff split: if_splits)
  show "only_asks flagSecrets" using asks_if_any_asks by (simp add: only_asks_def flagSecrets_def)
  show "only_asks (blockNetworkAccess u)"
    by (simp add: only_asks_def blockNetworkAccess_def Let_def split: option.split)
qed (simp_all add: only_asks_def blockShellByDefault_def strictWorkspaceBoundary_def flagPII_def blockCatastrophic_def Let_def)

lemma run_stateless:
  "run_safety (map stateless rs) n i s = (first_map (\<lambda>r. r n i) rs, s)"
  by (induction rs) (auto simp: stateless_def split: option.splits)

lemma preset_rules_ask:
  "r \<in> set coding_rules \<union> set (enterprise_rules u) \<union> set sandbox_rules \<Longrightarrow> only_asks r"
  using rules_only_ask by (auto simp: coding_rules_def enterprise_rules_def sandbox_rules_def)

lemma first_map_only_asks:
  "(\<And>r. r \<in> set rs \<Longrightarrow> only_asks r) \<Longrightarrow> first_map (\<lambda>r. r n i) rs = (if \<exists>r \<in> set rs. r n i \<noteq> None then Some Ask else None)"
proof (induction rs)
  case (Cons r rs)
  then have "r n i \<noteq> Some Allow" by (simp add: only_asks_def)
  then have "r n i = None \<or> r n i = Some Ask" by (metis PolicyDecision.exhaust option.exhaust)
  moreover have "first_map (\<lambda>r. r n i) rs = (if \<exists>r \<in> set rs. r n i \<noteq> None then Some Ask else None)"
    using Cons by simp
  ultimately show ?case by (elim disjE) simp_all
qed simp

section \<open>Properties\<close>

text \<open>
  A preset can only tighten. An evaluator whose safety rules are one of the three presets asks
  exactly when one of the preset's rules reacts; when none does, it answers as an evaluator without
  safety rules. No preset rule ever allows a call by itself.
\<close>

theorem presets_only_tighten:
  assumes "rs = coding_rules \<or> rs = enterprise_rules url_hostname \<or> rs = sandbox_rules"
    and "ev_safetyRules ev = map stateless rs"
  shows "evaluator_evaluate ev n i c s =
    (if \<exists>r \<in> set rs. r n i \<noteq> None then (Some Ask, s)
     else evaluator_evaluate (ev\<lparr>ev_safetyRules := []\<rparr>) n i c s)"
proof -
  have "only_asks r" if "r \<in> set rs" for r
    using assms(1) that preset_rules_ask [of r url_hostname] by auto
  then have "run_safety (ev_safetyRules ev) n i s = (if \<exists>r \<in> set rs. r n i \<noteq> None then Some Ask else None, s)"
    by (simp only: assms(2) run_stateless) (simp add: first_map_only_asks)
  then show ?thesis by (auto simp: evaluator_evaluate_def split: option.split)
qed

theorem presets_only_tighten_witness:
  "fst (evaluator_evaluate (evaluator_new None (Some CODING_AGENT_RULES) None) ''bash''
     [(''command'', JStr ''sudo ls'')] \<lparr>ctx_userId = None, ctx_sessionId = [], ctx_agentId = None, ctx_mode = ModeAuto\<rparr> ()) = Some Ask"
proof -
  have r: "blockDestructiveShell ''bash'' [(''command'', JStr ''sudo ls'')] \<noteq> None" by code_simp
  have "ev_safetyRules (evaluator_new None (Some CODING_AGENT_RULES) None :: unit PermissionEvaluator) = map stateless coding_rules"
    by (simp add: evaluator_new_def CODING_AGENT_RULES_def)
  note e = presets_only_tighten [OF disjI1 [OF refl] this]
  have "\<exists>r \<in> set coding_rules. r ''bash'' [(''command'', JStr ''sudo ls'')] \<noteq> None"
    using r by (auto simp: coding_rules_def)
  then show ?thesis unfolding e by (simp only: if_True fst_conv)
qed

text \<open>
  The secret detector does not see a secret in a field of its own, nor one in double quotes: it
  looks for a key name followed by a colon and a quote in the serialised input, where the
  name's closing quote, or the escape of an inner quote, comes between. Single quotes it sees.
\<close>

theorem flagSecrets_misses_fields:
  "flagSecrets n [(''password'', JStr ''hunter2hunter2'')] = None
   \<and> flagSecrets n [(''cmd'', JStr (''password='' @ [CHR 0x22] @ ''hunter2hunter2'' @ [CHR 0x22]))] = None
   \<and> flagSecrets n [(''cmd'', JStr (''password='' @ [CHR 0x27] @ ''hunter2hunter2'' @ [CHR 0x27]))] = Some Ask"
  by (intro conjI; code_simp)

end
