(* ===== verification/ToolGuard.thy ===== *)
theory ToolGuard
  imports Glob ShellSecurity
begin

text \<open>
  Which tools exist and which inputs they accept: the allow and deny lists of
  packages/loom/src/tools/policy.ts and the input guards of packages/loom/src/tools/guard.ts,
  which wrap a tool's \<open>execute\<close> and compose with the shell validator.
\<close>

section \<open>Tools\<close>

datatype ToolCategory =
  CFilesystem | CShell | CBrowser | CSearch | CMemory | CAgent | CCustom | CMcp

record ToolResult =
  content :: string
  isError :: bool
  metadata :: "obj option"

text \<open>
  Running \<open>execute\<close> to its end yields the progress values it reported, in order, and its result
  (a tool that returns a promise reports no progress).
\<close>

record 'c Tool =
  name :: string
  category :: ToolCategory
  execute :: "obj \<Rightarrow> 'c \<Rightarrow> string list \<times> ToolResult"

section \<open>Tool policy\<close>

datatype PolicyAction = ActAllow | ActDeny

record PolicyRule =
  pr_pattern :: string
  pr_action :: PolicyAction

record CategoryRule =
  cr_category :: ToolCategory
  cr_action :: PolicyAction

record ToolPolicyConfig =
  defaultAction :: PolicyAction
  rules :: "PolicyRule list"
  categoryRules :: "CategoryRule list"

definition policy_new ::
  "PolicyAction option \<Rightarrow> PolicyRule list option \<Rightarrow> CategoryRule list option \<Rightarrow> ToolPolicyConfig" where
  "policy_new d r c =
     \<lparr>defaultAction = (case d of Some x \<Rightarrow> x | None \<Rightarrow> ActAllow),
      rules = (case r of Some x \<Rightarrow> x | None \<Rightarrow> []),
      categoryRules = (case c of Some x \<Rightarrow> x | None \<Rightarrow> [])\<rparr>"

definition matchPattern :: "string \<Rightarrow> string \<Rightarrow> bool" where
  "matchPattern pattern n =
     (if pattern = ''*'' then True
      else if \<not> js_includes pattern ''*'' then pattern = n
      else anchored_test (js_join ''.*'' (map escapeRegex (js_split (CHR ''*'') pattern))) n = Some True)"

fun any_rule :: "PolicyAction \<Rightarrow> PolicyRule list \<Rightarrow> string \<Rightarrow> bool" where
  "any_rule a [] n = False"
| "any_rule a (r # rs) n = ((pr_action r = a \<and> matchPattern (pr_pattern r) n) \<or> any_rule a rs n)"

fun any_category :: "PolicyAction \<Rightarrow> CategoryRule list \<Rightarrow> ToolCategory option \<Rightarrow> bool" where
  "any_category a [] c = False"
| "any_category a (r # rs) c = ((cr_action r = a \<and> c \<noteq> None \<and> Some (cr_category r) = c) \<or> any_category a rs c)"

definition isAllowed :: "ToolPolicyConfig \<Rightarrow> string \<Rightarrow> ToolCategory option \<Rightarrow> bool" where
  "isAllowed config toolName cat =
     (if any_rule ActDeny (rules config) toolName then False
      else if any_category ActDeny (categoryRules config) cat then False
      else if any_rule ActAllow (rules config) toolName then True
      else if any_category ActAllow (categoryRules config) cat then True
      else defaultAction config = ActAllow)"

definition isToolAllowed :: "ToolPolicyConfig \<Rightarrow> 'c Tool \<Rightarrow> bool" where
  "isToolAllowed config t = isAllowed config (name t) (Some (category t))"

definition filterAllowed :: "ToolPolicyConfig \<Rightarrow> 'c Tool list \<Rightarrow> 'c Tool list" where
  "filterAllowed config tools = filter (isToolAllowed config) tools"

definition allowOnly :: "string list \<Rightarrow> ToolPolicyConfig" where
  "allowOnly patterns =
     policy_new (Some ActDeny) (Some (map (\<lambda>p. \<lparr>pr_pattern = p, pr_action = ActAllow\<rparr>) patterns)) None"

definition denyOnly :: "string list \<Rightarrow> ToolPolicyConfig" where
  "denyOnly patterns =
     policy_new (Some ActAllow) (Some (map (\<lambda>p. \<lparr>pr_pattern = p, pr_action = ActDeny\<rparr>) patterns)) None"

definition allowAll :: ToolPolicyConfig where
  "allowAll = policy_new (Some ActAllow) None None"

section \<open>Guards\<close>

datatype ToolGuardDecision = GuardAllow | GuardDeny string "string option"

text \<open>\<open>Inl\<close> is the message of an exception the guard threw.\<close>

record 'c ToolGuard =
  gid :: string
  appliesTo :: "string \<Rightarrow> bool"
  guard_evaluate :: "obj \<Rightarrow> 'c \<Rightarrow> string + ToolGuardDecision"

record ShellPolicySpec =
  spec_tool :: string
  allowPrefixes :: "string list option"
  denyPatterns :: "string list option"
  spec_allowDangerous :: "bool option"
  spec_allowInjection :: "bool option"

definition compileNameMatcher :: "string \<Rightarrow> string \<Rightarrow> bool" where
  "compileNameMatcher pattern =
     (if pattern = ''*'' then (\<lambda>_. True)
      else if \<not> js_includes pattern ''*'' then (\<lambda>n. n = pattern)
      else (let src = js_join ''.*'' (map escapeRegex (js_split (CHR ''*'') pattern))
            in (\<lambda>n. anchored_test src n = Some True)))"

fun level_name :: "ValidationLevel \<Rightarrow> string" where
  "level_name Blocked = ''blocked''"
| "level_name Dangerous = ''dangerous''"
| "level_name Injection = ''injection''"
| "level_name Exfiltration = ''exfiltration''"
| "level_name Sensitive = ''sensitive''"
| "level_name Ok = ''ok''"

text \<open>The \<open>evaluate\<close> closure of a compiled shell policy; a deny pattern comes with its source.\<close>

definition shell_guard_evaluate ::
  "ShellPolicySpec \<Rightarrow> (regex \<times> string) list \<Rightarrow> string \<Rightarrow> obj \<Rightarrow> ToolGuardDecision" where
  "shell_guard_evaluate spec denyRegexes ident input =
     (let command = (case str_field input ''command'' of Some c \<Rightarrow> c | None \<Rightarrow> []) in
      if js_trim command = [] then GuardAllow
      else (case first_map (\<lambda>(re, src). if re_test re command
               then Some (GuardDeny (''matched deny pattern /'' @ src @ ''/'') (Some (ident @ '':deny-pattern'')))
               else None) denyRegexes of
        Some d \<Rightarrow> d
      | None \<Rightarrow>
          (let prefixes = (case allowPrefixes spec of Some ps \<Rightarrow> ps | None \<Rightarrow> []) in
           if prefixes \<noteq> [] \<and> \<not> (\<exists>p \<in> set prefixes. js_startsWith (js_trim command) p)
           then GuardDeny ''command not in profile allowlist'' (Some (ident @ '':allowlist''))
           else (let result = validateCommand command
                   \<lparr>allowInjection = (spec_allowInjection spec = Some True),
                    allowDangerous = (spec_allowDangerous spec = Some True),
                    customBlocklist = None, customAllowlist = None\<rparr> in
                 if \<not> safe result
                 then GuardDeny (case vreason result of Some r \<Rightarrow> r
                                 | None \<Rightarrow> ''shell-security level '' @ level_name (vlevel result))
                        (Some (ident @ '':'' @ level_name (vlevel result)))
                 else GuardAllow))))"

text \<open>
  Compilation. The \<open>RegExp\<close> constructor on the profile's own pattern sources is the parameter
  \<open>re_new\<close>; \<open>None\<close> is the syntax error it throws. An exception names the policy's index and,
  for a bad pattern, the pattern's index and source.
\<close>

datatype CompileError = EmptyToolPattern nat | InvalidRegex nat nat string

fun compile_denies ::
  "(string \<Rightarrow> regex option) \<Rightarrow> nat \<Rightarrow> nat \<Rightarrow> string list \<Rightarrow> CompileError + (regex \<times> string) list" where
  "compile_denies re_new index j [] = Inr []"
| "compile_denies re_new index j (src # srcs) =
     (case re_new src of
        None \<Rightarrow> Inl (InvalidRegex index j src)
      | Some re \<Rightarrow>
          (case compile_denies re_new index (Suc j) srcs of
             Inl e \<Rightarrow> Inl e
           | Inr res \<Rightarrow> Inr ((re, src) # res)))"

definition compileShell ::
  "(string \<Rightarrow> regex option) \<Rightarrow> ShellPolicySpec \<Rightarrow> nat \<Rightarrow> CompileError + 'c ToolGuard" where
  "compileShell re_new spec index =
     (case compile_denies re_new index 0 (case denyPatterns spec of Some ps \<Rightarrow> ps | None \<Rightarrow> []) of
        Inl e \<Rightarrow> Inl e
      | Inr denyRegexes \<Rightarrow>
          Inr \<lparr>gid = ''shell:'' @ spec_tool spec,
               appliesTo = compileNameMatcher (spec_tool spec),
               guard_evaluate = (\<lambda>input _. Inr (shell_guard_evaluate spec denyRegexes
                                                 (''shell:'' @ spec_tool spec) input))\<rparr>)"

definition compileOne ::
  "(string \<Rightarrow> regex option) \<Rightarrow> ShellPolicySpec \<Rightarrow> nat \<Rightarrow> CompileError + 'c ToolGuard" where
  "compileOne re_new spec index =
     (if spec_tool spec = [] then Inl (EmptyToolPattern index) else compileShell re_new spec index)"

fun compile_from ::
  "(string \<Rightarrow> regex option) \<Rightarrow> nat \<Rightarrow> ShellPolicySpec list \<Rightarrow> CompileError + 'c ToolGuard list" where
  "compile_from re_new i [] = Inr []"
| "compile_from re_new i (spec # specs) =
     (case compileOne re_new spec i of
        Inl e \<Rightarrow> Inl e
      | Inr g \<Rightarrow> (case compile_from re_new (Suc i) specs of Inl e \<Rightarrow> Inl e | Inr gs \<Rightarrow> Inr (g # gs)))"

definition compileToolPolicies ::
  "(string \<Rightarrow> regex option) \<Rightarrow> ShellPolicySpec list \<Rightarrow> CompileError + 'c ToolGuard list" where
  "compileToolPolicies re_new specs = compile_from re_new 0 specs"

definition denied_result :: "string \<Rightarrow> string \<Rightarrow> string \<Rightarrow> string option \<Rightarrow> ToolResult" where
  "denied_result toolName guardId reason ruleId =
     \<lparr>content = ''Blocked by policy: '' @ reason, isError = True,
      metadata = Some [(''policy'', JStr ''deny''), (''reason'', JStr reason),
                  (''ruleId'', JStr (case ruleId of Some r \<Rightarrow> r | None \<Rightarrow> guardId)), (''tool'', JStr toolName)]\<rparr>"

text \<open>The guard loop: \<open>None\<close> when every guard allows, else the result of the first denial.\<close>

fun guard_loop :: "string \<Rightarrow> 'c ToolGuard list \<Rightarrow> obj \<Rightarrow> 'c \<Rightarrow> ToolResult option" where
  "guard_loop toolName [] input context = None"
| "guard_loop toolName (g # gs) input context =
     (case guard_evaluate g input context of
        Inl msg \<Rightarrow> Some (denied_result toolName (gid g)
                     (''guard '' @ [CHR 0x27] @ gid g @ [CHR 0x27] @ '' threw: '' @ msg) (Some (gid g)))
      | Inr (GuardDeny reason ruleId) \<Rightarrow> Some (denied_result toolName (gid g) reason ruleId)
      | Inr GuardAllow \<Rightarrow> guard_loop toolName gs input context)"

definition wrapOne :: "'c Tool \<Rightarrow> 'c ToolGuard list \<Rightarrow> 'c Tool" where
  "wrapOne t guards =
     t\<lparr>execute := (\<lambda>input context.
         case guard_loop (name t) guards input context of
           Some r \<Rightarrow> ([], r)
         | None \<Rightarrow> execute t input context)\<rparr>"

definition wrapToolsWithGuards :: "'c Tool list \<Rightarrow> 'c ToolGuard list \<Rightarrow> 'c Tool list" where
  "wrapToolsWithGuards tools guards =
     (if guards = [] then tools
      else map (\<lambda>t. let matching = filter (\<lambda>g. appliesTo g (name t)) guards in
                    if matching = [] then t else wrapOne t matching) tools)"

section \<open>Name matching\<close>

lemma includes_star_iff: "js_includes p ''*'' \<longleftrightarrow> CHR ''*'' \<in> set p"
  by (auto simp: js_includes_iff in_set_conv_decomp)

lemma matchPattern_glob: "matchPattern p n \<longleftrightarrow> name_glob p n"
  by (auto simp: matchPattern_def includes_star_iff name_glob_def split_escape_join
      anchored_test_toks any_toks_ok tok_match_self tok_match_literals)

lemma compileNameMatcher_glob: "compileNameMatcher p n \<longleftrightarrow> name_glob p n"
  using matchPattern_glob [of p n] by (auto simp: compileNameMatcher_def matchPattern_def Let_def)

interpretation mp: name_matcher "\<lambda>n p. matchPattern p n"
  by unfold_locales (simp_all add: matchPattern_glob name_glob_def)

interpretation cm: name_matcher "\<lambda>n p. compileNameMatcher p n"
  by unfold_locales (simp_all add: compileNameMatcher_glob name_glob_def)

lemma any_rule_iff: "any_rule a rs n \<longleftrightarrow> (\<exists>r \<in> set rs. pr_action r = a \<and> matchPattern (pr_pattern r) n)"
  by (induction rs) auto

lemma any_category_iff:
  "any_category a rs c \<longleftrightarrow> (\<exists>r \<in> set rs. cr_action r = a \<and> c = Some (cr_category r))"
  by (induction rs) auto

section \<open>Guard lemmas\<close>

definition denies :: "'c ToolGuard \<Rightarrow> obj \<Rightarrow> 'c \<Rightarrow> bool" where
  "denies g input context \<longleftrightarrow> guard_evaluate g input context \<noteq> Inr GuardAllow"

lemma guard_loop_None_iff: "guard_loop n gs i c = None \<longleftrightarrow> (\<forall>g \<in> set gs. \<not> denies g i c)"
  by (induction gs) (auto simp: denies_def split: sum.splits ToolGuardDecision.splits)

text \<open>What callers test to recognise a refusal: \<open>metadata.policy === 'deny'\<close>.\<close>

definition policy_denial :: "ToolResult \<Rightarrow> bool" where
  "policy_denial r \<longleftrightarrow> (\<exists>md. metadata r = Some md \<and> map_of md ''policy'' = Some (JStr ''deny''))"

lemma guard_loop_Some_error:
  "guard_loop n gs i c = Some r \<Longrightarrow> isError r \<and> policy_denial r"
  by (induction gs) (auto simp: denied_result_def policy_denial_def split: sum.splits ToolGuardDecision.splits)

lemma wrap_member:
  assumes "t \<in> set tools"
  shows "(let matching = filter (\<lambda>g. appliesTo g (name t)) guards in
          if matching = [] then t else wrapOne t matching) \<in> set (wrapToolsWithGuards tools guards)"
  using assms by (auto simp: wrapToolsWithGuards_def Let_def)

lemma shell_guard_allow_validated:
  "shell_guard_evaluate spec dr ident input = GuardAllow \<Longrightarrow> str_field input ''command'' = Some c \<Longrightarrow>
   js_trim c \<noteq> [] \<Longrightarrow>
   safe (validateCommand c
     \<lparr>allowInjection = (spec_allowInjection spec = Some True),
      allowDangerous = (spec_allowDangerous spec = Some True),
      customBlocklist = None, customAllowlist = None\<rparr>)"
  by (auto simp: shell_guard_evaluate_def Let_def first_map_Some_iff split: option.splits if_splits)

lemma compileShell_InrD:
  "compileShell re_new spec i = Inr g \<Longrightarrow>
   \<exists>dr. guard_evaluate g = (\<lambda>input _. Inr (shell_guard_evaluate spec dr (''shell:'' @ spec_tool spec) input))
      \<and> appliesTo g = compileNameMatcher (spec_tool spec)"
  by (auto simp: compileShell_def split: sum.splits)

section \<open>Properties\<close>

text \<open>
  Deny rules win. A tool is allowed exactly when no deny rule matches its name (as a glob) or
  its category, and an allow rule matches or the default is to allow; so a deny rule anywhere in
  the lists decides, whatever the order of the rules.
\<close>

theorem isAllowed_iff:
  "isAllowed config toolName cat \<longleftrightarrow>
     \<not> (\<exists>r \<in> set (rules config). pr_action r = ActDeny \<and> name_glob (pr_pattern r) toolName)
     \<and> \<not> (\<exists>r \<in> set (categoryRules config). cr_action r = ActDeny \<and> cat = Some (cr_category r))
     \<and> ((\<exists>r \<in> set (rules config). pr_action r = ActAllow \<and> name_glob (pr_pattern r) toolName)
        \<or> (\<exists>r \<in> set (categoryRules config). cr_action r = ActAllow \<and> cat = Some (cr_category r))
        \<or> defaultAction config = ActAllow)"
  by (auto simp: isAllowed_def any_rule_iff any_category_iff matchPattern_glob)



text \<open>
  C25: The floors of a shell policy cannot be opened. Whatever flags, prefixes and deny patterns a
  profile's policy has, if its compiled guard lets a non-blank command through, the command
  contains no pattern of level 1 (destruction), 4 (exfiltration) or 5 (sensitive data).
\<close>

theorem shell_policy_floors:
  assumes "compileOne re_new spec index = Inr g"
    and "guard_evaluate g input context = Inr GuardAllow"
    and "str_field input ''command'' = Some command" and "js_trim command \<noteq> []"
  shows "\<not> hits LEVEL1_BLOCKED command \<and> \<not> hits LEVEL4_EXFILTRATION command
    \<and> \<not> hits LEVEL5_SENSITIVE command \<and> length command \<le> 100000"
proof -
  let ?o = "\<lparr>allowInjection = (spec_allowInjection spec = Some True),
      allowDangerous = (spec_allowDangerous spec = Some True),
      customBlocklist = None, customAllowlist = None\<rparr>"
  from assms(1) have "compileShell re_new spec index = Inr g"
    by (simp add: compileOne_def split: if_splits)
  then obtain dr where "guard_evaluate g =
      (\<lambda>input _. Inr (shell_guard_evaluate spec dr (''shell:'' @ spec_tool spec) input))"
    using compileShell_InrD by blast
  with assms(2) have "shell_guard_evaluate spec dr (''shell:'' @ spec_tool spec) input = GuardAllow"
    by simp
  then have "safe (validateCommand command ?o)"
    using assms(3,4) by (rule shell_guard_allow_validated)
  moreover have "safe (validateCommand command ?o) \<longleftrightarrow> (safe (validateCommand command ?o) \<and>
      \<not> hits LEVEL1_BLOCKED command \<and> \<not> hits LEVEL4_EXFILTRATION command
      \<and> \<not> hits LEVEL5_SENSITIVE command \<and> length command \<le> 100000)"
    using assms(4) by (auto simp: validate_safe_iff)
  ultimately show ?thesis by blast
qed

theorem shell_policy_floors_witness:
  "\<not> hits LEVEL1_BLOCKED ''ls -la''"
proof -
  let ?s = "\<lparr>spec_tool = ''bash'', allowPrefixes = Some [''ls''], denyPatterns = None,
      spec_allowDangerous = Some True, spec_allowInjection = Some True\<rparr>"
  have c: "compileOne (\<lambda>_. None) ?s 0 = Inr \<lparr>gid = ''shell:bash'',
      appliesTo = compileNameMatcher ''bash'', guard_evaluate =
        (\<lambda>input (_::unit). Inr (shell_guard_evaluate ?s [] ''shell:bash'' input))\<rparr>"
    by (simp add: compileOne_def compileShell_def)
  have t: "js_trim ''ls -la'' = ''ls -la''" by code_simp
  have "safe (validateCommand ''ls -la''
      \<lparr>allowInjection = True, allowDangerous = True, customBlocklist = None, customAllowlist = None\<rparr>)"
    by (simp add: validate_safe_iff ls_clean)
  then have g: "shell_guard_evaluate ?s [] ''shell:bash'' [(''command'', JStr ''ls -la'')] = GuardAllow"
    using t by (simp add: shell_guard_evaluate_def str_field_def)
  have "js_trim ''ls -la'' \<noteq> []" by (simp add: t)
  then show ?thesis
    using shell_policy_floors [OF c, of "[(''command'', JStr ''ls -la'')]" "()" "''ls -la''"] g
    by (simp add: str_field_def)
qed

end
