(* ===== verification/ResultCache.thy ===== *)
theory ResultCache
  imports ToolGuard JsMap
begin

text \<open>
  The session cache of tool results (packages/loom/src/tools/result-cache.ts): a map in insertion
  order with a count of bytes, two bounds and eviction of the oldest entries. The key of an entry
  joins the tool name and the tool's own key with a NUL character.
\<close>

record CacheEntry =
  ce_key :: string
  ce_toolName :: string
  ce_result :: ToolResult
  ce_bytes :: int

record ToolResultCache =
  maxEntries :: nat
  maxBytes :: nat
  entries :: "(string, CacheEntry) js_map"
  currentBytes :: int
  hits_count :: nat
  misses :: nat
  bytesSaved :: int

definition cache_new :: "nat option \<Rightarrow> nat option \<Rightarrow> ToolResultCache" where
  "cache_new me mb = \<lparr>maxEntries = (case me of Some n \<Rightarrow> n | None \<Rightarrow> 256),
     maxBytes = (case mb of Some n \<Rightarrow> n | None \<Rightarrow> 8 * 1024 * 1024),
     entries = [], currentBytes = 0, hits_count = 0, misses = 0, bytesSaved = 0\<rparr>"

definition composite :: "string \<Rightarrow> string \<Rightarrow> string" where
  "composite toolName key = toolName @ [CHR 0x00] @ key"

text \<open>\<open>Buffer.byteLength(s, 'utf8')\<close>: one byte up to 0x7F, two up to 0xFF.\<close>

definition utf8_length :: "string \<Rightarrow> int" where
  "utf8_length s = (\<Sum>c \<leftarrow> s. if of_char c < (128::nat) then 1 else 2)"

definition cache_get :: "string \<Rightarrow> string \<Rightarrow> ToolResultCache \<Rightarrow> ToolResult option \<times> ToolResultCache" where
  "cache_get toolName key c =
     (let k = composite toolName key in
      case map_get (entries c) k of
        None \<Rightarrow> (None, c\<lparr>misses := misses c + 1\<rparr>)
      | Some e \<Rightarrow> (Some (ce_result e),
          c\<lparr>entries := map_set k e (map_delete k (entries c)),
            hits_count := hits_count c + 1, bytesSaved := bytesSaved c + ce_bytes e\<rparr>))"

text \<open>The loop of \<open>evict\<close>: the first entry of the map is the oldest.\<close>

fun evict_loop :: "nat \<Rightarrow> nat \<Rightarrow> (string, CacheEntry) js_map \<Rightarrow> int \<Rightarrow> (string, CacheEntry) js_map \<times> int" where
  "evict_loop me mb [] b = ([], b)"
| "evict_loop me mb ((k, e) # es) b =
     (if length ((k, e) # es) > me \<or> b > int mb then evict_loop me mb es (b - ce_bytes e)
      else ((k, e) # es, b))"

definition cache_evict :: "ToolResultCache \<Rightarrow> ToolResultCache" where
  "cache_evict c =
     (let (es, b) = evict_loop (maxEntries c) (maxBytes c) (entries c) (currentBytes c)
      in c\<lparr>entries := es, currentBytes := b\<rparr>)"

definition cache_set :: "string \<Rightarrow> string \<Rightarrow> ToolResult \<Rightarrow> ToolResultCache \<Rightarrow> ToolResultCache" where
  "cache_set toolName key result c =
     (if isError result then c
      else (let k = composite toolName key; bytes = utf8_length (content result);
                freed = (case map_get (entries c) k of Some old \<Rightarrow> currentBytes c - ce_bytes old
                         | None \<Rightarrow> currentBytes c)
            in cache_evict (c\<lparr>entries := map_set k \<lparr>ce_key = k, ce_toolName = toolName, ce_result = result,
                                   ce_bytes = bytes\<rparr> (entries c),
                              currentBytes := freed + bytes\<rparr>)))"

record CacheStats =
  st_hits :: nat
  st_misses :: nat
  st_bytesSaved :: int
  st_entries :: nat
  st_bytes :: int

definition stats :: "ToolResultCache \<Rightarrow> CacheStats" where
  "stats c = \<lparr>st_hits = hits_count c, st_misses = misses c, st_bytesSaved = bytesSaved c,
     st_entries = length (entries c), st_bytes = currentBytes c\<rparr>"

definition cache_clear :: "ToolResultCache \<Rightarrow> ToolResultCache" where
  "cache_clear c = c\<lparr>entries := [], currentBytes := 0, hits_count := 0, misses := 0, bytesSaved := 0\<rparr>"

section \<open>Invariant\<close>

definition bytes_of :: "(string, CacheEntry) js_map \<Rightarrow> int" where
  "bytes_of es = (\<Sum>(k, e) \<leftarrow> es. ce_bytes e)"

definition entry_ok :: "string \<times> CacheEntry \<Rightarrow> bool" where
  "entry_ok ke \<longleftrightarrow> ce_key (snd ke) = fst ke \<and> \<not> isError (ce_result (snd ke))
     \<and> ce_bytes (snd ke) = utf8_length (content (ce_result (snd ke)))"

definition cache_inv :: "ToolResultCache \<Rightarrow> bool" where
  "cache_inv c \<longleftrightarrow> map_ok (entries c) \<and> list_all entry_ok (entries c) \<and> currentBytes c = bytes_of (entries c)
     \<and> length (entries c) \<le> maxEntries c \<and> currentBytes c \<le> int (maxBytes c)"

lemma utf8_length_nonneg: "0 \<le> utf8_length s"
  unfolding utf8_length_def by (rule sum_list_nonneg) auto

lemma bytes_of_simps [simp]: "bytes_of [] = 0" "bytes_of ((k, e) # es) = ce_bytes e + bytes_of es"
  by (simp_all add: bytes_of_def)

lemma evict_loop_spec:
  assumes "b = bytes_of es" "evict_loop me mb es b = (es', b')"
  shows "\<exists>n. es' = drop n es \<and> b' = bytes_of es' \<and> length es' \<le> me \<and> b' \<le> int mb
    \<and> (\<forall>m < n. length (drop m es) > me \<or> bytes_of (drop m es) > int mb)"
  using assms
proof (induction me mb es b arbitrary: es' b' rule: evict_loop.induct)
  case (1 me mb b)
  then show ?case by (intro exI [of _ 0]) auto
next
  case (2 me mb k e es b)
  show ?case
  proof (cases "length ((k, e) # es) > me \<or> b > int mb")
    case True
    with 2 obtain n where n: "es' = drop n es" "b' = bytes_of es'" "length es' \<le> me" "b' \<le> int mb"
      "\<forall>m < n. length (drop m es) > me \<or> bytes_of (drop m es) > int mb" by auto
    have "length (drop m ((k, e) # es)) > me \<or> bytes_of (drop m ((k, e) # es)) > int mb" if "m < Suc n" for m
      using that n(5) True 2(2) by (cases m) auto
    with n show ?thesis by (intro exI [of _ "Suc n"]) auto
  next
    case False
    with 2 show ?thesis by (intro exI [of _ 0]) auto
  qed
qed

lemma bytes_of_delete:
  "map_ok es \<Longrightarrow> map_get es k = Some e \<Longrightarrow> bytes_of (map_delete k es) = bytes_of es - ce_bytes e"
proof (induction es)
  case (Cons x es)
  obtain k' e' where x: "x = (k', e')" by (cases x)
  have "AList.delete k es = es" if "k \<notin> fst ` set es" using that by (simp add: delete_id)
  with Cons x show ?case
    by (auto simp: map_ok_def map_get_def map_delete_def AList.delete_eq split: if_splits)
qed (simp add: map_get_def)

lemma bytes_of_set:
  "map_ok es \<Longrightarrow> bytes_of (map_set k e es) =
     (case map_get es k of Some old \<Rightarrow> bytes_of es - ce_bytes old | None \<Rightarrow> bytes_of es) + ce_bytes e"
proof (induction es)
  case (Cons x es)
  obtain k' e' where x: "x = (k', e')" by (cases x)
  from Cons.prems have "map_ok es" by (simp add: map_ok_def)
  note IH = Cons.IH [OF this]
  show ?case
  proof (cases "k' = k")
    case False
    with IH x show ?thesis
      by (cases "map_get es k") (simp_all add: map_set_def map_get_def)
  qed (simp add: x map_set_def map_get_def)
qed (simp add: map_set_def map_get_def)

lemma entry_ok_set:
  "list_all entry_ok es \<Longrightarrow> entry_ok (k, e) \<Longrightarrow> list_all entry_ok (map_set k e es)"
  by (induction es) (auto simp: map_set_def entry_ok_def)

lemma entry_ok_delete: "list_all entry_ok es \<Longrightarrow> list_all entry_ok (map_delete k es)"
  by (auto simp: map_delete_def list_all_iff AList.delete_eq)

lemma map_set_fresh: "map_get es k = None \<Longrightarrow> map_set k e es = es @ [(k, e)]"
proof (induction es)
  case (Cons x es)
  then show ?case by (cases x) (auto simp: map_get_def map_set_def split: if_splits)
qed (simp add: map_set_def)

lemma map_get_delete: "map_ok es \<Longrightarrow> map_get (map_delete k es) k = None"
  by (simp add: jm.find_remove)

lemma length_set_delete:
  "map_ok es \<Longrightarrow> map_get es k = Some e \<Longrightarrow> length (map_set k e (map_delete k es)) = length es"
proof -
  assume ok: "map_ok es" and k: "map_get es k = Some e"
  have "map_get (map_set k e (map_delete k es)) = map_get es"
    using ok k by (auto simp: jm.find_update jm.find_remove jm.ok_remove)
  moreover have "map_ok (map_set k e (map_delete k es))" using ok by (simp add: jm.ok_update jm.ok_remove)
  ultimately show ?thesis using ok jm.size_dom by metis
qed

lemma cache_inv_get: "cache_inv c \<Longrightarrow> cache_inv (snd (cache_get t k c))"
proof -
  assume inv: "cache_inv c"
  show ?thesis
  proof (cases "map_get (entries c) (composite t k)")
    case None
    with inv show ?thesis by (simp add: cache_get_def cache_inv_def)
  next
    case (Some e)
    have ok: "entry_ok (composite t k, e)"
      using inv Some by (auto simp: cache_inv_def list_all_iff map_get_def dest: map_of_SomeD)
    from inv Some ok show ?thesis
      by (auto simp: cache_get_def Let_def cache_inv_def jm.ok_update jm.ok_remove entry_ok_set entry_ok_delete
          bytes_of_set bytes_of_delete map_get_delete length_set_delete)
  qed
qed

text \<open>The entries before eviction, when a result is stored.\<close>

definition stored :: "string \<Rightarrow> string \<Rightarrow> ToolResult \<Rightarrow> ToolResultCache \<Rightarrow> (string, CacheEntry) js_map" where
  "stored t k r c = map_set (composite t k) \<lparr>ce_key = composite t k, ce_toolName = t, ce_result = r,
     ce_bytes = utf8_length (content r)\<rparr> (entries c)"

lemma cache_set_spec:
  assumes "cache_inv c" "\<not> isError r"
  shows "\<exists>n. entries (cache_set t k r c) = drop n (stored t k r c)
    \<and> currentBytes (cache_set t k r c) = bytes_of (drop n (stored t k r c))
    \<and> length (drop n (stored t k r c)) \<le> maxEntries c \<and> bytes_of (drop n (stored t k r c)) \<le> int (maxBytes c)
    \<and> (\<forall>m < n. length (drop m (stored t k r c)) > maxEntries c \<or> bytes_of (drop m (stored t k r c)) > int (maxBytes c))
    \<and> maxEntries (cache_set t k r c) = maxEntries c \<and> maxBytes (cache_set t k r c) = maxBytes c"
proof -
  let ?b = "(case map_get (entries c) (composite t k) of Some old \<Rightarrow> currentBytes c - ce_bytes old
      | None \<Rightarrow> currentBytes c) + utf8_length (content r)"
  have b: "?b = bytes_of (stored t k r c)"
    using assms(1) by (simp add: stored_def cache_inv_def bytes_of_set split: option.split)
  obtain es' b' where e: "evict_loop (maxEntries c) (maxBytes c) (stored t k r c) ?b = (es', b')" by fastforce
  have s: "cache_set t k r c = c\<lparr>entries := es', currentBytes := b'\<rparr>"
    using e assms(2) by (simp add: cache_set_def cache_evict_def Let_def stored_def)
  from evict_loop_spec [OF b e] show ?thesis by (auto simp: s)
qed

lemma stored_ok:
  assumes "cache_inv c" "\<not> isError r"
  shows "map_ok (stored t k r c)" "list_all entry_ok (stored t k r c)"
  using assms by (auto simp: stored_def cache_inv_def jm.ok_update entry_ok_set entry_ok_def)

lemma cache_inv_set: "cache_inv c \<Longrightarrow> cache_inv (cache_set t k r c)"
proof (cases "isError r")
  case True
  assume "cache_inv c"
  with True show ?thesis by (simp add: cache_set_def)
next
  case False
  assume inv: "cache_inv c"
  from cache_set_spec [OF inv False, of t k] obtain n where
    n: "entries (cache_set t k r c) = drop n (stored t k r c)"
    "currentBytes (cache_set t k r c) = bytes_of (drop n (stored t k r c))"
    "length (drop n (stored t k r c)) \<le> maxEntries c" "bytes_of (drop n (stored t k r c)) \<le> int (maxBytes c)"
    "maxEntries (cache_set t k r c) = maxEntries c" "maxBytes (cache_set t k r c) = maxBytes c" by blast
  have "map_ok (drop n (stored t k r c))"
    using stored_ok(1) [OF inv False] by (simp add: map_ok_def drop_map [symmetric])
  moreover have "list_all entry_ok (drop n (stored t k r c))"
    using stored_ok(2) [OF inv False, of t k] by (auto simp: list_all_iff dest: in_set_dropD)
  ultimately show ?thesis using n by (simp add: cache_inv_def)
qed

lemma cache_inv_clear: "cache_inv c \<Longrightarrow> cache_inv (cache_clear c)"
  by (simp add: cache_inv_def cache_clear_def map_ok_def)

inductive cache_step :: "ToolResultCache \<Rightarrow> ToolResultCache \<Rightarrow> bool" where
  "cache_step c (snd (cache_get t k c))"
| "cache_step c (cache_set t k r c)"
| "cache_step c (cache_clear c)"

interpretation rcm: machine "cache_new me mb" cache_step cache_inv for me mb
proof
  show "cache_inv (cache_new me mb)" by (simp add: cache_inv_def cache_new_def map_ok_def)
  fix s t
  assume inv: "cache_inv s" and "cache_step s t"
  from this(2) show "cache_inv t"
    by cases (use inv in \<open>simp_all add: cache_inv_get cache_inv_set cache_inv_clear\<close>)
qed

section \<open>Properties\<close>

text \<open>
  C39: The cache is bounded and its accounting is exact. In every reachable state the number of
  entries is within \<open>maxEntries\<close>, the byte count is the sum of the UTF-8 sizes of the cached
  contents and within \<open>maxBytes\<close>, keys are distinct and no error result is cached.
\<close>

theorem cache_bounded:
  assumes "cache_step\<^sup>*\<^sup>* (cache_new me mb) c"
  shows "length (entries c) \<le> maxEntries c \<and> currentBytes c \<le> int (maxBytes c)
    \<and> currentBytes c = (\<Sum>(k, e) \<leftarrow> entries c. utf8_length (content (ce_result e)))
    \<and> distinct (map fst (entries c)) \<and> (\<forall>(k, e) \<in> set (entries c). \<not> isError (ce_result e))"
proof -
  have inv: "cache_inv c" by (rule rcm.inv_reachable [OF assms])
  then have eq: "ce_bytes e = utf8_length (content (ce_result e))" "\<not> isError (ce_result e)"
    if "(k, e) \<in> set (entries c)" for k e
    using that by (auto simp: cache_inv_def list_all_iff entry_ok_def)
  have "bytes_of (entries c) = (\<Sum>(k, e) \<leftarrow> entries c. utf8_length (content (ce_result e)))"
    unfolding bytes_of_def by (rule arg_cong [of _ _ sum_list], rule map_cong) (auto simp: eq)
  with inv eq(2) show ?thesis by (auto simp: cache_inv_def map_ok_def)
qed

definition sample_result :: "string \<Rightarrow> ToolResult" where
  "sample_result s = \<lparr>content = s, isError = False, metadata = None\<rparr>"

theorem cache_bounded_witness:
  "length (entries (cache_set ''readFile'' ''a'' (sample_result ''x'') (cache_new (Some 1) None))) \<le> 1"
proof -
  let ?c = "cache_set ''readFile'' ''a'' (sample_result ''x'') (cache_new (Some 1) None)"
  have "cache_step\<^sup>*\<^sup>* (cache_new (Some 1) None) ?c" by (rule r_into_rtranclp, rule cache_step.intros(2))
  moreover have "maxEntries ?c = 1"
    by (simp add: cache_set_def cache_evict_def cache_new_def sample_result_def Let_def split: prod.split)
  ultimately show ?thesis using cache_bounded [of "Some 1" None ?c] by simp
qed

lemma cache_get_after_set:
  assumes inv: "cache_inv c" and "\<not> isError r"
    and "map_get (entries c) (composite t k) = None"
    and "0 < maxEntries c" and "utf8_length (content r) \<le> int (maxBytes c)"
  shows "fst (cache_get t k (cache_set t k r c)) = Some r
    \<and> (\<exists>n. map fst (entries (cache_set t k r c)) = drop n (map fst (entries c)) @ [composite t k])"
proof -
  let ?e = "\<lparr>ce_key = composite t k, ce_toolName = t, ce_result = r, ce_bytes = utf8_length (content r)\<rparr>"
  have st: "stored t k r c = entries c @ [(composite t k, ?e)]"
    using assms(3) unfolding stored_def by (rule map_set_fresh)
  from cache_set_spec [OF inv assms(2), of t k] obtain n where
    n: "entries (cache_set t k r c) = drop n (stored t k r c)"
    "\<forall>m < n. length (drop m (stored t k r c)) > maxEntries c \<or> bytes_of (drop m (stored t k r c)) > int (maxBytes c)"
    by blast
  have "n \<le> length (entries c)"
  proof (rule ccontr)
    assume "\<not> n \<le> length (entries c)"
    then have "length (drop (length (entries c)) (stored t k r c)) > maxEntries c
        \<or> bytes_of (drop (length (entries c)) (stored t k r c)) > int (maxBytes c)" using n(2) by simp
    with assms(4,5) show False by (simp add: st)
  qed
  then have e: "entries (cache_set t k r c) = drop n (entries c) @ [(composite t k, ?e)]"
    using n(1) by (simp add: st)
  have "composite t k \<notin> fst ` set (drop n (entries c))"
    using assms(3) by (auto simp: map_get_def map_of_eq_None_iff dest: in_set_dropD)
  then have "map_of (drop n (entries c)) (composite t k) = None" by (simp add: map_of_eq_None_iff)
  then have "map_get (entries (cache_set t k r c)) (composite t k) = Some ?e"
    by (simp add: e map_get_def map_add_def)
  then show ?thesis by (auto simp: cache_get_def Let_def e drop_map)
qed

text \<open>
  C37: A fresh result that fits is found again. Storing a result under a key that is not cached,
  when one entry is allowed and the content alone is within \<open>maxBytes\<close>, makes the next lookup
  of that tool and key return it, and evicts only from the oldest end.
\<close>

theorem cache_roundtrip:
  assumes "cache_step\<^sup>*\<^sup>* (cache_new me mb) c" and "\<not> isError r"
    and "map_get (entries c) (composite t k) = None"
    and "0 < maxEntries c" and "utf8_length (content r) \<le> int (maxBytes c)"
  shows "fst (cache_get t k (cache_set t k r c)) = Some r
    \<and> (\<exists>n. map fst (entries (cache_set t k r c)) = drop n (map fst (entries c)) @ [composite t k])"
  using cache_get_after_set [OF rcm.inv_reachable [OF assms(1)] assms(2-)] .

theorem cache_roundtrip_witness:
  "fst (cache_get ''readFile'' ''a'' (cache_set ''readFile'' ''a'' (sample_result ''x'') (cache_new None None))) =
   Some (sample_result ''x'')"
proof -
  have "cache_step\<^sup>*\<^sup>* (cache_new None None) (cache_new None None)" by simp
  from cache_roundtrip [OF this, of "sample_result ''x''" "''readFile''" "''a''"] show ?thesis
    by (simp add: sample_result_def cache_new_def map_get_def utf8_length_def)
qed

text \<open>
  Tools do not share entries. For tool names without a NUL character, entries of two calls
  collide only when both the tool and its key are the same.
\<close>

theorem composite_injective:
  assumes "CHR 0x00 \<notin> set t" and "CHR 0x00 \<notin> set t'"
  shows "composite t k = composite t' k' \<longleftrightarrow> t = t' \<and> k = k'"
proof -
  have "js_split (CHR 0x00) (composite t k) = t # js_split (CHR 0x00) k"
    using assms(1) by (simp add: composite_def js_split_append)
  moreover have "js_split (CHR 0x00) (composite t' k') = t' # js_split (CHR 0x00) k'"
    using assms(2) by (simp add: composite_def js_split_append)
  ultimately have "composite t k = composite t' k' \<Longrightarrow> t = t'" by simp
  then show ?thesis by (auto simp: composite_def)
qed

theorem composite_injective_witness: "composite ''a'' ''b'' \<noteq> composite ''ab'' []"
  using composite_injective [of "''a''" "''ab''" "''b''" "[]"] by simp

text \<open>
  An overwritten entry keeps its age. Storing again under the oldest key does not refresh its
  place, so the result just stored can be the one that is evicted, although it fits on its own.
\<close>

theorem overwritten_entry_evicted:
  "\<exists>c. cache_step\<^sup>*\<^sup>* (cache_new (Some 2) (Some 3)) c
     \<and> utf8_length (content (sample_result ''yyy'')) \<le> 3
     \<and> fst (cache_get ''t'' ''a'' (cache_set ''t'' ''a'' (sample_result ''yyy'') c)) = None"
proof (intro exI conjI)
  let ?c1 = "cache_set ''t'' ''a'' (sample_result ''x'') (cache_new (Some 2) (Some 3))"
  let ?c = "cache_set ''t'' ''b'' (sample_result ''x'') ?c1"
  show "cache_step\<^sup>*\<^sup>* (cache_new (Some 2) (Some 3)) ?c"
    by (rule rtranclp.rtrancl_into_rtrancl [OF r_into_rtranclp [of cache_step]]) (rule cache_step.intros(2))+
  show "utf8_length (content (sample_result ''yyy'')) \<le> 3" by (simp add: utf8_length_def sample_result_def)
  show "fst (cache_get ''t'' ''a'' (cache_set ''t'' ''a'' (sample_result ''yyy'') ?c)) = None"
    by code_simp
qed

end
