(* ===== verification/ToolRegistry.thy ===== *)
theory ToolRegistry
  imports ToolGuard JsMap
begin

text \<open>
  The tool registry (packages/loom/src/tools/registry.ts): a map from names to tools, in the order
  of first registration.
\<close>

type_synonym 'c ToolRegistry = "(string, 'c Tool) js_map"

definition registry_new :: "'c ToolRegistry" where
  "registry_new = []"

definition register :: "'c Tool \<Rightarrow> 'c ToolRegistry \<Rightarrow> 'c ToolRegistry" where
  "register tool r = map_set (name tool) tool r"

fun registerAll :: "'c Tool list \<Rightarrow> 'c ToolRegistry \<Rightarrow> 'c ToolRegistry" where
  "registerAll [] r = r"
| "registerAll (tool # tools) r = registerAll tools (register tool r)"

definition registry_get :: "'c ToolRegistry \<Rightarrow> string \<Rightarrow> 'c Tool option" where
  "registry_get r n = map_get r n"

definition registry_has :: "'c ToolRegistry \<Rightarrow> string \<Rightarrow> bool" where
  "registry_has r n = map_has r n"

definition registry_remove :: "string \<Rightarrow> 'c ToolRegistry \<Rightarrow> bool \<times> 'c ToolRegistry" where
  "registry_remove n r = (map_has r n, map_delete n r)"

definition registry_list :: "'c ToolRegistry \<Rightarrow> 'c Tool list" where
  "registry_list r = map snd r"

definition listByCategory :: "ToolCategory \<Rightarrow> 'c ToolRegistry \<Rightarrow> 'c Tool list" where
  "listByCategory cat r = filter (\<lambda>t. category t = cat) (registry_list r)"

definition registry_names :: "'c ToolRegistry \<Rightarrow> string list" where
  "registry_names r = map fst r"

definition registry_size :: "'c ToolRegistry \<Rightarrow> nat" where
  "registry_size r = length r"

definition registry_merge :: "'c ToolRegistry \<Rightarrow> 'c ToolRegistry \<Rightarrow> 'c ToolRegistry" where
  "registry_merge other r = registerAll (registry_list other) r"

text \<open>The loop of \<open>filter\<close>, with its two early continues.\<close>

fun filter_loop :: "string list option \<Rightarrow> string list option \<Rightarrow> 'c Tool list \<Rightarrow> 'c ToolRegistry \<Rightarrow> 'c ToolRegistry" where
  "filter_loop allow deny [] acc = acc"
| "filter_loop allow deny (tool # tools) acc =
     (if (case deny of Some ns \<Rightarrow> name tool \<in> set ns | None \<Rightarrow> False) then filter_loop allow deny tools acc
      else if (case allow of Some ns \<Rightarrow> name tool \<notin> set ns | None \<Rightarrow> False) then filter_loop allow deny tools acc
      else filter_loop allow deny tools (register tool acc))"

definition registry_filter :: "string list option \<Rightarrow> string list option \<Rightarrow> 'c ToolRegistry \<Rightarrow> 'c ToolRegistry" where
  "registry_filter allow deny r = filter_loop allow deny (registry_list r) registry_new"

definition registry_clone :: "'c ToolRegistry \<Rightarrow> 'c ToolRegistry" where
  "registry_clone r = registry_merge r registry_new"

section \<open>Invariant\<close>

definition registry_ok :: "'c ToolRegistry \<Rightarrow> bool" where
  "registry_ok r \<longleftrightarrow> map_ok r \<and> (\<forall>(n, t) \<in> set r. name t = n)"

lemma set_map_set_subset: "set (map_set k v m) \<subseteq> insert (k, v) (set m)"
proof (induction m)
  case (Cons x m)
  then show ?case by (cases x) (auto simp: map_set_def)
qed (simp add: map_set_def)

lemma registry_ok_register: "registry_ok r \<Longrightarrow> registry_ok (register t r)"
  using set_map_set_subset [of "name t" t r] by (auto simp: registry_ok_def register_def jm.ok_update)

lemma registry_ok_registerAll: "registry_ok r \<Longrightarrow> registry_ok (registerAll ts r)"
  by (induction ts r rule: registerAll.induct) (auto intro: registry_ok_register)

lemma registry_ok_new: "registry_ok registry_new"
  by (simp add: registry_ok_def registry_new_def map_ok_def)

lemma get_register:
  "registry_ok r \<Longrightarrow> registry_get (register t r) n = (if n = name t then Some t else registry_get r n)"
  by (simp add: registry_get_def register_def registry_ok_def jm.find_update)

text \<open>Registering a list: the last tool of a name wins over the registry.\<close>

lemma get_registerAll:
  "registry_ok r \<Longrightarrow> registry_get (registerAll ts r) n =
     (case find (\<lambda>t. name t = n) (rev ts) of Some t \<Rightarrow> Some t | None \<Rightarrow> registry_get r n)"
proof (induction ts r rule: registerAll.induct)
  case (2 t ts r)
  have "find P (xs @ [t]) = (case find P xs of Some x \<Rightarrow> Some x | None \<Rightarrow> if P t then Some t else None)"
    for P and xs :: "'a Tool list"
    by (induction xs) auto
  with 2 show ?case
    by (auto simp: registry_ok_register get_register split: option.splits)
qed simp

lemma find_rev_list:
  "registry_ok r \<Longrightarrow> find (\<lambda>t. name t = n) (rev (registry_list r)) = registry_get r n"
proof -
  assume ok: "registry_ok r"
  show ?thesis
  proof (cases "registry_get r n")
    case None
    then have "\<forall>t \<in> set (registry_list r). name t \<noteq> n"
      using ok by (force simp: registry_get_def map_get_def map_of_eq_None_iff registry_ok_def registry_list_def)
    with None show ?thesis by (simp add: find_None_iff)
  next
    case (Some t)
    have uniq: "t' = t" if "t' \<in> set (registry_list r)" "name t' = n" for t'
    proof -
      from that obtain n' where "(n', t') \<in> set r" by (auto simp: registry_list_def)
      moreover from this that ok have "n' = n" by (auto simp: registry_ok_def)
      ultimately have "map_of r n = Some t'" using ok by (simp add: registry_ok_def map_ok_def)
      with Some show ?thesis by (simp add: registry_get_def map_get_def)
    qed
    from Some have "(n, t) \<in> set r" by (simp add: registry_get_def map_get_def map_of_SomeD)
    then have mem: "t \<in> set (registry_list r)" "name t = n" using ok by (force simp: registry_list_def registry_ok_def)+
    then have "find (\<lambda>t. name t = n) (rev (registry_list r)) \<noteq> None" by (auto simp: find_None_iff)
    then obtain t' where t': "find (\<lambda>t. name t = n) (rev (registry_list r)) = Some t'" by blast
    then have "t' \<in> set (registry_list r)" "name t' = n"
      by (auto simp: find_Some_iff) (metis nth_mem set_rev length_rev)
    with uniq t' Some show ?thesis by simp
  qed
qed

definition permitted :: "string list option \<Rightarrow> string list option \<Rightarrow> string \<Rightarrow> bool" where
  "permitted allow deny n \<longleftrightarrow> (\<forall>ns. deny = Some ns \<longrightarrow> n \<notin> set ns) \<and> (\<forall>ns. allow = Some ns \<longrightarrow> n \<in> set ns)"

lemma filter_loop_eq:
  "filter_loop allow deny ts acc = registerAll (filter (\<lambda>t. permitted allow deny (name t)) ts) acc"
  by (induction allow deny ts acc rule: filter_loop.induct) (auto simp: permitted_def split: option.splits)

lemma find_filter_name:
  "find (\<lambda>t. name t = n) (filter (\<lambda>t. P (name t)) xs) = (if P n then find (\<lambda>t. name t = n) xs else None)"
  by (induction xs) auto

text \<open>Registering a registry's own tools into an empty one rebuilds it, order included.\<close>

lemma registerAll_append: "registerAll (xs @ ys) r = registerAll ys (registerAll xs r)"
  by (induction xs r rule: registerAll.induct) auto

lemma register_fresh: "name t \<notin> fst ` set r \<Longrightarrow> register t r = r @ [(name t, t)]"
proof (induction r)
  case (Cons x r)
  then show ?case by (cases x) (auto simp: register_def map_set_def)
qed (simp add: register_def map_set_def)

lemma registerAll_rebuild:
  "registry_ok (pre @ r) \<Longrightarrow> registerAll (registry_list r) pre = pre @ r"
proof (induction r arbitrary: pre)
  case (Cons x r)
  obtain n t where x: "x = (n, t)" by (cases x)
  from Cons.prems x have "name t = n" "n \<notin> fst ` set pre"
    by (auto simp: registry_ok_def map_ok_def)
  then have "register t pre = pre @ [x]" using register_fresh [of t pre] x by simp
  with Cons.IH [of "pre @ [x]"] Cons.prems x show ?case by (simp add: registry_list_def)
qed (simp add: registry_list_def)

section \<open>Properties\<close>

text \<open>
  Merging and filtering registries. After a merge a lookup finds the incoming tool if there is
  one and the old one otherwise; a filtered copy holds exactly the tools whose name is not denied
  and, when there is an allow list, is on it; a clone is equal to the original, order included.
\<close>

theorem registry_merge_filter_clone:
  assumes "registry_ok r" and "registry_ok other"
  shows "registry_get (registry_merge other r) n =
      (case registry_get other n of Some t \<Rightarrow> Some t | None \<Rightarrow> registry_get r n)
    \<and> registry_get (registry_filter allow deny r) n = (if permitted allow deny n then registry_get r n else None)
    \<and> registry_clone r = r"
proof (intro conjI)
  show "registry_get (registry_merge other r) n =
      (case registry_get other n of Some t \<Rightarrow> Some t | None \<Rightarrow> registry_get r n)"
    by (simp add: registry_merge_def get_registerAll assms find_rev_list)
  have "registry_get registry_new n = (None :: 'a Tool option)"
    by (simp add: registry_get_def registry_new_def map_get_def)
  then have "registry_get (registry_filter allow deny r) n =
      find (\<lambda>t. name t = n) (filter (\<lambda>t. permitted allow deny (name t)) (rev (registry_list r)))"
    by (simp add: registry_filter_def filter_loop_eq get_registerAll registry_ok_new rev_filter split: option.split)
  then show "registry_get (registry_filter allow deny r) n = (if permitted allow deny n then registry_get r n else None)"
    by (simp add: find_filter_name find_rev_list assms(1))
  show "registry_clone r = r"
    using registerAll_rebuild [of "[]" r] assms(1) by (simp add: registry_clone_def registry_merge_def registry_new_def)
qed

definition sample_tool :: "string \<Rightarrow> unit Tool" where
  "sample_tool n = \<lparr>name = n, category = CShell,
     execute = (\<lambda>i c. ([], \<lparr>content = n, isError = False, metadata = None\<rparr>))\<rparr>"

theorem registry_merge_filter_clone_witness:
  "registry_clone (register (sample_tool ''bash'') registry_new) = register (sample_tool ''bash'') registry_new"
proof -
  have "registry_ok (register (sample_tool ''bash'') registry_new)" by (intro registry_ok_register registry_ok_new)
  from registry_merge_filter_clone [OF this this] show ?thesis by blast
qed

end
