(* ===== verification/Messages.thy ===== *)
theory Messages
  imports JsValue "HOL-Library.Sublist"
begin

text \<open>
  The message format of the engine (messages/types.ts) and the tool-call pairing rule
  (messages/pairing.ts): every tool result is preceded by the assistant message that made the
  call. A message is a JavaScript object with an identity; where the code compares messages by
  identity (\<open>Set<Message>\<close>), the model pairs a message with its reference.
\<close>

section \<open>Types\<close>

record CacheControl =
  ttl :: "string option"

datatype ImageSource = Base64Source string string | UrlSource string

datatype ContentBlock =
    TextBlock string "CacheControl option"
  | ImageBlock ImageSource "CacheControl option"
  | DocumentBlock string "CacheControl option"
  | ToolUseBlock string string obj "CacheControl option"
  | ToolResultBlock string "string + ContentBlock list" bool "obj option" "CacheControl option"
  | ThinkingBlock string "string option" "CacheControl option"
  | RedactedThinkingBlock string "CacheControl option"

type_synonym Content = "string + ContentBlock list"

datatype Message =
    SystemMessage string bool
  | UserMessage Content
  | AssistantMessage "ContentBlock list"

text \<open>\<open>content\<close> of any message, \<open>role\<close>, and the \<open>type\<close> discriminators.\<close>

datatype Role = System | User | Assistant

fun role :: "Message \<Rightarrow> Role" where
  "role (SystemMessage s c) = System"
| "role (UserMessage c) = User"
| "role (AssistantMessage bs) = Assistant"

fun message_content :: "Message \<Rightarrow> Content" where
  "message_content (SystemMessage s c) = Inl s"
| "message_content (UserMessage c) = c"
| "message_content (AssistantMessage bs) = Inr bs"

fun block_type :: "ContentBlock \<Rightarrow> string" where
  "block_type (TextBlock t cc) = ''text''"
| "block_type (ImageBlock s cc) = ''image''"
| "block_type (DocumentBlock d cc) = ''document''"
| "block_type (ToolUseBlock i n inp cc) = ''tool_use''"
| "block_type (ToolResultBlock i c e md cc) = ''tool_result''"
| "block_type (ThinkingBlock t sg cc) = ''thinking''"
| "block_type (RedactedThinkingBlock d cc) = ''redacted_thinking''"

fun is_tool_use :: "ContentBlock \<Rightarrow> bool" where
  "is_tool_use (ToolUseBlock i n inp cc) = True"
| "is_tool_use b = False"

fun is_tool_result :: "ContentBlock \<Rightarrow> bool" where
  "is_tool_result (ToolResultBlock i c e md cc) = True"
| "is_tool_result b = False"

lemma is_tool_result_type: "is_tool_result b \<longleftrightarrow> block_type b = ''tool_result''"
  by (cases b) simp_all

lemma is_tool_use_type: "is_tool_use b \<longleftrightarrow> block_type b = ''tool_use''"
  by (cases b) simp_all

fun block_text :: "ContentBlock \<Rightarrow> string option" where
  "block_text (TextBlock t cc) = Some t"
| "block_text b = None"

section \<open>Helpers\<close>

definition extractToolCalls :: "ContentBlock list \<Rightarrow> ContentBlock list" where
  "extractToolCalls content = filter is_tool_use content"

definition extractText :: "ContentBlock list \<Rightarrow> string" where
  "extractText content = concat (List.map_filter block_text content)"

definition hasToolCalls :: "ContentBlock list \<Rightarrow> bool" where
  "hasToolCalls content = list_ex is_tool_use content"

definition createUserMessage :: "Content \<Rightarrow> Message" where
  "createUserMessage c = UserMessage c"

definition createToolResultMessage :: "string \<Rightarrow> string \<Rightarrow> bool \<Rightarrow> obj option \<Rightarrow> Message" where
  "createToolResultMessage toolUseId c isError metadata =
     UserMessage (Inr [ToolResultBlock toolUseId (Inl c) isError metadata None])"

lemma hasToolCalls_iff: "hasToolCalls c \<longleftrightarrow> extractToolCalls c \<noteq> []"
  by (auto simp: hasToolCalls_def extractToolCalls_def list_ex_iff filter_empty_conv)

section \<open>Calls made and calls answered\<close>

fun use_id :: "ContentBlock \<Rightarrow> string option" where
  "use_id (ToolUseBlock i n inp cc) = Some i"
| "use_id b = None"

fun result_id :: "ContentBlock \<Rightarrow> string option" where
  "result_id (ToolResultBlock i c e md cc) = Some i"
| "result_id b = None"

definition block_uses :: "ContentBlock list \<Rightarrow> string list" where
  "block_uses bs = List.map_filter use_id bs"

definition block_results :: "ContentBlock list \<Rightarrow> string list" where
  "block_results bs = List.map_filter result_id bs"

text \<open>Only assistant messages introduce calls and only user messages answer them.\<close>

fun uses :: "Message \<Rightarrow> string list" where
  "uses (AssistantMessage bs) = block_uses bs"
| "uses m = []"

fun results :: "Message \<Rightarrow> string list" where
  "results (UserMessage (Inr bs)) = block_results bs"
| "results m = []"

section \<open>Finding orphans\<close>

text \<open>The inner loop over the results of one user message: orphans found and ids seen.\<close>

fun orphan_blocks :: "string list \<Rightarrow> string list \<Rightarrow> string list \<Rightarrow> string list" where
  "orphan_blocks have [] orphans = orphans"
| "orphan_blocks have (i # ids) orphans =
     orphan_blocks have ids
       (if i \<notin> set have \<and> i \<notin> set orphans then orphans @ [i] else orphans)"

text \<open>\<open>seen\<close> holds exactly the members of \<open>orphans\<close>, so one list plays both parts.\<close>

fun orphan_loop :: "string list \<Rightarrow> string list \<Rightarrow> Message list \<Rightarrow> string list" where
  "orphan_loop have orphans [] = orphans"
| "orphan_loop have orphans (AssistantMessage bs # ms) =
     orphan_loop (block_uses bs @ have) orphans ms"
| "orphan_loop have orphans (UserMessage (Inr bs) # ms) =
     orphan_loop have (orphan_blocks have (block_results bs) orphans) ms"
| "orphan_loop have orphans (m # ms) = orphan_loop have orphans ms"

definition findOrphanToolResults :: "Message list \<Rightarrow> string list" where
  "findOrphanToolResults messages = orphan_loop [] [] messages"

text \<open>The rule itself, for a history that follows messages whose calls are \<open>S\<close>.\<close>

fun paired :: "string set \<Rightarrow> Message list \<Rightarrow> bool" where
  "paired S [] = True"
| "paired S (m # ms) = (set (results m) \<subseteq> S \<and> paired (S \<union> set (uses m)) ms)"

definition all_uses :: "Message list \<Rightarrow> string set" where
  "all_uses ms = (\<Union>m \<in> set ms. set (uses m))"

definition all_results :: "Message list \<Rightarrow> string set" where
  "all_results ms = (\<Union>m \<in> set ms. set (results m))"

lemma all_uses_simps [simp]:
  "all_uses [] = {}" "all_uses (m # ms) = set (uses m) \<union> all_uses ms"
  "all_uses (xs @ ys) = all_uses xs \<union> all_uses ys"
  by (auto simp: all_uses_def)

lemma all_results_simps [simp]:
  "all_results [] = {}" "all_results (m # ms) = set (results m) \<union> all_results ms"
  "all_results (xs @ ys) = all_results xs \<union> all_results ys"
  by (auto simp: all_results_def)

lemma paired_append: "paired S (xs @ ys) \<longleftrightarrow> paired S xs \<and> paired (S \<union> all_uses xs) ys"
  by (induction xs arbitrary: S) (auto simp: Un_assoc)

lemma paired_mono: "paired S ms \<Longrightarrow> S \<subseteq> T \<Longrightarrow> paired T ms"
  by (induction ms arbitrary: S T) (auto, blast)

lemma set_orphan_blocks: "set (orphan_blocks have ids os) = set os \<union> (set ids - set have)"
  by (induction ids arbitrary: os) auto

text \<open>The answers no earlier message called for.\<close>

fun orphan_set :: "string set \<Rightarrow> Message list \<Rightarrow> string set" where
  "orphan_set S [] = {}"
| "orphan_set S (m # ms) = (set (results m) - S) \<union> orphan_set (S \<union> set (uses m)) ms"

lemma set_orphan_loop: "set (orphan_loop have os ms) = set os \<union> orphan_set (set have) ms"
  by (induction "have" os ms rule: orphan_loop.induct) (auto simp: set_orphan_blocks Un_commute)

lemma set_findOrphanToolResults: "set (findOrphanToolResults ms) = orphan_set {} ms"
  by (simp add: findOrphanToolResults_def set_orphan_loop)

lemma paired_iff_orphan_set: "paired S ms \<longleftrightarrow> orphan_set S ms = {}"
  by (induction ms arbitrary: S) auto

lemma no_orphans_iff_paired: "findOrphanToolResults ms = [] \<longleftrightarrow> paired {} ms"
  by (metis paired_iff_orphan_set set_empty set_findOrphanToolResults)

lemma orphan_set_sub_results: "orphan_set S ms \<subseteq> all_results ms"
  by (induction ms arbitrary: S) auto

lemma distinct_orphan_blocks: "distinct os \<Longrightarrow> distinct (orphan_blocks have ids os)"
  by (induction ids arbitrary: os) auto

lemma distinct_orphan_loop: "distinct os \<Longrightarrow> distinct (orphan_loop have os ms)"
  by (induction "have" os ms rule: orphan_loop.induct) (auto simp: distinct_orphan_blocks)

section \<open>Restoring the rule\<close>

text \<open>
  The walk over all messages: a message whose reference is retained is kept; another assistant
  message is kept when it makes a call that is still an orphan, and its calls leave the set.
\<close>

fun pairing_walk ::
  "nat set \<Rightarrow> string list \<Rightarrow> (nat \<times> Message) list \<Rightarrow> Message list \<times> string list" where
  "pairing_walk R still [] = ([], still)"
| "pairing_walk R still ((r, m) # ms) =
     (if r \<in> R then (case pairing_walk R still ms of (res, st) \<Rightarrow> (m # res, st))
      else
        (let matched = filter (\<lambda>i. i \<in> set still) (uses m)
         in if still \<noteq> [] \<and> matched \<noteq> []
            then (case pairing_walk R (filter (\<lambda>i. i \<notin> set matched) still) ms of
                    (res, st) \<Rightarrow> (m # res, st))
            else pairing_walk R still ms))"

fun stripOrphanToolResults :: "Message list \<Rightarrow> string list \<Rightarrow> Message list" where
  "stripOrphanToolResults [] orphanIds = []"
| "stripOrphanToolResults (m # ms) orphanIds =
     (case m of
        UserMessage (Inr bs) \<Rightarrow>
          (let kept = filter (\<lambda>b. case result_id b of Some i \<Rightarrow> i \<notin> set orphanIds | None \<Rightarrow> True) bs
           in if kept = [] then stripOrphanToolResults ms orphanIds
              else UserMessage (Inr kept) # stripOrphanToolResults ms orphanIds)
      | _ \<Rightarrow> m # stripOrphanToolResults ms orphanIds)"

definition preserveToolCallPairing ::
  "(nat \<times> Message) list \<Rightarrow> (nat \<times> Message) list \<Rightarrow> Message list" where
  "preserveToolCallPairing retained allMessages =
     (let orphans = findOrphanToolResults (map snd retained)
      in if orphans = [] then map snd retained
         else (case pairing_walk (set (map fst retained)) orphans allMessages of
                 (res, still) \<Rightarrow> if still = [] then res else stripOrphanToolResults res still))"

definition assertPairing :: "Message list \<Rightarrow> string + unit" where
  "assertPairing messages =
     (let orphans = findOrphanToolResults messages; n = length orphans
      in if n = 0 then Inr ()
         else Inl (''Tool-call pairing invariant broken: '' @ show_nat n @
                   '' orphan tool_result block(s) with no preceding assistant tool_use (ids: '' @
                   js_join '', '' (take 3 orphans) @
                   (if n > 3 then '', +'' @ show_nat (n - 3) @ '' more'' else []) @
                   ''). This typically indicates a compaction step trimmed an assistant message but kept its '' @
                   ''tool_result(s). Compaction strategies must call preserveToolCallPairing.''))"

lemma assertPairing_iff: "assertPairing ms = Inr () \<longleftrightarrow> paired {} ms"
  by (simp add: assertPairing_def Let_def no_orphans_iff_paired [symmetric])

subsection \<open>Correctness of the walk\<close>

text \<open>The calls of the messages that are not retained.\<close>

definition lost_uses :: "nat set \<Rightarrow> (nat \<times> Message) list \<Rightarrow> string set" where
  "lost_uses R ms = (\<Union>(r, m) \<in> {p \<in> set ms. fst p \<notin> R}. set (uses m))"

lemma lost_uses_simps [simp]:
  "lost_uses R [] = {}"
  "lost_uses R ((r, m) # ms) = (if r \<in> R then {} else set (uses m)) \<union> lost_uses R ms"
  by (auto simp: lost_uses_def)

lemma walk_still: "set (snd (pairing_walk R st ms)) = set st - lost_uses R ms"
proof (induction R st ms rule: pairing_walk.induct)
  case (2 R still r m ms)
  let ?matched = "filter (\<lambda>i. i \<in> set still) (uses m)"
  consider "r \<in> R" | "r \<notin> R" "still \<noteq> [] \<and> ?matched \<noteq> []" | "r \<notin> R" "\<not> (still \<noteq> [] \<and> ?matched \<noteq> [])"
    by blast
  then show ?case
  proof cases
    case 1
    then show ?thesis using 2(1) by (simp add: split_beta)
  next
    case mt: 2
    then have "set (snd (pairing_walk R still ((r, m) # ms))) =
                 set (filter (\<lambda>i. i \<notin> set ?matched) still) - lost_uses R ms"
      using 2(2) [OF mt(1) refl mt(2)] by (simp add: split_beta Let_def)
    then show ?thesis using mt by auto
  next
    case 3
    then show ?thesis using 2(3) [OF 3(1) refl 3(2)] by (auto simp: Let_def filter_empty_conv)
  qed
qed simp

text \<open>
  Along the walk: \<open>S\<close> are the calls kept so far, \<open>U\<close> all calls passed, \<open>W\<close> those of retained
  messages. Each answer of a retained message is then covered by a kept call, unless its call is
  not anywhere and the answer is removed at the end.
\<close>

fun covered :: "nat set \<Rightarrow> string set \<Rightarrow> string set \<Rightarrow> string set \<Rightarrow> string set \<Rightarrow>
    (nat \<times> Message) list \<Rightarrow> bool" where
  "covered R os gone W U [] = True"
| "covered R os gone W U ((r, m) # ms) =
     ((r \<in> R \<longrightarrow> (\<forall>i \<in> set (results m). i \<in> W \<or> i \<in> os \<and> (i \<in> U \<or> i \<in> gone))) \<and>
      covered R os gone (if r \<in> R then W \<union> set (uses m) else W) (U \<union> set (uses m)) ms)"

lemma results_use_disjoint: "uses m \<noteq> [] \<Longrightarrow> results m = []"
  by (cases m) simp_all

lemma map_filter_filter:
  "List.map_filter f (filter (\<lambda>b. case f b of Some i \<Rightarrow> P i | None \<Rightarrow> True) bs) = filter P (List.map_filter f bs)"
  by (induction bs) (auto simp: List.map_filter_def split: option.split)

lemma strip_paired:
  "paired (S \<union> set gone) ms \<Longrightarrow> paired S (stripOrphanToolResults ms gone)"
proof (induction ms arbitrary: S)
  case (Cons m ms)
  from Cons.prems have res: "set (results m) \<subseteq> S \<union> set gone"
    and tl: "paired (S \<union> set (uses m) \<union> set gone) ms" by (auto simp: Un_ac)
  show ?case
  proof (cases m)
    case (UserMessage c)
    then show ?thesis
      using res tl Cons.IH [of S]
      by (cases c) (auto simp: Let_def block_results_def map_filter_filter)
  qed (use res tl Cons.IH in auto)
qed simp

lemma walk_paired:
  "covered R os gone W U ms \<Longrightarrow> W \<subseteq> S \<Longrightarrow> U \<inter> os \<subseteq> S \<Longrightarrow> os - set st \<subseteq> S \<Longrightarrow>
   paired (S \<union> gone) (fst (pairing_walk R st ms))"
proof (induction R st ms arbitrary: S W U rule: pairing_walk.induct)
  case (2 R still r m ms)
  note prems = 2(4-)
  show ?case
  proof (cases "r \<in> R")
    case True
    have "paired (S \<union> set (uses m) \<union> gone) (fst (pairing_walk R still ms))"
      by (rule 2(1) [OF True]) (use prems True in auto)
    then show ?thesis
      using prems True by (auto split: prod.split simp: Un_ac)
  next
    case False
    let ?matched = "filter (\<lambda>i. i \<in> set still) (uses m)"
    show ?thesis
    proof (cases "still \<noteq> [] \<and> ?matched \<noteq> []")
      case True
      have r0: "results m = []" using True by (intro results_use_disjoint) auto
      have "paired (S \<union> set (uses m) \<union> gone)
              (fst (pairing_walk R (filter (\<lambda>i. i \<notin> set ?matched) still) ms))"
        by (rule 2(2) [OF False refl True]) (use prems False in auto)
      then show ?thesis
        using False True r0 by (auto split: prod.split simp: Un_ac Let_def)
    next
      case nm: False
      then have "set (uses m) \<inter> os \<subseteq> S" using prems by (auto simp: filter_empty_conv)
      then have "paired (S \<union> gone) (fst (pairing_walk R still ms))"
        by (intro 2(3) [OF False refl nm, where W = W and U = "U \<union> set (uses m)"]) (use prems False in auto)
      then show ?thesis using False nm by (auto simp: Let_def)
    qed
  qed
qed simp

text \<open>
  The histories the repair is for: no answer comes before its call (an answer without any call
  is allowed, that is the corruption the repair removes).
\<close>

fun call_first :: "string set \<Rightarrow> Message list \<Rightarrow> bool" where
  "call_first U [] = True"
| "call_first U (m # ms) =
     ((\<forall>i \<in> set (results m). i \<in> U \<or> i \<notin> all_uses ms) \<and> call_first (U \<union> set (uses m)) ms)"

lemma paired_call_first: "paired S ms \<Longrightarrow> call_first S ms"
  by (induction ms arbitrary: S) auto

lemma lost_uses_sub: "lost_uses R ms \<subseteq> all_uses (map snd ms)"
  by (induction ms) (auto split: if_splits)

lemma covered_start:
  "orphan_set W (map snd (filter (\<lambda>p. fst p \<in> R) ms)) \<subseteq> os \<Longrightarrow>
   call_first U (map snd ms) \<Longrightarrow> os - (U \<union> lost_uses R ms) \<subseteq> gone \<Longrightarrow> covered R os gone W U ms"
proof (induction ms arbitrary: W U)
  case (Cons p ms)
  obtain r m where p [simp]: "p = (r, m)" by (cases p)
  have "covered R os gone (if r \<in> R then W \<union> set (uses m) else W) (U \<union> set (uses m)) ms"
    by (rule Cons.IH) (use Cons.prems in \<open>auto split: if_splits\<close>)
  moreover have "i \<in> W \<or> i \<in> os \<and> (i \<in> U \<or> i \<in> gone)" if "r \<in> R" "i \<in> set (results m)" for i
    using Cons.prems that lost_uses_sub [of R ms] by auto blast
  ultimately show ?case by simp
qed simp

lemma subseq_sets: "subseq xs ys \<Longrightarrow> set xs \<subseteq> set ys"
  by (metis set_nths_subset subseq_conv_nths)

lemma subseq_filter_refs:
  "subseq xs ys \<Longrightarrow> distinct (map fst ys) \<Longrightarrow> xs = filter (\<lambda>p. fst p \<in> set (map fst xs)) ys"
proof (induction xs ys rule: list_emb.induct)
  case (list_emb_Nil ys)
  then show ?case by simp
next
  case (list_emb_Cons xs ys y)
  have "set (map fst xs) \<subseteq> set (map fst ys)"
    using subseq_sets [OF list_emb_Cons(1)] by auto
  with list_emb_Cons(3) have "fst y \<notin> set (map fst xs)" by auto
  with list_emb_Cons(2,3) show ?case by simp
next
  case (list_emb_Cons2 x y xs ys)
  have "fst p \<noteq> fst y" if "p \<in> set ys" for p
    using list_emb_Cons2(4) that by (metis distinct.simps(2) image_eqI list.simps(9) set_map)
  then have "filter (\<lambda>p. fst p \<in> set (map fst (x # xs))) ys = filter (\<lambda>p. fst p \<in> set (map fst xs)) ys"
    using list_emb_Cons2(1) by (intro filter_cong) auto
  moreover have "\<dots> = xs" using list_emb_Cons2(3,4) by simp
  ultimately show ?case using list_emb_Cons2(1) by simp
qed

lemma preserve_paired:
  assumes sub: "subseq retained all" and refs: "distinct (map fst all)"
    and cf: "call_first {} (map snd all)"
  shows "paired {} (preserveToolCallPairing retained all)"
proof -
  let ?os = "findOrphanToolResults (map snd retained)" and ?R = "set (map fst retained)"
  let ?st = "snd (pairing_walk ?R ?os all)" and ?res = "fst (pairing_walk ?R ?os all)"
  have ret: "filter (\<lambda>p. fst p \<in> ?R) all = retained"
    using subseq_filter_refs [OF sub refs] by simp
  have "covered ?R (set ?os) (set ?st) {} {} all"
    by (rule covered_start)
       (use cf ret in \<open>simp_all add: walk_still set_findOrphanToolResults del: set_map\<close>)
  then have res: "paired (set ?st) ?res"
    using walk_paired [of ?R "set ?os" "set ?st" "{}" "{}" all "{}" ?os] by simp
  show ?thesis
  proof (cases "?os = []")
    case True
    then show ?thesis by (simp add: preserveToolCallPairing_def no_orphans_iff_paired)
  next
    case False
    then have "preserveToolCallPairing retained all =
                 (if ?st = [] then ?res else stripOrphanToolResults ?res ?st)"
      by (simp add: preserveToolCallPairing_def split_beta Let_def)
    then show ?thesis using res strip_paired [of "{}" ?st ?res] by auto
  qed
qed

text \<open>On a history that obeys the rule nothing is removed: the retained messages come back
  in their order, joined only by assistant messages of the history.\<close>

lemma walk_keeps:
  "subseq (map snd (filter (\<lambda>p. fst p \<in> R) ms)) (fst (pairing_walk R st ms)) \<and>
   subseq (fst (pairing_walk R st ms)) (map snd ms)"
proof (induction R st ms rule: pairing_walk.induct)
  case (2 R still r m ms)
  then show ?case by (auto simp: split_beta Let_def intro: subseq_Cons')
qed simp

lemma orphan_set_lost:
  "paired U (map snd ms) \<Longrightarrow> U \<subseteq> W \<union> L \<Longrightarrow>
   orphan_set W (map snd (filter (\<lambda>p. fst p \<in> R) ms)) \<subseteq> L \<union> lost_uses R ms"
proof (induction ms arbitrary: U W L)
  case (Cons p ms)
  obtain r m where p [simp]: "p = (r, m)" by (cases p)
  show ?case
  proof (cases "r \<in> R")
    case True
    have "orphan_set (W \<union> set (uses m)) (map snd (filter (\<lambda>p. fst p \<in> R) ms)) \<subseteq> L \<union> lost_uses R ms"
      by (rule Cons.IH [of "U \<union> set (uses m)"]) (use Cons.prems in auto)
    then show ?thesis using True Cons.prems by auto
  next
    case False
    have "orphan_set W (map snd (filter (\<lambda>p. fst p \<in> R) ms)) \<subseteq> (L \<union> set (uses m)) \<union> lost_uses R ms"
      by (rule Cons.IH [of "U \<union> set (uses m)"]) (use Cons.prems in auto)
    then show ?thesis using False by auto
  qed
qed simp

lemma preserve_keeps:
  assumes sub: "subseq retained all" and refs: "distinct (map fst all)"
    and pr: "paired {} (map snd all)"
  shows "subseq (map snd retained) (preserveToolCallPairing retained all)"
    and "subseq (preserveToolCallPairing retained all) (map snd all)"
proof -
  let ?os = "findOrphanToolResults (map snd retained)" and ?R = "set (map fst retained)"
  have ret: "filter (\<lambda>p. fst p \<in> ?R) all = retained"
    using subseq_filter_refs [OF sub refs] by simp
  have "set ?os \<subseteq> lost_uses ?R all"
    using orphan_set_lost [OF pr, of "{}" "{}" ?R] ret by (simp add: set_findOrphanToolResults del: set_map)
  then have "snd (pairing_walk ?R ?os all) = []"
    using walk_still [of ?R ?os all] by (metis Diff_eq_empty_iff set_empty)
  then have *: "preserveToolCallPairing retained all =
      (if ?os = [] then map snd retained else fst (pairing_walk ?R ?os all))"
    by (simp add: preserveToolCallPairing_def split_beta Let_def)
  show "subseq (map snd retained) (preserveToolCallPairing retained all)"
    using walk_keeps [of ?R all ?os] ret * by (auto simp del: set_map)
  show "subseq (preserveToolCallPairing retained all) (map snd all)"
    using walk_keeps [of ?R all ?os] * subseq_map [OF sub, of snd] by (auto simp del: set_map)
qed

text \<open>C34: restoring the pairing of a retained window. Take any history whose messages are distinct
  objects and in which no answer comes before its call, and any retained selection of its messages in order. The
  result of \<open>preserveToolCallPairing\<close> has no orphan, so \<open>assertPairing\<close> accepts it. If the history
  itself obeys the rule, no retained message is lost or reordered, and everything added comes from the history.\<close>

theorem preserve_restores_pairing:
  assumes "subseq retained all" and "distinct (map fst all)" and "call_first {} (map snd all)"
  shows "findOrphanToolResults (preserveToolCallPairing retained all) = [] \<and>
         assertPairing (preserveToolCallPairing retained all) = Inr () \<and>
         (findOrphanToolResults (map snd all) = [] \<longrightarrow>
            subseq (map snd retained) (preserveToolCallPairing retained all) \<and>
            subseq (preserveToolCallPairing retained all) (map snd all))"
  using preserve_paired [OF assms] preserve_keeps [OF assms(1,2)]
  by (simp add: no_orphans_iff_paired assertPairing_iff)

definition sample_history :: "(nat \<times> Message) list" where
  "sample_history =
     [(0, UserMessage (Inl ''fix it'')),
      (1, AssistantMessage [ToolUseBlock ''t1'' ''read'' [] None]),
      (2, UserMessage (Inr [ToolResultBlock ''t1'' (Inl ''body'') False None None])),
      (3, AssistantMessage [TextBlock ''done'' None])]"

theorem preserve_restores_pairing_witness:
  "findOrphanToolResults (map snd (drop 2 sample_history)) = [''t1''] \<and>
   findOrphanToolResults (preserveToolCallPairing (drop 2 sample_history) sample_history) = [] \<and>
   preserveToolCallPairing (drop 2 sample_history) sample_history = map snd (drop 1 sample_history)"
proof (intro conjI)
  show "findOrphanToolResults (map snd (drop 2 sample_history)) = [''t1'']" by code_simp
  show "preserveToolCallPairing (drop 2 sample_history) sample_history = map snd (drop 1 sample_history)"
    by code_simp
  have "subseq (drop 2 sample_history) sample_history" "distinct (map fst sample_history)"
    "call_first {} (map snd sample_history)"
    by (simp_all add: sample_history_def block_uses_def block_results_def List.map_filter_def)
  from preserve_restores_pairing [OF this]
  show "findOrphanToolResults (preserveToolCallPairing (drop 2 sample_history) sample_history) = []"
    by simp
qed

end
