(* ===== verification/MessageBuilder.thy ===== *)
theory MessageBuilder
  imports Messages
begin

text \<open>
  The fluent message builder (messages/builder.ts): a list of messages and a flag, one function
  per method; a method that throws gives \<open>Inl\<close> with the message. A throwing method can have set
  the flag already, so the state after an error is returned as well.
\<close>

record MessageBuilder =
  messages :: "Message list"
  systemFinished :: bool

definition messageBuilder :: MessageBuilder where
  "messageBuilder = \<lparr>messages = [], systemFinished = False\<rparr>"

type_synonym build_step = "(string + unit) \<times> MessageBuilder"

definition push :: "Message \<Rightarrow> MessageBuilder \<Rightarrow> build_step" where
  "push m b = (Inr (), b\<lparr>messages := messages b @ [m]\<rparr>)"

definition validateNotConsecutive :: "Role \<Rightarrow> MessageBuilder \<Rightarrow> bool" where
  "validateNotConsecutive r b =
     (messages b = [] \<or> \<not> (role (last (messages b)) = r \<and> r = Assistant))"

definition builder_system :: "string \<Rightarrow> MessageBuilder \<Rightarrow> build_step" where
  "builder_system content b =
     (if systemFinished b
      then (Inl ''MessageBuilder: system messages must come before user/assistant messages'', b)
      else if content = []
      then (Inl ''MessageBuilder: system message content must not be empty'', b)
      else push (SystemMessage content False) b)"

definition builder_user :: "Content \<Rightarrow> MessageBuilder \<Rightarrow> build_step" where
  "builder_user content b =
     (let b' = b\<lparr>systemFinished := True\<rparr> in
      if content = Inl [] then (Inl ''MessageBuilder: user message content must not be empty'', b')
      else if content = Inr [] then (Inl ''MessageBuilder: user message content blocks must not be empty'', b')
      else if \<not> validateNotConsecutive User b'
      then (Inl ''MessageBuilder: cannot add consecutive user messages'', b')
      else push (UserMessage content) b')"

definition builder_assistant :: "Content \<Rightarrow> MessageBuilder \<Rightarrow> build_step" where
  "builder_assistant content b =
     (let b' = b\<lparr>systemFinished := True\<rparr>;
          blocks = (case content of Inl s \<Rightarrow> [TextBlock s None] | Inr bs \<Rightarrow> bs) in
      if blocks = [] then (Inl ''MessageBuilder: assistant message content must not be empty'', b')
      else if \<not> validateNotConsecutive Assistant b'
      then (Inl ''MessageBuilder: cannot add consecutive assistant messages'', b')
      else push (AssistantMessage blocks) b')"

definition builder_toolResult ::
  "string \<Rightarrow> string \<Rightarrow> bool \<Rightarrow> obj option \<Rightarrow> MessageBuilder \<Rightarrow> build_step" where
  "builder_toolResult toolUseId content isError metadata b =
     (let b' = b\<lparr>systemFinished := True\<rparr> in
      if toolUseId = [] then (Inl ''MessageBuilder: toolUseId must not be empty'', b')
      else push (UserMessage (Inr [ToolResultBlock toolUseId (Inl content) isError metadata None])) b')"

definition build :: "MessageBuilder \<Rightarrow> string + Message list" where
  "build b =
     (if messages b = [] then Inr []
      else (case find (\<lambda>m. role m \<noteq> System) (messages b) of
              Some m \<Rightarrow> (if role m \<noteq> User
                then Inl ''MessageBuilder: first non-system message must be a user message''
                else Inr (messages b))
            | None \<Rightarrow> Inr (messages b)))"

definition builder_length :: "MessageBuilder \<Rightarrow> nat" where
  "builder_length b = length (messages b)"

section \<open>The builder as a machine\<close>

text \<open>Any method call, whether it throws or not.\<close>

inductive builder_step :: "MessageBuilder \<Rightarrow> MessageBuilder \<Rightarrow> bool" where
  sys: "builder_step b (snd (builder_system c b))"
| usr: "builder_step b (snd (builder_user u b))"
| asst: "builder_step b (snd (builder_assistant a b))"
| tool: "builder_step b (snd (builder_toolResult i t e md b))"

inductive_cases builder_stepE: "builder_step b b'"

text \<open>
  What the builder promises: system messages come first, no two assistant messages in a row, no
  empty content, and the flag is set as soon as there is a message that is not a system message.
\<close>

fun non_empty :: "Message \<Rightarrow> bool" where
  "non_empty (SystemMessage s c) = (s \<noteq> [])"
| "non_empty (UserMessage c) = (c \<noteq> Inl [] \<and> c \<noteq> Inr [])"
| "non_empty (AssistantMessage bs) = (bs \<noteq> [])"

definition alternates :: "Message list \<Rightarrow> bool" where
  "alternates ms = successively (\<lambda>a b. \<not> (role a = Assistant \<and> role b = Assistant)) ms"

definition systems_first :: "Message list \<Rightarrow> bool" where
  "systems_first ms = list_all (\<lambda>m. role m \<noteq> System) (dropWhile (\<lambda>m. role m = System) ms)"

definition builder_ok :: "MessageBuilder \<Rightarrow> bool" where
  "builder_ok b \<longleftrightarrow> list_all non_empty (messages b) \<and> alternates (messages b) \<and>
     systems_first (messages b) \<and>
     (\<not> systemFinished b \<longrightarrow> list_all (\<lambda>m. role m = System) (messages b))"

lemma systems_first_snoc:
  "systems_first ms \<Longrightarrow> role m \<noteq> System \<or> list_all (\<lambda>m. role m = System) ms \<Longrightarrow> systems_first (ms @ [m])"
  by (induction ms) (auto simp: systems_first_def)

lemma alternates_snoc:
  "alternates (ms @ [m]) \<longleftrightarrow>
     alternates ms \<and> (ms = [] \<or> \<not> (role (last ms) = Assistant \<and> role m = Assistant))"
  by (auto simp: alternates_def successively_append_iff)

lemmas builder_defs = builder_system_def builder_user_def builder_assistant_def
  builder_toolResult_def push_def validateNotConsecutive_def Let_def

lemma builder_step_ok: "builder_ok b \<Longrightarrow> builder_step b b' \<Longrightarrow> builder_ok b'"
  by (erule builder_stepE)
     (auto simp: builder_ok_def builder_defs systems_first_snoc alternates_snoc list_all_iff
           split: sum.splits)

interpretation builder: machine messageBuilder builder_step builder_ok
proof
  show "builder_ok messageBuilder"
    by (simp add: builder_ok_def messageBuilder_def alternates_def systems_first_def)
qed (rule builder_step_ok)

text \<open>A list that \<open>build\<close> returns is ready to send.\<close>

lemma build_well_formed:
  assumes "builder_step\<^sup>*\<^sup>* messageBuilder b" and "build b = Inr ms"
  shows "list_all non_empty ms \<and> alternates ms \<and> systems_first ms \<and>
         (\<forall>m rest. dropWhile (\<lambda>m. role m = System) ms = m # rest \<longrightarrow> role m = User)"
proof -
  have ok: "builder_ok b" using builder.inv_reachable [OF assms(1)] .
  have ms: "ms = messages b" using assms(2) by (auto simp: build_def split: option.splits if_splits)
  have "role m = User" if "dropWhile (\<lambda>m. role m = System) ms = m # rest" for m rest
  proof -
    have "find (\<lambda>m. role m \<noteq> System) ms = Some m"
      using that by (induction ms) (auto split: if_splits)
    then have "find (\<lambda>m. role m \<noteq> System) (messages b) = Some m" by (simp only: ms)
    then have "build b = (if role m \<noteq> User
        then Inl ''MessageBuilder: first non-system message must be a user message'' else Inr (messages b))"
      by (cases "messages b") (simp_all add: build_def)
    then show ?thesis using assms(2) by (cases "role m = User") simp_all
  qed
  moreover have "list_all non_empty ms \<and> alternates ms \<and> systems_first ms"
    using ok by (simp only: ms builder_ok_def)
  ultimately show ?thesis by blast
qed

end
