(* ===== verification/MessageTokens.thy ===== *)
theory MessageTokens
  imports Messages JsMap
begin

text \<open>
  Token estimates (messages/tokens.ts), the budget cut of a message list
  (messages/truncation.ts) and the message builder (messages/builder.ts). The live model
  catalog (\<open>getModelInfo\<close>) is a parameter; a pressure fraction is kept as the pair it divides.
\<close>

section \<open>Estimates\<close>

definition CHARS_PER_TOKEN :: nat where "CHARS_PER_TOKEN = 4"

definition MESSAGE_OVERHEAD_TOKENS :: nat where "MESSAGE_OVERHEAD_TOKENS = 4"

definition ceil_div :: "nat \<Rightarrow> nat \<Rightarrow> nat" where
  "ceil_div a b = (a + (b - 1)) div b"

definition estimateTokens :: "string \<Rightarrow> nat" where
  "estimateTokens text = (if text = [] then 0 else max 1 (ceil_div (length text) CHARS_PER_TOKEN))"

text \<open>
  \<open>JSON.stringify\<close> of content blocks. Only the length of the text is used and it does not
  depend on the order of the properties; they are listed as the type declares them.
\<close>

definition cache_fields :: "CacheControl option \<Rightarrow> obj" where
  "cache_fields cc = (case cc of None \<Rightarrow> []
     | Some c \<Rightarrow> [(''cache_control'', JObj ([(''type'', JStr ''ephemeral'')] @
         (case ttl c of None \<Rightarrow> [] | Some t \<Rightarrow> [(''ttl'', JStr t)])))])"

fun image_json :: "ImageSource \<Rightarrow> json" where
  "image_json (Base64Source mediaType data) =
     JObj [(''type'', JStr ''base64''), (''mediaType'', JStr mediaType), (''data'', JStr data)]"
| "image_json (UrlSource url) = JObj [(''type'', JStr ''url''), (''url'', JStr url)]"

fun block_json :: "ContentBlock \<Rightarrow> json" where
  "block_json (TextBlock t cc) = JObj ([(''type'', JStr ''text''), (''text'', JStr t)] @ cache_fields cc)"
| "block_json (ImageBlock s cc) = JObj ([(''type'', JStr ''image''), (''source'', image_json s)] @ cache_fields cc)"
| "block_json (DocumentBlock d cc) =
     JObj ([(''type'', JStr ''document''),
            (''source'', JObj [(''type'', JStr ''base64''), (''mediaType'', JStr ''application/pdf''),
                               (''data'', JStr d)])] @ cache_fields cc)"
| "block_json (ToolUseBlock i n inp cc) =
     JObj ([(''type'', JStr ''tool_use''), (''id'', JStr i), (''name'', JStr n), (''input'', JObj inp)] @
           cache_fields cc)"
| "block_json (ToolResultBlock i (Inl s) e md cc) =
     JObj ([(''type'', JStr ''tool_result''), (''toolUseId'', JStr i), (''content'', JStr s),
            (''isError'', JBool e)] @
           (case md of None \<Rightarrow> [] | Some d \<Rightarrow> [(''metadata'', JObj d)]) @ cache_fields cc)"
| "block_json (ToolResultBlock i (Inr bs) e md cc) =
     JObj ([(''type'', JStr ''tool_result''), (''toolUseId'', JStr i), (''content'', JArr (map block_json bs)),
            (''isError'', JBool e)] @
           (case md of None \<Rightarrow> [] | Some d \<Rightarrow> [(''metadata'', JObj d)]) @ cache_fields cc)"
| "block_json (ThinkingBlock t sg cc) =
     JObj ([(''type'', JStr ''thinking''), (''text'', JStr t)] @
           (case sg of None \<Rightarrow> [] | Some s \<Rightarrow> [(''signature'', JStr s)]) @ cache_fields cc)"
| "block_json (RedactedThinkingBlock d cc) =
     JObj ([(''type'', JStr ''redacted_thinking''), (''data'', JStr d)] @ cache_fields cc)"

fun estimateBlockTokens :: "ContentBlock \<Rightarrow> nat" where
  "estimateBlockTokens (TextBlock t cc) = estimateTokens t"
| "estimateBlockTokens (ThinkingBlock t sg cc) = estimateTokens t"
| "estimateBlockTokens (ToolUseBlock i n inp cc) =
     estimateTokens n + estimateTokens (json_stringify (JObj inp))"
| "estimateBlockTokens (ToolResultBlock i c e md cc) =
     estimateTokens (case c of Inl s \<Rightarrow> s | Inr bs \<Rightarrow> json_stringify (JArr (map block_json bs)))"
| "estimateBlockTokens (ImageBlock s cc) = 1000"
| "estimateBlockTokens (RedactedThinkingBlock d cc) = estimateTokens d"
| "estimateBlockTokens (DocumentBlock d cc) = 0"

definition estimateContentTokens :: "Content \<Rightarrow> nat" where
  "estimateContentTokens c =
     (case c of Inl s \<Rightarrow> estimateTokens s | Inr bs \<Rightarrow> sum_list (map estimateBlockTokens bs))"

definition estimateMessageTokens :: "Message list \<Rightarrow> nat" where
  "estimateMessageTokens messages =
     foldl (\<lambda>total msg. total + MESSAGE_OVERHEAD_TOKENS + estimateContentTokens (message_content msg)) 0 messages"

definition estimateSystemPromptTokens :: "string \<Rightarrow> nat" where
  "estimateSystemPromptTokens prompt = (if prompt = [] then 0 else estimateTokens prompt + 10)"

text \<open>The estimate is additive over messages.\<close>

lemma estimate_foldl:
  "foldl (\<lambda>total msg. total + MESSAGE_OVERHEAD_TOKENS + estimateContentTokens (message_content msg)) n ms =
   n + sum_list (map (\<lambda>msg. MESSAGE_OVERHEAD_TOKENS + estimateContentTokens (message_content msg)) ms)"
  by (induction ms arbitrary: n) simp_all

lemma estimate_sum:
  "estimateMessageTokens ms =
     sum_list (map (\<lambda>msg. MESSAGE_OVERHEAD_TOKENS + estimateContentTokens (message_content msg)) ms)"
  by (simp add: estimateMessageTokens_def estimate_foldl)

lemma estimate_append [simp]:
  "estimateMessageTokens (xs @ ys) = estimateMessageTokens xs + estimateMessageTokens ys"
  by (simp add: estimate_sum)

lemma estimate_Nil [simp]: "estimateMessageTokens [] = 0"
  by (simp add: estimate_sum)

lemma estimate_Cons: "estimateMessageTokens (x # xs) = estimateMessageTokens [x] + estimateMessageTokens xs"
  by (simp add: estimate_sum)

section \<open>Context windows\<close>

definition MODEL_CONTEXT_WINDOWS :: "(string, nat) js_map" where
  "MODEL_CONTEXT_WINDOWS =
     [(''claude-sonnet'', 200000), (''claude-opus'', 200000), (''claude-haiku'', 200000),
      (''claude-sonnet-4'', 200000), (''claude-opus-4'', 200000), (''claude-haiku-3.5'', 200000),
      (''claude-3-5-sonnet'', 200000), (''claude-3-5-haiku'', 200000), (''claude-3-opus'', 200000),
      (''claude-3-sonnet'', 200000), (''claude-3-haiku'', 200000), (''claude-opus-4-7'', 1000000),
      (''claude-sonnet-4-6'', 1000000), (''kimi-k2'', 256000), (''kimi-k2.5'', 256000),
      (''kimi-k2.6'', 256000), (''deepseek-v3.2'', 128000), (''deepseek-chat'', 128000),
      (''glm-4.6'', 200000), (''gpt-4o'', 128000), (''gpt-4o-mini'', 128000),
      (''gpt-4-turbo'', 128000), (''gpt-4'', 8192), (''gpt-3.5-turbo'', 16385), (''o1'', 200000),
      (''o1-mini'', 128000), (''o1-pro'', 200000), (''o3'', 200000), (''o3-mini'', 200000),
      (''o4-mini'', 200000), (''gemini-2.5-pro'', 1000000), (''gemini-2.5-flash'', 1000000),
      (''gemini-2.0-flash'', 1000000), (''gemini-1.5-pro'', 2000000), (''gemini-1.5-flash'', 1000000)]"

definition DEFAULT_CONTEXT_WINDOW :: nat where "DEFAULT_CONTEXT_WINDOW = 200000"

fun window_prefix_loop :: "string \<Rightarrow> string \<Rightarrow> nat \<Rightarrow> (string \<times> nat) list \<Rightarrow> nat" where
  "window_prefix_loop modelName bestMatch bestWindow [] = bestWindow"
| "window_prefix_loop modelName bestMatch bestWindow ((key, window) # kvs) =
     (if js_startsWith modelName key \<and> length key > length bestMatch
      then window_prefix_loop modelName key window kvs
      else window_prefix_loop modelName bestMatch bestWindow kvs)"

text \<open>\<open>catalog provider model\<close> is \<open>getModelInfo(provider, model)?.contextWindow\<close>.\<close>

definition colon_split :: "string \<Rightarrow> (string \<times> string) option" where
  "colon_split model =
     (let p = takeWhile (\<lambda>c. c \<noteq> CHR '':'') model
      in if p \<noteq> [] \<and> length p < length model then Some (p, drop (length p + 1) model) else None)"

definition getModelContextWindow :: "(string \<Rightarrow> string \<Rightarrow> int option) \<Rightarrow> string \<Rightarrow> nat" where
  "getModelContextWindow catalog model =
     (case (case colon_split model of None \<Rightarrow> None
            | Some (provider, bareName) \<Rightarrow>
                (case catalog provider bareName of
                   Some w \<Rightarrow> if w > 0 then Some (nat w) else None | None \<Rightarrow> None)) of
        Some w \<Rightarrow> w
      | None \<Rightarrow>
         (let modelName = (case colon_split model of Some (p, bare) \<Rightarrow> bare | None \<Rightarrow> model)
          in case map_get MODEL_CONTEXT_WINDOWS modelName of
               Some w \<Rightarrow> w
             | None \<Rightarrow> window_prefix_loop modelName [] DEFAULT_CONTEXT_WINDOW MODEL_CONTEXT_WINDOWS))"

record UsageBaseline =
  inputTokens :: nat
  cacheReadTokens :: nat
  cacheCreationTokens :: nat
  outputTokens :: nat
  messageCountAtCapture :: int

record ContextUsage =
  usage_tokens :: nat
  usage_window :: nat

definition getEffectiveContextUsage ::
  "(string \<Rightarrow> string \<Rightarrow> int option) \<Rightarrow> Message list \<Rightarrow> UsageBaseline option \<Rightarrow> string \<Rightarrow> ContextUsage" where
  "getEffectiveContextUsage catalog messages baseline model =
     (let window = getModelContextWindow catalog model
      in case baseline of
           None \<Rightarrow> \<lparr>usage_tokens = estimateMessageTokens messages, usage_window = window\<rparr>
         | Some b \<Rightarrow>
             (let baselineTokens = inputTokens b + cacheReadTokens b + cacheCreationTokens b + outputTokens b;
                  newMessageStart = min (max 0 (messageCountAtCapture b)) (int (length messages))
              in \<lparr>usage_tokens = baselineTokens + estimateMessageTokens (drop (nat newMessageStart) messages),
                  usage_window = window\<rparr>))"

text \<open>Appending messages after the capture adds exactly their estimate, wherever the baseline stands.\<close>

lemma usage_append:
  assumes "messageCountAtCapture b \<le> int (length ms)"
  shows "usage_tokens (getEffectiveContextUsage cat (ms @ new) (Some b) model) =
         usage_tokens (getEffectiveContextUsage cat ms (Some b) model) + estimateMessageTokens new"
proof -
  have "nat (min (max 0 (messageCountAtCapture b)) (int (length (ms @ new)))) =
        nat (min (max 0 (messageCountAtCapture b)) (int (length ms)))"
    using assms by simp
  moreover have "\<dots> \<le> length ms" by linarith
  ultimately show ?thesis by (simp add: getEffectiveContextUsage_def Let_def)
qed

text \<open>The prefix loop picks an entry with a longest matching key.\<close>

definition prefix_keys_upto :: "string \<Rightarrow> nat \<Rightarrow> (string \<times> nat) list \<Rightarrow> bool" where
  "prefix_keys_upto n l kvs = list_all (\<lambda>kv. js_startsWith n (fst kv) \<longrightarrow> length (fst kv) \<le> l) kvs"

lemma prefix_keys_upto_Cons [simp]:
  "prefix_keys_upto n l ((k, v) # kvs) \<longleftrightarrow> (js_startsWith n k \<longrightarrow> length k \<le> l) \<and> prefix_keys_upto n l kvs"
  by (simp add: prefix_keys_upto_def)

lemma window_prefix_loop_longest:
  "(window_prefix_loop n bm bw kvs = bw \<and> prefix_keys_upto n (length bm) kvs) \<or>
   (\<exists>k. (k, window_prefix_loop n bm bw kvs) \<in> set kvs \<and> js_startsWith n k \<and>
        length bm < length k \<and> prefix_keys_upto n (length k) kvs)"
proof (induction n bm bw kvs rule: window_prefix_loop.induct)
  case (1 n bm bw)
  then show ?case by (simp add: prefix_keys_upto_def)
next
  case (2 n bm bw key window kvs)
  show ?case
  proof (cases "js_startsWith n key \<and> length key > length bm")
    case True
    from 2(1) [OF this] show ?thesis
    proof
      assume "window_prefix_loop n key window kvs = window \<and> prefix_keys_upto n (length key) kvs"
      with True show ?thesis by (intro disjI2 exI [of _ key]) simp
    next
      assume "\<exists>k. (k, window_prefix_loop n key window kvs) \<in> set kvs \<and> js_startsWith n k \<and>
        length key < length k \<and> prefix_keys_upto n (length k) kvs"
      then obtain k where "(k, window_prefix_loop n key window kvs) \<in> set kvs" "js_startsWith n k"
        "length key < length k" "prefix_keys_upto n (length k) kvs" by blast
      with True show ?thesis by (intro disjI2 exI [of _ k]) simp
    qed
  next
    case False
    from 2(2) [OF this] show ?thesis
    proof
      assume "window_prefix_loop n bm bw kvs = bw \<and> prefix_keys_upto n (length bm) kvs"
      with False show ?thesis by (intro disjI1) auto
    next
      assume "\<exists>k. (k, window_prefix_loop n bm bw kvs) \<in> set kvs \<and> js_startsWith n k \<and>
        length bm < length k \<and> prefix_keys_upto n (length k) kvs"
      then obtain k where "(k, window_prefix_loop n bm bw kvs) \<in> set kvs" "js_startsWith n k"
        "length bm < length k" "prefix_keys_upto n (length k) kvs" by blast
      with False show ?thesis by (intro disjI2 exI [of _ k]) auto
    qed
  qed
qed

section \<open>Cutting a history to a budget\<close>

text \<open>The leading system messages and the conversation after them.\<close>

definition is_system :: "Message \<Rightarrow> bool" where
  "is_system m = (role m = System)"

text \<open>
  The walk shared by the budget cuts: from the newest item back, take items while their cost
  fits the rest of the budget, and put each in front of those kept.
\<close>

fun fits_walk :: "('a \<Rightarrow> nat) \<Rightarrow> int \<Rightarrow> nat \<Rightarrow> 'a list \<Rightarrow> 'a list \<Rightarrow> 'a list" where
  "fits_walk cost budget used kept [] = kept"
| "fits_walk cost budget used kept (x # newest_first) =
     (if int (used + cost x) > budget then kept
      else fits_walk cost budget (used + cost x) (x # kept) newest_first)"

definition truncateMessages :: "Message list \<Rightarrow> int \<Rightarrow> Message list" where
  "truncateMessages messages maxTokens =
     (if int (estimateMessageTokens messages) \<le> maxTokens then messages
      else (let systemMessages = takeWhile is_system messages;
                remainingBudget = maxTokens - int (estimateMessageTokens systemMessages)
            in if remainingBudget \<le> 0 then systemMessages
               else systemMessages @
                 fits_walk (\<lambda>m. estimateMessageTokens [m]) remainingBudget 0 [] (rev (dropWhile is_system messages))))"

text \<open>The walk keeps a longest suffix that fits.\<close>

definition total_cost :: "('a \<Rightarrow> nat) \<Rightarrow> 'a list \<Rightarrow> nat" where
  "total_cost cost xs = sum_list (map cost xs)"

lemma total_cost_simps [simp]:
  "total_cost c [] = 0" "total_cost c (x # xs) = c x + total_cost c xs"
  "total_cost c (xs @ ys) = total_cost c xs + total_cost c ys"
  "total_cost c (rev xs) = total_cost c xs"
  by (simp_all add: total_cost_def rev_map [symmetric] sum_list_rev)

lemma fits_walk_suffix:
  "\<exists>n. fits_walk c b u kept xs = rev (take n xs) @ kept \<and> n \<le> length xs \<and>
       (0 < n \<longrightarrow> int (u + total_cost c (take n xs)) \<le> b) \<and>
       (n < length xs \<longrightarrow> b < int (u + total_cost c (take (Suc n) xs)))"
proof (induction c b u kept xs rule: fits_walk.induct)
  case (2 c b u kept x xs)
  show ?case
  proof (cases "int (u + c x) > b")
    case True
    then show ?thesis by (intro exI [of _ 0]) simp
  next
    case False
    from 2 [OF False] obtain n where n:
      "fits_walk c b (u + c x) (x # kept) xs = rev (take n xs) @ x # kept" "n \<le> length xs"
      "0 < n \<longrightarrow> int (u + c x + total_cost c (take n xs)) \<le> b"
      "n < length xs \<longrightarrow> b < int (u + c x + total_cost c (take (Suc n) xs))"
      by auto
    then show ?thesis using False
      by (intro exI [of _ "Suc n"]) (cases "n = 0"; simp add: add.assoc)
  qed
qed simp

lemma estimate_rev: "estimateMessageTokens (rev ms) = estimateMessageTokens ms"
  by (simp add: estimate_sum rev_map [symmetric] sum_list_rev)

lemma total_cost_estimate: "total_cost (\<lambda>m. estimateMessageTokens [m]) ms = estimateMessageTokens ms"
  by (simp add: total_cost_def estimate_sum)

text \<open>
  The cut history is the system prefix and a longest suffix of the conversation, and it fits the
  budget whenever the system messages do.
\<close>

lemma truncateMessages_budget:
  assumes "int (estimateMessageTokens (takeWhile is_system ms)) \<le> b"
  shows "int (estimateMessageTokens (truncateMessages ms b)) \<le> b"
proof -
  let ?sys = "takeWhile is_system ms" and ?conv = "rev (dropWhile is_system ms)"
  let ?b = "b - int (estimateMessageTokens ?sys)" and ?c = "\<lambda>m. estimateMessageTokens [m]"
  obtain n where n: "fits_walk ?c ?b 0 [] ?conv = rev (take n ?conv)"
    "0 < n \<longrightarrow> int (total_cost ?c (take n ?conv)) \<le> ?b"
    using fits_walk_suffix [of ?c ?b 0 "[]" ?conv] by auto
  have "int (estimateMessageTokens (rev (take n ?conv))) \<le> ?b"
    using n(2) assms by (cases "n = 0") (simp_all add: total_cost_estimate estimate_rev)
  then show ?thesis using assms n(1) by (simp add: truncateMessages_def Let_def)
qed

end
