(* ===== verification/MessageGroups.thy ===== *)
theory MessageGroups
  imports MessageTokens
begin

text \<open>
  Splitting a conversation into API rounds (compaction/grouping.ts). The loop of the code is shown
  equal to a reference definition, and on histories in the order the providers require each
  group is paired on its own, so strategies that drop whole groups cannot make an orphan.
\<close>

datatype GroupKind = SystemGroup | RoundGroup

record MessageGroup =
  kind :: GroupKind
  group_messages :: "Message list"

definition isRealUserMessage :: "Message \<Rightarrow> bool" where
  "isRealUserMessage msg = (case msg of
       UserMessage (Inl s) \<Rightarrow> True
     | UserMessage (Inr bs) \<Rightarrow> list_ex (\<lambda>b. \<not> is_tool_result b) bs
     | _ \<Rightarrow> False)"

definition isToolResultMessage :: "Message \<Rightarrow> bool" where
  "isToolResultMessage msg = (case msg of
       UserMessage (Inr bs) \<Rightarrow> bs \<noteq> [] \<and> list_all is_tool_result bs
     | _ \<Rightarrow> False)"

fun group_loop :: "MessageGroup list \<Rightarrow> Message list \<Rightarrow> bool \<Rightarrow> Message list \<Rightarrow> MessageGroup list" where
  "group_loop groups current inSystemPrefix [] =
     (if current \<noteq> []
      then groups @ [\<lparr>kind = (if inSystemPrefix then SystemGroup else RoundGroup), group_messages = current\<rparr>]
      else groups)"
| "group_loop groups current inSystemPrefix (msg # ms) =
     (if inSystemPrefix \<and> role msg = System then group_loop groups (current @ [msg]) True ms
      else
        (let (groups, current) =
               (if inSystemPrefix \<and> current \<noteq> []
                then (groups @ [\<lparr>kind = SystemGroup, group_messages = current\<rparr>], [])
                else (groups, current));
             (groups, current) =
               (if isRealUserMessage msg \<and> current \<noteq> []
                then (groups @ [\<lparr>kind = RoundGroup, group_messages = current\<rparr>], [])
                else (groups, current))
         in group_loop groups (current @ [msg]) False ms))"

definition groupMessagesByApiRound :: "Message list \<Rightarrow> MessageGroup list" where
  "groupMessagesByApiRound messages = group_loop [] [] True messages"

definition systems_of :: "MessageGroup list \<Rightarrow> MessageGroup list" where
  "systems_of groups = filter (\<lambda>g. kind g = SystemGroup) groups"

definition rounds_of :: "MessageGroup list \<Rightarrow> MessageGroup list" where
  "rounds_of groups = filter (\<lambda>g. kind g = RoundGroup) groups"

definition flat :: "MessageGroup list \<Rightarrow> Message list" where
  "flat groups = concat (map group_messages groups)"

text \<open>\<open>dropOldestRounds\<close>: the loop counts the rounds to drop, at most all but one.\<close>

fun drop_count :: "(MessageGroup list \<Rightarrow> bool) \<Rightarrow> MessageGroup list \<Rightarrow> MessageGroup list \<Rightarrow> nat" where
  "drop_count p systems [] = 0"
| "drop_count p systems [g] = 0"
| "drop_count p systems (g # g' # gs) =
     (if \<not> p (systems @ g' # gs) then 0 else Suc (drop_count p systems (g' # gs)))"

definition dropOldestRounds :: "Message list \<Rightarrow> (MessageGroup list \<Rightarrow> bool) \<Rightarrow> Message list" where
  "dropOldestRounds messages predicate =
     (let groups = groupMessagesByApiRound messages;
          systems = systems_of groups; rounds = rounds_of groups
      in flat (systems @ drop (drop_count predicate systems rounds) rounds))"

definition keepLastNRounds :: "Message list \<Rightarrow> int \<Rightarrow> string + Message list" where
  "keepLastNRounds messages maxRounds =
     (if maxRounds < 1
      then Inl (''keepLastNRounds: maxRounds must be >= 1, got '' @
                (if maxRounds < 0 then ''-'' @ show_nat (nat (- maxRounds)) else show_nat (nat maxRounds)))
      else
        (let groups = groupMessagesByApiRound messages;
             systems = systems_of groups; rounds = rounds_of groups
         in if int (length rounds) \<le> maxRounds then Inr messages
            else Inr (flat (systems @ drop (length rounds - nat maxRounds) rounds))))"

section \<open>Reference definition\<close>

text \<open>A round is a message and the messages up to the next real user message.\<close>

function split_rounds :: "Message list \<Rightarrow> Message list list" where
  "split_rounds [] = []"
| "split_rounds (m # ms) =
     (m # takeWhile (\<lambda>x. \<not> isRealUserMessage x) ms) #
     split_rounds (dropWhile (\<lambda>x. \<not> isRealUserMessage x) ms)"
  by pat_completeness auto
termination
  by (relation "measure length") (auto simp: le_imp_less_Suc length_dropWhile_le)

definition mk_round :: "Message list \<Rightarrow> MessageGroup" where
  "mk_round ms = \<lparr>kind = RoundGroup, group_messages = ms\<rparr>"

definition system_part :: "Message list \<Rightarrow> MessageGroup list" where
  "system_part ms = (if takeWhile is_system ms = [] then []
     else [\<lparr>kind = SystemGroup, group_messages = takeWhile is_system ms\<rparr>])"

lemma group_loop_rounds:
  "cur \<noteq> [] \<Longrightarrow> group_loop gs cur False ms =
     gs @ mk_round (cur @ takeWhile (\<lambda>x. \<not> isRealUserMessage x) ms) #
     map mk_round (split_rounds (dropWhile (\<lambda>x. \<not> isRealUserMessage x) ms))"
proof (induction ms arbitrary: gs cur)
  case Nil
  then show ?case by (simp add: mk_round_def)
next
  case (Cons m ms)
  then show ?case by (cases "isRealUserMessage m") (simp_all add: mk_round_def)
qed

lemma group_loop_first:
  "\<not> is_system m \<Longrightarrow> group_loop gs cur True (m # ms) =
     gs @ (if cur = [] then [] else [\<lparr>kind = SystemGroup, group_messages = cur\<rparr>]) @
     map mk_round (split_rounds (m # ms))"
  by (auto simp: is_system_def group_loop_rounds)

lemma group_loop_system:
  "group_loop [] cur True ms =
     (if cur @ takeWhile is_system ms = [] then []
      else [\<lparr>kind = SystemGroup, group_messages = cur @ takeWhile is_system ms\<rparr>]) @
     map mk_round (split_rounds (dropWhile is_system ms))"
proof (induction ms arbitrary: cur)
  case (Cons m ms)
  show ?case
  proof (cases "is_system m")
    case True
    then show ?thesis using Cons.IH [of "cur @ [m]"] by (simp add: is_system_def)
  next
    case False
    then show ?thesis using group_loop_first [OF False, of "[]" cur ms]
      by (simp del: split_rounds.simps group_loop.simps)
  qed
qed simp

lemma group_eq:
  "groupMessagesByApiRound ms = system_part ms @ map mk_round (split_rounds (dropWhile is_system ms))"
  using group_loop_system [of "[]" ms] by (simp add: groupMessagesByApiRound_def system_part_def)

lemma systems_of_group [simp]: "systems_of (groupMessagesByApiRound ms) = system_part ms"
  by (auto simp: group_eq systems_of_def system_part_def mk_round_def)

lemma rounds_of_group [simp]:
  "rounds_of (groupMessagesByApiRound ms) = map mk_round (split_rounds (dropWhile is_system ms))"
  by (auto simp: group_eq rounds_of_def system_part_def mk_round_def)

lemma flat_simps [simp]:
  "flat [] = []" "flat (g # gs) = group_messages g @ flat gs" "flat (xs @ ys) = flat xs @ flat ys"
  by (simp_all add: flat_def)

lemma flat_mk_round [simp]: "flat (map mk_round xs) = concat xs"
  by (induction xs) (simp_all add: mk_round_def)

lemma flat_system_part [simp]: "flat (system_part ms) = takeWhile is_system ms"
  by (simp add: system_part_def)

lemma concat_split_rounds [simp]: "concat (split_rounds ms) = ms"
  by (induction ms rule: split_rounds.induct) simp_all

abbreviation "rest_of_round \<equiv> takeWhile (\<lambda>x. \<not> isRealUserMessage x)"
abbreviation "after_round \<equiv> dropWhile (\<lambda>x. \<not> isRealUserMessage x)"

lemma rest_of_round_all: "list_all (\<lambda>x. \<not> isRealUserMessage x) (rest_of_round ms)"
  by (induction ms) simp_all

lemma after_round_start: "after_round ms = [] \<or> isRealUserMessage (hd (after_round ms))"
  by (induction ms) simp_all

lemma split_rounds_parts:
  "list_all (\<lambda>r. r \<noteq> [] \<and> list_all (\<lambda>x. \<not> isRealUserMessage x) (tl r)) (split_rounds ms)"
  by (induction ms rule: split_rounds.induct) (simp_all add: rest_of_round_all)

lemma split_rounds_real:
  "ms = [] \<or> isRealUserMessage (hd ms) \<Longrightarrow> list_all (\<lambda>r. isRealUserMessage (hd r)) (split_rounds ms)"
proof (induction ms rule: split_rounds.induct)
  case (2 m ms)
  then show ?case using after_round_start [of ms] by simp
qed simp

lemma split_rounds_start: "list_all (\<lambda>r. isRealUserMessage (hd r)) (tl (split_rounds ms))"
proof (cases ms)
  case (Cons m rest)
  then show ?thesis using split_rounds_real [OF after_round_start [of rest]] by simp
qed simp

section \<open>Histories in the order the providers require\<close>

text \<open>
  \<open>open_calls\<close> are the calls of the last assistant message. Tool results come in user messages of their own,
  directly after that message (other such messages may stand between); a real user message or the
  next assistant message closes the calls.
\<close>

fun api_order :: "string set \<Rightarrow> Message list \<Rightarrow> bool" where
  "api_order open_calls [] = True"
| "api_order open_calls (m # ms) =
     (set (results m) \<subseteq> open_calls \<and> (isRealUserMessage m \<longrightarrow> results m = []) \<and>
      api_order (if isRealUserMessage m then {}
                 else if role m = Assistant then set (uses m) else open_calls) ms)"

lemma api_order_mono: "api_order S ms \<Longrightarrow> S \<subseteq> T \<Longrightarrow> api_order T ms"
proof (induction ms arbitrary: S T)
  case (Cons m ms)
  then show ?case
    by (auto split: if_splits elim!: Cons.IH)
qed simp

lemma api_order_round:
  "api_order S ms \<Longrightarrow> S \<subseteq> T \<Longrightarrow> paired T (rest_of_round ms) \<and> api_order {} (after_round ms)"
proof (induction ms arbitrary: S T)
  case (Cons m ms)
  show ?case
  proof (cases "isRealUserMessage m")
    case True
    then show ?thesis using Cons.prems by simp
  next
    case False
    let ?S = "if role m = Assistant then set (uses m) else S"
    have "api_order ?S ms" "?S \<subseteq> T \<union> set (uses m)" using Cons.prems False by auto
    from Cons.IH [OF this] show ?thesis using Cons.prems False by auto
  qed
qed simp

lemma real_no_uses: "isRealUserMessage m \<Longrightarrow> uses m = []"
  by (cases m) (simp_all add: isRealUserMessage_def)

lemma uses_assistant: "role m \<noteq> Assistant \<Longrightarrow> uses m = []"
  by (cases m) simp_all

lemma api_order_rounds: "api_order {} ms \<Longrightarrow> list_all (paired {}) (split_rounds ms)"
proof (induction ms rule: split_rounds.induct)
  case (2 m ms)
  let ?S = "if isRealUserMessage m then {} else if role m = Assistant then set (uses m) else {}"
  have "api_order ?S ms" "?S \<subseteq> set (uses m)" and m: "results m = []"
    using "2.prems" by auto
  from api_order_round [OF this(1,2)] have "paired (set (uses m)) (rest_of_round ms)" "api_order {} (after_round ms)"
    by auto
  with 2 m show ?case by simp
qed simp

lemma paired_concat: "list_all (paired {}) xss \<Longrightarrow> paired S (concat xss)"
  by (induction xss arbitrary: S) (auto simp: paired_append intro: paired_mono)

lemma api_order_system: "list_all is_system sys \<Longrightarrow> api_order S (sys @ ms) \<longleftrightarrow> api_order S ms"
proof (induction sys)
  case (Cons m sys)
  then have "results m = [] \<and> \<not> isRealUserMessage m \<and> role m \<noteq> Assistant"
    by (cases m) (simp_all add: is_system_def isRealUserMessage_def)
  with Cons show ?case by auto
qed simp

lemma api_order_conversation: "api_order {} ms \<longleftrightarrow> api_order {} (dropWhile is_system ms)"
proof -
  have "list_all is_system (takeWhile is_system ms)" by (induction ms) simp_all
  from api_order_system [OF this, of "{}" "dropWhile is_system ms"] show ?thesis by simp
qed

lemma paired_system: "list_all is_system sys \<Longrightarrow> paired S (sys @ ms) \<longleftrightarrow> paired S ms"
proof (induction sys)
  case (Cons m sys)
  then have "results m = [] \<and> uses m = []" by (cases m) (simp_all add: is_system_def)
  with Cons show ?case by simp
qed simp

lemma takeWhile_system: "list_all is_system (takeWhile is_system ms)"
  by (induction ms) simp_all

text \<open>Any selection of rounds of such a history is paired, and so is the history itself.\<close>

lemma rounds_selection_paired:
  assumes "api_order {} ms" and "set sel \<subseteq> set (split_rounds (dropWhile is_system ms))"
  shows "paired S (takeWhile is_system ms @ concat sel)"
proof -
  have "list_all (paired {}) sel"
    using assms api_order_rounds [of "dropWhile is_system ms"] api_order_conversation [of ms]
    by (auto simp: list_all_iff)
  then show ?thesis using paired_concat paired_system [OF takeWhile_system] by blast
qed

text \<open>C33: grouping by API round. The loop of \<open>groupMessagesByApiRound\<close> computes the reference
  split: one group with the leading system messages if there are any, then the rounds. Nothing is lost or reordered;
  every round but the first starts with a real user message and no other message of a round is one.
  If the history is in the order providers require, each group is paired on its own: no call
  and its answer are in different groups.\<close>

theorem grouping_correct:
  "groupMessagesByApiRound ms = system_part ms @ map mk_round (split_rounds (dropWhile is_system ms)) \<and>
   flat (groupMessagesByApiRound ms) = ms \<and>
   list_all (\<lambda>g. group_messages g \<noteq> [] \<and> list_all (\<lambda>m. \<not> isRealUserMessage m) (tl (group_messages g)))
     (rounds_of (groupMessagesByApiRound ms)) \<and>
   list_all (\<lambda>g. isRealUserMessage (hd (group_messages g))) (tl (rounds_of (groupMessagesByApiRound ms))) \<and>
   (api_order {} ms \<longrightarrow> list_all (\<lambda>g. paired {} (group_messages g)) (groupMessagesByApiRound ms))"
proof (intro conjI impI)
  let ?rounds = "split_rounds (dropWhile is_system ms)"
  show "groupMessagesByApiRound ms = system_part ms @ map mk_round ?rounds" by (rule group_eq)
  show "flat (groupMessagesByApiRound ms) = ms" by (simp add: group_eq)
  show "list_all (\<lambda>g. group_messages g \<noteq> [] \<and> list_all (\<lambda>m. \<not> isRealUserMessage m) (tl (group_messages g)))
     (rounds_of (groupMessagesByApiRound ms))"
    using split_rounds_parts [of "dropWhile is_system ms"] by (simp add: list.pred_map o_def mk_round_def)
  show "list_all (\<lambda>g. isRealUserMessage (hd (group_messages g))) (tl (rounds_of (groupMessagesByApiRound ms)))"
    using split_rounds_start [of "dropWhile is_system ms"]
    by (simp add: map_tl [symmetric] list.pred_map o_def mk_round_def)
  assume "api_order {} ms"
  then have "list_all (paired {}) ?rounds" using api_order_rounds api_order_conversation by blast
  moreover have "paired {} (takeWhile is_system ms)"
    using paired_system [OF takeWhile_system, of "{}" ms "[]"] by simp
  ultimately show "list_all (\<lambda>g. paired {} (group_messages g)) (groupMessagesByApiRound ms)"
    by (simp add: group_eq list.pred_map o_def mk_round_def system_part_def)
qed

theorem grouping_correct_witness:
  "api_order {} (map snd sample_history) \<and>
   list_all (\<lambda>g. paired {} (group_messages g)) (groupMessagesByApiRound (map snd sample_history))"
proof -
  have "api_order {} (map snd sample_history)"
    by (simp add: sample_history_def block_uses_def block_results_def List.map_filter_def isRealUserMessage_def)
  with grouping_correct [of "map snd sample_history"] show ?thesis by blast
qed

end
