(* ===== verification/TextTruncate.thy ===== *)
theory TextTruncate
  imports Prelude Complex_Main
begin

text \<open>
  Byte-safe truncation (messages/truncate.ts). Here a string is the list of its UTF-16 code
  units, since the functions look at surrogates and at the UTF-8 size. Sizes stay below the
  31-bit range in which the code's \<open>>> 1\<close> is division by two. A head fraction is a rational; the
  decimal text of a size is rounded as \<open>toFixed\<close> does on the exact quotient.
\<close>

type_synonym units = "nat list"

definition ascii :: "string \<Rightarrow> units" where
  "ascii s = map of_char s"

definition is_high :: "nat \<Rightarrow> bool" where "is_high c \<longleftrightarrow> 0xd800 \<le> c \<and> c \<le> 0xdbff"

definition is_low :: "nat \<Rightarrow> bool" where "is_low c \<longleftrightarrow> 0xdc00 \<le> c \<and> c \<le> 0xdfff"

text \<open>\<open>Buffer.byteLength(s, 'utf8')\<close>: a pair takes four bytes, a lone surrogate three.\<close>

fun byteLength :: "units \<Rightarrow> nat" where
  "byteLength [] = 0"
| "byteLength [c] = (if c < 0x80 then 1 else if c < 0x800 then 2 else 3)"
| "byteLength (c # d # cs) =
     (if c < 0x80 then 1 + byteLength (d # cs)
      else if c < 0x800 then 2 + byteLength (d # cs)
      else if is_high c \<and> is_low d then 4 + byteLength cs
      else 3 + byteLength (d # cs))"

section \<open>The definitions\<close>

function prefix_search :: "units \<Rightarrow> int \<Rightarrow> nat \<Rightarrow> nat \<Rightarrow> nat" where
  "prefix_search str maxBytes lo hi =
     (if lo < hi
      then (let mid = (lo + hi + 1) div 2
            in if int (byteLength (take mid str)) \<le> maxBytes
               then prefix_search str maxBytes mid hi
               else prefix_search str maxBytes lo (mid - 1))
      else lo)"
  by pat_completeness auto
termination
  by (relation "measure (\<lambda>(s, m, lo, hi). hi - lo)") auto

declare prefix_search.simps [simp del]

definition byteSafePrefix :: "units \<Rightarrow> int \<Rightarrow> units" where
  "byteSafePrefix str maxBytes =
     (if maxBytes \<le> 0 then []
      else if int (byteLength str) \<le> maxBytes then str
      else (let lo = prefix_search str maxBytes 0 (length str)
            in take (if lo > 0 \<and> is_high (str ! (lo - 1)) then lo - 1 else lo) str))"

function suffix_search :: "units \<Rightarrow> int \<Rightarrow> nat \<Rightarrow> nat \<Rightarrow> nat" where
  "suffix_search str maxBytes lo hi =
     (if lo < hi
      then (let mid = (lo + hi) div 2
            in if int (byteLength (drop mid str)) \<le> maxBytes
               then suffix_search str maxBytes lo mid
               else suffix_search str maxBytes (mid + 1) hi)
      else lo)"
  by pat_completeness auto
termination
  by (relation "measure (\<lambda>(s, m, lo, hi). hi - lo)") auto

declare suffix_search.simps [simp del]

definition byteSafeSuffix :: "units \<Rightarrow> int \<Rightarrow> units" where
  "byteSafeSuffix str maxBytes =
     (if maxBytes \<le> 0 then []
      else if int (byteLength str) \<le> maxBytes then str
      else (let lo = suffix_search str maxBytes 0 (length str)
            in drop (if lo < length str \<and> is_low (str ! lo) then lo + 1 else lo) str))"

definition capBytes :: "units \<Rightarrow> int \<Rightarrow> units \<Rightarrow> units" where
  "capBytes str maxBytes marker =
     (if int (byteLength str) \<le> maxBytes then str
      else if maxBytes \<le> int (byteLength marker) then byteSafePrefix marker maxBytes
      else byteSafePrefix str (maxBytes - int (byteLength marker)) @ marker)"

text \<open>The default marker of \<open>capBytes\<close>: two line feeds and \<open>[truncated]\<close>.\<close>

definition truncated_marker :: units where
  "truncated_marker = [10, 10] @ ascii ''[truncated]''"

definition clamp :: "rat \<Rightarrow> rat \<Rightarrow> rat \<Rightarrow> rat" where
  "clamp n lo hi = (if n < lo then lo else if n > hi then hi else n)"

definition countLines :: "units \<Rightarrow> nat" where
  "countLines str = (if str = [] then 0 else Suc (length (filter (\<lambda>c. c = 10) str)))"

text \<open>\<open>(a / b).toFixed(d)\<close> for natural numbers: nearest decimal, ties upwards.\<close>

definition pad_left :: "nat \<Rightarrow> string \<Rightarrow> string" where
  "pad_left n s = replicate (n - length s) (CHR ''0'') @ s"

definition toFixed :: "nat \<Rightarrow> nat \<Rightarrow> nat \<Rightarrow> string" where
  "toFixed a b d =
     (let n = (2 * a * 10 ^ d + b) div (2 * b)
      in show_nat (n div 10 ^ d) @ ''.'' @ pad_left d (show_nat (n mod 10 ^ d)))"

definition formatBytes :: "nat \<Rightarrow> string" where
  "formatBytes bytes =
     (if bytes < 1024 then show_nat bytes @ '' B''
      else if bytes < 1024 * 1024 then toFixed bytes 1024 1 @ '' KB''
      else toFixed bytes (1024 * 1024) 2 @ '' MB'')"

definition indexOf_nl :: "units \<Rightarrow> nat option" where
  "indexOf_nl s = (let i = length (takeWhile (\<lambda>c. c \<noteq> 10) s) in if i < length s then Some i else None)"

definition lastIndexOf_nl :: "units \<Rightarrow> nat option" where
  "lastIndexOf_nl s = map_option (\<lambda>i. length s - 1 - i) (indexOf_nl (rev s))"

definition snap_head :: "units \<Rightarrow> units" where
  "snap_head head = (case lastIndexOf_nl head of
     Some n \<Rightarrow> if n > 0 then take n head else head | None \<Rightarrow> head)"

definition snap_tail :: "units \<Rightarrow> units" where
  "snap_tail tail = (case indexOf_nl tail of
     Some n \<Rightarrow> if n < length tail - 1 then drop (n + 1) tail else tail | None \<Rightarrow> tail)"

definition drop_marker :: "nat \<Rightarrow> nat \<Rightarrow> nat \<Rightarrow> nat \<Rightarrow> units" where
  "drop_marker droppedLines droppedBytes headLines tailLines =
     [10, 10] @ ascii (''... ['' @ show_nat droppedLines @ '' lines / '' @ formatBytes droppedBytes @
     '' truncated '') @ [0x2014] @
     ascii ('' head '' @ show_nat headLines @ '' lines + tail '' @ show_nat tailLines @ '' lines] ...'') @ [10, 10]"

definition headTailTruncate :: "units \<Rightarrow> int \<Rightarrow> rat option \<Rightarrow> bool option \<Rightarrow> units" where
  "headTailTruncate str maxBytes headFractionOpt snapToLinesOpt =
     (let inputBytes = byteLength str
      in if int inputBytes \<le> maxBytes then str
         else
      let headFraction = clamp (case headFractionOpt of Some f \<Rightarrow> f | None \<Rightarrow> 6 / 10) (1 / 10) (9 / 10);
          snapToLines = (case snapToLinesOpt of Some b \<Rightarrow> b | None \<Rightarrow> True)
      in if maxBytes \<le> 96 then capBytes str maxBytes truncated_marker
         else
      let contentBudget = maxBytes - 96;
          headBudget = \<lfloor>of_int contentBudget * headFraction\<rfloor>;
          tailBudget = contentBudget - headBudget;
          head0 = byteSafePrefix str headBudget;
          tail0 = byteSafeSuffix str tailBudget;
          head = (if snapToLines then snap_head head0 else head0);
          tail = (if snapToLines then snap_tail tail0 else tail0);
          droppedBytes = inputBytes - byteLength head - byteLength tail;
          headLines = countLines head;
          tailLines = countLines tail;
          droppedLines = countLines str - headLines - tailLines;
          marker = drop_marker droppedLines droppedBytes headLines tailLines;
          safeMarker = (if byteLength marker \<le> 96 then marker else byteSafePrefix marker 96);
          result = head @ safeMarker @ tail
      in if int (byteLength result) > maxBytes then capBytes result maxBytes truncated_marker else result)"

section \<open>Sizes\<close>

lemma byteLength_Cons_ge: "byteLength s < byteLength (c # s)"
  by (induction s arbitrary: c rule: byteLength.induct) (auto simp: is_high_def is_low_def)

lemma byteLength_append_le: "byteLength (xs @ ys) \<le> byteLength xs + byteLength ys"
proof (induction xs rule: byteLength.induct)
  case (2 c)
  show ?case
  proof (cases ys)
    case (Cons d ds)
    then show ?thesis using byteLength_Cons_ge [of ds d] by auto
  qed simp
next
  case (3 c d cs)
  then show ?case by (cases cs) auto
qed simp

lemma byteLength_snoc: "byteLength xs < byteLength (xs @ [c])"
proof (induction xs rule: byteLength.induct)
  case (3 a b cs)
  then show ?case by (cases cs) auto
qed auto

lemma byteLength_take_mono: "i \<le> j \<Longrightarrow> byteLength (take i s) \<le> byteLength (take j s)"
proof (induction j)
  case (Suc j)
  have "byteLength (take j s) \<le> byteLength (take (Suc j) s)"
    by (cases "j < length s") (use byteLength_snoc in \<open>auto simp: take_Suc_conv_app_nth less_imp_le\<close>)
  with Suc show ?case by (cases "i = Suc j") auto
qed simp

lemma byteLength_drop_mono: "i \<le> j \<Longrightarrow> byteLength (drop j s) \<le> byteLength (drop i s)"
proof (induction j)
  case (Suc j)
  have "byteLength (drop (Suc j) s) \<le> byteLength (drop j s)"
    by (cases "j < length s")
       (use byteLength_Cons_ge in \<open>auto simp: Cons_nth_drop_Suc [symmetric] less_imp_le\<close>)
  with Suc show ?case by (cases "i = Suc j") auto
qed simp

section \<open>Binary search\<close>

text \<open>The search ends on the last index whose prefix fits.\<close>

lemma prefix_search_correct:
  assumes "lo \<le> hi" and "int (byteLength (take lo s)) \<le> m"
  shows "lo \<le> prefix_search s m lo hi \<and> prefix_search s m lo hi \<le> hi \<and>
         int (byteLength (take (prefix_search s m lo hi) s)) \<le> m \<and>
         (\<forall>j. prefix_search s m lo hi < j \<and> j \<le> hi \<longrightarrow> m < int (byteLength (take j s)))"
  using assms
proof (induction s m lo hi rule: prefix_search.induct)
  case (1 s m lo hi)
  let ?mid = "(lo + hi + 1) div 2"
  show ?case
  proof (cases "lo < hi")
    case False
    then show ?thesis using 1 by (simp add: prefix_search.simps [of s m hi hi])
  next
    case True
    show ?thesis
    proof (cases "int (byteLength (take ?mid s)) \<le> m")
      case fits: True
      have "?mid \<le> hi" "lo \<le> ?mid" using True by auto
      then show ?thesis
        using 1(1) [OF True refl fits] fits True by (simp add: prefix_search.simps [of s m lo hi] Let_def)
    next
      case nofit: False
      have le: "lo \<le> ?mid - 1" "?mid - 1 \<le> hi" using True by auto
      have big: "m < int (byteLength (take j s))" if "?mid \<le> j" for j
        using byteLength_take_mono [OF that, of s] nofit by linarith
      have eq: "prefix_search s m lo hi = prefix_search s m lo (?mid - 1)"
        using True nofit by (simp add: prefix_search.simps [of s m lo hi] Let_def)
      let ?r = "prefix_search s m lo (?mid - 1)"
      have IH: "lo \<le> ?r \<and> ?r \<le> ?mid - 1 \<and> int (byteLength (take ?r s)) \<le> m \<and>
          (\<forall>j. ?r < j \<and> j \<le> ?mid - 1 \<longrightarrow> m < int (byteLength (take j s)))"
        by (rule 1(2) [OF True refl nofit le(1) 1(4)])
      have "m < int (byteLength (take j s))" if "?r < j" for j
        using IH big [of j] that by (cases "j \<le> ?mid - 1") auto
      then show ?thesis unfolding eq using IH le(2) by auto
    qed
  qed
qed

lemma suffix_search_correct:
  assumes "lo \<le> hi" and "int (byteLength (drop hi s)) \<le> m"
  shows "lo \<le> suffix_search s m lo hi \<and> suffix_search s m lo hi \<le> hi \<and>
         int (byteLength (drop (suffix_search s m lo hi) s)) \<le> m \<and>
         (\<forall>j. lo \<le> j \<and> j < suffix_search s m lo hi \<longrightarrow> m < int (byteLength (drop j s)))"
  using assms
proof (induction s m lo hi rule: suffix_search.induct)
  case (1 s m lo hi)
  let ?mid = "(lo + hi) div 2"
  show ?case
  proof (cases "lo < hi")
    case False
    then show ?thesis using 1 by (simp add: suffix_search.simps [of s m hi hi])
  next
    case True
    show ?thesis
    proof (cases "int (byteLength (drop ?mid s)) \<le> m")
      case fits: True
      have le: "lo \<le> ?mid" "?mid \<le> hi" using True by auto
      have eq: "suffix_search s m lo hi = suffix_search s m lo ?mid"
        using True fits by (simp add: suffix_search.simps [of s m lo hi] Let_def)
      from 1(1) [OF True refl fits le(1) fits] show ?thesis
        unfolding eq using le by (meson le_trans)
    next
      case nofit: False
      have le: "?mid + 1 \<le> hi" using True by auto
      have big: "m < int (byteLength (drop j s))" if "j < ?mid + 1" for j
        using byteLength_drop_mono [of j ?mid s] that nofit by linarith
      have eq: "suffix_search s m lo hi = suffix_search s m (?mid + 1) hi"
        using True nofit by (simp add: suffix_search.simps [of s m lo hi] Let_def)
      have "lo \<le> ?mid + 1" using True by auto
      with 1(2) [OF True refl nofit le 1(4)] show ?thesis
        unfolding eq using big by (meson le_trans not_le)
    qed
  qed
qed

section \<open>What the three functions guarantee\<close>

text \<open>A cut at index \<open>k\<close> is safe when it does not separate a surrogate pair.\<close>

definition safe_cut :: "units \<Rightarrow> nat \<Rightarrow> bool" where
  "safe_cut s k \<longleftrightarrow> \<not> (0 < k \<and> k < length s \<and> is_high (s ! (k - 1)) \<and> is_low (s ! k))"

lemma byteSafePrefix_spec:
  assumes "0 < m"
  obtains k where "byteSafePrefix s m = take k s" "k \<le> length s" "safe_cut s k"
    "int (byteLength (take k s)) \<le> m"
    "\<And>j. j \<le> length s \<Longrightarrow> safe_cut s j \<Longrightarrow> int (byteLength (take j s)) \<le> m \<Longrightarrow>
       j \<le> k \<or> (j = Suc k \<and> is_high (s ! k))"
proof (cases "int (byteLength s) \<le> m")
  case True
  then have "byteSafePrefix s m = take (length s) s" using assms by (simp add: byteSafePrefix_def)
  then show ?thesis using that [of "length s"] True by (auto simp: safe_cut_def)
next
  case False
  define lo where "lo = prefix_search s m 0 (length s)"
  have lo: "lo \<le> length s" "int (byteLength (take lo s)) \<le> m"
    "\<And>j. lo < j \<Longrightarrow> j \<le> length s \<Longrightarrow> m < int (byteLength (take j s))"
    using prefix_search_correct [of 0 "length s" s m] assms by (auto simp: lo_def)
  let ?retreat = "lo > 0 \<and> is_high (s ! (lo - 1))"
  define k where "k = (if ?retreat then lo - 1 else lo)"
  have eq: "byteSafePrefix s m = take k s"
    using assms False by (simp add: byteSafePrefix_def lo_def [symmetric] k_def)
  have kl: "k \<le> lo" by (simp add: k_def)
  have fits: "int (byteLength (take k s)) \<le> m"
    using lo(2) byteLength_take_mono [OF kl, of s] by linarith
  have safe: "safe_cut s k"
    by (auto simp: safe_cut_def k_def is_high_def is_low_def split: if_splits)
  have "j \<le> k \<or> (j = Suc k \<and> is_high (s ! k))"
    if "j \<le> length s" "int (byteLength (take j s)) \<le> m" for j
  proof -
    have "j \<le> lo" using lo(3) [of j] that by (meson not_le)
    then show ?thesis by (cases "?retreat") (auto simp: k_def)
  qed
  with that [OF eq _ safe fits] lo(1) kl show ?thesis by (meson le_trans)
qed

lemma byteSafePrefix_fits:
  assumes "0 \<le> m"
  shows "int (byteLength (byteSafePrefix s m)) \<le> m"
proof (cases "m = 0")
  case False
  with assms have "0 < m" by simp
  then show ?thesis by (rule byteSafePrefix_spec [where s = s]) simp
qed (simp add: byteSafePrefix_def)

lemma byteSafeSuffix_spec:
  assumes "0 < m"
  obtains k where "byteSafeSuffix s m = drop k s" "k \<le> length s" "safe_cut s k"
    "int (byteLength (drop k s)) \<le> m"
proof (cases "int (byteLength s) \<le> m")
  case True
  then have "byteSafeSuffix s m = drop 0 s" using assms by (simp add: byteSafeSuffix_def)
  then show ?thesis using that [of 0] True by (auto simp: safe_cut_def)
next
  case False
  define lo where "lo = suffix_search s m 0 (length s)"
  have lo: "lo \<le> length s" "int (byteLength (drop lo s)) \<le> m"
    using suffix_search_correct [of 0 "length s" s m] assms by (auto simp: lo_def)
  let ?fwd = "lo < length s \<and> is_low (s ! lo)"
  define k where "k = (if ?fwd then lo + 1 else lo)"
  have eq: "byteSafeSuffix s m = drop k s"
    using assms False by (simp add: byteSafeSuffix_def lo_def [symmetric] k_def)
  have "lo \<le> k" by (simp add: k_def)
  then have fits: "int (byteLength (drop k s)) \<le> m"
    using lo(2) byteLength_drop_mono [of lo k s] by linarith
  have "safe_cut s k" by (auto simp: safe_cut_def k_def is_high_def is_low_def split: if_splits)
  with that [OF eq _ _ fits] lo(1) show ?thesis by (auto simp: k_def)
qed

lemma capBytes_fits: "0 \<le> m \<Longrightarrow> int (byteLength (capBytes s m mk)) \<le> m"
proof -
  assume m: "0 \<le> m"
  consider "int (byteLength s) \<le> m" | "m \<le> int (byteLength mk)" "m < int (byteLength s)"
    | "m > int (byteLength mk)" "m < int (byteLength s)" by linarith
  then show ?thesis
  proof cases
    case 3
    let ?p = "byteSafePrefix s (m - int (byteLength mk))"
    have "int (byteLength ?p) \<le> m - int (byteLength mk)" using 3 by (intro byteSafePrefix_fits) simp
    then show ?thesis using 3 byteLength_append_le [of ?p mk] by (simp add: capBytes_def)
  qed (use m byteSafePrefix_fits in \<open>auto simp: capBytes_def\<close>)
qed

lemma headTailTruncate_fits:
  assumes "0 \<le> m"
  shows "int (byteLength (headTailTruncate s m f sn)) \<le> m"
  using capBytes_fits [OF assms] by (simp add: headTailTruncate_def Let_def)

text \<open>C36: byte-safe truncation. For a positive budget the binary search of \<open>byteSafePrefix\<close> ends, and
  returns a prefix that fits, that does not separate a surrogate pair, and that is longest up to the
  one code unit given back before a high surrogate. \<open>byteSafeSuffix\<close> returns a suffix that fits and is safe.
  \<open>capBytes\<close> and \<open>headTailTruncate\<close> never exceed the budget, whatever the marker and options, and return a text that fits
  unchanged.\<close>

theorem truncation_bounds:
  assumes "0 < m"
  shows "(\<exists>k \<le> length s. byteSafePrefix s m = take k s \<and> safe_cut s k \<and> int (byteLength (take k s)) \<le> m \<and>
            (\<forall>j \<le> length s. safe_cut s j \<and> int (byteLength (take j s)) \<le> m \<longrightarrow>
               j \<le> k \<or> (j = Suc k \<and> is_high (s ! k)))) \<and>
         (\<exists>k \<le> length s. byteSafeSuffix s m = drop k s \<and> safe_cut s k \<and> int (byteLength (drop k s)) \<le> m) \<and>
         int (byteLength (capBytes s m marker)) \<le> m \<and>
         int (byteLength (headTailTruncate s m f sn)) \<le> m \<and>
         (int (byteLength s) \<le> m \<longrightarrow> capBytes s m marker = s \<and> headTailTruncate s m f sn = s)"
proof (intro conjI impI)
  show "\<exists>k \<le> length s. byteSafePrefix s m = take k s \<and> safe_cut s k \<and> int (byteLength (take k s)) \<le> m \<and>
            (\<forall>j \<le> length s. safe_cut s j \<and> int (byteLength (take j s)) \<le> m \<longrightarrow>
               j \<le> k \<or> (j = Suc k \<and> is_high (s ! k)))"
    by (rule byteSafePrefix_spec [OF assms, of s]) blast
  show "\<exists>k \<le> length s. byteSafeSuffix s m = drop k s \<and> safe_cut s k \<and> int (byteLength (drop k s)) \<le> m"
    by (rule byteSafeSuffix_spec [OF assms, of s]) blast
  show "int (byteLength (capBytes s m marker)) \<le> m" "int (byteLength (headTailTruncate s m f sn)) \<le> m"
    using assms by (simp_all add: capBytes_fits headTailTruncate_fits)
  assume "int (byteLength s) \<le> m"
  then show "capBytes s m marker = s" "headTailTruncate s m f sn = s"
    by (simp_all add: capBytes_def headTailTruncate_def)
qed

text \<open>A text of three letters and an emoji (a surrogate pair), cut to five bytes.\<close>

theorem truncation_bounds_witness:
  "byteSafePrefix [97, 98, 99, 0xD83D, 0xDE00] 6 = [97, 98, 99] \<and>
   int (byteLength (capBytes [97, 98, 99, 0xD83D, 0xDE00] 6 [46])) \<le> 6"
proof
  show "byteSafePrefix [97, 98, 99, 0xD83D, 0xDE00] 6 = [97, 98, 99]"
    by (simp add: byteSafePrefix_def prefix_search.simps is_high_def is_low_def Let_def)
  have "0 < (6::int)" by simp
  from truncation_bounds [OF this, of "[97, 98, 99, 0xD83D, 0xDE00]" "[46]"]
  show "int (byteLength (capBytes [97, 98, 99, 0xD83D, 0xDE00] 6 [46])) \<le> 6" by blast
qed

end
