(* ===== verification/CompactionStrategies.thy ===== *)
theory CompactionStrategies
  imports MessageGroups TextTruncate
begin

text \<open>
  The compaction strategies: compaction/truncate.ts, sliding-window.ts, summarize.ts,
  hierarchical.ts and snapshot.ts. The provider is a parameter with the two operations they call:
  a token count that may fail and a stream of chunks (an error chunk also stands for a stream that
  throws). Fractions are rationals, so a product with a fraction is not rounded. An ellipsis is
  written as three full stops, which has the same size in UTF-8.
\<close>

section \<open>Providers and results\<close>

datatype ProviderChunk =
    TextDelta string
  | MessageComplete nat nat
  | StreamError string
  | OtherChunk

record ProviderRequest =
  req_model :: string
  req_system :: string
  req_messages :: "Message list"
  req_maxTokens :: nat

datatype Mediation = Fetch | Delegated | Uncontained

record ProviderAdapter =
  provider_name :: string
  egressMediation :: "Mediation option"
  stream :: "ProviderRequest \<Rightarrow> ProviderChunk list"
  countTokens :: "Message list \<Rightarrow> string \<Rightarrow> string + int"

datatype CompactionRetain = RetainMessages int | RetainFraction rat | RetainTokens int

datatype CompactionStrategy = Summarize | Truncate | SlidingWindow | Hierarchical | Snapshot

record CompactionResult =
  result_strategy :: CompactionStrategy
  result_messages :: "Message list"
  preTokenCount :: int
  postTokenCount :: int
  summaryUsage :: "(nat \<times> nat) option"

text \<open>An awaited call that may throw, followed by the rest.\<close>

definition bind_err :: "string + 'a \<Rightarrow> ('a \<Rightarrow> string + 'b) \<Rightarrow> string + 'b" where
  "bind_err r f = (case r of Inl e \<Rightarrow> Inl e | Inr x \<Rightarrow> f x)"

lemma bind_err_Inr_iff: "bind_err r f = Inr y \<longleftrightarrow> (\<exists>x. r = Inr x \<and> f x = Inr y)"
  by (cases r) (auto simp: bind_err_def)

lemma bind_err_simps [simp]: "bind_err (Inl e) f = Inl e" "bind_err (Inr x) f = f x"
  by (simp_all add: bind_err_def)

section \<open>Truncate\<close>

definition countMessagesInGroups :: "MessageGroup list \<Rightarrow> nat" where
  "countMessagesInGroups groups = foldl (\<lambda>total g. total + length (group_messages g)) 0 groups"

text \<open>\<open>Math.max(1, Math.ceil(n * amount))\<close>.\<close>

definition fraction_target :: "nat \<Rightarrow> rat \<Rightarrow> int" where
  "fraction_target n amount = max 1 \<lceil>of_nat n * amount\<rceil>"

text \<open>The fraction loop: one older round is added until the target is reached or none is left.\<close>

fun fraction_walk :: "int \<Rightarrow> MessageGroup list \<Rightarrow> MessageGroup list \<Rightarrow> MessageGroup list" where
  "fraction_walk target kept [] = kept"
| "fraction_walk target kept (g # older) =
     (if int (length kept) < target then fraction_walk target (g # kept) older else kept)"

definition selectRetainedByRound :: "Message list \<Rightarrow> CompactionRetain \<Rightarrow> Message list" where
  "selectRetainedByRound messages retain =
     (let groups = groupMessagesByApiRound messages;
          systems = systems_of groups; rounds = rounds_of groups
      in if rounds = [] then flat systems
         else
      let newest = last rounds; older = tl (rev rounds);
          kept = (case retain of
              RetainMessages count \<Rightarrow>
                fits_walk (\<lambda>g. length (group_messages g)) count (countMessagesInGroups [newest]) [newest] older
            | RetainFraction amount \<Rightarrow>
                fraction_walk (fraction_target (length rounds) amount) [newest] older
            | RetainTokens count \<Rightarrow>
                fits_walk (\<lambda>g. estimateMessageTokens (group_messages g)) count
                  (estimateMessageTokens (group_messages newest)) [newest] older)
      in flat (systems @ kept))"

definition truncate_strategy ::
  "ProviderAdapter \<Rightarrow> Message list \<Rightarrow> string \<Rightarrow> CompactionRetain \<Rightarrow> string + CompactionResult" where
  "truncate_strategy provider messages systemPrompt retain =
     bind_err (countTokens provider messages systemPrompt) (\<lambda>pre.
       let retained = selectRetainedByRound messages retain in
       bind_err (assertPairing retained) (\<lambda>_.
       bind_err (countTokens provider retained systemPrompt) (\<lambda>post.
       Inr \<lparr>result_strategy = Truncate, result_messages = retained, preTokenCount = pre,
            postTokenCount = post, summaryUsage = None\<rparr>)))"

section \<open>Sliding window\<close>

definition resolveWindowSize :: "nat \<Rightarrow> CompactionRetain \<Rightarrow> int" where
  "resolveWindowSize totalMessages retain = (case retain of
       RetainMessages count \<Rightarrow> count
     | RetainFraction amount \<Rightarrow> fraction_target totalMessages amount
     | RetainTokens count \<Rightarrow> max 1 (count div 500))"

definition role_name :: "Message \<Rightarrow> string" where
  "role_name m = (case role m of System \<Rightarrow> ''system'' | User \<Rightarrow> ''user'' | Assistant \<Rightarrow> ''assistant'')"

definition text_blocks :: "ContentBlock list \<Rightarrow> string list" where
  "text_blocks bs = List.map_filter block_text bs"

definition overlap_line :: "Message \<Rightarrow> string" where
  "overlap_line msg =
     (let preview0 = (case message_content msg of
            Inl s \<Rightarrow> take 200 s
          | Inr bs \<Rightarrow>
              (let p = take 200 (js_join '' '' (text_blocks bs))
               in if p = [] then ''['' @ js_join '', '' (map block_type bs) @ '']'' else p));
          preview = (if length preview0 \<ge> 200 then preview0 @ ''...'' else preview0)
      in ''- '' @ role_name msg @ '': '' @ preview)"

definition buildOverlapSummary :: "Message list \<Rightarrow> string" where
  "buildOverlapSummary messages = js_join [CHR 0x0A] (map overlap_line messages)"

definition slidingWindow ::
  "ProviderAdapter \<Rightarrow> Message list \<Rightarrow> string \<Rightarrow> CompactionRetain \<Rightarrow> int option \<Rightarrow> string + CompactionResult" where
  "slidingWindow provider messages systemPrompt retain overlapOpt =
     (let overlap = (case overlapOpt of Some k \<Rightarrow> k | None \<Rightarrow> 2) in
      bind_err (countTokens provider messages systemPrompt) (\<lambda>pre.
        let systemMessages = takeWhile is_system messages;
            conversation = dropWhile is_system messages;
            windowSize = resolveWindowSize (length conversation) retain
        in if int (length conversation) \<le> windowSize
           then Inr \<lparr>result_strategy = SlidingWindow, result_messages = messages, preTokenCount = pre,
                     postTokenCount = pre, summaryUsage = None\<rparr>
           else
        let windowStart = int (length conversation) - windowSize;
            overlapStart = max 0 (windowStart - overlap);
            overlapMessages = drop (nat overlapStart) (take (nat windowStart) conversation);
            windowMessages = drop (nat windowStart) conversation;
            bridge = (if overlapMessages = [] then []
                      else [UserMessage (Inl (''[Prior context - '' @ show_nat (length overlapMessages) @
                              '' messages before this window]'' @ [CHR 0x0A] @
                              buildOverlapSummary overlapMessages))]);
            result = systemMessages @ bridge @ windowMessages
        in bind_err (countTokens provider result systemPrompt) (\<lambda>post.
             Inr \<lparr>result_strategy = SlidingWindow, result_messages = result, preTokenCount = pre,
                  postTokenCount = post, summaryUsage = None\<rparr>)))"

section \<open>Summarize\<close>

definition resolveRetainRoundCount :: "MessageGroup list \<Rightarrow> CompactionRetain \<Rightarrow> nat" where
  "resolveRetainRoundCount rounds retain =
     (if rounds = [] then 0
      else case retain of
          RetainFraction amount \<Rightarrow>
            nat (max 1 (min (int (length rounds)) \<lceil>of_nat (length rounds) * amount\<rceil>))
        | _ \<Rightarrow>
            (let budget = (case retain of RetainMessages c \<Rightarrow> c | RetainTokens c \<Rightarrow> max 1 (c div 500)
                             | RetainFraction a \<Rightarrow> 0)
             in length (fits_walk (\<lambda>g. length (group_messages g)) budget
                  (length (group_messages (last rounds))) [last rounds] (tl (rev rounds)))))"

definition summarize_split :: "Message list \<Rightarrow> CompactionRetain \<Rightarrow> Message list \<times> Message list \<times> Message list" where
  "summarize_split messages retain =
     (let groups = groupMessagesByApiRound messages;
          systemMessages = flat (systems_of groups); rounds = rounds_of groups
      in if rounds = [] then (systemMessages, [], [])
         else (let splitPoint = length rounds - resolveRetainRoundCount rounds retain
               in (systemMessages, flat (take splitPoint rounds), flat (drop splitPoint rounds))))"

definition summary_block :: "ContentBlock \<Rightarrow> string option" where
  "summary_block b = (case b of
       TextBlock t cc \<Rightarrow> Some t
     | ToolUseBlock i n inp cc \<Rightarrow>
         Some (''[Tool call: '' @ n @ ''('' @ take 500 (json_stringify (JObj inp)) @ '')]'')
     | ToolResultBlock i c e md cc \<Rightarrow>
         Some (''[Tool result'' @ (if e then '' (error)'' else []) @ '': '' @
               (case c of Inl s \<Rightarrow> take 1000 s | Inr bs \<Rightarrow> ''[structured result]'') @ '']'')
     | ThinkingBlock t sg cc \<Rightarrow> None
     | ImageBlock s cc \<Rightarrow> Some ''[image]''
     | DocumentBlock d cc \<Rightarrow> Some ''[document]''
     | RedactedThinkingBlock d cc \<Rightarrow> Some ''[redacted_thinking]'')"

definition extractTextContent :: "Message \<Rightarrow> string" where
  "extractTextContent m = (case message_content m of
       Inl s \<Rightarrow> s
     | Inr bs \<Rightarrow> js_join [CHR 0x0A] (List.map_filter summary_block bs))"

definition upper_role :: "Message \<Rightarrow> string" where
  "upper_role m = map upper_ascii (role_name m)"

definition nl :: string where "nl = [CHR 0x0A]"

definition formatMessagesForSummary :: "Message list \<Rightarrow> string" where
  "formatMessagesForSummary messages =
     js_join (nl @ nl @ ''---'' @ nl @ nl)
       (map (\<lambda>m. ''['' @ upper_role m @ '']'' @ nl @ extractTextContent m) messages)"

text \<open>The loop over the chunks: text is appended, the last usage wins, an error is thrown.\<close>

fun stream_loop :: "string \<Rightarrow> nat \<Rightarrow> nat \<Rightarrow> ProviderChunk list \<Rightarrow> string + (string \<times> nat \<times> nat)" where
  "stream_loop text i o' [] = Inr (text, i, o')"
| "stream_loop text i o' (TextDelta t # cs) = stream_loop (text @ t) i o' cs"
| "stream_loop text i o' (MessageComplete ui uo # cs) = stream_loop text ui uo cs"
| "stream_loop text i o' (StreamError e # cs) = Inl e"
| "stream_loop text i o' (OtherChunk # cs) = stream_loop text i o' cs"

definition summarize_request :: "string \<Rightarrow> string option \<Rightarrow> Message list \<Rightarrow> ProviderRequest" where
  "summarize_request systemText summaryModel toSummarize =
     \<lparr>req_model = (case summaryModel of Some m \<Rightarrow> m | None \<Rightarrow> ''default''),
      req_system = systemText,
      req_messages = [UserMessage (Inl
        (''Summarize the following conversation. Preserve all technical details needed to continue the work without loss of context.'' @
         nl @ nl @ ''<conversation>'' @ nl @ formatMessagesForSummary toSummarize @ nl @
         ''</conversation>'' @ nl @ nl @ ''Provide your summary now.''))],
      req_maxTokens = 8192\<rparr>"

text \<open>The fixed system prompts of the summarising strategies are passed as texts.\<close>

definition summarize ::
  "string \<Rightarrow> ProviderAdapter \<Rightarrow> Message list \<Rightarrow> string \<Rightarrow> CompactionRetain \<Rightarrow> string option \<Rightarrow>
   string + CompactionResult" where
  "summarize systemText provider messages systemPrompt retain summaryModel =
     bind_err (countTokens provider messages systemPrompt) (\<lambda>pre.
       case summarize_split messages retain of (systemMessages, toSummarize, toRetain) \<Rightarrow>
       if toSummarize = []
       then Inr \<lparr>result_strategy = Summarize, result_messages = messages, preTokenCount = pre,
                 postTokenCount = pre, summaryUsage = None\<rparr>
       else bind_err (stream_loop [] 0 0 (stream provider (summarize_request systemText summaryModel toSummarize)))
         (\<lambda>(summaryText, inputTokens, outputTokens).
            if summaryText = [] then Inl ''Summarization produced empty output''
            else
       let summaryMessage = UserMessage (Inl
             (''[This is an automated summary of the conversation so far. Continue from where we left off.]'' @
              nl @ nl @ summaryText));
           compacted = systemMessages @ [summaryMessage] @ toRetain
       in bind_err (assertPairing compacted) (\<lambda>_.
          bind_err (countTokens provider compacted systemPrompt) (\<lambda>post.
          Inr \<lparr>result_strategy = Summarize, result_messages = compacted, preTokenCount = pre,
               postTokenCount = post, summaryUsage = Some (inputTokens, outputTokens)\<rparr>))))"

section \<open>Hierarchical\<close>

definition is_assistant :: "Message \<Rightarrow> bool" where
  "is_assistant m = (role m = Assistant)"

definition is_plain_user :: "Message \<Rightarrow> bool" where
  "is_plain_user m = (case m of UserMessage (Inl s) \<Rightarrow> True | _ \<Rightarrow> False)"

text \<open>\<open>groups\<close> are the closed groups, \<open>current\<close> the last one; at most ten groups are opened.\<close>

fun topic_loop :: "Message list list \<Rightarrow> Message list \<Rightarrow> Message list \<Rightarrow> Message list list" where
  "topic_loop groups current [] = groups @ [current]"
| "topic_loop groups current (msg # ms) =
     (let isTopicShift = (is_plain_user msg \<and> length current \<ge> 4 \<and> is_assistant (last current))
      in if isTopicShift \<and> length groups + 1 < 10 then topic_loop (groups @ [current]) [msg] ms
         else topic_loop groups (current @ [msg]) ms)"

definition groupByTopic :: "Message list \<Rightarrow> Message list list" where
  "groupByTopic messages = (if messages = [] then [] else filter (\<lambda>g. g \<noteq> []) (topic_loop [] [] messages))"

definition hier_block :: "ContentBlock \<Rightarrow> string option" where
  "hier_block b = (case b of
       TextBlock t cc \<Rightarrow> Some t
     | ToolUseBlock i n inp cc \<Rightarrow> Some (''[Tool: '' @ n @ '']'')
     | ToolResultBlock i c e md cc \<Rightarrow>
         Some (''[Result: '' @ (case c of Inl s \<Rightarrow> take 300 s | Inr bs \<Rightarrow> ''[result]'') @ '']'')
     | _ \<Rightarrow> None)"

definition hier_extractText :: "Content \<Rightarrow> string" where
  "hier_extractText c = (case c of Inl s \<Rightarrow> s | Inr bs \<Rightarrow> js_join nl (List.map_filter hier_block bs))"

definition formatGroupBrief :: "Message list \<Rightarrow> string" where
  "formatGroupBrief grp =
     js_join nl (map (\<lambda>m. let text = take 150 (hier_extractText (message_content m))
                          in role_name m @ '': '' @ text @ (if length text \<ge> 150 then ''...'' else [])) grp)"

definition summarizeGroup ::
  "string \<Rightarrow> ProviderAdapter \<Rightarrow> string \<Rightarrow> Message list \<Rightarrow> string + (string \<times> nat \<times> nat)" where
  "summarizeGroup topicSystem provider model grp =
     (let formatted = js_join (nl @ nl)
            (map (\<lambda>m. ''['' @ upper_role m @ '']'' @ nl @ hier_extractText (message_content m)) grp);
          request = \<lparr>req_model = model, req_system = topicSystem,
            req_messages = [UserMessage (Inl (''Summarize this conversation segment:'' @ nl @ nl @ formatted))],
            req_maxTokens = 4096\<rparr>
      in bind_err (stream_loop [] 0 0 (stream provider request)) (\<lambda>(summary, i, out).
           Inr (if summary = [] then ''[Empty summary]'' else summary, i, out)))"

text \<open>The loop over the topic groups, with the summaries and the usage so far.\<close>

fun topics_loop ::
  "string \<Rightarrow> ProviderAdapter \<Rightarrow> string \<Rightarrow> string list \<Rightarrow> nat \<Rightarrow> nat \<Rightarrow> Message list list \<Rightarrow>
   string + (string list \<times> nat \<times> nat)" where
  "topics_loop ts provider model acc ti to' [] = Inr (acc, ti, to')"
| "topics_loop ts provider model acc ti to' (g # gs) =
     (if length g < 4 then topics_loop ts provider model (acc @ [formatGroupBrief g]) ti to' gs
      else bind_err (summarizeGroup ts provider model g) (\<lambda>(summary, i, out).
             topics_loop ts provider model (acc @ [summary]) (ti + i) (to' + out) gs))"

fun session_loop :: "string \<Rightarrow> nat \<Rightarrow> nat \<Rightarrow> ProviderChunk list \<Rightarrow> string + (string \<times> nat \<times> nat)" where
  "session_loop text i o' [] = Inr (text, i, o')"
| "session_loop text i o' (TextDelta t # cs) = session_loop (text @ t) i o' cs"
| "session_loop text i o' (MessageComplete ui uo # cs) = session_loop text (i + ui) (o' + uo) cs"
| "session_loop text i o' (StreamError e # cs) = Inl e"
| "session_loop text i o' (OtherChunk # cs) = session_loop text i o' cs"

definition resolveRetainCount :: "nat \<Rightarrow> CompactionRetain \<Rightarrow> int" where
  "resolveRetainCount totalMessages retain = (case retain of
       RetainMessages count \<Rightarrow> count
     | RetainFraction amount \<Rightarrow> fraction_target totalMessages amount
     | RetainTokens count \<Rightarrow> max 1 (count div 500))"

definition hier_split :: "Message list \<Rightarrow> CompactionRetain \<Rightarrow> Message list \<times> Message list \<times> Message list" where
  "hier_split messages retain =
     (let conversation = dropWhile is_system messages;
          n = int (length conversation);
          splitPoint = nat (n - min (resolveRetainCount (length conversation) retain) n)
      in (takeWhile is_system messages, take splitPoint conversation, drop splitPoint conversation))"

definition topic_block :: "string list \<Rightarrow> string" where
  "topic_block summaries =
     js_join (nl @ nl) (map (\<lambda>(i, s). ''### Topic '' @ show_nat (i + 1) @ nl @ s) (enumerate 0 summaries))"

definition hierarchical ::
  "string \<Rightarrow> string \<Rightarrow> ProviderAdapter \<Rightarrow> Message list \<Rightarrow> string \<Rightarrow> CompactionRetain \<Rightarrow> string option \<Rightarrow>
   string + CompactionResult" where
  "hierarchical topicSystem sessionSystem provider messages systemPrompt retain summaryModel =
     bind_err (countTokens provider messages systemPrompt) (\<lambda>pre.
       let model = (case summaryModel of Some m \<Rightarrow> m | None \<Rightarrow> ''default'') in
       case hier_split messages retain of (systemMessages, toSummarize, toRetain) \<Rightarrow>
       if toSummarize = []
       then Inr \<lparr>result_strategy = Hierarchical, result_messages = messages, preTokenCount = pre,
                 postTokenCount = pre, summaryUsage = None\<rparr>
       else bind_err (topics_loop topicSystem provider model [] 0 0 (groupByTopic toSummarize))
         (\<lambda>(topicSummaries, ti, to').
       let topicBlock = topic_block topicSummaries;
           request = \<lparr>req_model = model, req_system = sessionSystem,
             req_messages = [UserMessage (Inl
               (''Here are '' @ show_nat (length topicSummaries) @
                '' topic summaries from a long conversation session. Produce a session-level overview.'' @
                nl @ nl @ topicBlock))],
             req_maxTokens = 4096\<rparr>
       in bind_err (session_loop [] ti to' (stream provider request)) (\<lambda>(sessionSummary, ti', to'').
       if sessionSummary = [] then Inl ''Hierarchical session summarization produced empty output''
       else
       let summaryText = js_join nl
             [''[Automated hierarchical summary of '' @ show_nat (length toSummarize) @ '' messages across '' @
                show_nat (length topicSummaries) @ '' topics]'', [], ''## Session Summary'', sessionSummary, [],
              ''## Topic Details'', topicBlock];
           compacted = systemMessages @ [UserMessage (Inl summaryText)] @ toRetain
       in bind_err (countTokens provider compacted systemPrompt) (\<lambda>post.
          Inr \<lparr>result_strategy = Hierarchical, result_messages = compacted, preTokenCount = pre,
               postTokenCount = post, summaryUsage = Some (ti', to'')\<rparr>))))"

section \<open>Snapshot\<close>

text \<open>Code units back to text: the dash and the ellipsis in ASCII of the same UTF-8 size.\<close>

definition latin_text :: "units \<Rightarrow> string" where
  "latin_text us = concat (map (\<lambda>u. if u = 0x2014 then ''---'' else if u = 0x2026 then ''...'' else [char_of u]) us)"

definition cap_text :: "string \<Rightarrow> int \<Rightarrow> units \<Rightarrow> string" where
  "cap_text s m marker = latin_text (capBytes (ascii s) m marker)"

definition replace_char :: "char \<Rightarrow> string \<Rightarrow> string \<Rightarrow> string" where
  "replace_char c rep s = concat (map (\<lambda>x. if x = c then rep else [x]) s)"

definition escapeXml :: "string \<Rightarrow> string" where
  "escapeXml s =
     replace_char (CHR 0x27) ''&apos;'' (replace_char (CHR 0x22) ''&quot;''
       (replace_char (CHR ''>'') ''&gt;'' (replace_char (CHR ''<'') ''&lt;'' (replace_char (CHR ''&'') ''&amp;'' s))))"

fun findLastUserText_rev :: "Message list \<Rightarrow> string option" where
  "findLastUserText_rev [] = None"
| "findLastUserText_rev (UserMessage c # ms) =
     Some (case c of Inl s \<Rightarrow> s | Inr bs \<Rightarrow> js_trim (js_join nl (text_blocks bs)))"
| "findLastUserText_rev (m # ms) = findLastUserText_rev ms"

definition findLastUserText :: "Message list \<Rightarrow> string option" where
  "findLastUserText messages = findLastUserText_rev (rev messages)"

text \<open>\<open>file_path ?? path ?? null\<close>; the cast to string is not checked by the code.\<close>

definition not_nullish :: "json option \<Rightarrow> json option" where
  "not_nullish v = (case v of Some JNull \<Rightarrow> None | _ \<Rightarrow> v)"

definition pathFromToolInput :: "obj \<Rightarrow> json option" where
  "pathFromToolInput i = (case not_nullish (map_of i ''file_path'') of
       Some p \<Rightarrow> Some p | None \<Rightarrow> not_nullish (map_of i ''path''))"

definition js_falsy :: "json \<Rightarrow> bool" where
  "js_falsy v = (v = JNull \<or> v = JBool False \<or> v = JNum ''0'' \<or> v = JStr [])"

text \<open>Arrays and objects are keys by identity and so never seen before.\<close>

definition seen_path :: "(json \<times> string) list \<Rightarrow> json \<Rightarrow> bool" where
  "seen_path seen p = (case p of JArr xs \<Rightarrow> False | JObj xs \<Rightarrow> False | _ \<Rightarrow> p \<in> set (map fst seen))"

fun files_loop :: "(json \<times> string) list \<Rightarrow> ContentBlock list \<Rightarrow> (json \<times> string) list" where
  "files_loop seen [] = seen"
| "files_loop seen (b # bs) =
     (if length seen \<ge> 10 then seen
      else files_loop (case b of
          ToolUseBlock i n inp cc \<Rightarrow>
            (if n \<in> {''readFile'', ''writeFile'', ''editFile''}
             then (case pathFromToolInput inp of
                     Some p \<Rightarrow> if js_falsy p \<or> seen_path seen p then seen
                       else seen @ [(p, if n = ''readFile'' then ''read''
                                        else if n = ''writeFile'' then ''write'' else ''edit'')]
                   | None \<Rightarrow> seen)
             else seen)
        | _ \<Rightarrow> seen) bs)"

definition assistant_blocks :: "Message \<Rightarrow> ContentBlock list" where
  "assistant_blocks m = (case m of AssistantMessage bs \<Rightarrow> bs | _ \<Rightarrow> [])"

definition extractFilesTouched :: "Message list \<Rightarrow> (json \<times> string) list" where
  "extractFilesTouched messages = files_loop [] (concat (map assistant_blocks (rev messages)))"

fun call_log :: "ContentBlock \<Rightarrow> (string \<times> string) option" where
  "call_log (ToolUseBlock i n inp cc) = Some (n, cap_text (json_stringify (JObj inp)) 120 [0x2026])"
| "call_log b = None"

definition extractRecentToolCalls :: "Message list \<Rightarrow> (string \<times> string) list" where
  "extractRecentToolCalls messages =
     rev (take 5 (List.map_filter call_log (concat (map (\<lambda>m. rev (assistant_blocks m)) (rev messages)))))"

fun error_text :: "ContentBlock \<Rightarrow> string option" where
  "error_text (ToolResultBlock i c e md cc) =
     (if e then Some (case c of Inl s \<Rightarrow> s | Inr bs \<Rightarrow> js_join nl (text_blocks bs)) else None)"
| "error_text b = None"

definition user_blocks :: "Message \<Rightarrow> ContentBlock list" where
  "user_blocks m = (case m of UserMessage (Inr bs) \<Rightarrow> bs | _ \<Rightarrow> [])"

definition findLastError :: "Message list \<Rightarrow> string option" where
  "findLastError messages =
     first_map error_text (concat (map (\<lambda>m. rev (user_blocks m)) (rev messages)))"

definition assistantMessageText :: "ContentBlock list \<Rightarrow> string" where
  "assistantMessageText bs = js_trim (js_join nl (text_blocks bs))"

definition findLastAssistantText :: "Message list \<Rightarrow> string option" where
  "findLastAssistantText messages =
     first_map (\<lambda>m. case m of
         AssistantMessage bs \<Rightarrow> (let t = assistantMessageText bs in if t \<noteq> [] then Some t else None)
       | _ \<Rightarrow> None) (rev messages)"

text \<open>One line per touched file; \<open>escapeXml\<close> on a path that is not a string throws.\<close>

fun file_lines :: "(json \<times> string) list \<Rightarrow> string + string list" where
  "file_lines [] = Inr []"
| "file_lines ((p, action) # fs) = (case p of
     JStr path \<Rightarrow> bind_err (file_lines fs) (\<lambda>ls.
       Inr ((''    <file action='' @ [CHR 0x22] @ action @ [CHR 0x22] @ ''>'' @ escapeXml path @ ''</file>'') # ls))
   | _ \<Rightarrow> Inl ''s.replace is not a function'')"

definition xml_attr :: "string \<Rightarrow> string \<Rightarrow> string" where
  "xml_attr name v = '' '' @ name @ ''='' @ [CHR 0x22] @ v @ [CHR 0x22]"

definition buildSnapshot :: "Message list \<Rightarrow> Message list \<Rightarrow> string + string" where
  "buildSnapshot dropped allConversation =
     (let files = extractFilesTouched dropped; calls = extractRecentToolCalls dropped in
      bind_err (file_lines files) (\<lambda>fileLines.
      let userPart = (case findLastUserText dropped of
            Some t \<Rightarrow> if t = [] then [] else [''  <last-user-request>'' @ escapeXml (cap_text t 400 [0x2026]) @
                                               ''</last-user-request>'']
          | None \<Rightarrow> []);
          filePart = (if files = [] then [] else [''  <files-touched>''] @ fileLines @ [''  </files-touched>'']);
          callPart = (if calls = [] then []
            else [''  <recent-tool-calls>''] @
                 map (\<lambda>(n, a). ''    <call'' @ xml_attr ''tool'' (escapeXml n) @ ''>'' @ escapeXml a @ ''</call>'') calls @
                 [''  </recent-tool-calls>'']);
          errorPart = (case findLastError dropped of
            Some e \<Rightarrow> if e = [] then []
              else [''  <last-error>'', escapeXml (latin_text (headTailTruncate (ascii e) 300 None None)), ''  </last-error>'']
          | None \<Rightarrow> []);
          assistantPart = (case findLastAssistantText dropped of
            Some t \<Rightarrow> [''  <last-assistant-snippet>'' @ escapeXml (cap_text t 240 [0x2026]) @
                       ''</last-assistant-snippet>'']
          | None \<Rightarrow> []);
          sections = [''<compaction-snapshot>''] @ userPart @ filePart @ callPart @ errorPart @ assistantPart @
            [''  <meta'' @ xml_attr ''dropped-messages'' (show_nat (length dropped)) @
             xml_attr ''total-conversation'' (show_nat (length allConversation)) @ ''/>'',
             ''</compaction-snapshot>'']
      in Inr (cap_text (js_join nl sections) 1500
                (ascii (nl @ ''  <truncated/>'' @ nl @ ''</compaction-snapshot>'')))))"

text \<open>\<open>xs.slice(i)\<close> with a possibly negative index.\<close>

definition js_slice_from :: "int \<Rightarrow> 'a list \<Rightarrow> 'a list" where
  "js_slice_from i xs = (if i < 0 then drop (nat (int (length xs) + i)) xs else drop (nat i) xs)"

definition content_text :: "Message \<Rightarrow> string" where
  "content_text m = (case message_content m of
     Inl s \<Rightarrow> s | Inr bs \<Rightarrow> json_stringify (JArr (map block_json bs)))"

definition selectRetainedTail :: "Message list \<Rightarrow> CompactionRetain \<Rightarrow> Message list" where
  "selectRetainedTail conversation retain = (case retain of
       RetainMessages count \<Rightarrow> js_slice_from (- count) conversation
     | RetainFraction amount \<Rightarrow> js_slice_from (- fraction_target (length conversation) amount) conversation
     | RetainTokens count \<Rightarrow>
         fits_walk (\<lambda>m. ceil_div (length (content_text m)) 4) count 0 [] (rev conversation))"

definition snapshot ::
  "ProviderAdapter \<Rightarrow> Message list \<Rightarrow> string \<Rightarrow> CompactionRetain \<Rightarrow> string + CompactionResult" where
  "snapshot provider messages systemPrompt retain =
     bind_err (countTokens provider messages systemPrompt) (\<lambda>pre.
       let systemMessages = takeWhile is_system messages;
           conversation = dropWhile is_system messages;
           retained = selectRetainedTail conversation retain;
           dropped = take (length conversation - length retained) conversation
       in if dropped = []
          then Inr \<lparr>result_strategy = Snapshot, result_messages = messages, preTokenCount = pre,
                    postTokenCount = pre, summaryUsage = None\<rparr>
          else bind_err (buildSnapshot dropped conversation) (\<lambda>xml.
               let newMessages = systemMessages @ [SystemMessage xml False] @ retained
               in bind_err (countTokens provider newMessages systemPrompt) (\<lambda>post.
                  Inr \<lparr>result_strategy = Snapshot, result_messages = newMessages, preTokenCount = pre,
                       postTokenCount = post, summaryUsage = None\<rparr>)))"

section \<open>What truncate and summarize keep\<close>

lemma rev_take_last:
  assumes "xs \<noteq> []" and "n < length xs"
  shows "rev (take n (tl (rev xs))) @ [last xs] = drop (length xs - Suc n) xs"
proof -
  have "rev xs = last xs # tl (rev xs)"
    using assms(1) by (metis hd_Cons_tl hd_rev rev_is_Nil_conv)
  then have "take (Suc n) (rev xs) = last xs # take n (tl (rev xs))" by (metis take_Suc_Cons)
  then have "rev (take n (tl (rev xs))) @ [last xs] = rev (take (Suc n) (rev xs))" by simp
  also have "\<dots> = drop (length xs - Suc n) xs" by (simp add: rev_take)
  finally show ?thesis .
qed

text \<open>The backward walk over the rounds keeps the last rounds: at least one, as many as fit.\<close>

definition fits_from :: "('a \<Rightarrow> nat) \<Rightarrow> int \<Rightarrow> 'a list \<Rightarrow> nat \<Rightarrow> bool" where
  "fits_from c b xs k \<longleftrightarrow>
     (Suc k < length xs \<longrightarrow> int (total_cost c (drop k xs)) \<le> b) \<and>
     (0 < k \<longrightarrow> b < int (total_cost c (drop (k - 1) xs)))"

lemma fits_walk_rounds:
  assumes "xs \<noteq> []"
  obtains k where "k < length xs" "fits_walk c b (c (last xs)) [last xs] (tl (rev xs)) = drop k xs"
    "fits_from c b xs k"
proof -
  let ?older = "tl (rev xs)"
  obtain n where n: "fits_walk c b (c (last xs)) [last xs] ?older = rev (take n ?older) @ [last xs]"
    "n \<le> length ?older" "0 < n \<longrightarrow> int (c (last xs) + total_cost c (take n ?older)) \<le> b"
    "n < length ?older \<longrightarrow> b < int (c (last xs) + total_cost c (take (Suc n) ?older))"
    using fits_walk_suffix [of c b "c (last xs)" "[last xs]" ?older] by blast
  have cost: "total_cost c (drop (length xs - Suc j) xs) = c (last xs) + total_cost c (take j ?older)"
    if "j < length xs" for j
    using rev_take_last [OF assms that] by (simp flip: rev_take_last [OF assms that])
  have nl: "n < length xs" using n(2) assms by (cases xs) auto
  show ?thesis
  proof (rule that [of "length xs - Suc n"])
    show "length xs - Suc n < length xs" using assms by simp
    show "fits_walk c b (c (last xs)) [last xs] ?older = drop (length xs - Suc n) xs"
      using n(1) rev_take_last [OF assms nl] by simp
    have "int (total_cost c (drop (length xs - Suc n) xs)) \<le> b" if "0 < n"
      using n(3) that cost [OF nl] by simp
    moreover have "b < int (total_cost c (drop (length xs - Suc n - 1) xs))" if "Suc n < length xs"
      using n(4) that cost [OF that] assms by simp
    ultimately show "fits_from c b xs (length xs - Suc n)"
      using nl by (auto simp: fits_from_def)
  qed
qed

lemma fraction_walk_eq:
  "fraction_walk t kept older = rev (take (nat (t - int (length kept))) older) @ kept"
proof (induction older arbitrary: kept)
  case (Cons g older)
  show ?case
  proof (cases "int (length kept) < t")
    case True
    then have "nat (t - int (length kept)) = Suc (nat (t - int (length (g # kept))))" by simp
    then show ?thesis using True Cons.IH [of "g # kept"] by simp
  qed simp
qed simp

text \<open>Rounds as lists of messages, and the cost of a round in each retention mode.\<close>

definition conv_rounds :: "Message list \<Rightarrow> Message list list" where
  "conv_rounds ms = split_rounds (dropWhile is_system ms)"

definition retains :: "CompactionRetain \<Rightarrow> Message list list \<Rightarrow> nat \<Rightarrow> bool" where
  "retains retain rounds k = (case retain of
       RetainMessages c \<Rightarrow> fits_from length c rounds k
     | RetainTokens c \<Rightarrow> fits_from estimateMessageTokens c rounds k
     | RetainFraction a \<Rightarrow> int (length rounds - k) = min (int (length rounds)) (fraction_target (length rounds) a))"

lemma fits_from_map: "fits_from c b (map f xs) k \<longleftrightarrow> fits_from (c \<circ> f) b xs k"
  by (simp add: fits_from_def total_cost_def drop_map)

lemma mk_round_messages [simp]: "group_messages (mk_round r) = r"
  by (simp add: mk_round_def)

lemma selectRetained_rounds:
  obtains k where "selectRetainedByRound ms retain = takeWhile is_system ms @ concat (drop k (conv_rounds ms))"
    "conv_rounds ms \<noteq> [] \<longrightarrow> k < length (conv_rounds ms) \<and> retains retain (conv_rounds ms) k"
proof (cases "conv_rounds ms = []")
  case True
  then show ?thesis using that [of 0] by (simp add: selectRetainedByRound_def conv_rounds_def Let_def)
next
  case False
  let ?R = "map mk_round (conv_rounds ms)"
  have ne: "?R \<noteq> []" using False by simp
  have sel: "selectRetainedByRound ms retain = takeWhile is_system ms @ flat (case retain of
              RetainMessages count \<Rightarrow>
                fits_walk (length \<circ> group_messages) count ((length \<circ> group_messages) (last ?R)) [last ?R] (tl (rev ?R))
            | RetainFraction amount \<Rightarrow> fraction_walk (fraction_target (length ?R) amount) [last ?R] (tl (rev ?R))
            | RetainTokens count \<Rightarrow>
                fits_walk (estimateMessageTokens \<circ> group_messages) count
                  ((estimateMessageTokens \<circ> group_messages) (last ?R)) [last ?R] (tl (rev ?R)))"
    using ne by (simp add: selectRetainedByRound_def Let_def conv_rounds_def [symmetric]
        countMessagesInGroups_def o_def split: CompactionRetain.split)
  show ?thesis
  proof (cases retain)
    case (RetainFraction a)
    define t where "t = fraction_target (length ?R) a"
    define n where "n = min (nat (t - 1)) (length ?R - 1)"
    have t: "1 \<le> t" by (simp add: t_def fraction_target_def)
    have "take (nat (t - 1)) (tl (rev ?R)) = take n (tl (rev ?R))" by (simp add: n_def min_def)
    moreover have "0 < length ?R" using ne by simp
    then have nl: "n < length ?R" unfolding n_def by linarith
    ultimately have "fraction_walk t [last ?R] (tl (rev ?R)) = drop (length ?R - Suc n) ?R"
      using rev_take_last [OF ne nl] by (simp add: fraction_walk_eq)
    moreover have "int (length ?R - (length ?R - Suc n)) = min (int (length ?R)) t"
      using ne t by (auto simp: n_def min_def split: if_splits)
    ultimately show ?thesis
      using that [of "length ?R - Suc n"] sel RetainFraction False
      by (simp add: retains_def t_def drop_map)
  next
    case (RetainMessages c)
    show ?thesis
      by (rule fits_walk_rounds [OF ne, of "length \<circ> group_messages" c])
         (use that sel RetainMessages in \<open>auto simp: retains_def fits_from_map o_def drop_map\<close>)
  next
    case (RetainTokens c)
    show ?thesis
      by (rule fits_walk_rounds [OF ne, of "estimateMessageTokens \<circ> group_messages" c])
         (use that sel RetainTokens in \<open>auto simp: retains_def fits_from_map o_def drop_map\<close>)
  qed
qed

text \<open>The summary split falls between rounds, and its tail is the truncated history.\<close>

lemma summarize_split_rounds:
  obtains k where "summarize_split ms retain =
      (takeWhile is_system ms, concat (take k (conv_rounds ms)), concat (drop k (conv_rounds ms)))"
    "conv_rounds ms \<noteq> [] \<longrightarrow> k < length (conv_rounds ms)"
proof (cases "conv_rounds ms = []")
  case True
  then show ?thesis
    using that [of 0] by (simp add: summarize_split_def conv_rounds_def [symmetric] Let_def)
next
  case False
  let ?R = "map mk_round (conv_rounds ms)"
  have ne: "?R \<noteq> []" using False by simp
  have pos: "0 < resolveRetainRoundCount ?R retain"
  proof (cases retain)
    case (RetainFraction a)
    then show ?thesis using ne by (auto simp: resolveRetainRoundCount_def)
  next
    case (RetainMessages c)
    then show ?thesis
      using ne fits_walk_rounds [OF ne, of "length \<circ> group_messages" c]
      by (fastforce simp: resolveRetainRoundCount_def o_def)
  next
    case (RetainTokens c)
    then show ?thesis
      using ne fits_walk_rounds [OF ne, of "length \<circ> group_messages" "max 1 (c div 500)"]
      by (fastforce simp: resolveRetainRoundCount_def o_def Let_def)
  qed
  let ?k = "length ?R - resolveRetainRoundCount ?R retain"
  have "summarize_split ms retain =
      (takeWhile is_system ms, concat (take ?k (conv_rounds ms)), concat (drop ?k (conv_rounds ms)))"
    using False by (simp add: summarize_split_def conv_rounds_def [symmetric] Let_def take_map drop_map)
  with that [of ?k] False pos show ?thesis by simp
qed

lemma set_drop_rounds: "set (drop k (conv_rounds ms)) \<subseteq> set (split_rounds (dropWhile is_system ms))"
  by (metis conv_rounds_def set_drop_subset)

lemma summarized_paired:
  assumes "api_order {} ms"
  shows "paired {} (takeWhile is_system ms @ [UserMessage (Inl t)] @ concat (drop k (conv_rounds ms)))"
proof -
  have "paired {} (concat (drop k (conv_rounds ms)))"
    using rounds_selection_paired [OF assms set_drop_rounds] paired_system [OF takeWhile_system] by blast
  then show ?thesis using paired_system [OF takeWhile_system] by simp
qed

section \<open>Strategies that keep the pairing\<close>

text \<open>
  The interface the manager relies on: on a history in provider order a strategy returns a
  history that \<open>assertPairing\<close> accepts.
\<close>

locale pairing_safe =
  fixes run :: "Message list \<Rightarrow> string + CompactionResult"
  assumes run_paired: "api_order {} ms \<Longrightarrow> run ms = Inr r \<Longrightarrow> paired {} (result_messages r)"
begin

lemma accepted: "api_order {} ms \<Longrightarrow> run ms = Inr r \<Longrightarrow> assertPairing (result_messages r) = Inr ()"
  using run_paired assertPairing_iff by blast

lemma no_orphans: "api_order {} ms \<Longrightarrow> run ms = Inr r \<Longrightarrow> findOrphanToolResults (result_messages r) = []"
  using run_paired no_orphans_iff_paired by blast

end

lemma api_order_paired: "api_order {} ms \<Longrightarrow> paired {} ms"
proof -
  assume "api_order {} ms"
  from rounds_selection_paired [OF this, of "split_rounds (dropWhile is_system ms)" "{}"]
  show ?thesis by simp
qed

interpretation trunc: pairing_safe "\<lambda>ms. truncate_strategy p ms sp retain" for p sp retain
proof
  fix ms r
  assume "truncate_strategy p ms sp retain = Inr r"
  then have "paired {} (selectRetainedByRound ms retain)" "result_messages r = selectRetainedByRound ms retain"
    by (auto simp: truncate_strategy_def bind_err_Inr_iff Let_def assertPairing_iff)
  then show "paired {} (result_messages r)" by simp
qed

interpretation summ: pairing_safe "\<lambda>ms. summarize st p ms sp retain model" for st p sp retain model
proof
  fix ms r
  assume api: "api_order {} ms" and run: "summarize st p ms sp retain model = Inr r"
  obtain sys ts tr where sp: "summarize_split ms retain = (sys, ts, tr)" by (cases "summarize_split ms retain")
  from run have "result_messages r = ms \<or> paired {} (result_messages r)"
    by (auto simp: summarize_def bind_err_Inr_iff sp Let_def assertPairing_iff split: if_splits)
  then show "paired {} (result_messages r)" using api_order_paired [OF api] by auto
qed

text \<open>C31: truncation cannot fail for a pairing reason and keeps what it says. On a history in provider
  order, with a provider that counts tokens, \<open>truncate\<close> returns: the system messages, and the last rounds from some
  round \<open>k\<close> on, whole rounds only, at least one. With a budget of messages or tokens, more than one
  round is kept only if they fit the budget, and one more round would exceed it; with a fraction the number of rounds is the
  rounded-up share. The result has no orphan.\<close>

theorem truncate_contract:
  assumes "api_order {} ms" and "\<And>h. \<exists>n. countTokens p h sp = Inr n"
  shows "\<exists>r k. truncate_strategy p ms sp retain = Inr r \<and>
           result_messages r = takeWhile is_system ms @ concat (drop k (conv_rounds ms)) \<and>
           (conv_rounds ms \<noteq> [] \<longrightarrow> k < length (conv_rounds ms) \<and> retains retain (conv_rounds ms) k) \<and>
           findOrphanToolResults (result_messages r) = []"
proof -
  obtain k where k: "selectRetainedByRound ms retain = takeWhile is_system ms @ concat (drop k (conv_rounds ms))"
    "conv_rounds ms \<noteq> [] \<longrightarrow> k < length (conv_rounds ms) \<and> retains retain (conv_rounds ms) k"
    by (rule selectRetained_rounds)
  have pr: "paired {} (selectRetainedByRound ms retain)"
    unfolding k(1) by (rule rounds_selection_paired [OF assms(1) set_drop_rounds])
  obtain pre post where n: "countTokens p ms sp = Inr pre"
    "countTokens p (selectRetainedByRound ms retain) sp = Inr post" using assms(2) by blast
  have ap: "assertPairing (selectRetainedByRound ms retain) = Inr ()" using pr assertPairing_iff by blast
  then have "truncate_strategy p ms sp retain =
      Inr \<lparr>result_strategy = Truncate, result_messages = selectRetainedByRound ms retain,
           preTokenCount = pre, postTokenCount = post, summaryUsage = None\<rparr>" (is "_ = Inr ?r")
    by (simp add: truncate_strategy_def n)
  moreover have "findOrphanToolResults (result_messages ?r) = []"
    using pr no_orphans_iff_paired by simp
  ultimately show ?thesis using k by (intro exI [of _ ?r] exI [of _ k]) simp
qed

definition sample_provider :: ProviderAdapter where
  "sample_provider = \<lparr>provider_name = ''p'', egressMediation = Some Fetch,
     stream = (\<lambda>_. [TextDelta ''summary'', MessageComplete 5 1]), countTokens = (\<lambda>h sp. Inr (int (length h)))\<rparr>"

theorem truncate_contract_witness:
  "\<exists>r k. truncate_strategy sample_provider (map snd sample_history) [] (RetainMessages 2) = Inr r \<and>
     result_messages r = takeWhile is_system (map snd sample_history) @
       concat (drop k (conv_rounds (map snd sample_history))) \<and>
     (conv_rounds (map snd sample_history) \<noteq> [] \<longrightarrow> k < length (conv_rounds (map snd sample_history)) \<and>
        retains (RetainMessages 2) (conv_rounds (map snd sample_history)) k) \<and>
     findOrphanToolResults (result_messages r) = []"
proof (rule truncate_contract)
  show "api_order {} (map snd sample_history)"
    by (simp add: sample_history_def block_uses_def block_results_def List.map_filter_def isRealUserMessage_def)
  show "\<exists>n. countTokens sample_provider h [] = Inr n" for h by (simp add: sample_provider_def)
qed

section \<open>Strategies that do not\<close>

lemma sample_history_simps:
  "map snd sample_history =
     [UserMessage (Inl ''fix it''),
      AssistantMessage [ToolUseBlock ''t1'' ''read'' [] None],
      UserMessage (Inr [ToolResultBlock ''t1'' (Inl ''body'') False None None]),
      AssistantMessage [TextBlock ''done'' None]]"
  by (simp add: sample_history_def)

lemma sample_snapshot:
  "\<exists>x. buildSnapshot [UserMessage (Inl ''fix it''), AssistantMessage [ToolUseBlock ''t1'' ''read'' [] None]] conv = Inr x"
  by (simp add: buildSnapshot_def extractFilesTouched_def assistant_blocks_def Let_def)

text \<open>C40: three strategies cut between a call and its answer. On a history in provider order,
  the results of the sliding window, of the hierarchical summary and of the snapshot keep the tool result of
  \<open>sample_history\<close> and drop its call, so the guard in front of the provider rejects them.\<close>

theorem message_cuts_orphan:
  "api_order {} (map snd sample_history) \<and>
   map_sum id (findOrphanToolResults \<circ> result_messages)
     (slidingWindow sample_provider (map snd sample_history) [] (RetainMessages 2) None) = Inr [''t1''] \<and>
   map_sum id (findOrphanToolResults \<circ> result_messages)
     (hierarchical [] [] sample_provider (map snd sample_history) [] (RetainMessages 2) None) = Inr [''t1''] \<and>
   map_sum id (findOrphanToolResults \<circ> result_messages)
     (snapshot sample_provider (map snd sample_history) [] (RetainMessages 2)) = Inr [''t1'']"
proof (intro conjI)
  show "api_order {} (map snd sample_history)"
    by (simp add: sample_history_def block_uses_def block_results_def List.map_filter_def isRealUserMessage_def)
  show "map_sum id (findOrphanToolResults \<circ> result_messages)
     (slidingWindow sample_provider (map snd sample_history) [] (RetainMessages 2) None) = Inr [''t1'']"
    by code_simp
  show "map_sum id (findOrphanToolResults \<circ> result_messages)
     (hierarchical [] [] sample_provider (map snd sample_history) [] (RetainMessages 2) None) = Inr [''t1'']"
    by code_simp
  show "map_sum id (findOrphanToolResults \<circ> result_messages)
     (snapshot sample_provider (map snd sample_history) [] (RetainMessages 2)) = Inr [''t1'']"
    using sample_snapshot [of "map snd sample_history"]
    by (auto simp: snapshot_def sample_provider_def Let_def sample_history_simps
        selectRetainedTail_def js_slice_from_def is_system_def findOrphanToolResults_def block_results_def
        block_uses_def List.map_filter_def)
qed

end
