(* ===== verification/CompactionManager.thy ===== *)
theory CompactionManager
  imports CompactionStrategies
begin

text \<open>
  The compaction manager (compaction/manager.ts): trigger check, strategy dispatch with the egress
  guard, fallback to truncation, and the circuit breaker. Its only state is the number of consecutive
  failures. Whether the safety timer wins the race against the strategy is an input of each
  call, as is the answer of the host's egress control.
\<close>

datatype CompactionTrigger =
  TriggerTokens int | TriggerFraction rat | TriggerMessages int | TriggerDisabled

record CompactionConfig =
  trigger :: CompactionTrigger
  retain :: CompactionRetain
  strategy :: CompactionStrategy
  summaryModel :: "string option"
  safetyTimeoutMs :: "nat option"

text \<open>\<open>routeUnavailable\<close> of the host: it throws (with a message) or lets the call pass.\<close>

type_synonym EgressControl = "bool \<Rightarrow> string + unit"

text \<open>The fixed prompts of the summarising strategies.\<close>

record Prompts =
  summary_prompt :: string
  topic_prompt :: string
  session_prompt :: string

definition MAX_CONSECUTIVE_FAILURES :: nat where "MAX_CONSECUTIVE_FAILURES = 3"

definition MIN_MESSAGES_FOR_COMPACTION :: nat where "MIN_MESSAGES_FOR_COMPACTION = 4"

definition COMPACTION_SAFETY_TIMEOUT_MS :: nat where "COMPACTION_SAFETY_TIMEOUT_MS = 30000"

definition strategy_name :: "CompactionStrategy \<Rightarrow> string" where
  "strategy_name s = (case s of Summarize \<Rightarrow> ''summarize'' | Truncate \<Rightarrow> ''truncate''
     | SlidingWindow \<Rightarrow> ''sliding_window'' | Hierarchical \<Rightarrow> ''hierarchical'' | Snapshot \<Rightarrow> ''snapshot'')"

definition countConversationMessages :: "Message list \<Rightarrow> nat" where
  "countConversationMessages messages = length (filter (\<lambda>m. role m \<noteq> System) messages)"

definition checkTrigger ::
  "Message list \<Rightarrow> string \<Rightarrow> CompactionTrigger \<Rightarrow> ProviderAdapter \<Rightarrow> int \<Rightarrow> int option \<Rightarrow> string + bool" where
  "checkTrigger messages systemPrompt trig provider contextWindowTokens currentTokens =
     (let tokenCount = (case currentTokens of Some n \<Rightarrow> Inr n | None \<Rightarrow> countTokens provider messages systemPrompt)
      in case trig of
           TriggerDisabled \<Rightarrow> Inr False
         | TriggerMessages threshold \<Rightarrow> Inr (int (countConversationMessages messages) \<ge> threshold)
         | TriggerTokens threshold \<Rightarrow> bind_err tokenCount (\<lambda>n. Inr (n \<ge> threshold))
         | TriggerFraction threshold \<Rightarrow>
             bind_err tokenCount (\<lambda>n. Inr (of_int n \<ge> of_int contextWindowTokens * threshold)))"

definition egress_check :: "ProviderAdapter \<Rightarrow> EgressControl option \<Rightarrow> string + unit" where
  "egress_check provider egressControl = (case egressControl of
       None \<Rightarrow> Inr ()
     | Some ctl \<Rightarrow>
         if egressMediation provider \<noteq> Some Fetch \<and> egressMediation provider \<noteq> Some Delegated
         then ctl (egressMediation provider = Some Uncontained)
         else Inr ())"

definition runStrategy ::
  "Prompts \<Rightarrow> CompactionStrategy \<Rightarrow> Message list \<Rightarrow> string \<Rightarrow> CompactionRetain \<Rightarrow> ProviderAdapter \<Rightarrow>
   string option \<Rightarrow> EgressControl option \<Rightarrow> string + CompactionResult" where
  "runStrategy pr strat messages systemPrompt ret provider model egressControl =
     bind_err (egress_check provider egressControl) (\<lambda>_.
       case strat of
         Summarize \<Rightarrow> summarize (summary_prompt pr) provider messages systemPrompt ret model
       | Truncate \<Rightarrow> truncate_strategy provider messages systemPrompt ret
       | SlidingWindow \<Rightarrow> slidingWindow provider messages systemPrompt ret None
       | Hierarchical \<Rightarrow> hierarchical (topic_prompt pr) (session_prompt pr) provider messages systemPrompt ret model
       | Snapshot \<Rightarrow> snapshot provider messages systemPrompt ret)"

text \<open>\<open>Math.round(ms / 1000)\<close> for the message of the safety timer.\<close>

definition withSafetyTimeout :: "bool \<Rightarrow> string + 'a \<Rightarrow> nat \<Rightarrow> CompactionStrategy \<Rightarrow> string + 'a" where
  "withSafetyTimeout timedOut outcome timeoutMs strat =
     (if timedOut
      then Inl (''Compaction strategy '' @ [CHR 0x22] @ strategy_name strat @ [CHR 0x22] @
                '' timed out after '' @ show_nat ((timeoutMs + 500) div 1000) @ ''s'')
      else outcome)"

text \<open>Result, or an error thrown; and the new failure count.\<close>

type_synonym call_result = "(string + CompactionResult option) \<times> nat"

definition executeCompaction ::
  "Prompts \<Rightarrow> CompactionConfig \<Rightarrow> ProviderAdapter \<Rightarrow> bool \<Rightarrow> Message list \<Rightarrow> string \<Rightarrow> EgressControl option \<Rightarrow>
   nat \<Rightarrow> call_result" where
  "executeCompaction pr config provider timedOut messages systemPrompt egressControl failures =
     (let timeoutMs = (case safetyTimeoutMs config of Some t \<Rightarrow> t | None \<Rightarrow> COMPACTION_SAFETY_TIMEOUT_MS)
      in case withSafetyTimeout timedOut
             (runStrategy pr (strategy config) messages systemPrompt (retain config) provider
                (CompactionConfig.summaryModel config) egressControl) timeoutMs (strategy config) of
           Inr result \<Rightarrow> (Inr (Some result), 0)
         | Inl err \<Rightarrow>
             (if strategy config \<noteq> Truncate
              then (case runStrategy pr Truncate messages systemPrompt (retain config) provider None egressControl of
                      Inr fallbackResult \<Rightarrow> (Inr (Some fallbackResult), failures + 1)
                    | Inl fallbackError \<Rightarrow>
                        (Inl (''Compaction failed (primary: '' @ strategy_name (strategy config) @
                              '', fallback: truncate): '' @ err), failures + 1))
              else (Inl (''Compaction failed ('' @ strategy_name (strategy config) @ ''): '' @ err), failures + 1)))"

definition compactIfNeeded ::
  "Prompts \<Rightarrow> CompactionConfig \<Rightarrow> ProviderAdapter \<Rightarrow> int \<Rightarrow> bool \<Rightarrow> Message list \<Rightarrow> string \<Rightarrow> int option \<Rightarrow>
   EgressControl option \<Rightarrow> nat \<Rightarrow> call_result" where
  "compactIfNeeded pr config provider contextWindowTokens timedOut messages systemPrompt currentTokens
     egressControl failures =
     (if trigger config = TriggerDisabled then (Inr None, failures)
      else if failures \<ge> MAX_CONSECUTIVE_FAILURES then (Inr None, failures)
      else if countConversationMessages messages < MIN_MESSAGES_FOR_COMPACTION then (Inr None, failures)
      else case checkTrigger messages systemPrompt (trigger config) provider contextWindowTokens currentTokens of
             Inl err \<Rightarrow> (Inl err, failures)
           | Inr shouldCompact \<Rightarrow>
               if \<not> shouldCompact then (Inr None, failures)
               else executeCompaction pr config provider timedOut messages systemPrompt egressControl failures)"

definition forceCompact ::
  "Prompts \<Rightarrow> CompactionConfig \<Rightarrow> ProviderAdapter \<Rightarrow> bool \<Rightarrow> Message list \<Rightarrow> string \<Rightarrow> EgressControl option \<Rightarrow>
   nat \<Rightarrow> call_result" where
  "forceCompact pr config provider timedOut messages systemPrompt egressControl failures =
     (if failures \<ge> MAX_CONSECUTIVE_FAILURES then (Inr None, failures)
      else if countConversationMessages messages < 2 then (Inr None, failures)
      else executeCompaction pr config provider timedOut messages systemPrompt egressControl failures)"

section \<open>The circuit breaker\<close>

text \<open>One call of the manager, with everything the outside decides.\<close>

datatype manager_call =
    IfNeeded ProviderAdapter bool "Message list" string "int option" "EgressControl option"
  | Force ProviderAdapter bool "Message list" string "EgressControl option"

fun manager_do :: "Prompts \<Rightarrow> CompactionConfig \<Rightarrow> int \<Rightarrow> manager_call \<Rightarrow> nat \<Rightarrow> call_result" where
  "manager_do pr config w (IfNeeded p to' ms sp ct eg) n = compactIfNeeded pr config p w to' ms sp ct eg n"
| "manager_do pr config w (Force p to' ms sp eg) n = forceCompact pr config p to' ms sp eg n"

fun manager_run :: "Prompts \<Rightarrow> CompactionConfig \<Rightarrow> int \<Rightarrow> manager_call list \<Rightarrow> nat \<Rightarrow> (string + CompactionResult option) list \<times> nat" where
  "manager_run pr config w [] n = ([], n)"
| "manager_run pr config w (c # cs) n =
     (case manager_do pr config w c n of
        (r, n') \<Rightarrow> (case manager_run pr config w cs n' of (rs, n'') \<Rightarrow> (r # rs, n'')))"

lemma execute_count:
  "snd (executeCompaction pr config p to' ms sp eg n) = 0 \<or>
   snd (executeCompaction pr config p to' ms sp eg n) = Suc n"
  by (auto simp: executeCompaction_def Let_def split: sum.splits)

lemma manager_do_count:
  "manager_do pr config w c n = (r, n') \<Longrightarrow>
     n' = 0 \<or> n' = n \<or> (n < MAX_CONSECUTIVE_FAILURES \<and> n' = Suc n)"
proof (cases c)
  case (IfNeeded p to' ms sp ct eg)
  assume "manager_do pr config w c n = (r, n')"
  with IfNeeded show ?thesis
    using execute_count [of pr config p to' ms sp eg n]
    by (auto simp: compactIfNeeded_def split: if_splits sum.splits)
next
  case (Force p to' ms sp eg)
  assume "manager_do pr config w c n = (r, n')"
  with Force show ?thesis
    using execute_count [of pr config p to' ms sp eg n]
    by (auto simp: forceCompact_def split: if_splits)
qed

lemma manager_open: "MAX_CONSECUTIVE_FAILURES \<le> n \<Longrightarrow> manager_do pr config w c n = (Inr None, n)"
  by (cases c) (auto simp: compactIfNeeded_def forceCompact_def)

lemma manager_run_open:
  "MAX_CONSECUTIVE_FAILURES \<le> n \<Longrightarrow> manager_run pr config w cs n = (replicate (length cs) (Inr None), n)"
  by (induction cs) (simp_all add: manager_open)

lemma manager_run_append:
  "manager_run pr config w (as @ bs) n =
     (case manager_run pr config w as n of (ra, na) \<Rightarrow>
      (case manager_run pr config w bs na of (rb, nb) \<Rightarrow> (ra @ rb, nb)))"
  by (induction as arbitrary: n) (auto split: prod.split)

lemma manager_run_bounded:
  "n \<le> MAX_CONSECUTIVE_FAILURES \<Longrightarrow> snd (manager_run pr config w cs n) \<le> MAX_CONSECUTIVE_FAILURES"
proof (induction cs arbitrary: n)
  case (Cons c cs)
  obtain r n' where d: "manager_do pr config w c n = (r, n')" by fastforce
  have "n' \<le> MAX_CONSECUTIVE_FAILURES" using manager_do_count [OF d] Cons.prems by auto
  with Cons.IH [of n'] d show ?case by (simp add: split_beta)
qed simp

section \<open>What a call returns\<close>

lemma runStrategy_truncate_paired:
  assumes "runStrategy pr Truncate ms sp ret p model eg = Inr r" "api_order {} ms"
  shows "findOrphanToolResults (result_messages r) = []"
  using assms trunc.no_orphans by (auto simp: runStrategy_def bind_err_Inr_iff)

lemma runStrategy_summarize_paired:
  assumes "runStrategy pr Summarize ms sp ret p model eg = Inr r" "api_order {} ms"
  shows "findOrphanToolResults (result_messages r) = []"
  using assms summ.no_orphans by (auto simp: runStrategy_def bind_err_Inr_iff)

lemma execute_paired:
  assumes "strategy config = Truncate \<or> strategy config = Summarize" and "api_order {} ms"
    and "executeCompaction pr config p to' ms sp eg n = (Inr (Some r), n')"
  shows "findOrphanToolResults (result_messages r) = []"
  using assms runStrategy_truncate_paired runStrategy_summarize_paired
  by (auto simp: executeCompaction_def withSafetyTimeout_def Let_def split: sum.splits if_splits)

fun call_messages :: "manager_call \<Rightarrow> Message list" where
  "call_messages (IfNeeded p to' ms sp ct eg) = ms"
| "call_messages (Force p to' ms sp eg) = ms"

lemma manager_do_paired:
  assumes "strategy config = Truncate \<or> strategy config = Summarize" and "api_order {} (call_messages c)"
    and "manager_do pr config w c n = (Inr (Some r), n')"
  shows "findOrphanToolResults (result_messages r) = []"
  using assms
  by (cases c) (auto simp: compactIfNeeded_def forceCompact_def split: if_splits sum.splits
      intro: execute_paired [OF assms(1)])

definition sends_cleanly :: "manager_call \<times> (string + CompactionResult option) \<Rightarrow> bool" where
  "sends_cleanly cr = (case cr of (c, r) \<Rightarrow> api_order {} (call_messages c) \<longrightarrow>
     (case r of Inr (Some x) \<Rightarrow> assertPairing (result_messages x) = Inr () | _ \<Rightarrow> True))"

lemma manager_run_clean:
  assumes "strategy config = Truncate \<or> strategy config = Summarize"
  shows "list_all sends_cleanly (zip cs (fst (manager_run pr config w cs n)))"
proof (induction cs arbitrary: n)
  case (Cons c cs)
  obtain r n' where d: "manager_do pr config w c n = (r, n')" by fastforce
  have "sends_cleanly (c, r)"
    using manager_do_paired [OF assms, of c pr w n] d
    by (auto simp: sends_cleanly_def assertPairing_iff no_orphans_iff_paired split: sum.split option.split)
  with Cons.IH [of n'] d show ?case by (simp add: split_beta)
qed simp

text \<open>C32: the compaction manager over any sequence of calls, with any outcome of providers, timers
  and egress control. The failure count never exceeds three. Once it is three the breaker stays open: every later call,
  forced or not, returns null without running a strategy. When the strategy is truncation or summary,
  every history the manager returns for a history in provider order passes \<open>assertPairing\<close>, including the ones
  that come from the fallback.\<close>

theorem manager_breaker_and_pairing:
  "snd (manager_run pr config w as 0) \<le> MAX_CONSECUTIVE_FAILURES \<and>
   (snd (manager_run pr config w as 0) = MAX_CONSECUTIVE_FAILURES \<longrightarrow>
      manager_run pr config w (as @ bs) 0 =
        (fst (manager_run pr config w as 0) @ replicate (length bs) (Inr None), MAX_CONSECUTIVE_FAILURES)) \<and>
   (strategy config = Truncate \<or> strategy config = Summarize \<longrightarrow>
      list_all sends_cleanly (zip as (fst (manager_run pr config w as 0))))"
  using manager_run_bounded [of 0 pr config w as] manager_run_clean [of config as pr w 0]
  by (auto simp: manager_run_append split_beta manager_run_open)

definition sample_config :: CompactionConfig where
  "sample_config = \<lparr>trigger = TriggerMessages 1, retain = RetainMessages 2, strategy = Summarize,
     summaryModel = None, safetyTimeoutMs = None\<rparr>"

definition sample_prompts :: Prompts where
  "sample_prompts = \<lparr>summary_prompt = [], topic_prompt = [], session_prompt = []\<rparr>"

text \<open>Three timeouts open the breaker, although each fallback answered.\<close>

definition timed_out_call :: manager_call where
  "timed_out_call = Force sample_provider True (map snd sample_history) [] None"

lemma timed_out_counts:
  "n < MAX_CONSECUTIVE_FAILURES \<Longrightarrow> \<exists>r. manager_do pr sample_config w timed_out_call n = (r, Suc n)"
proof -
  assume "n < MAX_CONSECUTIVE_FAILURES"
  moreover have "countConversationMessages (map snd sample_history) = 4"
    by (simp add: countConversationMessages_def sample_history_def)
  ultimately show ?thesis
    by (auto simp: timed_out_call_def forceCompact_def executeCompaction_def withSafetyTimeout_def
        sample_config_def Let_def split: sum.split)
qed

theorem manager_breaker_and_pairing_witness:
  "snd (manager_run sample_prompts sample_config 100 [timed_out_call, timed_out_call, timed_out_call] 0) =
     MAX_CONSECUTIVE_FAILURES \<and>
   snd (manager_run sample_prompts sample_config 100
          ([timed_out_call, timed_out_call, timed_out_call] @ [timed_out_call]) 0) = MAX_CONSECUTIVE_FAILURES \<and>
   list_all sends_cleanly (zip [timed_out_call] (fst (manager_run sample_prompts sample_config 100 [timed_out_call] 0)))"
proof -
  have three: "snd (manager_run sample_prompts sample_config 100 [timed_out_call, timed_out_call, timed_out_call] 0) =
     MAX_CONSECUTIVE_FAILURES"
    using timed_out_counts [of 0 sample_prompts 100] timed_out_counts [of 1 sample_prompts 100]
      timed_out_counts [of 2 sample_prompts 100]
    by (auto simp: MAX_CONSECUTIVE_FAILURES_def numeral_2_eq_2 numeral_3_eq_3 split_beta)
  moreover have "strategy sample_config = Summarize" by (simp add: sample_config_def)
  ultimately show ?thesis
    using manager_breaker_and_pairing
      [of sample_prompts sample_config 100 "[timed_out_call, timed_out_call, timed_out_call]" "[timed_out_call]"]
      manager_breaker_and_pairing [of sample_prompts sample_config 100 "[timed_out_call]" "[]"]
    by (metis snd_conv)
qed

end
