(* ===== verification/ToolResultDrop.thy ===== *)
theory ToolResultDrop
  imports MessageGroups
begin

text \<open>
  The passes that replace old tool output by placeholders: compaction/tool-result-drop.ts and
  compaction/browser-snapshot-supersede.ts. Both walk the blocks of the messages before a cutoff and
  may replace the content of a tool result. The lengths of placeholders are compared with the
  original, so the dash in them is written as one character.
\<close>

section \<open>Shared parts\<close>

record ToolCallInfo =
  call_name :: string
  call_input :: obj

record DropReport =
  report_messages :: "Message list"
  droppedCount :: nat
  bytesReclaimed :: nat

definition assistant_content :: "Message \<Rightarrow> ContentBlock list" where
  "assistant_content m = (case m of AssistantMessage bs \<Rightarrow> bs | _ \<Rightarrow> [])"

fun index_block :: "ContentBlock \<Rightarrow> (string, ToolCallInfo) js_map \<Rightarrow> (string, ToolCallInfo) js_map" where
  "index_block (ToolUseBlock i n inp cc) index = map_set i \<lparr>call_name = n, call_input = inp\<rparr> index"
| "index_block b index = index"

definition buildToolCallIndex :: "Message list \<Rightarrow> (string, ToolCallInfo) js_map" where
  "buildToolCallIndex messages =
     fold (\<lambda>m index. fold index_block (assistant_content m) index) messages []"

text \<open>A user turn: a user message that is not only tool results (an empty list counts as such).\<close>

definition is_user_turn :: "Message \<Rightarrow> bool" where
  "is_user_turn m = (case m of
     UserMessage (Inl s) \<Rightarrow> True | UserMessage (Inr bs) \<Rightarrow> \<not> list_all is_tool_result bs | _ \<Rightarrow> False)"

text \<open>The walk from the end; the index of a message is the number of messages before it.\<close>

fun cutoff_walk :: "nat \<Rightarrow> nat \<Rightarrow> Message list \<Rightarrow> nat" where
  "cutoff_walk keep kept [] = 0"
| "cutoff_walk keep kept (m # older) =
     (if \<not> is_user_turn m then cutoff_walk keep kept older
      else if kept + 1 \<ge> keep then length older
      else cutoff_walk keep (kept + 1) older)"

definition findCutoffIndex :: "Message list \<Rightarrow> nat \<Rightarrow> nat" where
  "findCutoffIndex messages keepRecentTurns = cutoff_walk keepRecentTurns 0 (rev messages)"

definition approximateContentBytes :: "Content \<Rightarrow> nat" where
  "approximateContentBytes c = (case c of
     Inl s \<Rightarrow> length s
   | Inr bs \<Rightarrow> sum_list (map (\<lambda>b. case block_text b of Some t \<Rightarrow> length t | None \<Rightarrow> 50) bs))"

definition toPlainText :: "Content \<Rightarrow> string" where
  "toPlainText c = (case c of Inl s \<Rightarrow> s | Inr bs \<Rightarrow> js_join [CHR 0x0A] (List.map_filter block_text bs))"

text \<open>
  \<open>content.map\<close> with the counters the callback updates: \<open>rw j b\<close> is the replacement of block \<open>b\<close> at
  index \<open>j\<close> and the bytes it saves, if it is rewritten.
\<close>

type_synonym rewriter = "nat \<Rightarrow> ContentBlock \<Rightarrow> (ContentBlock \<times> nat) option"

fun rewrite_blocks :: "rewriter \<Rightarrow> nat \<Rightarrow> ContentBlock list \<Rightarrow> ContentBlock list \<times> nat \<times> nat" where
  "rewrite_blocks rw j [] = ([], 0, 0)"
| "rewrite_blocks rw j (b # bs) =
     (case rewrite_blocks rw (Suc j) bs of (bs', n, k) \<Rightarrow>
      (case rw j b of None \<Rightarrow> (b # bs', n, k) | Some (b', saved) \<Rightarrow> (b' # bs', n + 1, k + saved)))"

fun rewrite_message :: "rewriter \<Rightarrow> Message \<Rightarrow> Message \<times> nat \<times> nat" where
  "rewrite_message rw (UserMessage (Inr bs)) =
     (case rewrite_blocks rw 0 bs of (bs', n, k) \<Rightarrow> (UserMessage (Inr bs'), n, k))"
| "rewrite_message rw (AssistantMessage bs) =
     (case rewrite_blocks rw 0 bs of (bs', n, k) \<Rightarrow> (AssistantMessage bs', n, k))"
| "rewrite_message rw m = (m, 0, 0)"

text \<open>The loop over all messages; those from the cutoff on pass unchanged.\<close>

fun rewrite_messages :: "(nat \<Rightarrow> rewriter) \<Rightarrow> nat \<Rightarrow> nat \<Rightarrow> Message list \<Rightarrow> Message list \<times> nat \<times> nat" where
  "rewrite_messages rw cutoff i [] = ([], 0, 0)"
| "rewrite_messages rw cutoff i (m # ms) =
     (case rewrite_messages rw cutoff (Suc i) ms of (ms', n, k) \<Rightarrow>
      (if i \<ge> cutoff then (m # ms', n, k)
       else case rewrite_message (rw i) m of (m', n', k') \<Rightarrow> (m' # ms', n' + n, k' + k)))"

section \<open>Dropping stale tool results\<close>

record DropStaleToolResultsOptions =
  opt_keepRecentTurns :: int
  opt_minBytesToDrop :: "int option"
  opt_previewBytes :: "int option"

definition quoted :: "string \<Rightarrow> string" where
  "quoted s = [CHR 0x22] @ s @ [CHR 0x22]"

definition renderArgValue :: "json \<Rightarrow> string" where
  "renderArgValue v = (case v of
     JNull \<Rightarrow> ''null''
   | JStr s \<Rightarrow> if length s > 40 then quoted (take 40 s @ ''...'') else quoted s
   | JNum n \<Rightarrow> n
   | JBool b \<Rightarrow> (if b then ''true'' else ''false'')
   | _ \<Rightarrow> ''object'')"

definition renderToolLabel :: "ToolCallInfo option \<Rightarrow> string" where
  "renderToolLabel info = (case info of
     None \<Rightarrow> ''tool''
   | Some ci \<Rightarrow>
       (let args = call_input ci in
        if args = [] then call_name ci
        else call_name ci @ ''('' @
          js_join '', '' (map (\<lambda>(k, v). k @ ''='' @ renderArgValue v) (take 2 args) @
            (if length args > 2 then [''+'' @ show_nat (length args - 2) @ '' more''] else [])) @ '')''))"

text \<open>\<open>replace(/\s+/g, ' ')\<close>: each run of white space becomes one blank.\<close>

fun collapse_ws :: "bool \<Rightarrow> string \<Rightarrow> string" where
  "collapse_ws in_ws [] = []"
| "collapse_ws in_ws (c # cs) =
     (if is_space_char c then (if in_ws then collapse_ws True cs else CHR '' '' # collapse_ws True cs)
      else c # collapse_ws False cs)"

definition escape_quotes :: "string \<Rightarrow> string" where
  "escape_quotes s = concat (map (\<lambda>c. if c = CHR 0x22 then [CHR 0x5C, CHR 0x22] else [c]) s)"

definition makePreview :: "string \<Rightarrow> nat \<Rightarrow> string" where
  "makePreview text previewBytes =
     (let escaped = escape_quotes (js_trim (collapse_ws False (take previewBytes text)))
      in if length text > previewBytes then escaped @ ''...'' else escaped)"

definition buildPlaceholder :: "nat \<Rightarrow> bool \<Rightarrow> string \<Rightarrow> nat \<Rightarrow> ToolCallInfo option \<Rightarrow> string" where
  "buildPlaceholder originalBytes isError originalText previewBytes info =
     (let head = ''['' @ (if isError then ''error'' else ''output'') @ '' of '' @ renderToolLabel info @
            '' dropped - was ~'' @ show_nat originalBytes @ '' chars.'';
          tail = (if isError then ''Call the tool again if you need the exact error text.]''
                  else ''Call the tool again if you need the full content.]'');
          preview = makePreview originalText previewBytes
      in if previewBytes = 0 \<or> originalText = [] \<or> preview = [] then head @ '' '' @ tail
         else head @ '' Preview: '' @ quoted preview @ ''. '' @ tail)"

text \<open>The decision both passes share: big enough, and the placeholder less than half the size.\<close>

definition replace_content :: "int \<Rightarrow> (nat \<Rightarrow> string) \<Rightarrow> ContentBlock \<Rightarrow> (ContentBlock \<times> nat) option" where
  "replace_content minBytesToDrop placeholder_of b = (case b of
     ToolResultBlock i c e md cc \<Rightarrow>
       (let originalBytes = approximateContentBytes c; placeholder = placeholder_of originalBytes
        in if int originalBytes < minBytesToDrop then None
           else if length placeholder \<ge> originalBytes div 2 then None
           else Some (ToolResultBlock i (Inl placeholder) e md cc, originalBytes - length placeholder))
   | _ \<Rightarrow> None)"

fun rewriteToolResult ::
  "int \<Rightarrow> nat \<Rightarrow> (string, ToolCallInfo) js_map \<Rightarrow> ContentBlock \<Rightarrow> (ContentBlock \<times> nat) option" where
  "rewriteToolResult minBytes previewBytes index (ToolResultBlock i c e md cc) =
     replace_content minBytes
       (\<lambda>n. buildPlaceholder n e (toPlainText c) previewBytes (map_get index i)) (ToolResultBlock i c e md cc)"
| "rewriteToolResult minBytes previewBytes index b = None"

definition dropStaleToolResults :: "Message list \<Rightarrow> DropStaleToolResultsOptions \<Rightarrow> DropReport" where
  "dropStaleToolResults messages options =
     (let keepRecentTurns = nat (max 1 (opt_keepRecentTurns options));
          minBytesToDrop = (case opt_minBytesToDrop options of Some n \<Rightarrow> n | None \<Rightarrow> 500);
          previewBytes = nat (max 0 (case opt_previewBytes options of Some n \<Rightarrow> n | None \<Rightarrow> 150));
          index = buildToolCallIndex messages;
          cutoff = findCutoffIndex messages keepRecentTurns
      in if messages = [] then \<lparr>report_messages = [], droppedCount = 0, bytesReclaimed = 0\<rparr>
         else if cutoff = 0 then \<lparr>report_messages = messages, droppedCount = 0, bytesReclaimed = 0\<rparr>
         else (case rewrite_messages (\<lambda>i j. rewriteToolResult minBytesToDrop previewBytes index) cutoff 0 messages of
                 (ms, n, k) \<Rightarrow> \<lparr>report_messages = ms, droppedCount = n, bytesReclaimed = k\<rparr>))"

section \<open>Superseded browser snapshots\<close>

record SnapshotOptions =
  snap_keepLatestPerTarget :: "int option"
  snap_keepRecentTurns :: "int option"
  snap_minBytesToDrop :: "int option"

definition isSupersedableSnapshot :: "obj option \<Rightarrow> bool" where
  "isSupersedableSnapshot md = (case md of None \<Rightarrow> False
     | Some d \<Rightarrow> map_of d ''kind'' = Some (JStr ''browser-snapshot'') \<and>
                 map_of d ''supersedable'' = Some (JBool True))"

definition readTargetId :: "obj option \<Rightarrow> string option" where
  "readTargetId md = (case md of None \<Rightarrow> None
     | Some d \<Rightarrow> (case str_field d ''targetId'' of Some t \<Rightarrow> if t \<noteq> [] then Some t else None | None \<Rightarrow> None))"

fun snapshot_target :: "ContentBlock \<Rightarrow> string option" where
  "snapshot_target (ToolResultBlock i c e md cc) =
     (if isSupersedableSnapshot md then readTargetId md else None)"
| "snapshot_target b = None"

definition buildBreadcrumb :: "nat \<Rightarrow> string option \<Rightarrow> string option \<Rightarrow> bool \<Rightarrow> ToolCallInfo option \<Rightarrow> string" where
  "buildBreadcrumb originalBytes url title isError info =
     (let callLabel = (case info of Some ci \<Rightarrow> call_name ci | None \<Rightarrow> ''browser tool'');
          page = (case (url, title) of
              (Some u, Some t) \<Rightarrow> if u \<noteq> [] \<and> t \<noteq> [] then t @ '' ('' @ u @ '')'' else u
            | (Some u, None) \<Rightarrow> u
            | (None, Some t) \<Rightarrow> t
            | (None, None) \<Rightarrow> ''unknown page'')
      in ''['' @ (if isError then ''error from'' else ''snapshot of'') @ '' '' @ callLabel @
         '' compacted - superseded by a newer snapshot '' @ ''of the same tab. Was ~'' @ show_nat originalBytes @
         '' chars from '' @ page @ ''. '' @ ''Call browser_snapshot again if you need the page state back.]'')"

fun rewriteSupersededSnapshot ::
  "int \<Rightarrow> (string, ToolCallInfo) js_map \<Rightarrow> ContentBlock \<Rightarrow> (ContentBlock \<times> nat) option" where
  "rewriteSupersededSnapshot minBytes index (ToolResultBlock i c e md cc) =
     (let d = (case md of Some x \<Rightarrow> x | None \<Rightarrow> []) in
      replace_content minBytes
        (\<lambda>n. buildBreadcrumb n (str_field d ''url'') (str_field d ''title'') e (map_get index i))
        (ToolResultBlock i c e md cc))"
| "rewriteSupersededSnapshot minBytes index b = None"

text \<open>All blocks before the cutoff with their positions, newest first.\<close>

definition message_blocks :: "Message \<Rightarrow> ContentBlock list" where
  "message_blocks m = (case message_content m of Inl s \<Rightarrow> [] | Inr bs \<Rightarrow> bs)"

definition block_positions :: "nat \<Rightarrow> Message \<Rightarrow> ((nat \<times> nat) \<times> ContentBlock) list" where
  "block_positions i m = map (\<lambda>(j, b). ((i, j), b)) (enumerate 0 (message_blocks m))"

definition positions :: "nat \<Rightarrow> Message list \<Rightarrow> ((nat \<times> nat) \<times> ContentBlock) list" where
  "positions cutoff messages =
     rev (concat (map (\<lambda>(i, m). block_positions i m) (enumerate 0 (take cutoff messages))))"

text \<open>The first pass: \<open>True\<close> is the verdict rewrite.\<close>

fun verdict_walk ::
  "nat \<Rightarrow> (string, nat) js_map \<Rightarrow> ((nat \<times> nat) \<times> ContentBlock) list \<Rightarrow> ((nat \<times> nat) \<times> bool) list" where
  "verdict_walk keep kept [] = []"
| "verdict_walk keep kept ((pos, b) # ps) =
     (case snapshot_target b of
        None \<Rightarrow> verdict_walk keep kept ps
      | Some t \<Rightarrow>
          (let n = (case map_get kept t of Some n \<Rightarrow> n | None \<Rightarrow> 0)
           in if n < keep then (pos, False) # verdict_walk keep (map_set t (n + 1) kept) ps
              else (pos, True) # verdict_walk keep kept ps))"

definition compactSupersededBrowserSnapshots :: "Message list \<Rightarrow> SnapshotOptions \<Rightarrow> DropReport" where
  "compactSupersededBrowserSnapshots messages options =
     (let keepLatestPerTarget = nat (max 0 (case snap_keepLatestPerTarget options of Some n \<Rightarrow> n | None \<Rightarrow> 1));
          keepRecentTurns = nat (max 1 (case snap_keepRecentTurns options of Some n \<Rightarrow> n | None \<Rightarrow> 1));
          minBytesToDrop = (case snap_minBytesToDrop options of Some n \<Rightarrow> n | None \<Rightarrow> 500);
          index = buildToolCallIndex messages;
          cutoff = findCutoffIndex messages keepRecentTurns;
          verdicts = verdict_walk keepLatestPerTarget [] (positions cutoff messages)
      in if messages = [] then \<lparr>report_messages = [], droppedCount = 0, bytesReclaimed = 0\<rparr>
         else if verdicts = [] then \<lparr>report_messages = messages, droppedCount = 0, bytesReclaimed = 0\<rparr>
         else (case rewrite_messages
                      (\<lambda>i j b. if map_of verdicts (i, j) = Some True
                               then rewriteSupersededSnapshot minBytesToDrop index b else None) cutoff 0 messages of
                 (ms, n, k) \<Rightarrow> \<lparr>report_messages = ms, droppedCount = n, bytesReclaimed = k\<rparr>))"

section \<open>What a rewriting pass keeps\<close>

text \<open>The replacement of a block: the same block, or the same result with a short text for its content.\<close>

inductive block_kept :: "ContentBlock \<Rightarrow> ContentBlock \<Rightarrow> bool" where
  same: "block_kept b b"
| shorter: "2 * length s < approximateContentBytes c \<Longrightarrow>
    block_kept (ToolResultBlock i c e md cc) (ToolResultBlock i (Inl s) e md cc)"

inductive message_kept :: "Message \<Rightarrow> Message \<Rightarrow> bool" where
  same_message: "message_kept m m"
| user: "list_all2 block_kept bs bs' \<Longrightarrow> message_kept (UserMessage (Inr bs)) (UserMessage (Inr bs'))"
| assistant: "list_all2 block_kept bs bs' \<Longrightarrow> message_kept (AssistantMessage bs) (AssistantMessage bs')"

lemma block_kept_ids: "block_kept b b' \<Longrightarrow> use_id b' = use_id b \<and> result_id b' = result_id b"
  by (induction rule: block_kept.induct) simp_all

lemma blocks_kept_ids:
  "list_all2 block_kept bs bs' \<Longrightarrow> block_uses bs' = block_uses bs \<and> block_results bs' = block_results bs"
  by (induction rule: list_all2_induct)
     (auto simp: block_uses_def block_results_def List.map_filter_def dest: block_kept_ids)

lemma message_kept_ids: "message_kept m m' \<Longrightarrow> uses m' = uses m \<and> results m' = results m"
  by (induction rule: message_kept.induct) (simp_all add: blocks_kept_ids)

lemma history_kept_orphans: "list_all2 message_kept ms ms' \<Longrightarrow> orphan_set S ms' = orphan_set S ms"
  by (induction arbitrary: S rule: list_all2_induct) (simp_all add: message_kept_ids)

text \<open>The size of the tool results, as the passes measure it.\<close>

fun block_bytes :: "ContentBlock \<Rightarrow> nat" where
  "block_bytes (ToolResultBlock i c e md cc) = approximateContentBytes c"
| "block_bytes b = 0"

definition message_bytes :: "Message \<Rightarrow> nat" where
  "message_bytes m = sum_list (map block_bytes (message_blocks m))"

text \<open>The interface of the two passes: a rewriter that only shortens the content of tool results.\<close>

locale shortening =
  fixes rw :: "nat \<Rightarrow> rewriter"
  assumes rw_kept: "rw i j b = Some (b', k) \<Longrightarrow> block_kept b b'"
    and rw_saved: "rw i j b = Some (b', k) \<Longrightarrow> block_bytes b = block_bytes b' + k"
begin

lemma blocks_bytes:
  "sum_list (map block_bytes bs) =
     sum_list (map block_bytes (fst (rewrite_blocks (rw i) j bs))) + snd (snd (rewrite_blocks (rw i) j bs))"
proof (induction bs arbitrary: j)
  case (Cons b bs)
  show ?case
    using Cons.IH [of "Suc j"] rw_saved [of i j b] by (auto simp: split_beta split: option.split)
qed simp

lemma message_bytes_rewrite:
  "message_bytes m = message_bytes (fst (rewrite_message (rw i) m)) + snd (snd (rewrite_message (rw i) m))"
proof (cases m)
  case (UserMessage c)
  show ?thesis
  proof (cases c)
    case (Inr bs)
    then show ?thesis using UserMessage blocks_bytes [of bs i 0]
      by (simp add: split_beta message_bytes_def message_blocks_def)
  qed (simp add: UserMessage)
next
  case (AssistantMessage bs)
  then show ?thesis using blocks_bytes [of bs i 0] by (simp add: split_beta message_bytes_def message_blocks_def)
qed simp

lemma messages_bytes:
  "sum_list (map message_bytes ms) =
     sum_list (map message_bytes (fst (rewrite_messages rw cutoff i ms))) +
     snd (snd (rewrite_messages rw cutoff i ms))"
proof (induction ms arbitrary: i)
  case (Cons m ms)
  show ?case using Cons.IH [of "Suc i"] message_bytes_rewrite [of m i] by (simp add: split_beta)
qed simp

lemma blocks_kept: "list_all2 block_kept bs (fst (rewrite_blocks (rw i) j bs))"
  by (induction bs arbitrary: j)
     (auto simp: split_beta split: option.split intro: same rw_kept)

lemma message_kept_rewrite: "message_kept m (fst (rewrite_message (rw i) m))"
proof (cases m)
  case (UserMessage c)
  show ?thesis
  proof (cases c)
    case (Inr bs)
    then show ?thesis using UserMessage blocks_kept [of bs i 0]
      by (simp add: split_beta message_kept.intros)
  qed (simp add: UserMessage same_message)
next
  case (AssistantMessage bs)
  then show ?thesis using blocks_kept [of bs i 0] by (auto simp: split_beta intro: message_kept.intros)
qed (simp add: same_message)

lemma messages_kept: "list_all2 message_kept ms (fst (rewrite_messages rw cutoff i ms))"
  by (induction ms arbitrary: i) (auto simp: split_beta message_kept_rewrite same_message)

lemma recent_kept: "drop (cutoff - i) (fst (rewrite_messages rw cutoff i ms)) = drop (cutoff - i) ms"
proof (induction ms arbitrary: i)
  case (Cons m ms)
  show ?case
  proof (cases "i \<ge> cutoff")
    case True
    then have "fst (rewrite_messages rw cutoff (Suc i) ms) = ms" using Cons.IH [of "Suc i"] by simp
    then show ?thesis using True by (simp add: split_beta)
  next
    case False
    then have "cutoff - i = Suc (cutoff - Suc i)" by simp
    then show ?thesis using Cons.IH [of "Suc i"] False by (simp add: split_beta)
  qed
qed simp

end

lemma replace_content_kept: "replace_content mb ph b = Some (b', k) \<Longrightarrow> block_kept b b'"
  by (cases b) (auto simp: replace_content_def Let_def split: if_splits intro!: block_kept.intros)

lemma replace_content_saved: "replace_content mb ph b = Some (b', k) \<Longrightarrow> block_bytes b = block_bytes b' + k"
  by (cases b) (auto simp: replace_content_def Let_def approximateContentBytes_def split: if_splits)

lemma rewriteToolResult_replace:
  "rewriteToolResult mb pb index b = Some r \<Longrightarrow> \<exists>ph. replace_content mb ph b = Some r"
  by (cases b) auto

lemma rewriteSuperseded_replace:
  "rewriteSupersededSnapshot mb index b = Some r \<Longrightarrow> \<exists>ph. replace_content mb ph b = Some r"
  by (cases b) (auto simp: Let_def)

interpretation stale: shortening "\<lambda>i j. rewriteToolResult mb pb index" for mb pb index
  by unfold_locales
     (auto dest!: rewriteToolResult_replace intro: replace_content_kept replace_content_saved)

interpretation superseded: shortening
  "\<lambda>i j b. if map_of vs (i, j) = Some True then rewriteSupersededSnapshot mb index b else None" for vs mb index
  by unfold_locales
     (auto split: if_splits dest!: rewriteSuperseded_replace intro: replace_content_kept replace_content_saved)

text \<open>The cutoff is the position of the \<open>keep\<close>-th user turn from the end.\<close>

definition turns :: "Message list \<Rightarrow> nat" where
  "turns ms = length (filter is_user_turn ms)"

lemma cutoff_walk_turns:
  assumes "kept < keep" and "cutoff_walk keep kept ms = c" and "0 < c"
  shows "c < length ms \<and> kept + turns (take (length ms - c) ms) = keep \<and> is_user_turn (ms ! (length ms - Suc c))"
  using assms
proof (induction keep kept ms rule: cutoff_walk.induct)
  case (2 keep kept m older)
  consider "\<not> is_user_turn m" | "is_user_turn m" "kept + 1 \<ge> keep" | "is_user_turn m" "kept + 1 < keep" by linarith
  then show ?case
  proof cases
    case 1
    then have "c < length older" "kept + turns (take (length older - c) older) = keep"
      "is_user_turn (older ! (length older - Suc c))"
      using 2(1) [OF 1 2(3)] 2(4,5) by simp_all
    with 1 show ?thesis by (simp add: turns_def Suc_diff_le less_imp_le_nat nth_Cons' Suc_diff_Suc)
  next
    case 2
    then have "c = length older" using "2.prems" by simp
    then show ?thesis using 2 "2.prems"(1) by (simp add: turns_def)
  next
    case 3
    then have nc: "\<not> kept + 1 \<ge> keep" and nt: "\<not> \<not> is_user_turn m" by simp_all
    have "c < length older" "kept + 1 + turns (take (length older - c) older) = keep"
      "is_user_turn (older ! (length older - Suc c))"
      using 2(2) [OF nt nc _ _ 2(5)] 2(4) 3 by simp_all
    with 3 show ?thesis by (simp add: turns_def Suc_diff_le less_imp_le_nat nth_Cons' Suc_diff_Suc)
  qed
qed simp

lemma cutoff_turns:
  assumes "0 < keep" and "findCutoffIndex ms keep = c" and "0 < c"
  shows "turns (drop c ms) = keep"
proof -
  have "c < length ms" "turns (take (length ms - c) (rev ms)) = keep"
    using cutoff_walk_turns [of 0 keep "rev ms" c] assms by (simp_all add: findCutoffIndex_def)
  then show ?thesis by (simp add: turns_def take_rev rev_filter [symmetric])
qed

section \<open>Which snapshots are superseded\<close>

definition kept_count :: "(string, nat) js_map \<Rightarrow> string \<Rightarrow> nat" where
  "kept_count kept t = (case map_get kept t of Some n \<Rightarrow> n | None \<Rightarrow> 0)"

definition same_tab :: "string \<Rightarrow> ((nat \<times> nat) \<times> ContentBlock) list \<Rightarrow> nat" where
  "same_tab t ps = length (filter (\<lambda>p. snapshot_target (snd p) = Some t) ps)"

lemma kept_count_set: "kept_count (map_set u n kept) t = (if t = u then n else kept_count kept t)"
  by (simp add: kept_count_def map_set_def map_get_def update_conv)

lemma verdict_at:
  assumes "snapshot_target b = Some t" and "pos \<notin> fst ` set newer" and "kept_count kept t \<le> keep"
  shows "map_of (verdict_walk keep kept (newer @ (pos, b) # older)) pos =
           Some (keep \<le> kept_count kept t + same_tab t newer)"
  using assms
proof (induction newer arbitrary: kept)
  case Nil
  then show ?case by (auto simp: Let_def kept_count_def same_tab_def)
next
  case (Cons p newer)
  obtain q c where p [simp]: "p = (q, c)" by (cases p)
  have q: "q \<noteq> pos" "pos \<notin> fst ` set newer" using Cons.prems(2) by auto
  show ?case
  proof (cases "snapshot_target c")
    case None
    then show ?thesis using Cons q by (simp add: same_tab_def)
  next
    case (Some u)
    show ?thesis
    proof (cases "kept_count kept u < keep")
      case True
      let ?kept = "map_set u (kept_count kept u + 1) kept"
      have "kept_count ?kept t \<le> keep" using True Cons.prems(3) by (simp add: kept_count_set)
      from Cons.IH [OF Cons.prems(1) q(2) this] show ?thesis
        using Some True q by (auto simp: Let_def kept_count_set same_tab_def kept_count_def [symmetric])
    next
      case False
      from Cons.IH [OF Cons.prems(1) q(2) Cons.prems(3)] show ?thesis
        using Some False q Cons.prems(3) by (auto simp: Let_def same_tab_def kept_count_def [symmetric])
    qed
  qed
qed

lemma block_positions_fst: "map fst (block_positions i m) = map (Pair i) [0..<length (message_blocks m)]"
proof -
  have "map fst (block_positions i m) = map (Pair i) (map fst (enumerate 0 (message_blocks m)))"
    by (simp add: block_positions_def o_def split_beta del: map_fst_enumerate)
  then show ?thesis by (simp only: map_fst_enumerate add_0)
qed

lemma positions_from:
  "distinct (concat (map (\<lambda>(i, m). map fst (block_positions i m)) (enumerate n ms))) \<and>
   (\<forall>q \<in> set (concat (map (\<lambda>(i, m). map fst (block_positions i m)) (enumerate n ms))). n \<le> fst q)"
proof (induction ms arbitrary: n)
  case (Cons m ms)
  define rest where "rest = concat (map (\<lambda>(i, m). map fst (block_positions i m)) (enumerate (Suc n) ms))"
  define first where "first = map fst (block_positions n m)"
  have rest: "distinct rest" "\<And>q. q \<in> set rest \<Longrightarrow> Suc n \<le> fst q"
    using Cons.IH [of "Suc n"] unfolding rest_def by blast+
  have first: "distinct first" "\<And>q. q \<in> set first \<Longrightarrow> fst q = n"
    unfolding first_def block_positions_fst by (auto simp: distinct_map inj_on_def)
  have disj: "set first \<inter> set rest = {}"
  proof (rule equals0I)
    fix q assume "q \<in> set first \<inter> set rest"
    then have "fst q = n" "Suc n \<le> fst q" using first(2) rest(2) by blast+
    then show False by simp
  qed
  have eq: "concat (map (\<lambda>(i, m). map fst (block_positions i m)) (enumerate n (m # ms))) = first @ rest"
    by (simp add: first_def rest_def)
  have "n \<le> fst q" if "q \<in> set (first @ rest)" for q
    using that rest(2) [of q] first(2) [of q] by auto
  moreover have "distinct (first @ rest)" using rest(1) first(1) disj by simp
  ultimately show ?case unfolding eq by blast
qed simp

lemma positions_distinct: "distinct (map fst (positions c ms))"
proof -
  have "map fst (concat (map (\<lambda>(i, m). block_positions i m) xs)) =
        concat (map (\<lambda>(i, m). map fst (block_positions i m)) xs)" for xs
    by (induction xs) auto
  then show ?thesis using positions_from [of 0 "take c ms"] by (simp add: positions_def rev_map [symmetric])
qed

section \<open>The two passes\<close>

text \<open>The last \<open>n\<close> user turns and what follows them, or everything if there are fewer.\<close>

definition recent :: "nat \<Rightarrow> Message list \<Rightarrow> Message list" where
  "recent n ms = drop (findCutoffIndex ms n) ms"

text \<open>What both reports promise about a history.\<close>

definition clean_report :: "Message list \<Rightarrow> nat \<Rightarrow> DropReport \<Rightarrow> bool" where
  "clean_report ms n r \<longleftrightarrow>
     list_all2 message_kept ms (report_messages r) \<and>
     drop (findCutoffIndex ms n) (report_messages r) = recent n ms \<and>
     sum_list (map message_bytes ms) = sum_list (map message_bytes (report_messages r)) + bytesReclaimed r"

lemma unchanged_clean: "clean_report ms n \<lparr>report_messages = ms, droppedCount = 0, bytesReclaimed = 0\<rparr>"
  by (simp add: clean_report_def recent_def list_all2_refl same_message)

lemma rewritten_clean:
  "list_all2 message_kept ms ms' \<Longrightarrow> drop (findCutoffIndex ms n) ms' = recent n ms \<Longrightarrow>
   sum_list (map message_bytes ms) = sum_list (map message_bytes ms') + k \<Longrightarrow>
   clean_report ms n \<lparr>report_messages = ms', droppedCount = d, bytesReclaimed = k\<rparr>"
  by (simp add: clean_report_def)

lemma drop_clean:
  "clean_report ms (nat (max 1 (opt_keepRecentTurns opts))) (dropStaleToolResults ms opts)"
proof -
  define n where "n = nat (max 1 (opt_keepRecentTurns opts))"
  define mb where "mb = (case opt_minBytesToDrop opts of Some n \<Rightarrow> n | None \<Rightarrow> 500)"
  define pb where "pb = nat (max 0 (case opt_previewBytes opts of Some n \<Rightarrow> n | None \<Rightarrow> 150))"
  define index where "index = buildToolCallIndex ms"
  let ?c = "findCutoffIndex ms n"
  let ?rw = "rewrite_messages (\<lambda>i j. rewriteToolResult mb pb index) ?c 0 ms"
  have eq: "dropStaleToolResults ms opts =
      (if ms = [] then \<lparr>report_messages = ms, droppedCount = 0, bytesReclaimed = 0\<rparr>
       else if ?c = 0 then \<lparr>report_messages = ms, droppedCount = 0, bytesReclaimed = 0\<rparr>
       else \<lparr>report_messages = fst ?rw, droppedCount = fst (snd ?rw), bytesReclaimed = snd (snd ?rw)\<rparr>)"
    by (simp add: dropStaleToolResults_def Let_def split_beta n_def mb_def pb_def index_def)
  have "drop ?c (fst ?rw) = recent n ms"
    using stale.recent_kept [of ?c 0 mb pb index ms] by (simp add: recent_def)
  then show ?thesis
    unfolding n_def [symmetric] eq
    using rewritten_clean [OF stale.messages_kept _ stale.messages_bytes] by (simp add: unchanged_clean)
qed

lemma supersede_clean:
  "clean_report ms (nat (max 1 (case snap_keepRecentTurns opts of Some n \<Rightarrow> n | None \<Rightarrow> 1)))
     (compactSupersededBrowserSnapshots ms opts)"
proof -
  define k where "k = nat (max 0 (case snap_keepLatestPerTarget opts of Some n \<Rightarrow> n | None \<Rightarrow> 1))"
  define n where "n = nat (max 1 (case snap_keepRecentTurns opts of Some n \<Rightarrow> n | None \<Rightarrow> 1))"
  define mb where "mb = (case snap_minBytesToDrop opts of Some n \<Rightarrow> n | None \<Rightarrow> 500)"
  define index where "index = buildToolCallIndex ms"
  let ?c = "findCutoffIndex ms n"
  define vs where "vs = verdict_walk k [] (positions ?c ms)"
  let ?f = "\<lambda>i j b. if map_of vs (i, j) = Some True then rewriteSupersededSnapshot mb index b else None"
  let ?rw = "rewrite_messages ?f ?c 0 ms"
  have eq: "compactSupersededBrowserSnapshots ms opts =
      (if ms = [] then \<lparr>report_messages = ms, droppedCount = 0, bytesReclaimed = 0\<rparr>
       else if vs = [] then \<lparr>report_messages = ms, droppedCount = 0, bytesReclaimed = 0\<rparr>
       else \<lparr>report_messages = fst ?rw, droppedCount = fst (snd ?rw), bytesReclaimed = snd (snd ?rw)\<rparr>)"
    unfolding n_def mb_def index_def vs_def k_def
    by (simp add: compactSupersededBrowserSnapshots_def Let_def split_beta)
  have "drop ?c (fst ?rw) = recent n ms"
    using superseded.recent_kept [of ?c 0 vs mb index ms] by (simp add: recent_def)
  then show ?thesis
    unfolding n_def [symmetric] eq
    using rewritten_clean [OF superseded.messages_kept _ superseded.messages_bytes] by (simp add: unchanged_clean)
qed

lemma clean_report_orphans:
  "clean_report ms n r \<Longrightarrow> paired {} (report_messages r) \<longleftrightarrow> paired {} ms"
  using history_kept_orphans [of ms "report_messages r" "{}"] by (simp add: clean_report_def paired_iff_orphan_set)


text \<open>Two snapshots of one tab: the newer one is kept, the older one is to be rewritten.\<close>

definition snap_block :: "string \<Rightarrow> ContentBlock" where
  "snap_block i = ToolResultBlock i (Inl ''page'') False
     (Some [(''kind'', JStr ''browser-snapshot''), (''supersedable'', JBool True), (''targetId'', JStr ''tab'')]) None"

definition snap_history :: "Message list" where
  "snap_history = [UserMessage (Inr [snap_block ''a'']), UserMessage (Inr [snap_block ''b''])]"


end
