(* ===== verification/Errors.thy ===== *)
theory Errors
  imports JsValue
begin

text \<open>
  The error hierarchy of the engine (\<open>core/errors.ts\<close>): a provider error with its class, status
  code, retry hint and recoverable flag, the constructors of its subclasses, and
  \<open>classifyHttpError\<close>, which turns an HTTP status and a body into one of them. A value that code
  may throw is \<open>js_thrown\<close>: a provider error, another \<open>Error\<close> (by name and message), a
  \<open>DOMException\<close>, a \<open>TypeError\<close>, or a value that is not an error.

  Status codes and headers are as the adapters pass them: \<open>None\<close> for a missing option.
\<close>

section \<open>Provider errors\<close>

datatype provider_class =
    GenericProviderError | AuthenticationError | PermissionDeniedError | NotFoundError
  | UnprocessableEntityError | RateLimitError | ServiceUnavailableError | OverloadedError
  | ContextWindowExceededError | ContentPolicyError

record ProviderError =
  pe_class :: provider_class
  pe_message :: string
  pe_provider :: string
  pe_statusCode :: "nat option"
  pe_retryAfterMs :: "rat option"
  pe_headers :: "(string \<times> string) list"
  pe_recoverable :: bool

record ProviderErrorOpts =
  po_statusCode :: "nat option"
  po_retryAfterMs :: "rat option"
  po_headers :: "(string \<times> string) list option"
  po_recoverable :: "bool option"

definition new_ProviderError :: "provider_class \<Rightarrow> string \<Rightarrow> string \<Rightarrow> ProviderErrorOpts \<Rightarrow> ProviderError" where
  "new_ProviderError cls message provider opts =
     \<lparr>pe_class = cls, pe_message = message, pe_provider = provider,
      pe_statusCode = po_statusCode opts, pe_retryAfterMs = po_retryAfterMs opts,
      pe_headers = (case po_headers opts of None \<Rightarrow> [] | Some h \<Rightarrow> h),
      pe_recoverable = (case po_recoverable opts of None \<Rightarrow> False | Some b \<Rightarrow> b)\<rparr>"

text \<open>The subclass constructors: the flag is fixed, the status code has a default.\<close>

definition new_subclass ::
  "provider_class \<Rightarrow> bool \<Rightarrow> nat \<Rightarrow> string \<Rightarrow> string \<Rightarrow> ProviderErrorOpts \<Rightarrow> ProviderError" where
  "new_subclass cls flag code message provider opts =
     new_ProviderError cls message provider
       (opts\<lparr>po_recoverable := Some flag,
             po_statusCode := Some (case po_statusCode opts of None \<Rightarrow> code | Some c \<Rightarrow> c)\<rparr>)"

definition isRateLimit :: "ProviderError \<Rightarrow> bool" where
  "isRateLimit e \<longleftrightarrow> pe_statusCode e = Some 429"

definition isOverloaded :: "ProviderError \<Rightarrow> bool" where
  "isOverloaded e \<longleftrightarrow> pe_statusCode e = Some 529"

definition isServerError :: "ProviderError \<Rightarrow> bool" where
  "isServerError e = (case pe_statusCode e of None \<Rightarrow> False | Some c \<Rightarrow> 500 \<le> c \<and> c < 600)"

definition isPromptTooLong :: "ProviderError \<Rightarrow> bool" where
  "isPromptTooLong e \<longleftrightarrow> js_includes (pe_message e) ''prompt is too long'' \<or>
     js_includes (pe_message e) ''maximum context length''"

definition isMaxOutputTokens :: "ProviderError \<Rightarrow> bool" where
  "isMaxOutputTokens e \<longleftrightarrow> js_includes (pe_message e) ''max_tokens'' \<or>
     js_includes (pe_message e) ''maximum output''"

section \<open>The classifier\<close>

datatype body_tag = BodyContextWindow | BodyContentPolicy

definition context_window_marks :: "string list" where
  "context_window_marks =
     [''prompt is too long'', ''maximum context length'', ''context_length_exceeded'',
      ''exceeded the model'' @ [CHR 0x27] @ ''s context'', ''context window'']"

definition content_policy_marks :: "string list" where
  "content_policy_marks = [''content_policy_violation'', ''content filter'', ''safety policy'']"

text \<open>A missing and an empty body are both falsy.\<close>

definition classifyByBody :: "string option \<Rightarrow> body_tag option" where
  "classifyByBody bodyText = (case bodyText of
       None \<Rightarrow> None
     | Some t \<Rightarrow>
         (if t = [] then None
          else let lower = js_toLowerCase t in
            if list_ex (js_includes lower) context_window_marks then Some BodyContextWindow
            else if list_ex (js_includes lower) content_policy_marks then Some BodyContentPolicy
            else None))"

record HttpErrorOpts =
  ho_message :: "string option"
  ho_retryAfterMs :: "rat option"
  ho_headers :: "(string \<times> string) list option"

definition http_message :: "nat \<Rightarrow> string option \<Rightarrow> string option \<Rightarrow> string" where
  "http_message status bodyText message = (case message of
       Some m \<Rightarrow> m
     | None \<Rightarrow> (case bodyText of Some b \<Rightarrow> b | None \<Rightarrow> ''HTTP '' @ show_nat status))"

definition classifyHttpError :: "nat \<Rightarrow> string option \<Rightarrow> string \<Rightarrow> HttpErrorOpts \<Rightarrow> ProviderError" where
  "classifyHttpError status bodyText provider opts =
     (let msg = http_message status bodyText (ho_message opts);
          passOpts = \<lparr>po_statusCode = Some status, po_retryAfterMs = ho_retryAfterMs opts,
                      po_headers = ho_headers opts, po_recoverable = None\<rparr>;
          bodyTag = classifyByBody bodyText
      in if status = 400 \<and> bodyTag = Some BodyContextWindow
           then new_subclass ContextWindowExceededError False 400 msg provider passOpts
         else if status = 400 \<and> bodyTag = Some BodyContentPolicy
           then new_subclass ContentPolicyError False 400 msg provider passOpts
         else if status = 401 then new_subclass AuthenticationError False 401 msg provider passOpts
         else if status = 403 then new_subclass PermissionDeniedError False 403 msg provider passOpts
         else if status = 404 then new_subclass NotFoundError False 404 msg provider passOpts
         else if status = 408
           then new_ProviderError GenericProviderError msg provider (passOpts\<lparr>po_recoverable := Some True\<rparr>)
         else if status = 409
           then new_ProviderError GenericProviderError msg provider (passOpts\<lparr>po_recoverable := Some True\<rparr>)
         else if status = 422 then new_subclass UnprocessableEntityError False 422 msg provider passOpts
         else if status = 429 then new_subclass RateLimitError True 429 msg provider passOpts
         else if status = 529 then new_subclass OverloadedError True 529 msg provider passOpts
         else if 500 \<le> status \<and> status < 600
           then new_subclass ServiceUnavailableError True 503 msg provider passOpts
         else new_ProviderError GenericProviderError msg provider (passOpts\<lparr>po_recoverable := Some False\<rparr>))"

section \<open>Thrown values\<close>

datatype js_thrown =
    ThrownProvider ProviderError
  | ThrownError string string
  | ThrownDom string string
  | ThrownType string
  | ThrownOther string
  | ThrownUndefined

text \<open>\<open>e instanceof Error ? e : new Error(String(e))\<close>; a \<open>DOMException\<close> is an \<open>Error\<close>.\<close>

fun as_error :: "js_thrown \<Rightarrow> js_thrown" where
  "as_error (ThrownOther s) = ThrownError ''Error'' s"
| "as_error ThrownUndefined = ThrownError ''Error'' ''undefined''"
| "as_error e = e"

fun thrown_message :: "js_thrown \<Rightarrow> string" where
  "thrown_message (ThrownProvider e) = pe_message e"
| "thrown_message (ThrownError _ m) = m"
| "thrown_message (ThrownDom _ m) = m"
| "thrown_message (ThrownType m) = m"
| "thrown_message (ThrownOther s) = s"
| "thrown_message ThrownUndefined = ''undefined''"

lemma as_error_idem [simp]: "as_error (as_error e) = as_error e"
  by (cases e) simp_all

lemma thrown_message_as_error [simp]: "thrown_message (as_error e) = thrown_message e"
  by (cases e) simp_all

section \<open>What the classifier promises\<close>

text \<open>The fields every branch passes on.\<close>

lemma classify_fields:
  "pe_statusCode (classifyHttpError st b p opts) = Some st"
  "pe_retryAfterMs (classifyHttpError st b p opts) = ho_retryAfterMs opts"
  "pe_provider (classifyHttpError st b p opts) = p"
  "pe_message (classifyHttpError st b p opts) = http_message st b (ho_message opts)"
  by (simp_all add: classifyHttpError_def Let_def new_subclass_def new_ProviderError_def)

lemma classify_recoverable:
  "pe_recoverable (classifyHttpError st b p opts) \<longleftrightarrow>
     st \<in> {408, 409, 429} \<or> (500 \<le> st \<and> st < 600)"
  by (auto simp: classifyHttpError_def Let_def new_subclass_def new_ProviderError_def)

end
