(* ===== verification/Router.thy ===== *)
theory Router
  imports Errors JsMap
begin

text \<open>
  Choosing a provider for a model string: the alias table and parser of \<open>provider/router.ts\<close>, the
  registry of \<open>provider/registry.ts\<close>, the default pick of \<open>provider/auto-pick.ts\<close> and the Ollama
  hints they print. The alias table and the registry are module state, passed explicitly; an
  adapter is of any type \<open>'p\<close>. The environment variables and the probe of a local server are
  arguments.

  The alias table is a plain object: reading a name that it does not own reaches
  \<open>Object.prototype\<close>. Such a member is not a string and the next string method throws.
\<close>

section \<open>Strings and plain objects\<close>

definition js_indexOf :: "string \<Rightarrow> char \<Rightarrow> int" where
  "js_indexOf s c = (if c \<in> set s then int (length (takeWhile (\<lambda>x. x \<noteq> c) s)) else -1)"

definition slice_to :: "int \<Rightarrow> string \<Rightarrow> string" where
  "slice_to i s = (if i < 0 then take (nat (int (length s) + i)) s else take (nat i) s)"

definition slice_after :: "int \<Rightarrow> string \<Rightarrow> string" where
  "slice_after i s = drop (nat (i + 1)) s"

definition object_prototype :: "string list" where
  "object_prototype =
     [''constructor'', ''__defineGetter__'', ''__defineSetter__'', ''hasOwnProperty'',
      ''__lookupGetter__'', ''__lookupSetter__'', ''isPrototypeOf'', ''propertyIsEnumerable'',
      ''toString'', ''valueOf'', ''__proto__'', ''toLocaleString'']"

text \<open>The text of such a member in a template literal.\<close>

definition prototype_text :: "string \<Rightarrow> string" where
  "prototype_text k =
     (if k = ''__proto__'' then ''[object Object]''
      else ''function '' @ (if k = ''constructor'' then ''Object'' else k) @ ''() { [native code] }'')"

section \<open>Aliases\<close>

type_synonym aliases = "(string, string) js_map"

definition MODEL_ALIASES :: aliases where
  "MODEL_ALIASES =
     [(''sonnet'', ''anthropic:claude-sonnet-4-20250514''),
      (''opus'', ''anthropic:claude-opus-4-20250514''),
      (''haiku'', ''anthropic:claude-haiku-4-5-20251001''),
      (''claude-sonnet'', ''anthropic:claude-sonnet-4-20250514''),
      (''claude-opus'', ''anthropic:claude-opus-4-20250514''),
      (''claude-haiku'', ''anthropic:claude-haiku-4-5-20251001''),
      (''gpt4o'', ''openai:gpt-4o''),
      (''gpt-4o'', ''openai:gpt-4o''),
      (''gpt4o-mini'', ''openai:gpt-4o-mini''),
      (''gpt-4o-mini'', ''openai:gpt-4o-mini''),
      (''o3'', ''openai:o3''),
      (''o3-mini'', ''openai:o3-mini''),
      (''o4-mini'', ''openai:o4-mini''),
      (''gemini-pro'', ''google:gemini-2.5-pro''),
      (''gemini-flash'', ''google:gemini-2.5-flash''),
      (''gemini-2.5-pro'', ''google:gemini-2.5-pro''),
      (''gemini-2.5-flash'', ''google:gemini-2.5-flash'')]"

datatype alias_value = NoAlias | AliasText string | InheritedMember

definition alias_lookup :: "aliases \<Rightarrow> string \<Rightarrow> alias_value" where
  "alias_lookup al m = (case map_get al m of
       Some t \<Rightarrow> AliasText t
     | None \<Rightarrow> (if m \<in> set object_prototype then InheritedMember else NoAlias))"

text \<open>\<open>None\<close> stands for the inherited member, which is returned as it is.\<close>

definition resolveAlias :: "aliases \<Rightarrow> string \<Rightarrow> string option" where
  "resolveAlias al m = (case alias_lookup al m of
       AliasText t \<Rightarrow> Some t | NoAlias \<Rightarrow> Some m | InheritedMember \<Rightarrow> None)"

text \<open>Assigning a string to \<open>__proto__\<close> has no effect.\<close>

definition registerAlias :: "string \<Rightarrow> string \<Rightarrow> aliases \<Rightarrow> aliases" where
  "registerAlias a full al = (if a = ''__proto__'' then al else map_set a full al)"

definition listAliases :: "aliases \<Rightarrow> aliases" where
  "listAliases al = al"

section \<open>Parsing a model string\<close>

record ParsedModel =
  providerName :: string
  modelId :: string

definition parseExplicit :: "string \<Rightarrow> ParsedModel" where
  "parseExplicit m = (let colonIndex = js_indexOf m (CHR '':'') in
     \<lparr>providerName = slice_to colonIndex m, modelId = slice_after colonIndex m\<rparr>)"

definition PREFIX_RULES :: "(string list \<times> string) list" where
  "PREFIX_RULES =
     [([''claude''], ''anthropic''), ([''gpt-'', ''o1'', ''o3'', ''o4''], ''openai''),
      ([''gemini''], ''google'')]"

definition not_a_function :: js_thrown where
  "not_a_function = ThrownType ''indexOf is not a function''"

definition in_quotes :: "string \<Rightarrow> string" where
  "in_quotes s = [CHR 0x22] @ s @ [CHR 0x22]"

definition undetermined_message :: "aliases \<Rightarrow> string \<Rightarrow> string" where
  "undetermined_message al m =
     ''Cannot determine provider for model '' @ in_quotes m @ ''. Use '' @ in_quotes ''provider:model'' @
     '' format (e.g., '' @ in_quotes ''anthropic:claude-sonnet-4-20250514'' @ '') or a known alias: '' @
     js_join '', '' (map fst al)"

definition parseModelString :: "aliases \<Rightarrow> string \<Rightarrow> js_thrown + ParsedModel" where
  "parseModelString al m =
     (let rest =
        (if js_indexOf m (CHR '':'') > 0 then Inr (parseExplicit m)
         else (case find (\<lambda>(ps, _). list_ex (js_startsWith m) ps) PREFIX_RULES of
             Some (_, p) \<Rightarrow> Inr \<lparr>providerName = p, modelId = m\<rparr>
           | None \<Rightarrow> Inl (ThrownError ''Error'' (undetermined_message al m))))
      in case alias_lookup al m of
           InheritedMember \<Rightarrow> Inl not_a_function
         | AliasText t \<Rightarrow> (if t \<noteq> [] then Inr (parseExplicit t) else rest)
         | NoAlias \<Rightarrow> rest)"

section \<open>The registry\<close>

type_synonym 'p providers = "(string, 'p) js_map"

definition registerProvider :: "('p \<Rightarrow> string) \<Rightarrow> 'p \<Rightarrow> 'p providers \<Rightarrow> 'p providers" where
  "registerProvider name_of adapter ps = map_set (name_of adapter) adapter ps"

definition unregisterProvider :: "string \<Rightarrow> 'p providers \<Rightarrow> bool \<times> 'p providers" where
  "unregisterProvider n ps = (map_has ps n, map_delete n ps)"

definition getProvider :: "'p providers \<Rightarrow> string \<Rightarrow> 'p option" where
  "getProvider ps n = map_get ps n"

definition listProviders :: "'p providers \<Rightarrow> string list" where
  "listProviders ps = map fst ps"

definition PROVIDER_ENV_HINTS :: "(string \<times> string) list" where
  "PROVIDER_ENV_HINTS =
     [(''anthropic'', ''ANTHROPIC_API_KEY''), (''openai'', ''OPENAI_API_KEY''),
      (''google'', ''GOOGLE_API_KEY''), (''openrouter'', ''OPENROUTER_API_KEY'')]"

definition env_hint :: "string \<Rightarrow> string option" where
  "env_hint n = (case map_of PROVIDER_ENV_HINTS n of
       Some v \<Rightarrow> Some v
     | None \<Rightarrow> (if n \<in> set object_prototype then Some (prototype_text n) else None))"

definition ollamaInstallHint :: "string \<Rightarrow> string" where
  "ollamaInstallHint platform =
     (if platform = ''darwin''
        then ''install Ollama: `brew install ollama` (or download from https://ollama.com), then `ollama pull llama3.2`''
      else if platform = ''linux''
        then ''install Ollama: `curl -fsSL https://ollama.com/install.sh | sh`, then `ollama pull llama3.2`''
      else ''install Ollama from https://ollama.com, then `ollama pull llama3.2`'')"

definition KEYLESS_HINT :: "string \<Rightarrow> string" where
  "KEYLESS_HINT platform =
     ''or run keyless with a local model: '' @ ollamaInstallHint platform @ '', then use model '' @
     in_quotes ''ollama:llama3.2''"

definition bullet :: string where
  "bullet = ''  '' @ [CHR 0xB7] @ '' ''"

definition notConfiguredMessage :: "string \<Rightarrow> 'p providers \<Rightarrow> string \<Rightarrow> string" where
  "notConfiguredMessage platform ps n =
     (let envVar = env_hint n; registered = map fst ps;
          first = (if envVar \<noteq> None then ''Provider '' @ in_quotes n @ '' is not configured.''
                   else ''Unknown provider '' @ in_quotes n @ ''.'');
          env_line = (case envVar of Some v \<Rightarrow> [bullet @ ''set '' @ v @ '' to use it''] | None \<Rightarrow> []);
          keyless = (if ''ollama'' \<in> set registered
                     then bullet @ ''or run keyless against your local Ollama, e.g. model '' @ in_quotes ''ollama:llama3.2''
                     else bullet @ KEYLESS_HINT platform);
          configured = (if registered \<noteq> [] then [bullet @ ''configured right now: '' @ js_join '', '' registered]
                        else [])
      in js_join [CHR 0x0A] ([first] @ env_line @ [keyless] @ configured))"

definition not_configured :: "string \<Rightarrow> 'p providers \<Rightarrow> string \<Rightarrow> js_thrown" where
  "not_configured platform ps n = ThrownError ''Error'' (notConfiguredMessage platform ps n)"

definition unresolved :: "string \<Rightarrow> js_thrown" where
  "unresolved m = ThrownError ''Error''
     (''Cannot resolve provider for model '' @ in_quotes m @ ''. Use '' @ in_quotes ''provider:model'' @
      '' format (e.g., '' @ in_quotes ''anthropic:claude-sonnet-4-20250514'' @ '').'')"

definition registered_or :: "string \<Rightarrow> 'p providers \<Rightarrow> string \<Rightarrow> string \<Rightarrow> js_thrown + 'p \<times> string" where
  "registered_or platform ps n m = (case map_get ps n of
       Some p \<Rightarrow> Inr (p, m) | None \<Rightarrow> Inl (not_configured platform ps n))"

definition resolveProvider ::
  "string \<Rightarrow> aliases \<Rightarrow> 'p providers \<Rightarrow> string \<Rightarrow> js_thrown + 'p \<times> string" where
  "resolveProvider platform al ps modelString =
     (case resolveAlias al modelString of
        None \<Rightarrow> Inl not_a_function
      | Some resolved \<Rightarrow>
          (let colonIndex = js_indexOf resolved (CHR '':'') in
           if colonIndex > 0
             then registered_or platform ps (slice_to colonIndex resolved) (slice_after colonIndex resolved)
           else if js_startsWith resolved ''claude'' \<or> js_startsWith resolved ''claude-''
             then registered_or platform ps ''anthropic'' resolved
           else if js_startsWith resolved ''gpt-'' \<or> js_startsWith resolved ''o1'' \<or> js_startsWith resolved ''o3''
             then registered_or platform ps ''openai'' resolved
           else if js_startsWith resolved ''gemini''
             then registered_or platform ps ''google'' resolved
           else Inl (unresolved modelString)))"

section \<open>The default model\<close>

definition CLOUD_DEFAULTS :: "(string \<times> string) list" where
  "CLOUD_DEFAULTS =
     [(''ANTHROPIC_API_KEY'', ''anthropic:claude-sonnet-4-6''),
      (''OPENAI_API_KEY'', ''openai:gpt-5.5''),
      (''GOOGLE_API_KEY'', ''google:gemini-2.5-flash''),
      (''OPENROUTER_API_KEY'', ''openrouter:kimi-k2.7-code'')]"

definition pickDefaultModel :: "(string \<Rightarrow> string option) \<Rightarrow> string list option \<Rightarrow> string option" where
  "pickDefaultModel env probe =
     (case find (\<lambda>(v, _). env v \<noteq> None \<and> env v \<noteq> Some []) CLOUD_DEFAULTS of
        Some (_, model) \<Rightarrow> Some model
      | None \<Rightarrow> (case probe of
            Some (m # _) \<Rightarrow> Some (''ollama:'' @ m)
          | _ \<Rightarrow> None))"

section \<open>Parser and registry agree\<close>

definition explicit_text :: "string \<Rightarrow> bool" where
  "explicit_text t \<longleftrightarrow> js_indexOf t (CHR '':'') > 0"

lemma default_aliases_explicit: "\<forall>t \<in> set (map snd MODEL_ALIASES). explicit_text t"
  by (simp add: MODEL_ALIASES_def explicit_text_def js_indexOf_def)

lemma explicit_not_Nil: "explicit_text t \<Longrightarrow> t \<noteq> []"
  by (auto simp: explicit_text_def js_indexOf_def)

lemma resolve_explicit:
  "explicit_text t \<Longrightarrow> parseExplicit t = \<lparr>providerName = slice_to (js_indexOf t (CHR '':'')) t,
     modelId = slice_after (js_indexOf t (CHR '':'')) t\<rparr>"
  by (simp add: parseExplicit_def Let_def)

lemma slice_parts:
  assumes "explicit_text t"
  shows "t = slice_to (js_indexOf t (CHR '':'')) t @ CHR '':'' # slice_after (js_indexOf t (CHR '':'')) t"
    and "CHR '':'' \<notin> set (slice_to (js_indexOf t (CHR '':'')) t)"
proof -
  let ?n = "length (takeWhile (\<lambda>x. x \<noteq> CHR '':'') t)"
  have c: "CHR '':'' \<in> set t" using assms by (auto simp: explicit_text_def js_indexOf_def split: if_splits)
  have pre: "takeWhile (\<lambda>x. x \<noteq> CHR '':'') t = take ?n t" by (metis takeWhile_eq_take)
  have lt: "?n < length t"
  proof (rule ccontr)
    assume "\<not> ?n < length t"
    then have "takeWhile (\<lambda>x. x \<noteq> CHR '':'') t = t" using pre by (metis not_less take_all)
    then show False using c by (metis (mono_tags, lifting) set_takeWhileD)
  qed
  have hit: "t ! ?n = CHR '':''" using nth_length_takeWhile [OF lt] by simp
  show "t = slice_to (js_indexOf t (CHR '':'')) t @ CHR '':'' # slice_after (js_indexOf t (CHR '':'')) t"
    using c id_take_nth_drop [OF lt] hit by (simp add: js_indexOf_def slice_to_def slice_after_def nat_add_distrib)
  show "CHR '':'' \<notin> set (slice_to (js_indexOf t (CHR '':'')) t)"
    using c by (simp add: js_indexOf_def slice_to_def pre [symmetric]) (metis set_takeWhileD)
qed

text \<open>The names the parser knows by their prefix and the registry does not.\<close>

definition parser_only :: "aliases \<Rightarrow> string \<Rightarrow> bool" where
  "parser_only al m \<longleftrightarrow> map_get al m = None \<and> \<not> explicit_text m \<and> js_startsWith m ''o4''"

lemma o4_prefix:
  "js_startsWith m ''o4'' \<Longrightarrow> \<not> js_startsWith m ''claude'' \<and> \<not> js_startsWith m ''claude-'' \<and>
     \<not> js_startsWith m ''gpt-'' \<and> \<not> js_startsWith m ''o1'' \<and> \<not> js_startsWith m ''o3'' \<and>
     \<not> js_startsWith m ''gemini'' \<and> m \<notin> set object_prototype"
  by (auto simp: js_startsWith_iff object_prototype_def)

lemma claude_prefix: "js_startsWith m ''claude-'' \<Longrightarrow> js_startsWith m ''claude''"
  by (auto simp: js_startsWith_iff)

lemmas resolve_defs = resolveProvider_def parseModelString_def resolveAlias_def alias_lookup_def Let_def

text \<open>C33: The parser and the registry agree on model strings. As long as every alias stands for a
  text in \<open>provider:model\<close> form (the built-in ones do), whatever the parser makes of a model string
  is what the registry looks up and returns, and what the parser refuses the registry refuses.
  The only exceptions are names that start with \<open>o4\<close>, are no alias and have no provider prefix:
  the parser assigns them to \<open>openai\<close>, the registry cannot resolve them. An explicit text is split
  at its first colon without losing anything.\<close>

theorem resolve_follows_parse:
  assumes "\<forall>t \<in> set (map snd al). explicit_text t"
  shows "(case parseModelString al m of
      Inl e \<Rightarrow> isl (resolveProvider pf al ps m)
    | Inr pm \<Rightarrow> resolveProvider pf al ps m =
        (if parser_only al m then Inl (unresolved m)
         else registered_or pf ps (providerName pm) (modelId pm))) \<and>
    (explicit_text m \<longrightarrow> m = providerName (parseExplicit m) @ CHR '':'' # modelId (parseExplicit m))"
proof (intro conjI impI)
  show "explicit_text m \<Longrightarrow> m = providerName (parseExplicit m) @ CHR '':'' # modelId (parseExplicit m)"
    using slice_parts(1) [of m] by (simp add: resolve_explicit)
  show "case parseModelString al m of
      Inl e \<Rightarrow> isl (resolveProvider pf al ps m)
    | Inr pm \<Rightarrow> resolveProvider pf al ps m =
        (if parser_only al m then Inl (unresolved m)
         else registered_or pf ps (providerName pm) (modelId pm))"
  proof (cases "map_get al m")
    case (Some t)
    then have "explicit_text t" using assms by (auto simp: map_get_def dest!: map_of_SomeD)
    then show ?thesis
      using Some by (simp add: resolve_defs resolve_explicit explicit_not_Nil parser_only_def)
        (simp add: explicit_text_def)
  next
    case None
    show ?thesis
    proof (cases "explicit_text m \<or> m \<in> set object_prototype")
      case True
      then show ?thesis using None
        by (auto simp: resolve_defs parser_only_def resolve_explicit) (auto simp: explicit_text_def)
    next
      case False
      then have "\<not> js_indexOf m (CHR '':'') > 0" by (simp add: explicit_text_def)
      then show ?thesis using None False o4_prefix [of m] claude_prefix [of m]
        by (auto simp: resolve_defs parser_only_def PREFIX_RULES_def explicit_text_def)
    qed
  qed
qed

theorem resolve_follows_parse_witness:
  "resolveProvider ''linux'' MODEL_ALIASES [(''openai'', 5::nat)] ''gpt-5.5'' = Inr (5, ''gpt-5.5'') \<and>
   resolveProvider ''linux'' MODEL_ALIASES [(''openai'', 5::nat)] ''o4-turbo'' = Inl (unresolved ''o4-turbo'')"
proof -
  note at = resolve_follows_parse [where pf = "''linux''" and ps = "[(''openai'', 5::nat)]", OF default_aliases_explicit]
  have "parseModelString MODEL_ALIASES ''gpt-5.5'' = Inr \<lparr>providerName = ''openai'', modelId = ''gpt-5.5''\<rparr>"
    "parseModelString MODEL_ALIASES ''o4-turbo'' = Inr \<lparr>providerName = ''openai'', modelId = ''o4-turbo''\<rparr>"
    "\<not> parser_only MODEL_ALIASES ''gpt-5.5''" "parser_only MODEL_ALIASES ''o4-turbo''"
    by (simp_all add: resolve_defs map_get_def MODEL_ALIASES_def object_prototype_def js_indexOf_def
        PREFIX_RULES_def parser_only_def explicit_text_def)
  with at [where m = "''gpt-5.5''"] at [where m = "''o4-turbo''"] show ?thesis
    by (simp add: registered_or_def map_get_def)
qed

end
