(* ===== verification/Retry.thy ===== *)
theory Retry
  imports Errors
begin

text \<open>
  The retry layer of the providers (\<open>provider/retry.ts\<close>): \<open>withRetry\<close> around one call and
  \<open>retryableStream\<close> around a stream. What the code observes of its surroundings is a state of
  type \<open>'w\<close>: the wrapped function, the random source, the timer and the abort signal read it and
  move it on. \<open>timer P ms w\<close> waits and says whether the abort event came first. The log of a run
  has an entry per call of the function and per \<open>onRetry\<close> callback.

  Numbers are exact rationals; \<open>maxRetries\<close> is a finite integer. The \<open>onRetry\<close> callback does not
  throw, and each stream of a factory is finite.
\<close>

record RetryConfig =
  maxRetries :: int
  baseDelayMs :: rat
  maxDelayMs :: rat
  retryableStatusCodes :: "nat list"

definition DEFAULT_RETRY_CONFIG :: RetryConfig where
  "DEFAULT_RETRY_CONFIG =
     \<lparr>maxRetries = 3, baseDelayMs = 1000, maxDelayMs = 60000,
      retryableStatusCodes = [429, 500, 502, 503, 529]\<rparr>"

record RetryAttemptInfo =
  ri_attempt :: int
  ri_maxRetries :: int
  ri_delayMs :: rat
  ri_error :: js_thrown
  ri_statusCode :: "nat option"

record 'w platform =
  random :: "'w \<Rightarrow> rat \<times> 'w"
  timer :: "rat \<Rightarrow> 'w \<Rightarrow> bool \<times> 'w"

type_synonym 'w signal = "('w \<Rightarrow> bool) option"

definition is_aborted :: "'w signal \<Rightarrow> 'w \<Rightarrow> bool" where
  "is_aborted sig w = (case sig of None \<Rightarrow> False | Some f \<Rightarrow> f w)"

definition aborted_error :: js_thrown where
  "aborted_error = ThrownError ''Error'' ''Aborted''"

section \<open>Helpers\<close>

fun isRetryable :: "js_thrown \<Rightarrow> RetryConfig \<Rightarrow> bool" where
  "isRetryable (ThrownProvider e) cfg = (case pe_statusCode e of
       None \<Rightarrow> True
     | Some c \<Rightarrow> c \<in> set (retryableStatusCodes cfg))"
| "isRetryable (ThrownType m) cfg = js_includes m ''fetch''"
| "isRetryable e cfg = False"

fun retry_after :: "js_thrown \<Rightarrow> rat option" where
  "retry_after (ThrownProvider e) = pe_retryAfterMs e"
| "retry_after e = None"

fun status_of :: "js_thrown \<Rightarrow> nat option" where
  "status_of (ThrownProvider e) = pe_statusCode e"
| "status_of e = None"

definition computeDelay :: "'w platform \<Rightarrow> int \<Rightarrow> js_thrown \<Rightarrow> RetryConfig \<Rightarrow> 'w \<Rightarrow> rat \<times> 'w" where
  "computeDelay P attempt err cfg w = (case retry_after err of
       Some a \<Rightarrow> (min a (maxDelayMs cfg), w)
     | None \<Rightarrow>
         (let baseDelay = min (baseDelayMs cfg * 2 ^ nat (attempt - 1)) (maxDelayMs cfg);
              (r, w') = random P w;
              jitter = r * (1 / 4) * baseDelay
          in (of_int (floor (baseDelay + jitter)), w')))"

definition sleep :: "'w platform \<Rightarrow> rat \<Rightarrow> 'w signal \<Rightarrow> 'w \<Rightarrow> bool \<times> 'w" where
  "sleep P ms sig w =
     (if is_aborted sig w then (True, w)
      else let (ab, w') = timer P ms w in (sig \<noteq> None \<and> ab, w'))"

definition retry_info :: "int \<Rightarrow> RetryConfig \<Rightarrow> rat \<Rightarrow> js_thrown \<Rightarrow> RetryAttemptInfo" where
  "retry_info attempt cfg d e =
     \<lparr>ri_attempt = attempt, ri_maxRetries = maxRetries cfg, ri_delayMs = d,
      ri_error = as_error e, ri_statusCode = status_of e\<rparr>"

section \<open>The two loops\<close>

datatype 'a retry_event = Called "js_thrown + 'a" | OnRetry RetryAttemptInfo

function retry_loop ::
  "'w platform \<Rightarrow> RetryConfig \<Rightarrow> ('w \<Rightarrow> (js_thrown + 'a) \<times> 'w) \<Rightarrow> 'w signal \<Rightarrow> int \<Rightarrow> js_thrown \<Rightarrow> 'w
     \<Rightarrow> (js_thrown + 'a) \<times> 'a retry_event list \<times> 'w" where
  "retry_loop P cfg fn sig attempt lastError w =
     (if attempt > maxRetries cfg + 1 then (Inl lastError, [], w)
      else if is_aborted sig w then (Inl aborted_error, [], w)
      else (case fn w of
          (Inr v, w1) \<Rightarrow> (Inr v, [Called (Inr v)], w1)
        | (Inl e, w1) \<Rightarrow>
            (if attempt > maxRetries cfg \<or> \<not> isRetryable e cfg
             then (Inl (as_error e), [Called (Inl e)], w1)
             else (case computeDelay P attempt e cfg w1 of (d, w2) \<Rightarrow>
               (case sleep P d sig w2 of (ab, w3) \<Rightarrow>
                 (if ab then (Inl aborted_error, [Called (Inl e), OnRetry (retry_info attempt cfg d e)], w3)
                  else (case retry_loop P cfg fn sig (attempt + 1) (as_error e) w3 of (res, evs, w4) \<Rightarrow>
                    (res, Called (Inl e) # OnRetry (retry_info attempt cfg d e) # evs, w4))))))))"
  by pat_completeness auto
termination
  by (relation "measure (\<lambda>(P, cfg, fn, sig, attempt, _). nat (maxRetries cfg + 2 - attempt))") auto

declare retry_loop.simps [simp del]

definition withRetry ::
  "'w platform \<Rightarrow> ('w \<Rightarrow> (js_thrown + 'a) \<times> 'w) \<Rightarrow> RetryConfig \<Rightarrow> 'w signal \<Rightarrow> 'w
     \<Rightarrow> (js_thrown + 'a) \<times> 'a retry_event list \<times> 'w" where
  "withRetry P fn cfg sig w = retry_loop P cfg fn sig 1 ThrownUndefined w"

text \<open>A stream of the factory: the values it yields and how it ends.\<close>

type_synonym ('w, 'v) factory = "'w \<Rightarrow> 'v list \<times> (js_thrown + unit) \<times> 'w"

function stream_retry_loop ::
  "'w platform \<Rightarrow> RetryConfig \<Rightarrow> ('w, 'v) factory \<Rightarrow> 'w signal \<Rightarrow> int \<Rightarrow> js_thrown \<Rightarrow> 'w
     \<Rightarrow> (js_thrown + unit) \<times> 'v list \<times> unit retry_event list \<times> 'w" where
  "stream_retry_loop P cfg gen sig attempt lastError w =
     (if attempt > maxRetries cfg + 1 then (Inl lastError, [], [], w)
      else if is_aborted sig w then (Inl aborted_error, [], [], w)
      else (case gen w of
          (ys, Inr u, w1) \<Rightarrow> (Inr (), ys, [Called (Inr ())], w1)
        | (ys, Inl e, w1) \<Rightarrow>
            (if attempt > maxRetries cfg then (Inl (as_error e), ys, [Called (Inl e)], w1)
             else if \<not> isRetryable e cfg then (Inl (as_error e), ys, [Called (Inl e)], w1)
             else (case computeDelay P attempt e cfg w1 of (d, w2) \<Rightarrow>
               (case sleep P d sig w2 of (ab, w3) \<Rightarrow>
                 (if ab then (Inl aborted_error, ys, [Called (Inl e), OnRetry (retry_info attempt cfg d e)], w3)
                  else (case stream_retry_loop P cfg gen sig (attempt + 1) (as_error e) w3 of (res, zs, evs, w4) \<Rightarrow>
                    (res, ys @ zs, Called (Inl e) # OnRetry (retry_info attempt cfg d e) # evs, w4))))))))"
  by pat_completeness auto
termination
  by (relation "measure (\<lambda>(P, cfg, gen, sig, attempt, _). nat (maxRetries cfg + 2 - attempt))") auto

declare stream_retry_loop.simps [simp del]

definition retryableStream ::
  "'w platform \<Rightarrow> ('w, 'v) factory \<Rightarrow> RetryConfig \<Rightarrow> 'w signal \<Rightarrow> 'w
     \<Rightarrow> (js_thrown + unit) \<times> 'v list \<times> unit retry_event list \<times> 'w" where
  "retryableStream P gen cfg sig w = stream_retry_loop P cfg gen sig 1 ThrownUndefined w"

section \<open>Runs of the loop\<close>

primrec calls_of :: "'a retry_event list \<Rightarrow> (js_thrown + 'a) list" where
  "calls_of [] = []"
| "calls_of (e # es) = (case e of Called r \<Rightarrow> [r] | OnRetry _ \<Rightarrow> []) @ calls_of es"

primrec infos_of :: "'a retry_event list \<Rightarrow> RetryAttemptInfo list" where
  "infos_of [] = []"
| "infos_of (e # es) = (case e of Called _ \<Rightarrow> [] | OnRetry i \<Rightarrow> [i]) @ infos_of es"

text \<open>A failure after which the loop goes on, as long as attempts are left.\<close>

definition goes_on :: "RetryConfig \<Rightarrow> js_thrown + 'a \<Rightarrow> bool" where
  "goes_on cfg r = (case r of Inl e \<Rightarrow> isRetryable e cfg | Inr _ \<Rightarrow> False)"

definition settled :: "js_thrown + 'a \<Rightarrow> js_thrown + 'a" where
  "settled r = (case r of Inl e \<Rightarrow> Inl (as_error e) | Inr v \<Rightarrow> Inr v)"

text \<open>
  The contract of a run that has \<open>n\<close> attempts left: the calls, the callbacks and the result.
\<close>

definition run_ok :: "RetryConfig \<Rightarrow> bool \<Rightarrow> nat \<Rightarrow> (js_thrown + 'a) list \<Rightarrow> js_thrown + 'a \<Rightarrow> bool" where
  "run_ok cfg sg n cs res \<longleftrightarrow>
     length cs \<le> n \<and> list_all (goes_on cfg) (butlast cs) \<and>
     (sg \<and> res = Inl aborted_error \<and> list_all (goes_on cfg) cs \<or>
      cs \<noteq> [] \<and> res = settled (last cs) \<and> (goes_on cfg (last cs) \<longrightarrow> length cs = n))"

lemma run_ok_Cons:
  assumes "run_ok cfg sg n cs res" "goes_on cfg c" "0 < n \<or> res = Inl aborted_error"
  shows "run_ok cfg sg (Suc n) (c # cs) res"
  using assms by (cases cs) (auto simp: run_ok_def)

lemma run_ok_single: "(goes_on cfg c \<Longrightarrow> n = 1) \<Longrightarrow> 0 < n \<Longrightarrow> run_ok cfg sg n [c] (settled c)"
  by (auto simp: run_ok_def)

lemma retry_loop_cases [consumes 1, case_names exhausted aborted called interrupted again]:
  assumes "retry_loop P cfg fn sig a le w = (res, evs, w')"
  obtains "a > maxRetries cfg + 1" "res = Inl le" "evs = []" "w' = w"
  | "a \<le> maxRetries cfg + 1" "is_aborted sig w" "res = Inl aborted_error" "evs = []" "w' = w"
  | r where "a \<le> maxRetries cfg + 1" "\<not> is_aborted sig w" "fn w = (r, w')" "res = settled r" "evs = [Called r]"
      "a > maxRetries cfg \<or> \<not> goes_on cfg r"
  | e w1 d w2 where "a \<le> maxRetries cfg" "fn w = (Inl e, w1)" "isRetryable e cfg"
      "computeDelay P a e cfg w1 = (d, w2)" "sleep P d sig w2 = (True, w')" "res = Inl aborted_error"
      "evs = [Called (Inl e), OnRetry (retry_info a cfg d e)]"
  | e w1 d w2 w3 evs' where "a \<le> maxRetries cfg" "fn w = (Inl e, w1)" "isRetryable e cfg"
      "computeDelay P a e cfg w1 = (d, w2)"
      "retry_loop P cfg fn sig (a + 1) (as_error e) w3 = (res, evs', w')"
      "evs = Called (Inl e) # OnRetry (retry_info a cfg d e) # evs'"
proof -
  note run = assms [unfolded retry_loop.simps [of P cfg fn sig a le w]]
  consider "a > maxRetries cfg + 1" | "a \<le> maxRetries cfg + 1" "is_aborted sig w"
    | "a \<le> maxRetries cfg + 1" "\<not> is_aborted sig w" by linarith
  then show ?thesis
  proof cases
    case 1
    then show ?thesis using run by (intro that(1)) simp_all
  next
    case 2
    then show ?thesis using run by (intro that(2)) simp_all
  next
    case 3
    obtain r w1 where f: "fn w = (r, w1)" by (metis surj_pair)
    show ?thesis
    proof (cases "\<exists>e. r = Inl e \<and> a \<le> maxRetries cfg \<and> isRetryable e cfg")
      case False
      then show ?thesis
        using run 3 f by (cases r; intro that(3) [of r]) (auto simp: settled_def goes_on_def split: if_splits)
    next
      case True
      then obtain e where e: "r = Inl e" "a \<le> maxRetries cfg" "isRetryable e cfg" by blast
      obtain d w2 where d: "computeDelay P a e cfg w1 = (d, w2)" by fastforce
      obtain ab w3 where s: "sleep P d sig w2 = (ab, w3)" by fastforce
      show ?thesis
      proof (cases ab)
        case True
        then show ?thesis using run 3 f e d s by (intro that(4)) auto
      next
        case False
        then show ?thesis using run 3 f e d s that(5) by (auto split: prod.splits)
      qed
    qed
  qed
qed

lemma aborts_need_signal: "is_aborted sig w \<Longrightarrow> sig \<noteq> None" "sleep P d sig w = (True, w') \<Longrightarrow> sig \<noteq> None"
  by (cases sig; auto simp: is_aborted_def sleep_def split: prod.splits)+

text \<open>The number of attempts left is the measure of the loop.\<close>

lemma attempts_left:
  "a \<le> maxRetries cfg \<Longrightarrow>
     \<exists>n. nat (maxRetries cfg + 2 - a) = Suc n \<and> nat (maxRetries cfg + 2 - (a + 1)) = n \<and> 0 < n"
  by (intro exI [of _ "nat (maxRetries cfg + 1 - a)"]) auto

lemma retry_loop_run:
  "retry_loop P cfg fn sig a le w = (res, evs, w') \<Longrightarrow> a \<le> maxRetries cfg + 1 \<Longrightarrow>
     run_ok cfg (sig \<noteq> None) (nat (maxRetries cfg + 2 - a)) (calls_of evs) res"
proof (induction "nat (maxRetries cfg + 2 - a)" arbitrary: a le w res evs w' rule: less_induct)
  case less
  from less.prems(1) show ?case
  proof (cases rule: retry_loop_cases)
    case (called r)
    then show ?thesis using run_ok_single [of cfg r _ "sig \<noteq> None"] by (auto simp: goes_on_def)
  next
    case (again e w1 d w2 w3 evs')
    then obtain n where n: "nat (maxRetries cfg + 2 - a) = Suc n" "nat (maxRetries cfg + 2 - (a + 1)) = n" "0 < n"
      using attempts_left by blast
    have "run_ok cfg (sig \<noteq> None) n (calls_of evs') res"
      using less.hyps [OF _ again(5)] again(1) n by simp
    then show ?thesis using run_ok_Cons [of cfg "sig \<noteq> None" n "calls_of evs'" res "Inl e"] again n
      by (simp add: goes_on_def)
  qed (use less.prems in \<open>auto simp: run_ok_def goes_on_def dest: aborts_need_signal\<close>)
qed

text \<open>The callbacks: numbered from the first attempt on, one per failure that is retried.\<close>

definition delay_ok :: "RetryConfig \<Rightarrow> RetryAttemptInfo \<Rightarrow> bool" where
  "delay_ok cfg i \<longleftrightarrow> 0 \<le> ri_delayMs i \<and> ri_delayMs i \<le> 5 / 4 * maxDelayMs cfg"

lemma computeDelay_bounds:
  assumes "computeDelay P a e cfg w = (d, w')"
    and "\<And>w. 0 \<le> fst (random P w) \<and> fst (random P w) < 1"
    and "0 \<le> baseDelayMs cfg" "0 \<le> maxDelayMs cfg" "\<And>t. retry_after e = Some t \<Longrightarrow> 0 \<le> t"
  shows "0 \<le> d" "d \<le> 5 / 4 * maxDelayMs cfg" "retry_after e \<noteq> None \<Longrightarrow> d \<le> maxDelayMs cfg"
proof -
  show "retry_after e \<noteq> None \<Longrightarrow> d \<le> maxDelayMs cfg"
    using assms(1) by (auto simp: computeDelay_def)
  have "0 \<le> d \<and> d \<le> 5 / 4 * maxDelayMs cfg"
  proof (cases "retry_after e")
    case None
    let ?b = "min (baseDelayMs cfg * 2 ^ nat (a - 1)) (maxDelayMs cfg)"
    obtain r w1 where r: "random P w = (r, w1)" by fastforce
    have b: "0 \<le> ?b" "?b \<le> maxDelayMs cfg" and r01: "0 \<le> r" "r \<le> 1"
      using assms(2) [of w] assms(3,4) r by auto
    have d: "d = of_int (floor (?b + r * (1 / 4) * ?b))"
      using assms(1) None r by (auto simp: computeDelay_def Let_def)
    have "r * ?b \<le> 1 * ?b" "0 \<le> r * ?b" using b r01 by (simp_all add: mult_right_mono del: mult_1)
    then have j: "0 \<le> r * (1 / 4) * ?b" "r * (1 / 4) * ?b \<le> ?b / 4" by simp_all
    have up: "?b + r * (1 / 4) * ?b \<le> 5 / 4 * maxDelayMs cfg" using j(2) b(2) by linarith
    have lo: "0 \<le> ?b + r * (1 / 4) * ?b" using j(1) b(1) by linarith
    show ?thesis unfolding d using order_trans [OF of_int_floor_le up] lo by simp
  next
    case (Some t)
    then show ?thesis using assms(1,4) assms(5) [OF Some] by (auto simp: computeDelay_def)
  qed
  then show "0 \<le> d" "d \<le> 5 / 4 * maxDelayMs cfg" by auto
qed

lemma retry_loop_infos:
  assumes rnd: "\<And>w. 0 \<le> fst (random P w) \<and> fst (random P w) < 1"
    and cfg: "0 \<le> baseDelayMs cfg" "0 \<le> maxDelayMs cfg"
    and hint: "\<And>w e t. fst (fn w) = Inl e \<Longrightarrow> retry_after e = Some t \<Longrightarrow> 0 \<le> t"
  shows "retry_loop P cfg fn sig a le w = (res, evs, w') \<Longrightarrow>
    list_all (delay_ok cfg) (infos_of evs) \<and>
    map ri_attempt (infos_of evs) = map (\<lambda>k. a + int k) [0..<length (infos_of evs)] \<and>
    length (infos_of evs) \<le> length (calls_of evs)"
proof (induction "nat (maxRetries cfg + 2 - a)" arbitrary: a le w res evs w' rule: less_induct)
  case less
  have one: "delay_ok cfg (retry_info a cfg d e)"
    if "fn w = (Inl e, w1)" "computeDelay P a e cfg w1 = (d, w2)" for e w1 d w2
    using computeDelay_bounds [OF that(2) rnd cfg] hint [of w e] that(1)
    by (simp add: delay_ok_def retry_info_def)
  from less.prems show ?case
  proof (cases rule: retry_loop_cases)
    case (again e w1 d w2 w3 evs')
    have IH: "list_all (delay_ok cfg) (infos_of evs')"
      "map ri_attempt (infos_of evs') = map (\<lambda>k. a + 1 + int k) [0..<length (infos_of evs')]"
      "length (infos_of evs') \<le> length (calls_of evs')"
      using less.hyps [OF _ again(5)] again(1) by auto
    have "map (\<lambda>k. a + int k) [0..<Suc n] = a # map (\<lambda>k. a + 1 + int k) [0..<n]" for n
      unfolding upt_conv_Cons [OF zero_less_Suc] map_Suc_upt [symmetric] by simp
    then show ?thesis using IH one [OF again(2,4)] again(6) by (simp add: retry_info_def del: upt_Suc)
  qed (auto simp: one, simp add: retry_info_def)
qed


text \<open>A world that counts the calls: a fixed random number, timers that always fire.\<close>

definition counting :: "rat \<Rightarrow> nat platform" where
  "counting r = \<lparr>random = \<lambda>n. (r, n), timer = \<lambda>ms n. (False, n)\<rparr>"

definition http_failure :: "nat \<Rightarrow> js_thrown" where
  "http_failure st = ThrownProvider (classifyHttpError st None ''p''
     \<lparr>ho_message = None, ho_retryAfterMs = None, ho_headers = None\<rparr>)"

definition second_time_lucky :: "nat \<Rightarrow> (js_thrown + nat) \<times> nat" where
  "second_time_lucky n = (if n = 0 then Inl (http_failure 503) else Inr n, Suc n)"

lemma retry_after_http [simp]: "retry_after (http_failure st) = None"
  by (simp add: http_failure_def classify_fields)

lemma status_http [simp]: "status_of (http_failure st) = Some st"
  by (simp add: http_failure_def classify_fields)

lemma isRetryable_http: "isRetryable (http_failure st) cfg \<longleftrightarrow> st \<in> set (retryableStatusCodes cfg)"
  by (simp add: http_failure_def classify_fields)

lemma as_error_http [simp]: "as_error (http_failure st) = http_failure st"
  by (simp add: http_failure_def)

lemma sleep_counting [simp]: "sleep (counting r) d None n = (False, n)"
  by (simp add: sleep_def is_aborted_def counting_def)

lemma delay_counting:
  "computeDelay (counting r) a (http_failure st) cfg n =
     (of_int (floor (min (baseDelayMs cfg * 2 ^ nat (a - 1)) (maxDelayMs cfg) * (1 + r / 4))), n)"
  by (simp add: computeDelay_def counting_def Let_def algebra_simps)


section \<open>Streams\<close>

text \<open>
  Reading the stream as a call: the world also carries what the consumer has seen.
\<close>

definition with_output :: "'w platform \<Rightarrow> ('w \<times> 'v list) platform" where
  "with_output P =
     \<lparr>random = \<lambda>(w, ys). (case random P w of (r, w') \<Rightarrow> (r, w', ys)),
      timer = \<lambda>ms (w, ys). (case timer P ms w of (ab, w') \<Rightarrow> (ab, w', ys))\<rparr>"

definition signal_output :: "'w signal \<Rightarrow> ('w \<times> 'v list) signal" where
  "signal_output sig = map_option (\<lambda>f (w, ys). f w) sig"

definition drain :: "('w, 'v) factory \<Rightarrow> 'w \<times> 'v list \<Rightarrow> (js_thrown + unit) \<times> 'w \<times> 'v list" where
  "drain gen = (\<lambda>(w, ys). case gen w of (zs, r, w') \<Rightarrow> (r, w', ys @ zs))"

lemma drain_at [simp]: "drain gen (w, ys) = (case gen w of (zs, r, w') \<Rightarrow> (r, w', ys @ zs))"
  by (simp add: drain_def)

lemma aborted_output [simp]: "is_aborted (signal_output sig) (w, ys) = is_aborted sig w"
  by (cases sig) (simp_all add: is_aborted_def signal_output_def)

lemma delay_output [simp]:
  "computeDelay (with_output P) a e cfg (w, ys) = (case computeDelay P a e cfg w of (d, w') \<Rightarrow> (d, w', ys))"
  by (simp add: computeDelay_def with_output_def Let_def split: option.splits prod.splits)

lemma sleep_output [simp]:
  "sleep (with_output P) d (signal_output sig) (w, ys) = (case sleep P d sig w of (ab, w') \<Rightarrow> (ab, w', ys))"
  by (simp add: sleep_def) (simp add: with_output_def signal_output_def split: prod.splits)

lemma stream_retry_loop_cases [consumes 1, case_names exhausted aborted called interrupted again]:
  assumes "stream_retry_loop P cfg gen sig a le w = (res, zs, evs, w')"
  obtains "a > maxRetries cfg + 1" "res = Inl le" "zs = []" "evs = []" "w' = w"
  | "a \<le> maxRetries cfg + 1" "is_aborted sig w" "res = Inl aborted_error" "zs = []" "evs = []" "w' = w"
  | r where "a \<le> maxRetries cfg + 1" "\<not> is_aborted sig w" "gen w = (zs, r, w')" "res = settled r"
      "evs = [Called r]" "a > maxRetries cfg \<or> \<not> goes_on cfg r"
  | e w1 d w2 where "a \<le> maxRetries cfg" "\<not> is_aborted sig w" "gen w = (zs, Inl e, w1)" "isRetryable e cfg"
      "computeDelay P a e cfg w1 = (d, w2)" "sleep P d sig w2 = (True, w')" "res = Inl aborted_error"
      "evs = [Called (Inl e), OnRetry (retry_info a cfg d e)]"
  | e vs w1 d w2 w3 zs' evs' where "a \<le> maxRetries cfg" "\<not> is_aborted sig w" "gen w = (vs, Inl e, w1)"
      "isRetryable e cfg" "computeDelay P a e cfg w1 = (d, w2)" "sleep P d sig w2 = (False, w3)"
      "stream_retry_loop P cfg gen sig (a + 1) (as_error e) w3 = (res, zs', evs', w')"
      "zs = vs @ zs'" "evs = Called (Inl e) # OnRetry (retry_info a cfg d e) # evs'"
proof -
  note run = assms [unfolded stream_retry_loop.simps [of P cfg gen sig a le w]]
  consider "a > maxRetries cfg + 1" | "a \<le> maxRetries cfg + 1" "is_aborted sig w"
    | "a \<le> maxRetries cfg + 1" "\<not> is_aborted sig w" by linarith
  then show ?thesis
  proof cases
    case 1
    then show ?thesis using run by (intro that(1)) simp_all
  next
    case 2
    then show ?thesis using run by (intro that(2)) simp_all
  next
    case 3
    obtain vs r w1 where f: "gen w = (vs, r, w1)" by (metis prod_cases3)
    show ?thesis
    proof (cases "\<exists>e. r = Inl e \<and> a \<le> maxRetries cfg \<and> isRetryable e cfg")
      case False
      then show ?thesis
        using run 3 f by (cases r; intro that(3) [of r]) (auto simp: settled_def goes_on_def split: if_splits)
    next
      case True
      then obtain e where e: "r = Inl e" "a \<le> maxRetries cfg" "isRetryable e cfg" by blast
      obtain d w2 where d: "computeDelay P a e cfg w1 = (d, w2)" by fastforce
      obtain ab w3 where s: "sleep P d sig w2 = (ab, w3)" by fastforce
      show ?thesis
      proof (cases ab)
        case True
        then show ?thesis using run 3 f e d s by (intro that(4)) auto
      next
        case False
        then show ?thesis using run 3 f e d s that(5) by (auto split: prod.splits)
      qed
    qed
  qed
qed

lemma stream_retry_loop_retry:
  "stream_retry_loop P cfg gen sig a le w = (res, zs, evs, w') \<Longrightarrow>
     retry_loop (with_output P) cfg (drain gen) (signal_output sig) a le (w, ys) = (res, evs, w', ys @ zs)"
proof (induction "nat (maxRetries cfg + 2 - a)" arbitrary: a le w ys res zs evs w' rule: less_induct)
  case less
  note unfold = retry_loop.simps [of "with_output P" cfg "drain gen" "signal_output sig" a le "(w, ys)"]
  from less.prems show ?case
  proof (cases rule: stream_retry_loop_cases)
    case (called r)
    then show ?thesis by (cases r) (auto simp: unfold settled_def goes_on_def)
  next
    case (again e vs w1 d w2 w3 zs' evs')
    have "retry_loop (with_output P) cfg (drain gen) (signal_output sig) (a + 1) (as_error e) (w3, ys @ vs) =
        (res, evs', w', (ys @ vs) @ zs')"
      using less.hyps [OF _ again(7)] again(1) by simp
    then show ?thesis using again by (simp add: unfold)
  qed (simp_all add: unfold)
qed

text \<open>C26: \<open>retryableStream\<close> is \<open>withRetry\<close> of draining the stream: same result, same calls and
  callbacks, same final state. What the consumer sees is the concatenation of everything all
  attempts yielded, so after a restart the values of the failed attempts come again.\<close>

theorem retryableStream_is_withRetry:
  "case retryableStream P gen cfg sig w of (res, ys, evs, w') \<Rightarrow>
     withRetry (with_output P) (drain gen) cfg (signal_output sig) (w, []) = (res, evs, w', ys)"
  using stream_retry_loop_retry [of P cfg gen sig 1 ThrownUndefined w _ _ _ _ "[]"]
  by (auto simp: retryableStream_def withRetry_def split: prod.splits)

text \<open>An interrupted stream, repeated: the consumer gets the first chunk twice.\<close>

definition cut_then_whole :: "(nat, nat) factory" where
  "cut_then_whole n = (if n = 0 then ([7], Inl (http_failure 529), Suc n) else ([7, 8], Inr (), Suc n))"

lemma restart_repeats_chunks:
  "fst (snd (retryableStream (counting 0) cut_then_whole DEFAULT_RETRY_CONFIG None 0)) = [7, 7, 8]"
  by (simp add: retryableStream_def stream_retry_loop.simps cut_then_whole_def is_aborted_def isRetryable_http
      delay_counting DEFAULT_RETRY_CONFIG_def)

section \<open>Classified errors\<close>

text \<open>How the classifier and the default retry configuration fit. A classified HTTP error keeps
  its status; it is marked recoverable exactly for 408, 409, 429 and the 5xx codes; the retry
  layer repeats exactly 429, 500, 502, 503 and 529, all of them recoverable. So the timeouts 408
  and 504, the conflict 409 and the other 5xx codes are recoverable and still never repeated.\<close>

theorem classified_errors_retry:
  "pe_statusCode (classifyHttpError st b p opts) = Some st \<and>
   (pe_recoverable (classifyHttpError st b p opts) \<longleftrightarrow> st \<in> {408, 409, 429} \<or> 500 \<le> st \<and> st < 600) \<and>
   (isRetryable (ThrownProvider (classifyHttpError st b p opts)) DEFAULT_RETRY_CONFIG
      \<longleftrightarrow> st \<in> {429, 500, 502, 503, 529}) \<and>
   (pe_recoverable (classifyHttpError st b p opts) \<and>
    \<not> isRetryable (ThrownProvider (classifyHttpError st b p opts)) DEFAULT_RETRY_CONFIG
      \<longleftrightarrow> st \<in> {408, 409, 501} \<or> 504 \<le> st \<and> st < 600 \<and> st \<noteq> 529)"
  unfolding classify_recoverable
  by (simp add: classify_fields DEFAULT_RETRY_CONFIG_def) presburger

end
