(* ===== verification/Fallback.thy ===== *)
theory Fallback
  imports Router Retry
begin

text \<open>
  The fallback chain (\<open>provider/fallback.ts\<close>): a primary adapter and a list of model strings that
  are tried in order when a stream fails. Adapters are parameters: a stream of an adapter takes a
  request and the state of the world and gives the chunks it yields, how it ends, and the state
  after it. The clock is part of the world. Beside the result the model returns how each attempt
  ended, in order. Strings hold characters up to 0xFF: the arrow of the summary line (U+2192) is
  written as two characters, and the \<open>cause\<close> of the final error is not kept.
\<close>

record 'r StreamRequest =
  rq_model :: string
  rq_rest :: 'r

record ('w, 'r, 'c) StreamAdapter =
  sa_name :: string
  sa_stream :: "'r StreamRequest \<Rightarrow> 'w \<Rightarrow> 'c list \<times> (js_thrown + unit) \<times> 'w"

record FallbackAttempt =
  fa_model :: string
  fa_provider :: string
  fa_error :: string
  fa_timestamp :: int

record ('w, 'r, 'c) FallbackProvider =
  primary :: "('w, 'r, 'c) StreamAdapter"
  fallbackModels :: "string list"
  maxAttempts :: int
  fp_retryableStatusCodes :: "nat list"
  fp_name :: string
  fp_attempts :: "FallbackAttempt list"

definition NON_RETRYABLE_PATTERNS :: "string list" where
  "NON_RETRYABLE_PATTERNS =
     [''invalid_api_key'', ''authentication'', ''invalid_request'', ''not_found_error'',
      ''permission'', ''400'', ''401'', ''403'', ''404'']"

definition RETRYABLE_PATTERNS :: "string list" where
  "RETRYABLE_PATTERNS =
     [''rate_limit'', ''overloaded'', ''timeout'', ''econnrefused'', ''econnreset'',
      ''socket hang up'', ''fetch failed'']"

definition createFallbackProvider ::
  "('w, 'r, 'c) StreamAdapter \<Rightarrow> string list \<Rightarrow> int option \<Rightarrow> nat list option \<Rightarrow> ('w, 'r, 'c) FallbackProvider" where
  "createFallbackProvider prim models mx codes =
     \<lparr>primary = prim, fallbackModels = models,
      maxAttempts = (case mx of None \<Rightarrow> 3 | Some n \<Rightarrow> n),
      fp_retryableStatusCodes = (case codes of None \<Rightarrow> [429, 500, 502, 503, 529] | Some cs \<Rightarrow> cs),
      fp_name = sa_name prim @ ''+fallback'', fp_attempts = []\<rparr>"

definition fallback_isRetryable :: "nat list \<Rightarrow> string \<Rightarrow> bool" where
  "fallback_isRetryable codes text =
     (let message = js_toLowerCase text in
      if list_ex (js_includes message) NON_RETRYABLE_PATTERNS then False
      else if list_ex (\<lambda>code. js_includes message (show_nat code)) codes then True
      else if list_ex (js_includes message) RETRYABLE_PATTERNS then True
      else True)"

definition js_tail_slice :: "int \<Rightarrow> 'a list \<Rightarrow> 'a list" where
  "js_tail_slice n xs = (if 0 < n then drop (length xs - nat n) xs else drop (nat (- n)) xs)"

definition attempt_line :: "FallbackAttempt \<Rightarrow> string" where
  "attempt_line a = ''  '' @ fa_provider a @ '':'' @ fa_model a @ '' -> '' @ fa_error a"

definition all_failed :: "int \<Rightarrow> nat \<Rightarrow> FallbackAttempt list \<Rightarrow> js_thrown" where
  "all_failed mx attemptCount atts = ThrownError ''Error''
     (''All provider attempts failed ('' @ show_nat attemptCount @ '' attempts):'' @ [CHR 0x0A] @
      js_join [CHR 0x0A] (map attempt_line (js_tail_slice mx atts)))"

record ('w, 'r, 'c) fallback_env =
  fe_platform :: string
  fe_aliases :: aliases
  fe_providers :: "('w, 'r, 'c) StreamAdapter providers"
  fe_now :: "'w \<Rightarrow> int"

text \<open>One fallback attempt: resolving the model string can fail as well.\<close>

definition attempt_stream ::
  "('w, 'r, 'c) fallback_env \<Rightarrow> 'r StreamRequest \<Rightarrow> string \<Rightarrow> 'w \<Rightarrow> 'c list \<times> (js_thrown + unit) \<times> 'w" where
  "attempt_stream env request modelString w =
     (case resolveProvider (fe_platform env) (fe_aliases env) (fe_providers env) modelString of
        Inl e \<Rightarrow> ([], Inl e, w)
      | Inr (provider, model) \<Rightarrow> sa_stream provider (request\<lparr>rq_model := model\<rparr>) w)"

fun fallback_loop ::
  "('w, 'r, 'c) fallback_env \<Rightarrow> ('w, 'r, 'c) FallbackProvider \<Rightarrow> 'r StreamRequest \<Rightarrow> nat \<Rightarrow> string list
     \<Rightarrow> FallbackAttempt list \<Rightarrow> 'w
     \<Rightarrow> (js_thrown + unit) \<times> 'c list \<times> FallbackAttempt list \<times> (js_thrown + unit) list \<times> 'w" where
  "fallback_loop env fp request attemptCount [] atts w =
     (Inl (all_failed (maxAttempts fp) attemptCount atts), [], atts, [], w)"
| "fallback_loop env fp request attemptCount (m # ms) atts w =
     (if int attemptCount \<ge> maxAttempts fp
      then (Inl (all_failed (maxAttempts fp) attemptCount atts), [], atts, [], w)
      else (case attempt_stream env request m w of
          (cs, Inr u, w1) \<Rightarrow> (Inr (), cs, atts, [Inr ()], w1)
        | (cs, Inl e, w1) \<Rightarrow>
            (let atts' = atts @ [\<lparr>fa_model = m, fa_provider = hd (js_split (CHR '':'') m),
                                  fa_error = thrown_message (as_error e), fa_timestamp = fe_now env w1\<rparr>]
             in if \<not> fallback_isRetryable (fp_retryableStatusCodes fp) (thrown_message (as_error e))
                then (Inl (as_error e), cs, atts', [Inl e], w1)
                else (case fallback_loop env fp request (Suc attemptCount) ms atts' w1 of
                    (res, cs', atts'', os, w2) \<Rightarrow> (res, cs @ cs', atts'', Inl e # os, w2)))))"

definition fallback_stream ::
  "('w, 'r, 'c) fallback_env \<Rightarrow> ('w, 'r, 'c) FallbackProvider \<Rightarrow> 'r StreamRequest \<Rightarrow> 'w
     \<Rightarrow> (js_thrown + unit) \<times> 'c list \<times> ('w, 'r, 'c) FallbackProvider \<times> (js_thrown + unit) list \<times> 'w" where
  "fallback_stream env fp request w =
     (case sa_stream (primary fp) request w of
        (cs, Inr u, w1) \<Rightarrow> (Inr (), cs, fp, [Inr ()], w1)
      | (cs, Inl e, w1) \<Rightarrow>
          (if \<not> fallback_isRetryable (fp_retryableStatusCodes fp) (thrown_message (as_error e))
           then (Inl (as_error e), cs, fp, [Inl e], w1)
           else (let atts' = fp_attempts fp @ [\<lparr>fa_model = rq_model request, fa_provider = sa_name (primary fp),
                     fa_error = thrown_message (as_error e), fa_timestamp = fe_now env w1\<rparr>]
                 in case fallback_loop env fp request 1 (fallbackModels fp) atts' w1 of
                      (res, cs', atts'', os, w2) \<Rightarrow>
                        (res, cs @ cs', fp\<lparr>fp_attempts := atts''\<rparr>, Inl e # os, w2))))"

section \<open>When the chain goes on\<close>

definition no_hard_mark :: "string \<Rightarrow> bool" where
  "no_hard_mark text \<longleftrightarrow> (\<forall>p \<in> set NON_RETRYABLE_PATTERNS. \<not> js_includes (js_toLowerCase text) p)"

lemma fallback_isRetryable_iff: "fallback_isRetryable codes text \<longleftrightarrow> no_hard_mark text"
  by (auto simp: fallback_isRetryable_def no_hard_mark_def list_ex_iff Let_def)

text \<open>
  How a chain that still has \<open>n\<close> attempts ended, from how the attempts ended: all but the last
  failed softly; the chain reports the last one if it succeeded or failed hard, and otherwise the
  summary, which needs the models or the attempts to be used up.
\<close>

definition soft :: "js_thrown + unit \<Rightarrow> bool" where
  "soft r = (case r of Inl e \<Rightarrow> no_hard_mark (thrown_message e) | Inr _ \<Rightarrow> False)"

lemma soft_simps [simp]: "\<not> soft (Inr u)" "soft (Inl e) = no_hard_mark (thrown_message e)"
  by (simp_all add: soft_def)

lemma fallback_loop_run:
  "fallback_loop env fp req k ms atts w = (res, cs, atts', os, w') \<Longrightarrow>
     length os \<le> length ms \<and> (os \<noteq> [] \<longrightarrow> int (k + length os) \<le> maxAttempts fp) \<and>
     list_all soft (butlast os) \<and>
     (if os \<noteq> [] \<and> \<not> soft (last os) then res = settled (last os)
      else res = Inl (all_failed (maxAttempts fp) (k + length os) atts') \<and>
        (length os = length ms \<or> int (k + length os) \<ge> maxAttempts fp)) \<and>
     length atts' = length atts + length (filter isl os)"
proof (induction ms arbitrary: k atts w res cs atts' os w')
  case Nil
  then show ?case by auto
next
  case (Cons m ms)
  show ?case
  proof (cases "int k \<ge> maxAttempts fp")
    case True
    then show ?thesis using Cons.prems by auto
  next
    case lt: False
    obtain zs r w1 where a: "attempt_stream env req m w = (zs, r, w1)" by (metis prod_cases3)
    show ?thesis
    proof (cases "\<exists>e. r = Inl e \<and> no_hard_mark (thrown_message e)")
      case False
      then show ?thesis using Cons.prems lt a
        by (cases r) (auto simp: fallback_isRetryable_iff settled_def Let_def)
    next
      case True
      then obtain e where e: "r = Inl e" "no_hard_mark (thrown_message e)" by blast
      obtain cs' os' where l: "os = Inl e # os'" "cs = zs @ cs'"
        "fallback_loop env fp req (Suc k) ms (atts @ [\<lparr>fa_model = m, fa_provider = hd (js_split (CHR '':'') m),
           fa_error = thrown_message e, fa_timestamp = fe_now env w1\<rparr>]) w1 = (res, cs', atts', os', w')"
        using Cons.prems lt a e by (auto simp: fallback_isRetryable_iff Let_def split: prod.splits)
      show ?thesis using Cons.IH [OF l(3)] lt e(2) unfolding l(1)
        by (cases os') (auto simp: isl_def)
    qed
  qed
qed

text \<open>C35: The fallback chain. Whether a failure moves on to the next model depends on its message
  alone: it does unless the message contains one of the nine hard marks, whatever status codes are
  configured. The primary is always tried; at most one attempt per listed model follows, and at
  most \<open>maxAttempts\<close> in all when fallbacks are tried. Every attempt but the last failed softly. The
  chain returns how the last attempt ended if that was a success or a hard failure; otherwise it
  throws the summary with the number of attempts, and only when the models or the attempts were
  used up.\<close>

theorem fallback_chain_contract:
  assumes "fallback_stream env fp request w = (res, cs, fp', os, w')"
  shows "(fallback_isRetryable codes text \<longleftrightarrow> no_hard_mark text) \<and>
    os \<noteq> [] \<and> length os \<le> Suc (length (fallbackModels fp)) \<and> int (length os) \<le> max 1 (maxAttempts fp) \<and>
    list_all soft (butlast os) \<and> (\<not> soft (last os) \<longrightarrow> res = settled (last os)) \<and>
    (soft (last os) \<longrightarrow> res = Inl (all_failed (maxAttempts fp) (length os) (fp_attempts fp')) \<and>
           (length os = Suc (length (fallbackModels fp)) \<or> int (length os) \<ge> maxAttempts fp))"
proof -
  obtain zs r w1 where p: "sa_stream (primary fp) request w = (zs, r, w1)" by (metis prod_cases3)
  have "os \<noteq> [] \<and> length os \<le> Suc (length (fallbackModels fp)) \<and> int (length os) \<le> max 1 (maxAttempts fp) \<and>
    list_all soft (butlast os) \<and> (\<not> soft (last os) \<longrightarrow> res = settled (last os)) \<and>
    (soft (last os) \<longrightarrow> res = Inl (all_failed (maxAttempts fp) (length os) (fp_attempts fp')) \<and>
           (length os = Suc (length (fallbackModels fp)) \<or> int (length os) \<ge> maxAttempts fp))"
  proof (cases "\<exists>e. r = Inl e \<and> no_hard_mark (thrown_message e)")
    case False
    then show ?thesis using assms p
      by (cases r) (auto simp: fallback_stream_def fallback_isRetryable_iff settled_def)
  next
    case True
    then obtain e where e: "r = Inl e" "no_hard_mark (thrown_message e)" by blast
    obtain atts0 cs' os' where l: "os = Inl e # os'"
      "fallback_loop env fp request 1 (fallbackModels fp) atts0 w1 = (res, cs', fp_attempts fp', os', w')"
      using assms p e by (auto simp: fallback_stream_def fallback_isRetryable_iff Let_def split: prod.splits)
    show ?thesis using fallback_loop_run [OF l(2)] e(2) unfolding l(1) by (cases os') auto
  qed
  then show ?thesis using fallback_isRetryable_iff by blast
qed

text \<open>A chain whose primary is overloaded and whose only fallback answers.\<close>

definition busy_primary :: "(nat, unit, nat) StreamAdapter" where
  "busy_primary = \<lparr>sa_name = ''anthropic'', sa_stream = \<lambda>rq n. ([], Inl (ThrownError ''Error'' ''529 overloaded''), Suc n)\<rparr>"

definition calm_backup :: "(nat, unit, nat) StreamAdapter" where
  "calm_backup = \<lparr>sa_name = ''openai'', sa_stream = \<lambda>rq n. ([1, 2], Inr (), Suc n)\<rparr>"

definition sample_env :: "(nat, unit, nat) fallback_env" where
  "sample_env = \<lparr>fe_platform = ''linux'', fe_aliases = [], fe_providers = [(''openai'', calm_backup)], fe_now = int\<rparr>"

theorem fallback_chain_contract_witness:
  "\<exists>res cs fp' os w'. fallback_stream sample_env (createFallbackProvider busy_primary [''openai:gpt-4o''] None None)
       \<lparr>rq_model = ''m'', rq_rest = ()\<rparr> 0 = (res, cs, fp', os, w') \<and> res = Inr () \<and> cs = [1, 2] \<and> length os = 2 \<and>
     \<not> fallback_isRetryable [503] ''503: timed out after 4000 ms''"
proof -
  let ?fp = "createFallbackProvider busy_primary [''openai:gpt-4o''] None None"
  have hard: "\<not> no_hard_mark ''503: timed out after 4000 ms''" "no_hard_mark ''529 overloaded''"
    by (simp_all add: no_hard_mark_def NON_RETRYABLE_PATTERNS_def js_toLowerCase_def lower_char_def)
  have at: "attempt_stream sample_env \<lparr>rq_model = ''m'', rq_rest = ()\<rparr> ''openai:gpt-4o'' 1 = ([1, 2], Inr (), 2)"
    by (simp add: attempt_stream_def sample_env_def calm_backup_def resolve_defs map_get_def object_prototype_def
        js_indexOf_def registered_or_def slice_to_def slice_after_def)
  have run: "fallback_stream sample_env ?fp \<lparr>rq_model = ''m'', rq_rest = ()\<rparr> 0 =
      (Inr (), [1, 2], ?fp\<lparr>fp_attempts := [\<lparr>fa_model = ''m'', fa_provider = ''anthropic'',
         fa_error = ''529 overloaded'', fa_timestamp = 1\<rparr>]\<rparr>,
       [Inl (ThrownError ''Error'' ''529 overloaded''), Inr ()], 2)"
    using hard(2) at
    by (simp add: fallback_stream_def createFallbackProvider_def busy_primary_def fallback_isRetryable_iff)
      (simp add: sample_env_def)
  show ?thesis using run fallback_chain_contract [OF run, of "[503]" "''503: timed out after 4000 ms''"] hard(1)
    by auto
qed

end
