(* ===== verification/Json.thy ===== *)
theory Json
  imports JsValue
begin

text \<open>
  \<open>JSON.parse\<close> on texts of Latin-1 code units, as far as the sources use it, and that it reads
  back what \<open>JSON.stringify\<close> prints. A number keeps the text JavaScript prints for it; the
  argument \<open>num\<close> maps a literal to that text. An escape above 0xFF has no character here and is
  an error of its own, distinct from a syntax error. Every call of the parser uses up one unit of
  fuel, and \<open>json_parse\<close> starts with enough for any text.

  Property order is that of JavaScript: array indices first, in ascending order, then the other
  names in the order of their first occurrence; a later value of a name replaces the earlier one.
\<close>

datatype json_error = SyntaxError | BeyondLatin1 | OutOfFuel

section \<open>Objects\<close>

definition index_key :: "string \<Rightarrow> nat option" where
  "index_key k =
     (let n = digits_value 10 k in
      if all_digits 10 k \<and> (k = ''0'' \<or> hd k \<noteq> CHR ''0'') \<and> n < 4294967295 then Some n else None)"

fun insert_index :: "nat \<Rightarrow> string \<Rightarrow> json \<Rightarrow> obj \<Rightarrow> obj" where
  "insert_index n k v [] = [(k, v)]"
| "insert_index n k v ((k', v') # kvs) =
     (case index_key k' of
        Some n' \<Rightarrow> if n' < n then (k', v') # insert_index n k v kvs else (k, v) # (k', v') # kvs
      | None \<Rightarrow> (k, v) # (k', v') # kvs)"

fun replace_prop :: "string \<Rightarrow> json \<Rightarrow> obj \<Rightarrow> obj" where
  "replace_prop k v [] = []"
| "replace_prop k v ((k', v') # kvs) = (if k' = k then (k, v) # kvs else (k', v') # replace_prop k v kvs)"

definition set_prop :: "string \<Rightarrow> json \<Rightarrow> obj \<Rightarrow> obj" where
  "set_prop k v kvs =
     (if k \<in> fst ` set kvs then replace_prop k v kvs
      else (case index_key k of Some n \<Rightarrow> insert_index n k v kvs | None \<Rightarrow> kvs @ [(k, v)]))"

text \<open>Property order: an index never comes after another name nor after a greater index.\<close>

definition key_before :: "string \<Rightarrow> string \<Rightarrow> bool" where
  "key_before a b = (case index_key b of
       None \<Rightarrow> True
     | Some n \<Rightarrow> (case index_key a of None \<Rightarrow> False | Some m \<Rightarrow> m < n))"

definition prop_ordered :: "obj \<Rightarrow> bool" where
  "prop_ordered kvs \<longleftrightarrow> distinct (map fst kvs) \<and> sorted_wrt key_before (map fst kvs)"

definition obj_of :: "(string \<times> json) list \<Rightarrow> obj" where
  "obj_of kvs = foldl (\<lambda>o' (k, v). set_prop k v o') [] kvs"

lemma index_text:
  "all_digits 10 k \<Longrightarrow> k = ''0'' \<or> hd k \<noteq> CHR ''0'' \<Longrightarrow>
     show_nat (digits_value 10 k) = k \<and> (k \<noteq> ''0'' \<longrightarrow> 0 < digits_value 10 k)"
proof (induction k rule: rev_induct)
  case (snoc c k)
  obtain d where d: "digit_value c = Some d" "d < 10"
    using snoc.prems(1) by (auto simp: all_digits_def is_radix_digit_def split: option.splits)
  have c: "CHR ''0'' \<le> c \<and> c \<le> CHR ''9''" using all_digits_chars [OF snoc.prems(1), of c] by simp
  then have dv: "d = of_char c - 48" "48 \<le> (of_char c :: nat)" using d(1) by (auto simp: digit_value_def less_eq_char_def)
  then have ch: "char_of (48 + d) = c" by simp
  have "0 < d" if "c \<noteq> CHR ''0''"
  proof (rule ccontr)
    assume "\<not> 0 < d"
    then have "(of_char c :: nat) = of_char (CHR ''0'')" using dv by simp
    then show False using that by (simp only: of_char_eq_iff)
  qed
  show ?case
  proof (cases "k = []")
    case True
    then show ?thesis using d ch \<open>c \<noteq> CHR ''0'' \<Longrightarrow> 0 < d\<close>
      by (auto simp: digits_value_def show_nat.simps [of d])
  next
    case False
    have k: "all_digits 10 k" "hd k \<noteq> CHR ''0''" "k \<noteq> ''0''"
      using snoc.prems False by (auto simp: all_digits_def)
    then have IH: "show_nat (digits_value 10 k) = k" "0 < digits_value 10 k" using snoc.IH by auto
    then show ?thesis using d ch by (subst show_nat.simps) (simp add: digits_value_snoc)
  qed
qed (simp add: all_digits_def)

lemma index_key_inject: "index_key a = Some n \<Longrightarrow> index_key b = Some n \<Longrightarrow> a = b"
  using index_text [of a] index_text [of b] by (auto simp: index_key_def Let_def split: if_splits)

lemma keys_replace [simp]: "map fst (replace_prop k v kvs) = map fst kvs"
  by (induction k v kvs rule: replace_prop.induct) auto

lemma insert_index_keys: "set (map fst (insert_index n k v kvs)) = insert k (set (map fst kvs))"
  by (induction n k v kvs rule: insert_index.induct) (auto split: option.splits)

lemma insert_index_ordered:
  assumes "prop_ordered kvs" "index_key k = Some n" "k \<notin> fst ` set kvs"
  shows "prop_ordered (insert_index n k v kvs)"
  using assms
proof (induction n k v kvs rule: insert_index.induct)
  case (2 n k v k' v' kvs)
  have tail: "prop_ordered kvs" "k \<notin> fst ` set kvs" using 2(2,4) by (auto simp: prop_ordered_def)
  show ?case
  proof (cases "\<exists>n'. index_key k' = Some n' \<and> n' < n")
    case True
    then obtain n' where n': "index_key k' = Some n'" "n' < n" by blast
    have "prop_ordered (insert_index n k v kvs)" using 2(1) [OF n'] tail 2(3) by simp
    moreover have "\<forall>x \<in> set (map fst (insert_index n k v kvs)). key_before k' x"
      using 2(2,3) n' unfolding insert_index_keys by (auto simp: prop_ordered_def key_before_def)
    moreover have "k' \<notin> set (map fst (insert_index n k v kvs))"
      using 2(2,4) unfolding insert_index_keys by (auto simp: prop_ordered_def)
    ultimately show ?thesis using n' by (simp add: prop_ordered_def)
  next
    case False
    have before: "key_before k k'"
      using False 2(3,4) index_key_inject [of k n k'] by (fastforce simp: key_before_def split: option.splits)
    have "key_before k x" if "x \<in> set (map fst kvs)" for x
    proof -
      have "key_before k' x" using that 2(2) by (auto simp: prop_ordered_def)
      then show ?thesis using before 2(3) by (fastforce simp: key_before_def split: option.splits)
    qed
    then show ?thesis using False before 2(2,4)
      by (auto simp: prop_ordered_def split: option.splits)
  qed
qed (simp add: prop_ordered_def)

lemma set_prop_ordered: "prop_ordered kvs \<Longrightarrow> prop_ordered (set_prop k v kvs)"
  using insert_index_ordered [of kvs k]
  by (auto simp: set_prop_def sorted_wrt_append key_before_def split: option.splits)
    (auto simp: prop_ordered_def sorted_wrt_append key_before_def)

lemma obj_of_ordered: "prop_ordered (obj_of kvs)"
proof -
  have "prop_ordered o' \<Longrightarrow> prop_ordered (foldl (\<lambda>o' (k, v). set_prop k v o') o' kvs)" for o'
    by (induction kvs arbitrary: o') (auto simp: set_prop_ordered)
  then show ?thesis by (simp add: obj_of_def prop_ordered_def)
qed

lemma set_prop_values:
  "list_all (\<lambda>(k, v). P v) kvs \<Longrightarrow> P v \<Longrightarrow> list_all (\<lambda>(k, v). P v) (set_prop k v kvs)"
proof -
  assume a: "list_all (\<lambda>(k, v). P v) kvs" "P v"
  have "list_all (\<lambda>(k, v). P v) (replace_prop k v kvs)"
    using a by (induction k v kvs rule: replace_prop.induct) auto
  moreover have "list_all (\<lambda>(k, v). P v) (insert_index n k v kvs)" for n
    using a by (induction n k v kvs rule: insert_index.induct) (auto split: option.splits)
  ultimately show ?thesis using a by (auto simp: set_prop_def split: option.splits)
qed

lemma obj_of_values: "list_all (\<lambda>(k, v). P v) kvs \<Longrightarrow> list_all (\<lambda>(k, v). P v) (obj_of kvs)"
proof -
  have "list_all (\<lambda>(k, v). P v) kvs \<Longrightarrow> list_all (\<lambda>(k, v). P v) o' \<Longrightarrow>
      list_all (\<lambda>(k, v). P v) (foldl (\<lambda>o' (k, v). set_prop k v o') o' kvs)" for o'
    by (induction kvs arbitrary: o') (auto simp: set_prop_values)
  then show "list_all (\<lambda>(k, v). P v) kvs \<Longrightarrow> ?thesis" by (simp add: obj_of_def)
qed

lemma insert_index_last:
  "\<forall>x \<in> set (map fst kvs). \<exists>m. index_key x = Some m \<and> m < n \<Longrightarrow> insert_index n k v kvs = kvs @ [(k, v)]"
  by (induction n k v kvs rule: insert_index.induct) auto

lemma set_prop_last: "prop_ordered (kvs @ [(k, v)]) \<Longrightarrow> set_prop k v kvs = kvs @ [(k, v)]"
  using insert_index_last [of kvs]
  by (fastforce simp: prop_ordered_def set_prop_def sorted_wrt_append key_before_def split: option.splits)

lemma obj_of_id: "prop_ordered kvs \<Longrightarrow> obj_of kvs = kvs"
proof (induction kvs rule: rev_induct)
  case (snoc kv kvs)
  have "prop_ordered kvs" using snoc.prems by (simp add: prop_ordered_def sorted_wrt_append)
  then have "foldl (\<lambda>o' (k, v). set_prop k v o') [] kvs = kvs" using snoc.IH by (simp add: obj_of_def)
  then show ?case using snoc.prems by (cases kv) (simp add: obj_of_def set_prop_last)
qed (simp add: obj_of_def)

section \<open>Lexing\<close>

definition is_json_space :: "char \<Rightarrow> bool" where
  "is_json_space c \<longleftrightarrow> c \<in> {CHR 0x09, CHR 0x0A, CHR 0x0D, CHR 0x20}"

definition skip_ws :: "string \<Rightarrow> string" where
  "skip_ws s = dropWhile is_json_space s"

definition hex_value :: "char \<Rightarrow> nat option" where
  "hex_value c =
     (if CHR ''0'' \<le> c \<and> c \<le> CHR ''9'' then Some (of_char c - 48)
      else if CHR ''a'' \<le> c \<and> c \<le> CHR ''f'' then Some (of_char c - 87)
      else if CHR ''A'' \<le> c \<and> c \<le> CHR ''F'' then Some (of_char c - 55)
      else None)"

definition short_escape :: "char \<Rightarrow> char option" where
  "short_escape c =
     (if c = CHR 0x22 \<or> c = CHR 0x5C \<or> c = CHR ''/'' then Some c
      else if c = CHR ''b'' then Some (CHR 0x08)
      else if c = CHR ''f'' then Some (CHR 0x0C)
      else if c = CHR ''n'' then Some (CHR 0x0A)
      else if c = CHR ''r'' then Some (CHR 0x0D)
      else if c = CHR ''t'' then Some (CHR 0x09)
      else None)"

definition lex_unit :: "char \<Rightarrow> char \<Rightarrow> char \<Rightarrow> char \<Rightarrow> json_error + char" where
  "lex_unit a b c d = (case (hex_value a, hex_value b, hex_value c, hex_value d) of
       (Some i, Some j, Some k, Some l) \<Rightarrow>
         if i = 0 \<and> j = 0 then Inr (char_of (16 * k + l)) else Inl BeyondLatin1
     | _ \<Rightarrow> Inl SyntaxError)"

definition cons_unit :: "char \<Rightarrow> json_error + string \<times> string \<Rightarrow> json_error + string \<times> string" where
  "cons_unit u res = (case res of Inl er \<Rightarrow> Inl er | Inr (t, q) \<Rightarrow> Inr (u # t, q))"

text \<open>The characters of a string literal up to its closing quote, and the rest.\<close>

fun lex_string :: "string \<Rightarrow> json_error + string \<times> string" where
  "lex_string [] = Inl SyntaxError"
| "lex_string (c # cs) =
     (if c = CHR 0x22 then Inr ([], cs)
      else if c = CHR 0x5C then
        (case cs of
           [] \<Rightarrow> Inl SyntaxError
         | e # es \<Rightarrow>
             (if e = CHR ''u'' then
                (case es of
                   h1 # h2 # h3 # h4 # r \<Rightarrow>
                     (case lex_unit h1 h2 h3 h4 of
                        Inl er \<Rightarrow> Inl er
                      | Inr u \<Rightarrow> cons_unit u (lex_string r))
                 | _ \<Rightarrow> Inl SyntaxError)
              else (case short_escape e of
                  None \<Rightarrow> Inl SyntaxError
                | Some u \<Rightarrow> cons_unit u (lex_string es))))
      else if of_char c < (32::nat) then Inl SyntaxError
      else cons_unit c (lex_string cs))"

definition take_digits :: "string \<Rightarrow> string \<times> string" where
  "take_digits s = (takeWhile is_digit_char s, dropWhile is_digit_char s)"

definition lex_int :: "string \<Rightarrow> (string \<times> string) option" where
  "lex_int s = (case s of
       [] \<Rightarrow> None
     | c # cs \<Rightarrow> if c = CHR ''0'' then Some ([c], cs)
                 else if is_digit_char c then Some (take_digits s) else None)"

definition lex_frac :: "string \<Rightarrow> (string \<times> string) option" where
  "lex_frac s = (case s of
       c # cs \<Rightarrow> if c = CHR ''.'' then (let (ds, r) = take_digits cs in if ds = [] then None else Some (c # ds, r))
                 else Some ([], s)
     | [] \<Rightarrow> Some ([], []))"

definition lex_sign :: "string \<Rightarrow> string \<times> string" where
  "lex_sign s = (case s of c # cs \<Rightarrow> if c = CHR ''+'' \<or> c = CHR ''-'' then ([c], cs) else ([], s) | [] \<Rightarrow> ([], []))"

definition lex_exp :: "string \<Rightarrow> (string \<times> string) option" where
  "lex_exp s = (case s of
       c # cs \<Rightarrow> if is_exp_mark c
                 then (let (sg, r0) = lex_sign cs; (ds, r) = take_digits r0
                       in if ds = [] then None else Some (c # sg @ ds, r))
                 else Some ([], s)
     | [] \<Rightarrow> Some ([], []))"

definition lex_minus :: "string \<Rightarrow> string \<times> string" where
  "lex_minus s = (case s of c # cs \<Rightarrow> if c = CHR ''-'' then ([c], cs) else ([], s) | [] \<Rightarrow> ([], []))"

definition lex_number :: "string \<Rightarrow> (string \<times> string) option" where
  "lex_number s =
     (let (m, s0) = lex_minus s in
      case lex_int s0 of None \<Rightarrow> None | Some (i, s1) \<Rightarrow>
      (case lex_frac s1 of None \<Rightarrow> None | Some (f, s2) \<Rightarrow>
      (case lex_exp s2 of None \<Rightarrow> None | Some (e, s3) \<Rightarrow> Some (m @ i @ f @ e, s3))))"

section \<open>The parser\<close>

definition expect :: "char \<Rightarrow> string \<Rightarrow> string option" where
  "expect c s = (case skip_ws s of [] \<Rightarrow> None | d # ds \<Rightarrow> if d = c then Some ds else None)"

fun parse_value :: "(string \<Rightarrow> string) \<Rightarrow> nat \<Rightarrow> string \<Rightarrow> json_error + json \<times> string"
  and parse_elements :: "(string \<Rightarrow> string) \<Rightarrow> nat \<Rightarrow> string \<Rightarrow> json_error + json list \<times> string"
  and parse_members :: "(string \<Rightarrow> string) \<Rightarrow> nat \<Rightarrow> string \<Rightarrow> json_error + (string \<times> json) list \<times> string" where
  "parse_value num 0 s = Inl OutOfFuel"
| "parse_value num (Suc n) s =
     (case skip_ws s of
        [] \<Rightarrow> Inl SyntaxError
      | c # cs \<Rightarrow>
          (if c = CHR 0x22 then
             (case lex_string cs of Inl e \<Rightarrow> Inl e | Inr (t, r) \<Rightarrow> Inr (JStr t, r))
           else if c = CHR ''['' then
             (case expect (CHR '']'') cs of
                Some r \<Rightarrow> Inr (JArr [], r)
              | None \<Rightarrow> (case parse_elements num n cs of Inl e \<Rightarrow> Inl e | Inr (vs, r) \<Rightarrow> Inr (JArr vs, r)))
           else if c = CHR ''{'' then
             (case expect (CHR ''}'') cs of
                Some r \<Rightarrow> Inr (JObj [], r)
              | None \<Rightarrow> (case parse_members num n cs of Inl e \<Rightarrow> Inl e | Inr (kvs, r) \<Rightarrow> Inr (JObj (obj_of kvs), r)))
           else if js_startsWith (c # cs) ''true'' then Inr (JBool True, drop 4 (c # cs))
           else if js_startsWith (c # cs) ''false'' then Inr (JBool False, drop 5 (c # cs))
           else if js_startsWith (c # cs) ''null'' then Inr (JNull, drop 4 (c # cs))
           else (case lex_number (c # cs) of None \<Rightarrow> Inl SyntaxError | Some (l, r) \<Rightarrow> Inr (JNum (num l), r))))"
| "parse_elements num 0 s = Inl OutOfFuel"
| "parse_elements num (Suc n) s =
     (case parse_value num n s of
        Inl e \<Rightarrow> Inl e
      | Inr (v, r) \<Rightarrow>
          (case expect (CHR '','') r of
             Some r' \<Rightarrow> (case parse_elements num n r' of Inl e \<Rightarrow> Inl e | Inr (vs, q) \<Rightarrow> Inr (v # vs, q))
           | None \<Rightarrow> (case expect (CHR '']'') r of Some r' \<Rightarrow> Inr ([v], r') | None \<Rightarrow> Inl SyntaxError)))"
| "parse_members num 0 s = Inl OutOfFuel"
| "parse_members num (Suc n) s =
     (case expect (CHR 0x22) s of
        None \<Rightarrow> Inl SyntaxError
      | Some cs \<Rightarrow>
          (case lex_string cs of
             Inl e \<Rightarrow> Inl e
           | Inr (k, r0) \<Rightarrow>
               (case expect (CHR '':'') r0 of
                  None \<Rightarrow> Inl SyntaxError
                | Some r1 \<Rightarrow>
                    (case parse_value num n r1 of
                       Inl e \<Rightarrow> Inl e
                     | Inr (v, r) \<Rightarrow>
                         (case expect (CHR '','') r of
                            Some r' \<Rightarrow> (case parse_members num n r' of
                                Inl e \<Rightarrow> Inl e | Inr (kvs, q) \<Rightarrow> Inr ((k, v) # kvs, q))
                          | None \<Rightarrow> (case expect (CHR ''}'') r of
                                Some r' \<Rightarrow> Inr ([(k, v)], r') | None \<Rightarrow> Inl SyntaxError))))))"

definition json_parse :: "(string \<Rightarrow> string) \<Rightarrow> string \<Rightarrow> json_error + json" where
  "json_parse num s = (case parse_value num (2 * length s + 1) s of
       Inl e \<Rightarrow> Inl e
     | Inr (v, r) \<Rightarrow> if skip_ws r = [] then Inr v else Inl SyntaxError)"

section \<open>The fuel is enough\<close>

lemma skip_ws_length: "length (skip_ws s) \<le> length s"
  unfolding skip_ws_def by (rule length_dropWhile_le)

lemma expect_length: "expect c s = Some r \<Longrightarrow> length r < length s"
  using skip_ws_length [of s] by (auto simp: expect_def split: list.splits if_splits)

lemma cons_unit_simps [simp]:
  "cons_unit u res = Inl e \<longleftrightarrow> res = Inl e"
  "cons_unit u res = Inr (t, q) \<longleftrightarrow> (\<exists>t'. res = Inr (t', q) \<and> t = u # t')"
  "cons_unit u (Inr (t, q)) = Inr (u # t, q)"
  by (auto simp: cons_unit_def split: sum.splits)

declare lex_string.simps(2) [simp del]

lemma lex_string_length: "lex_string s = Inr (t, r) \<Longrightarrow> length r < length s"
proof (induction "length s" arbitrary: s t r rule: less_induct)
  case less
  then obtain c cs where s: "s = c # cs" by (cases s) auto
  have IH: "length r < length u" if "lex_string u = Inr (t, r)" "length u \<le> length cs" for u t r
    using less.hyps [of u] that s by simp
  show ?case using less.prems unfolding s lex_string.simps(2) [of c cs]
    by (auto split: if_splits list.splits sum.splits option.splits intro: less_SucI dest!: IH)
qed

lemma take_digits_parts: "take_digits s = (d, r) \<Longrightarrow> s = d @ r"
  by (auto simp: take_digits_def)

lemma lex_number_parts: "lex_number s = Some (l, r) \<Longrightarrow> s = l @ r \<and> l \<noteq> []"
proof -
  assume a: "lex_number s = Some (l, r)"
  obtain m s0 where m: "lex_minus s = (m, s0)" by fastforce
  obtain i s1 f s2 e where p: "lex_int s0 = Some (i, s1)" "lex_frac s1 = Some (f, s2)"
    "lex_exp s2 = Some (e, r)" "l = m @ i @ f @ e"
    using a m by (auto simp: lex_number_def split: option.splits)
  have "s = m @ s0" using m by (auto simp: lex_minus_def split: list.splits if_splits)
  moreover have "s0 = i @ s1 \<and> i \<noteq> []"
    using p(1) by (auto simp: lex_int_def take_digits_def split: list.splits if_splits)
  moreover have "s1 = f @ s2"
    using p(2) by (auto simp: lex_frac_def dest!: take_digits_parts split: list.splits if_splits prod.splits)
  moreover have "s2 = e @ r"
    using p(3) by (auto simp: lex_exp_def lex_sign_def dest!: take_digits_parts split: list.splits if_splits prod.splits)
  ultimately show ?thesis using p(4) by simp
qed

lemma lex_number_length: "lex_number s = Some (l, r) \<Longrightarrow> length r < length s"
  using lex_number_parts [of s l r] by auto

lemma lex_unit_error: "lex_unit a b c d \<noteq> Inl OutOfFuel"
  by (auto simp: lex_unit_def split: option.splits)

lemma lex_string_error: "lex_string s \<noteq> Inl OutOfFuel"
proof (induction s rule: lex_string.induct)
  case (2 c cs)
  show ?case unfolding lex_string.simps(2) [of c cs]
    by (auto split: if_splits list.splits sum.splits option.splits simp: lex_unit_error 2)
qed simp

lemma parse_length:
  "parse_value num n s = Inr (v, r) \<Longrightarrow> length r < length s"
  "parse_elements num n s = Inr (vs, r) \<Longrightarrow> length r < length s"
  "parse_members num n s = Inr (kvs, r) \<Longrightarrow> length r < length s"
proof (induction n arbitrary: s v vs kvs r)
  case (Suc n)
  {
    case 1
    then obtain c cs where c: "skip_ws s = c # cs" by (cases "skip_ws s") auto
    have le: "Suc (length cs) \<le> length s" using skip_ws_length [of s] c by simp
    show ?case
      using 1 c le
      by (auto split: if_splits sum.splits option.splits
          dest!: lex_string_length expect_length Suc.IH(2) Suc.IH(3) lex_number_length)
  next
    case 2
    then obtain v r0 where v: "parse_value num n s = Inr (v, r0)" by (auto split: sum.splits)
    show ?case
      using 2 v Suc.IH(1) [OF v] expect_length [of _ r0] Suc.IH(2)
      by (fastforce split: sum.splits option.splits)
  next
    case 3
    then obtain cs k r0 r1 v r2 where p: "expect (CHR 0x22) s = Some cs" "lex_string cs = Inr (k, r0)"
      "expect (CHR '':'') r0 = Some r1" "parse_value num n r1 = Inr (v, r2)"
      by (auto split: sum.splits option.splits)
    have "length r2 < length s"
      using expect_length [OF p(1)] lex_string_length [OF p(2)] expect_length [OF p(3)] Suc.IH(1) [OF p(4)] by linarith
    then show ?case using 3 p
      by (auto split: sum.splits option.splits dest!: expect_length Suc.IH(3))
  }
qed simp_all

lemma parse_fuel:
  "parse_value num n s = Inl OutOfFuel \<Longrightarrow> n \<le> 2 * length s"
  "parse_elements num n s = Inl OutOfFuel \<Longrightarrow> n \<le> 2 * length s + 1"
  "parse_members num n s = Inl OutOfFuel \<Longrightarrow> n \<le> 2 * length s + 1"
proof (induction n arbitrary: s)
  case (Suc n)
  {
    case 1
    then obtain c cs where c: "skip_ws s = c # cs" by (cases "skip_ws s") auto
    have le: "Suc (length cs) \<le> length s" using skip_ws_length [of s] c by simp
    show ?case
      using 1 c le lex_string_error [of cs] Suc.IH(2) [of cs] Suc.IH(3) [of cs]
      by (auto split: if_splits sum.splits option.splits)
  next
    case 2
    show ?case
    proof (cases "parse_value num n s")
      case (Inl e)
      then show ?thesis using 2 Suc.IH(1) by simp
    next
      case (Inr p)
      obtain v r0 where v: "p = (v, r0)" by (cases p)
      show ?thesis
        using 2 v Inr parse_length(1) [of num n s v r0] expect_length [of _ r0] Suc.IH(2)
        by (fastforce split: sum.splits option.splits)
    qed
  next
    case 3
    then obtain cs k r0 r1 where p: "expect (CHR 0x22) s = Some cs" "lex_string cs = Inr (k, r0)"
      "expect (CHR '':'') r0 = Some r1"
      using lex_string_error by (fastforce split: sum.splits option.splits)
    have lt: "length r1 < length s"
      using expect_length [OF p(1)] lex_string_length [OF p(2)] expect_length [OF p(3)] by linarith
    show ?case
    proof (cases "parse_value num n r1")
      case (Inl e)
      then show ?thesis using 3 p Suc.IH(1) [of r1] lt by auto
    next
      case (Inr q)
      obtain v r2 where v: "q = (v, r2)" by (cases q)
      show ?thesis
        using 3 p v Inr lt parse_length(1) [of num n r1 v r2] expect_length [of _ r2] Suc.IH(3)
        by (fastforce split: sum.splits option.splits)
    qed
  }
qed simp_all

lemma json_parse_total: "json_parse num s \<noteq> Inl OutOfFuel"
  using parse_fuel(1) [of num "2 * length s + 1" s] by (auto simp: json_parse_def split: sum.splits)

section \<open>Reading back what is printed\<close>

text \<open>
  The values \<open>JSON.parse\<close> can give: numbers in the form they are printed in, objects in property
  order without a repeated name.
\<close>

fun json_ok :: "(string \<Rightarrow> string) \<Rightarrow> json \<Rightarrow> bool" where
  "json_ok num (JNum n) \<longleftrightarrow> lex_number n = Some (n, []) \<and> num n = n"
| "json_ok num (JArr vs) \<longleftrightarrow> list_all (json_ok num) vs"
| "json_ok num (JObj kvs) \<longleftrightarrow> prop_ordered kvs \<and> list_all (\<lambda>(k, v). json_ok num v) kvs"
| "json_ok num v \<longleftrightarrow> True"

text \<open>
  A value as it is after printing and reading: numbers must be in printed form, the properties of every object
  are put in property order and the last of a repeated name counts.
\<close>

fun json_nums :: "(string \<Rightarrow> string) \<Rightarrow> json \<Rightarrow> bool" where
  "json_nums num (JNum n) \<longleftrightarrow> lex_number n = Some (n, []) \<and> num n = n"
| "json_nums num (JArr vs) \<longleftrightarrow> list_all (json_nums num) vs"
| "json_nums num (JObj kvs) \<longleftrightarrow> list_all (\<lambda>(k, v). json_nums num v) kvs"
| "json_nums num v \<longleftrightarrow> True"

fun json_norm :: "json \<Rightarrow> json" where
  "json_norm (JArr vs) = JArr (map json_norm vs)"
| "json_norm (JObj kvs) = JObj (obj_of (map (\<lambda>(k, v). (k, json_norm v)) kvs))"
| "json_norm v = v"

lemma json_ok_norm: "json_ok num v \<Longrightarrow> json_nums num v \<and> json_norm v = v"
proof (induction v)
  case (JArr vs)
  then show ?case by (auto simp: list_all_iff intro: map_idI)
next
  case (JObj kvs)
  have e: "json_nums num v \<and> json_norm v = v" if "(k, v) \<in> set kvs" for k v
    using JObj.IH [of "(k, v)" v] JObj.prems that by (auto simp: list_all_iff snds.simps)
  then have "map (\<lambda>(k, v). (k, json_norm v)) kvs = kvs" by (auto intro: map_idI)
  then show ?case using e JObj.prems by (auto simp: list_all_iff obj_of_id)
qed auto

lemma hex_value_digit: "n < 16 \<Longrightarrow> hex_value (hex_digit n) = Some n"
proof -
  assume "n < 16"
  moreover have "list_all (\<lambda>m. hex_value (hex_digit m) = Some m) [0..<16]" by code_simp
  ultimately show ?thesis by (simp add: list_all_iff)
qed

lemma lex_unit_hex:
  "k < 16 \<Longrightarrow> l < 16 \<Longrightarrow> lex_unit (CHR ''0'') (CHR ''0'') (hex_digit k) (hex_digit l) = Inr (char_of (16 * k + l))"
proof -
  assume "k < 16" "l < 16"
  moreover have "hex_value (CHR ''0'') = Some 0" by (simp add: hex_value_def)
  ultimately show ?thesis by (simp add: lex_unit_def hex_value_digit)
qed

lemma char_hex: "char_of (16 * (of_char c div 16) + of_char c mod (16::nat)) = c"
  by (simp only: mult_div_mod_eq char_of_char)

lemma lex_escape: "lex_string (json_escape c @ s) = cons_unit c (lex_string s)"
proof (cases "of_char c < (32::nat) \<and> c \<notin> {CHR 0x08, CHR 0x09, CHR 0x0A, CHR 0x0C, CHR 0x0D}")
  case True
  define k l where kl: "k = of_char c div (16::nat)" "l = of_char c mod (16::nat)"
  have "k < 16" "l < 16" using True by (auto simp: kl)
  then have u: "lex_unit (CHR ''0'') (CHR ''0'') (hex_digit k) (hex_digit l) = Inr c"
    using lex_unit_hex [of k l] char_hex [of c, folded kl] by simp
  have lt: "of_char c < (32::nat)" using True by blast
  have "c \<noteq> CHR 0x22" by (rule notI) (use lt in simp)
  moreover have "c \<noteq> CHR 0x5C" by (rule notI) (use lt in simp)
  ultimately have "json_escape c = [CHR 0x5C, CHR ''u'', CHR ''0'', CHR ''0'', hex_digit k, hex_digit l]"
    using True by (simp add: json_escape_def kl)
  then show ?thesis using u by (simp add: lex_string.simps(2))
next
  case False
  then show ?thesis by (auto simp: json_escape_def lex_string.simps(2) short_escape_def)
qed

lemma lex_printed: "lex_string (concat (map json_escape t) @ CHR 0x22 # r) = Inr (t, r)"
proof (induction t)
  case Nil
  then show ?case by (simp add: lex_string.simps(2))
next
  case (Cons c t)
  have "lex_string (json_escape c @ (concat (map json_escape t) @ CHR 0x22 # r)) = Inr (c # t, r)"
    unfolding lex_escape Cons.IH by simp
  then show ?case by simp
qed

text \<open>A number literal ends where a delimiter follows.\<close>

definition delimited :: "string \<Rightarrow> bool" where
  "delimited r \<longleftrightarrow> r = [] \<or> hd r \<in> {CHR '','', CHR '']'', CHR ''}''}"

lemma delimited_simps [simp]:
  "delimited []" "delimited (CHR '','' # r)" "delimited (CHR '']'' # r)" "delimited (CHR ''}'' # r)"
  by (simp_all add: delimited_def)

lemma delimited_not: "delimited (c # r) \<Longrightarrow> \<not> is_digit_char c \<and> c \<noteq> CHR ''.'' \<and> \<not> is_exp_mark c"
  by (auto simp: delimited_def is_digit_char_def is_exp_mark_def less_eq_char_def)

lemma take_digits_append:
  "take_digits s = (d, q) \<Longrightarrow> delimited r \<Longrightarrow> take_digits (s @ r) = (d, q @ r)"
proof -
  assume a: "take_digits s = (d, q)" "delimited r"
  have "takeWhile is_digit_char r = [] \<and> dropWhile is_digit_char r = r"
    using a(2) delimited_not by (cases r) auto
  then show ?thesis using a(1) by (induction s arbitrary: d q) (auto simp: take_digits_def split: if_splits)
qed

lemma lex_frac_append: "lex_frac s = Some (f, q) \<Longrightarrow> delimited r \<Longrightarrow> lex_frac (s @ r) = Some (f, q @ r)"
  by (cases s; cases r)
    (auto simp: lex_frac_def delimited_not dest: take_digits_append split: if_splits prod.splits)

lemma lex_sign_append:
  "lex_sign s = (g, q) \<Longrightarrow> q \<noteq> [] \<Longrightarrow> lex_sign (s @ r) = (g, q @ r)"
  by (cases s) (auto simp: lex_sign_def split: if_splits)

lemma lex_exp_append: "lex_exp s = Some (e, q) \<Longrightarrow> delimited r \<Longrightarrow> lex_exp (s @ r) = Some (e, q @ r)"
proof (cases s)
  case Nil
  then show "lex_exp s = Some (e, q) \<Longrightarrow> delimited r \<Longrightarrow> ?thesis"
    by (cases r) (auto simp: lex_exp_def delimited_not)
next
  case (Cons c cs)
  assume a: "lex_exp s = Some (e, q)" "delimited r"
  show ?thesis
  proof (cases "is_exp_mark c")
    case True
    obtain g r0 where g: "lex_sign cs = (g, r0)" by fastforce
    obtain ds r1 where d: "take_digits r0 = (ds, r1)" by fastforce
    have "ds \<noteq> []" "e = c # g @ ds" "q = r1" using a(1) Cons True g d by (auto simp: lex_exp_def split: if_splits)
    moreover from this have "r0 \<noteq> []" using d by (auto simp: take_digits_def)
    ultimately show ?thesis using Cons True lex_sign_append [OF g] take_digits_append [OF d a(2)]
      by (simp add: lex_exp_def)
  next
    case False
    then show ?thesis using a Cons by (auto simp: lex_exp_def)
  qed
qed

lemma lex_int_append: "lex_int s = Some (i, q) \<Longrightarrow> delimited r \<Longrightarrow> lex_int (s @ r) = Some (i, q @ r)"
  using take_digits_append [of s i q r]
  by (cases s) (auto simp: lex_int_def split: if_splits)

lemma lex_number_append: "lex_number s = Some (l, q) \<Longrightarrow> delimited r \<Longrightarrow> lex_number (s @ r) = Some (l, q @ r)"
proof -
  assume a: "lex_number s = Some (l, q)" "delimited r"
  obtain m s0 where m: "lex_minus s = (m, s0)" by fastforce
  obtain i s1 f s2 e where p: "lex_int s0 = Some (i, s1)" "lex_frac s1 = Some (f, s2)"
    "lex_exp s2 = Some (e, q)" "l = m @ i @ f @ e"
    using a(1) m by (auto simp: lex_number_def split: option.splits)
  have "s \<noteq> []" using lex_number_parts [OF a(1)] by auto
  then have "lex_minus (s @ r) = (m, s0 @ r)" using m by (cases s) (auto simp: lex_minus_def split: if_splits)
  then show ?thesis
    using p lex_int_append [OF p(1) a(2)] lex_frac_append [OF p(2) a(2)] lex_exp_append [OF p(3) a(2)]
    by (simp add: lex_number_def)
qed

lemma lex_number_first:
  assumes "lex_number (c # cs) = Some x" shows "c = CHR ''-'' \<or> is_digit_char c"
  using assms by (auto simp: lex_number_def lex_minus_def lex_int_def is_digit_char_def split: if_splits option.splits)

lemma skip_first: "\<not> is_json_space c \<Longrightarrow> skip_ws (c # cs) = c # cs"
  by (simp add: skip_ws_def)

lemma expect_first: "\<not> is_json_space d \<Longrightarrow> expect c (d # ds) = (if d = c then Some ds else None)"
  by (simp add: expect_def skip_first)

lemma json_space_simps [simp]:
  "\<not> is_json_space (CHR 0x22)" "\<not> is_json_space (CHR '','')" "\<not> is_json_space (CHR '':'')"
  "\<not> is_json_space (CHR ''['')" "\<not> is_json_space (CHR '']'')" "\<not> is_json_space (CHR ''{'')"
  "\<not> is_json_space (CHR ''}'')"
  by (simp_all add: is_json_space_def)

text \<open>What a printed value starts with: never white space nor a closing bracket.\<close>

lemma printed_first:
  assumes "json_nums num v"
  obtains c cs where "json_stringify v = c # cs" "\<not> is_json_space c" "c \<noteq> CHR '']''"
proof (cases v)
  case (JNum n)
  then have l: "lex_number n = Some (n, [])" using assms by simp
  then obtain c cs where n: "n = c # cs" using lex_number_parts [OF l] by (cases n) auto
  have "c = CHR ''-'' \<or> is_digit_char c" using lex_number_first [of c cs] l n by simp
  then have "\<not> is_json_space c" "c \<noteq> CHR '']''"
    by (auto simp: is_json_space_def is_digit_char_def less_eq_char_def)
  then show ?thesis using that [of c cs] JNum n by simp
next
  case (JBool b)
  then show ?thesis using that by (cases b) (auto simp: is_json_space_def)
qed (use that in \<open>auto simp: json_string_def is_json_space_def\<close>)

lemma parse_printed_string:
  "parse_value num (Suc n) (json_string t @ r) = Inr (JStr t, r)"
  using lex_printed [of t r] by (simp add: json_string_def skip_first)

lemma parse_printed_number:
  assumes "lex_number l = Some (l, [])" "num l = l" "delimited r"
  shows "parse_value num (Suc n) (l @ r) = Inr (JNum l, r)"
proof -
  obtain c cs where l: "l = c # cs" using lex_number_parts [OF assms(1)] by (cases l) auto
  have c: "c = CHR ''-'' \<or> is_digit_char c" using lex_number_first [of c cs] assms(1) l by simp
  then have ne: "\<not> is_json_space c" "c \<noteq> CHR 0x22" "c \<noteq> CHR ''[''" "c \<noteq> CHR ''{''" "c \<noteq> CHR ''t''"
    "c \<noteq> CHR ''f''" "c \<noteq> CHR ''n''"
    by (auto simp: is_json_space_def is_digit_char_def less_eq_char_def)
  have "lex_number (c # cs @ r) = Some (c # cs, r)" using lex_number_append [OF assms(1,3)] l by simp
  then show ?thesis using ne assms(2) l by (simp add: skip_first)
qed

lemma parse_elements_printed:
  assumes "\<And>v r n. v \<in> set vs \<Longrightarrow> delimited r \<Longrightarrow> 2 * length (json_stringify v) < n \<Longrightarrow>
      parse_value num n (json_stringify v @ r) = Inr (f v, r)"
    and "vs \<noteq> []" "2 * length (js_join '','' (map json_stringify vs)) + 1 < n"
  shows "parse_elements num n (js_join '','' (map json_stringify vs) @ CHR '']'' # r) = Inr (map f vs, r)"
  using assms
proof (induction vs arbitrary: n)
  case (Cons v vs)
  obtain m where n: "n = Suc m" using Cons.prems(3) by (cases n) auto
  show ?case
  proof (cases vs)
    case Nil
    then show ?thesis using Cons.prems(1) [of v "CHR '']'' # r" m] Cons.prems(3) n
      by (simp add: expect_first)
  next
    case (Cons w ws)
    have j: "js_join '','' (map json_stringify (v # vs)) =
        json_stringify v @ CHR '','' # js_join '','' (map json_stringify vs)"
      using Cons by simp
    have "parse_elements num m (js_join '','' (map json_stringify vs) @ CHR '']'' # r) = Inr (map f vs, r)"
      using Cons.IH Cons.prems n j Cons by simp
    then show ?thesis
      using Cons.prems(1) [of v "CHR '','' # js_join '','' (map json_stringify vs) @ CHR '']'' # r" m]
        Cons.prems(3) n unfolding j by (simp add: expect_first)
  qed
qed simp

definition print_member :: "string \<times> json \<Rightarrow> string" where
  "print_member kv = json_string (fst kv) @ '':'' @ json_stringify (snd kv)"

lemma stringify_members: "json_stringify (JObj kvs) = ''{'' @ js_join '','' (map print_member kvs) @ ''}''"
  by (simp add: print_member_def [abs_def] case_prod_unfold)

lemma parse_members_printed:
  assumes "\<And>k v r n. (k, v) \<in> set kvs \<Longrightarrow> delimited r \<Longrightarrow> 2 * length (json_stringify v) < n \<Longrightarrow>
      parse_value num n (json_stringify v @ r) = Inr (f v, r)"
    and "kvs \<noteq> []" "2 * length (js_join '','' (map print_member kvs)) + 1 < n"
  shows "parse_members num n (js_join '','' (map print_member kvs) @ CHR ''}'' # r) = Inr (map (\<lambda>(k, v). (k, f v)) kvs, r)"
  using assms
proof (induction kvs arbitrary: n)
  case (Cons kv kvs)
  obtain m where n: "n = Suc m" using Cons.prems(3) by (cases n) auto
  obtain k v where kv: "kv = (k, v)" by (cases kv)
  have one: "lex_string (concat (map json_escape k) @ CHR 0x22 # CHR '':'' # q) = Inr (k, CHR '':'' # q)" for q
    by (rule lex_printed)
  show ?case
  proof (cases kvs)
    case Nil
    then show ?thesis using Cons.prems(1) [of k v "CHR ''}'' # r" m] Cons.prems(3) n kv one
      by (simp add: expect_first print_member_def json_string_def)
  next
    case (Cons w ws)
    have j: "js_join '','' (map print_member (kv # kvs)) =
        print_member kv @ CHR '','' # js_join '','' (map print_member kvs)"
      using Cons by simp
    have "parse_members num m (js_join '','' (map print_member kvs) @ CHR ''}'' # r) = Inr (map (\<lambda>(k, v). (k, f v)) kvs, r)"
      by (rule Cons.IH) (use Cons.prems n j Cons in auto)
    then show ?thesis
      using Cons.prems(1) [of k v "CHR '','' # js_join '','' (map print_member kvs) @ CHR ''}'' # r" m]
        Cons.prems(3) n kv one unfolding j by (simp add: expect_first print_member_def json_string_def)
  qed
qed simp

lemma parse_printed:
  "json_nums num v \<Longrightarrow> delimited r \<Longrightarrow> 2 * length (json_stringify v) < n \<Longrightarrow>
     parse_value num n (json_stringify v @ r) = Inr (json_norm v, r)"
proof (induction v arbitrary: n r)
  case (JArr vs)
  obtain m where n: "n = Suc m" using JArr.prems(3) by (cases n) auto
  show ?case
  proof (cases vs)
    case Nil
    then show ?thesis using n by (simp add: skip_first expect_first)
  next
    case (Cons w ws)
    obtain c cs where c: "json_stringify w = c # cs" "\<not> is_json_space c" "c \<noteq> CHR '']''"
      using printed_first [of num w] JArr.prems(1) Cons by auto
    obtain cs' where first: "js_join '','' (map json_stringify vs) = c # cs'"
      using c(1) Cons by (cases ws) auto
    have "parse_elements num m (js_join '','' (map json_stringify vs) @ CHR '']'' # r) = Inr (map json_norm vs, r)"
      by (rule parse_elements_printed) (use JArr n Cons in \<open>auto simp: list_all_iff\<close>)
    then show ?thesis using n c first by (simp add: skip_first expect_first)
  qed
next
  case (JObj kvs)
  obtain m where n: "n = Suc m" using JObj.prems(3) by (cases n) auto
  show ?case
  proof (cases kvs)
    case Nil
    then show ?thesis using n by (simp add: skip_first expect_first obj_of_def)
  next
    case (Cons w ws)
    obtain cs where first: "js_join '','' (map print_member kvs) = CHR 0x22 # cs"
      using Cons by (cases ws) (auto simp: print_member_def json_string_def)
    have ok: "json_nums num v" if "(k, v) \<in> set kvs" for k v
      using JObj.prems(1) that by (auto simp: list_all_iff)
    have "parse_members num m (js_join '','' (map print_member kvs) @ CHR ''}'' # r) = Inr (map (\<lambda>(k, v). (k, json_norm v)) kvs, r)"
      by (rule parse_members_printed)
        (use JObj.IH ok JObj.prems(3) n Cons in \<open>auto simp: stringify_members simp del: json_stringify.simps\<close>)
    then show ?thesis unfolding stringify_members using n first JObj.prems(1)
      by (simp add: skip_first expect_first del: json_stringify.simps)
  qed
next
  case (JStr t)
  then show ?case using parse_printed_string [of num "n - 1" t r] by (cases n) auto
next
  case (JNum l)
  then show ?case using parse_printed_number [of l num r "n - 1"] by (cases n) auto
next
  case JNull
  then show ?case by (cases n) (auto simp: skip_first is_json_space_def)
next
  case (JBool b)
  then show ?case by (cases n; cases b) (auto simp: skip_first is_json_space_def)
qed

lemma json_reread: "json_nums num v \<Longrightarrow> json_parse num (json_stringify v) = Inr (json_norm v)"
  using parse_printed [of num v "[]" "2 * length (json_stringify v) + 1"]
  by (simp add: json_parse_def skip_ws_def)

lemma json_roundtrip: "json_ok num v \<Longrightarrow> json_parse num (json_stringify v) = Inr v"
  using json_reread [of num v] json_ok_norm [of num v] by simp

section \<open>What the parser returns\<close>

text \<open>
  What is assumed of the printed form of a number: it is a literal and prints as itself. This is
  so for every literal that denotes a finite double.
\<close>

definition num_ok :: "(string \<Rightarrow> string) \<Rightarrow> bool" where
  "num_ok num \<longleftrightarrow> (\<forall>l. lex_number l = Some (l, []) \<longrightarrow>
     lex_number (num l) = Some (num l, []) \<and> num (num l) = num l)"

lemma take_digits_self: "take_digits s = (d, r) \<Longrightarrow> take_digits d = (d, [])"
  by (auto simp: take_digits_def) (metis set_takeWhileD)

lemma take_digits_all: "take_digits s = (d, r) \<Longrightarrow> x \<in> set d \<Longrightarrow> is_digit_char x"
  by (auto simp: take_digits_def dest: set_takeWhileD)

lemma digits_then:
  "\<forall>x \<in> set d. is_digit_char x \<Longrightarrow> t = [] \<or> \<not> is_digit_char (hd t) \<Longrightarrow> take_digits (d @ t) = (d, t)"
  by (cases t) (auto simp: take_digits_def)

lemma lex_exp_self:
  assumes "lex_exp s = Some (e, r)"
  shows "lex_exp e = Some (e, [])" and "e = [] \<or> is_exp_mark (hd e)"
proof -
  show "e = [] \<or> is_exp_mark (hd e)"
    using assms by (auto simp: lex_exp_def split: list.splits if_splits prod.splits)
  show "lex_exp e = Some (e, [])"
  proof (cases "\<exists>c cs. s = c # cs \<and> is_exp_mark c")
    case True
    then obtain c cs where c: "s = c # cs" "is_exp_mark c" by blast
    obtain g q where g: "lex_sign cs = (g, q)" by fastforce
    obtain ds q' where d: "take_digits q = (ds, q')" by fastforce
    have e: "e = c # g @ ds" "ds \<noteq> []" using assms c g d by (auto simp: lex_exp_def split: if_splits)
    have "is_digit_char (hd ds)" using take_digits_all [OF d, of "hd ds"] e(2) by simp
    then have "hd ds \<noteq> CHR ''+''" "hd ds \<noteq> CHR ''-''" by (auto simp: is_digit_char_def less_eq_char_def)
    then have "lex_sign (g @ ds) = (g, ds)"
      using g e(2) by (cases ds; cases cs) (auto simp: lex_sign_def split: if_splits)
    then show ?thesis using c(2) e take_digits_self [OF d] by (simp add: lex_exp_def)
  next
    case False
    then have "e = []" using assms by (auto simp: lex_exp_def split: list.splits if_splits)
    then show ?thesis by (simp add: lex_exp_def)
  qed
qed

lemma lex_frac_self:
  assumes "lex_frac s = Some (f, r)" "t = [] \<or> is_exp_mark (hd t)"
  shows "lex_frac (f @ t) = Some (f, t)" and "f @ t = [] \<or> \<not> is_digit_char (hd (f @ t))"
proof -
  have t: "t = [] \<or> \<not> is_digit_char (hd t) \<and> hd t \<noteq> CHR ''.''"
    using assms(2) by (cases t) (auto simp: is_exp_mark_def is_digit_char_def)
  have "lex_frac (f @ t) = Some (f, t) \<and> (f @ t = [] \<or> \<not> is_digit_char (hd (f @ t)))"
  proof (cases "f = []")
    case True
    then show ?thesis using t by (cases t) (auto simp: lex_frac_def)
  next
    case False
    then obtain cs ds q where c: "take_digits cs = (ds, q)" "ds \<noteq> []" "f = CHR ''.'' # ds"
      using assms(1) by (auto simp: lex_frac_def split: list.splits if_splits prod.splits)
    have "take_digits (ds @ t) = (ds, t)" using digits_then [of ds t] take_digits_all [OF c(1)] t by blast
    then show ?thesis using c(2,3) by (simp add: lex_frac_def is_digit_char_def less_eq_char_def)
  qed
  then show "lex_frac (f @ t) = Some (f, t)" and "f @ t = [] \<or> \<not> is_digit_char (hd (f @ t))" by auto
qed

lemma lex_int_self:
  assumes "lex_int s = Some (i, r)" "t = [] \<or> \<not> is_digit_char (hd t)"
  shows "lex_int (i @ t) = Some (i, t)" and "\<exists>c cs. i = c # cs \<and> is_digit_char c"
proof -
  obtain c cs where s: "s = c # cs" using assms(1) by (cases s) (auto simp: lex_int_def)
  have "lex_int (i @ t) = Some (i, t) \<and> (\<exists>c cs. i = c # cs \<and> is_digit_char c)"
  proof (cases "c = CHR ''0''")
    case True
    then have "i = [CHR ''0'']" using assms(1) s by (simp add: lex_int_def)
    then show ?thesis by (simp add: lex_int_def is_digit_char_def)
  next
    case False
    then have i: "take_digits s = (i, r)" "is_digit_char c" using assms(1) s by (auto simp: lex_int_def split: if_splits)
    moreover have "\<exists>cs'. i = c # cs'" using i s by (auto simp: take_digits_def)
    moreover have "take_digits (i @ t) = (i, t)" using digits_then [of i t] take_digits_all [OF i(1)] assms(2) by blast
    ultimately show ?thesis using False by (auto simp: lex_int_def)
  qed
  then show "lex_int (i @ t) = Some (i, t)" and "\<exists>c cs. i = c # cs \<and> is_digit_char c" by auto
qed

lemma lex_number_self:
  assumes "lex_number s = Some (l, r)" shows "lex_number l = Some (l, [])"
proof -
  obtain m s0 where m: "lex_minus s = (m, s0)" by fastforce
  obtain i s1 f s2 e where p: "lex_int s0 = Some (i, s1)" "lex_frac s1 = Some (f, s2)"
    "lex_exp s2 = Some (e, r)" "l = m @ i @ f @ e"
    using assms m by (auto simp: lex_number_def split: option.splits)
  note e = lex_exp_self [OF p(3)]
  note f = lex_frac_self [OF p(2) e(2)]
  note i = lex_int_self [OF p(1) f(2)]
  have "lex_minus (m @ i @ f @ e) = (m, i @ f @ e)"
    using i(2) m by (auto simp: lex_minus_def is_digit_char_def less_eq_char_def split: list.splits if_splits)
  then show ?thesis using i(1) f(1) e(1) p(4) by (simp add: lex_number_def)
qed

lemma parse_ok:
  assumes "num_ok num"
  shows "parse_value num n s = Inr (v, r) \<Longrightarrow> json_ok num v"
    and "parse_elements num n s = Inr (vs, r) \<Longrightarrow> list_all (json_ok num) vs"
    and "parse_members num n s = Inr (kvs, r) \<Longrightarrow> list_all (\<lambda>(k, v). json_ok num v) kvs"
proof (induction n arbitrary: s v vs kvs r)
  case (Suc n)
  {
    case 1
    then obtain c cs where c: "skip_ws s = c # cs" by (cases "skip_ws s") auto
    have num: "json_ok num (JNum (num l))" if "lex_number (c # cs) = Some (l, q)" for l q
      using lex_number_self [OF that] assms by (simp add: num_ok_def)
    have obj: "list_all (\<lambda>(k, v). json_ok num v) (obj_of kvs)" if "list_all (\<lambda>(k, v). json_ok num v) kvs" for kvs
      using that by (rule obj_of_values)
    show ?case using 1 c
      by (auto split: if_splits sum.splits option.splits simp: prop_ordered_def [of "[]"] obj_of_ordered
          simp del: json_ok.simps(1) dest!: Suc.IH(2) Suc.IH(3) intro: num obj)
  next
    case 2
    then show ?case by (auto split: sum.splits option.splits dest!: Suc.IH(1) Suc.IH(2))
  next
    case 3
    then show ?case by (auto split: sum.splits option.splits dest!: Suc.IH(1) Suc.IH(3))
  }
qed simp_all

lemma json_parse_ok: "num_ok num \<Longrightarrow> json_parse num s = Inr v \<Longrightarrow> json_ok num v"
  by (auto simp: json_parse_def split: sum.splits if_splits simp del: parse_value.simps dest: parse_ok(1))

end
