(* ===== verification/PartialJson.thy ===== *)
theory PartialJson
  imports Json JsRegex
begin

text \<open>
  The parser for streamed tool arguments (\<open>tools/partial-json.ts\<close>): parse the text, or else close
  its open strings and brackets and parse that. \<open>None\<close> is the code's \<open>null\<close>.
\<close>

record close_state =
  cs_stack :: string
  cs_inString :: bool
  cs_escaped :: bool

text \<open>One turn of the loop of \<open>completeJson\<close>; the top of the stack is the head of the list.\<close>

definition close_step :: "close_state \<Rightarrow> char \<Rightarrow> close_state" where
  "close_step st c =
     (if cs_escaped st then st\<lparr>cs_escaped := False\<rparr>
      else if c = CHR 0x5C \<and> cs_inString st then st\<lparr>cs_escaped := True\<rparr>
      else if c = CHR 0x22 then st\<lparr>cs_inString := \<not> cs_inString st\<rparr>
      else if cs_inString st then st
      else if c = CHR ''{'' then st\<lparr>cs_stack := CHR ''}'' # cs_stack st\<rparr>
      else if c = CHR ''['' then st\<lparr>cs_stack := CHR '']'' # cs_stack st\<rparr>
      else if c = CHR ''}'' \<or> c = CHR '']'' then st\<lparr>cs_stack := tl (cs_stack st)\<rparr>
      else st)"

definition close_scan :: "string \<Rightarrow> close_state" where
  "close_scan s = foldl close_step \<lparr>cs_stack = [], cs_inString = False, cs_escaped = False\<rparr> s"

text \<open>\<open>replace(/,\s*$/, '')\<close>.\<close>

definition drop_trailing_comma :: "string \<Rightarrow> string" where
  "drop_trailing_comma s = (case dropWhile is_space_char (rev s) of
       c # cs \<Rightarrow> if c = CHR '','' then rev cs else s
     | [] \<Rightarrow> s)"

definition completeJson :: "string \<Rightarrow> string option" where
  "completeJson partial =
     (let trimmed = js_trim partial in
      if \<not> js_startsWith trimmed ''{'' \<and> \<not> js_startsWith trimmed ''['' then None
      else (let st = close_scan trimmed;
                result = (if cs_inString st then trimmed @ [CHR 0x22] else trimmed)
            in Some (drop_trailing_comma result @ cs_stack st)))"

text \<open>A parse error is caught, whatever it is.\<close>

definition parsePartialJson :: "(string \<Rightarrow> string) \<Rightarrow> string \<Rightarrow> json option" where
  "parsePartialJson num input = (case json_parse num input of
       Inr v \<Rightarrow> Some v
     | Inl _ \<Rightarrow>
         (case completeJson input of
            None \<Rightarrow> None
          | Some completed \<Rightarrow> (case json_parse num completed of Inr v \<Rightarrow> Some v | Inl _ \<Rightarrow> None)))"

section \<open>What completion does\<close>

lemma close_scan_append: "close_scan (s @ t) = foldl close_step (close_scan s) t"
  by (simp add: close_scan_def)

lemma rev_closers: "list_all (\<lambda>c. c = CHR ''}'' \<or> c = CHR '']'') (cs_stack st) \<Longrightarrow>
    list_all (\<lambda>c. c = CHR ''}'' \<or> c = CHR '']'') (cs_stack (close_step st c))"
  by (cases "cs_stack st") (auto simp: close_step_def)

lemma stack_closers: "list_all (\<lambda>c. c = CHR ''}'' \<or> c = CHR '']'') (cs_stack (close_scan s))"
  by (induction s rule: rev_induct) (simp_all add: close_scan_append close_scan_def rev_closers)

lemma close_all:
  "\<not> cs_inString st \<Longrightarrow> \<not> cs_escaped st \<Longrightarrow> cs_stack st = w @ v \<Longrightarrow> list_all (\<lambda>c. c = CHR ''}'' \<or> c = CHR '']'') w \<Longrightarrow>
     foldl close_step st w = st\<lparr>cs_stack := v\<rparr>"
  by (induction w arbitrary: st) (auto simp: close_step_def)

text \<open>Separators do not move the scan, and an escape only occurs in a string.\<close>

definition is_filler :: "char \<Rightarrow> bool" where
  "is_filler c \<longleftrightarrow> c = CHR '','' \<or> is_space_char c"

lemma filler_not: "is_filler c \<Longrightarrow> c \<notin> {CHR 0x5C, CHR 0x22, CHR ''{'', CHR ''['', CHR ''}'', CHR '']''}"
  by (auto simp: is_filler_def is_space_char_def)

lemma escaped_step:
  "(cs_escaped st \<longrightarrow> cs_inString st) \<Longrightarrow> cs_escaped (close_step st c) \<longrightarrow> cs_inString (close_step st c)"
  by (simp add: close_step_def)

lemma escaped_inString: "cs_escaped (close_scan s) \<longrightarrow> cs_inString (close_scan s)"
proof (induction s rule: rev_induct)
  case (snoc c s)
  then show ?case using escaped_step [of "close_scan s" c] by (simp add: close_scan_append)
qed (simp add: close_scan_def)

lemma filler_step:
  "is_filler c \<Longrightarrow> close_step st c = st\<lparr>cs_escaped := False\<rparr>"
  using filler_not [of c] by (auto simp: close_step_def)

lemma filler_run:
  "list_all is_filler t \<Longrightarrow> t \<noteq> [] \<Longrightarrow> foldl close_step st t = st\<lparr>cs_escaped := False\<rparr>"
proof (induction t arbitrary: st)
  case (Cons c t)
  then show ?case by (cases "t = []") (simp_all add: filler_step)
qed simp

lemma drop_comma_split:
  obtains t where "s = drop_trailing_comma s @ t" "list_all is_filler t"
proof (cases "\<exists>cs. dropWhile is_space_char (rev s) = CHR '','' # cs")
  case True
  then obtain cs where cs: "dropWhile is_space_char (rev s) = CHR '','' # cs" by blast
  let ?w = "takeWhile is_space_char (rev s)"
  have "rev s = ?w @ CHR '','' # cs" using cs takeWhile_dropWhile_id [of is_space_char "rev s"] by metis
  then have "s = rev cs @ CHR '','' # rev ?w" by (metis append_Cons append_assoc rev.simps(2) rev_append rev_rev_ident append_Nil)
  moreover have "list_all is_filler (CHR '','' # rev ?w)"
    by (auto simp: list_all_iff is_filler_def dest: set_takeWhileD)
  ultimately show ?thesis using that cs by (simp add: drop_trailing_comma_def)
next
  case False
  then show ?thesis using that [of "[]"] by (auto simp: drop_trailing_comma_def split: list.splits)
qed

lemma comma_scan:
  assumes "\<not> cs_inString (close_scan s)"
  shows "close_scan (drop_trailing_comma s) = close_scan s"
proof -
  obtain t where t: "s = drop_trailing_comma s @ t" "list_all is_filler t" by (rule drop_comma_split)
  let ?d = "drop_trailing_comma s"
  show ?thesis
  proof (cases "t = []")
    case False
    have "close_scan s = (close_scan ?d)\<lparr>cs_escaped := False\<rparr>"
      using t(1) filler_run [OF t(2) False] close_scan_append by metis
    then show ?thesis using assms escaped_inString [of ?d] by (cases "close_scan ?d") simp
  qed (use t in simp)
qed

text \<open>Completion closes what is open. Unless the text ends in the middle of an escape, the completed
  text leaves no string and no bracket open. Completing starts from the trimmed text; apart from a
  trailing comma nothing of it is lost.\<close>

theorem completion_closes:
  assumes "completeJson partial = Some out" "\<not> cs_escaped (close_scan (js_trim partial))"
  shows "close_scan out = \<lparr>cs_stack = [], cs_inString = False, cs_escaped = False\<rparr> \<and>
    (\<exists>kept rest added. out = kept @ added \<and> js_trim partial = kept @ rest \<and> list_all is_filler rest)"
proof (intro conjI)
  let ?t = "js_trim partial" let ?st = "close_scan ?t"
  define r where "r = (if cs_inString ?st then ?t @ [CHR 0x22] else ?t)"
  have out: "out = drop_trailing_comma r @ cs_stack ?st"
    using assms(1) by (auto simp: completeJson_def r_def Let_def split: if_splits)
  have r: "close_scan r = ?st\<lparr>cs_inString := False\<rparr>"
    using assms(2) by (auto simp: r_def close_scan_append close_step_def)
  then have "close_scan (drop_trailing_comma r) = ?st\<lparr>cs_inString := False\<rparr>"
    using comma_scan [of r] by simp
  then show "close_scan out = \<lparr>cs_stack = [], cs_inString = False, cs_escaped = False\<rparr>"
    using close_all [of "?st\<lparr>cs_inString := False\<rparr>" "cs_stack ?st" "[]"] stack_closers [of ?t] assms(2)
    by (simp add: out close_scan_append)
  show "\<exists>kept rest added. out = kept @ added \<and> ?t = kept @ rest \<and> list_all is_filler rest"
  proof (cases "cs_inString ?st")
    case True
    then have "drop_trailing_comma r = ?t @ [CHR 0x22]"
      by (simp add: r_def drop_trailing_comma_def is_space_char_def)
    then have "out = ?t @ (CHR 0x22 # cs_stack ?st)" using out by simp
    then show ?thesis by (intro exI [of _ ?t] exI [of _ "[]"] exI [of _ "CHR 0x22 # cs_stack ?st"]) simp
  next
    case False
    then have "r = ?t" by (simp add: r_def)
    then show ?thesis using drop_comma_split [of r] out by metis
  qed
qed

definition open_args :: string where
  "open_args = ''{'' @ [CHR 0x22] @ ''a'' @ [CHR 0x22] @ '':[1, ''"

theorem completion_closes_witness:
  "completeJson open_args = Some (''{'' @ [CHR 0x22] @ ''a'' @ [CHR 0x22] @ '':[1]}'') \<and>
   close_scan (''{'' @ [CHR 0x22] @ ''a'' @ [CHR 0x22] @ '':[1]}'') = \<lparr>cs_stack = [], cs_inString = False, cs_escaped = False\<rparr>"
proof -
  have t: "js_trim open_args = ''{'' @ [CHR 0x22] @ ''a'' @ [CHR 0x22] @ '':[1,''"
    by (simp add: open_args_def js_trim_def js_trimStart_def is_space_char_def)
  have c: "completeJson open_args = Some (''{'' @ [CHR 0x22] @ ''a'' @ [CHR 0x22] @ '':[1]}'')"
    unfolding completeJson_def Let_def t
    by (simp add: close_scan_def close_step_def drop_trailing_comma_def is_space_char_def)
  have "\<not> cs_escaped (close_scan (js_trim open_args))"
    unfolding t by (simp add: close_scan_def close_step_def)
  from completion_closes [OF c this] c show ?thesis by simp
qed

section \<open>Limits\<close>

definition cut_in_key :: string where
  "cut_in_key = ''{'' @ [CHR 0x22] @ ''command'' @ [CHR 0x22] @ '': '' @ [CHR 0x22] @ ''ls -la'' @ [CHR 0x22] @
     '', '' @ [CHR 0x22] @ ''des''"

definition cut_in_value :: string where
  "cut_in_value = ''{'' @ [CHR 0x22] @ ''command'' @ [CHR 0x22] @ '': '' @ [CHR 0x22] @ ''rm -rf /tmp''"

text \<open>What streaming arguments do not give. Cut inside a name, as in the module's own example,
  nothing is extracted, although a complete pair precedes it; cut inside a value, the truncated
  value is returned like a complete one.\<close>

theorem partial_json_limits:
  "parsePartialJson (\<lambda>l. l) cut_in_key = None"
  "parsePartialJson (\<lambda>l. l) cut_in_value = Some (JObj [(''command'', JStr ''rm -rf /tmp'')])"
  by code_simp+

end
