(* ===== verification/ToolHooks.thy ===== *)
theory ToolHooks
  imports ToolGuard JsMap Errors
begin

text \<open>
  The hook registry around tool calls (\<open>tools/hooks.ts\<close>). A hook is a function of its arguments and
  the state of the world; it may throw. The current time that goes into a default hook id is an
  argument of the registration.
\<close>

record BeforeHookResult =
  bh_blocked :: bool
  bh_reason :: "string option"
  bh_modifiedInput :: "obj option"

type_synonym 'w before_hook = "string \<Rightarrow> obj \<Rightarrow> 'w \<Rightarrow> (js_thrown + BeforeHookResult) \<times> 'w"
type_synonym 'w after_hook = "string \<Rightarrow> obj \<Rightarrow> ToolResult \<Rightarrow> 'w \<Rightarrow> (js_thrown + ToolResult) \<times> 'w"

record 'w ToolHookRegistry =
  globalBefore :: "(string \<times> 'w before_hook) list"
  globalAfter :: "(string \<times> 'w after_hook) list"
  toolBefore :: "(string, (string \<times> 'w before_hook) list) js_map"
  toolAfter :: "(string, (string \<times> 'w after_hook) list) js_map"

definition hooks_new :: "'w ToolHookRegistry" where
  "hooks_new = \<lparr>globalBefore = [], globalAfter = [], toolBefore = [], toolAfter = []\<rparr>"

definition hook_list :: "(string, 'a list) js_map \<Rightarrow> string \<Rightarrow> 'a list" where
  "hook_list m k = (case map_get m k of Some l \<Rightarrow> l | None \<Rightarrow> [])"

definition registerBefore ::
  "string \<Rightarrow> 'w before_hook \<Rightarrow> string option \<Rightarrow> nat \<Rightarrow> 'w ToolHookRegistry \<Rightarrow> 'w ToolHookRegistry" where
  "registerBefore toolName hook hid now reg =
     (let hookId = (case hid of Some i \<Rightarrow> i | None \<Rightarrow> ''before-'' @ toolName @ ''-'' @ show_nat now) in
      if toolName = ''*'' then reg\<lparr>globalBefore := globalBefore reg @ [(hookId, hook)]\<rparr>
      else reg\<lparr>toolBefore := map_set toolName (hook_list (toolBefore reg) toolName @ [(hookId, hook)]) (toolBefore reg)\<rparr>)"

definition registerAfter ::
  "string \<Rightarrow> 'w after_hook \<Rightarrow> string option \<Rightarrow> nat \<Rightarrow> 'w ToolHookRegistry \<Rightarrow> 'w ToolHookRegistry" where
  "registerAfter toolName hook hid now reg =
     (let hookId = (case hid of Some i \<Rightarrow> i | None \<Rightarrow> ''after-'' @ toolName @ ''-'' @ show_nat now) in
      if toolName = ''*'' then reg\<lparr>globalAfter := globalAfter reg @ [(hookId, hook)]\<rparr>
      else reg\<lparr>toolAfter := map_set toolName (hook_list (toolAfter reg) toolName @ [(hookId, hook)]) (toolAfter reg)\<rparr>)"

text \<open>The first entry with the id goes; the answer says whether there was one.\<close>

fun removeFromList :: "string \<Rightarrow> (string \<times> 'a) list \<Rightarrow> bool \<times> (string \<times> 'a) list" where
  "removeFromList hookId [] = (False, [])"
| "removeFromList hookId ((i, h) # hs) =
     (if i = hookId then (True, hs) else (case removeFromList hookId hs of (b, hs') \<Rightarrow> (b, (i, h) # hs')))"

definition remove_in_lists ::
  "string \<Rightarrow> (string, (string \<times> 'a) list) js_map \<Rightarrow> bool \<times> (string, (string \<times> 'a) list) js_map" where
  "remove_in_lists hookId m =
     (list_ex (\<lambda>(k, l). fst (removeFromList hookId l)) m, map (\<lambda>(k, l). (k, snd (removeFromList hookId l))) m)"

definition hooks_remove :: "string \<Rightarrow> 'w ToolHookRegistry \<Rightarrow> bool \<times> 'w ToolHookRegistry" where
  "hooks_remove hookId reg =
     (let (b1, gb) = removeFromList hookId (globalBefore reg);
          (b2, ga) = removeFromList hookId (globalAfter reg);
          (b3, tb) = remove_in_lists hookId (toolBefore reg);
          (b4, ta) = remove_in_lists hookId (toolAfter reg)
      in (b1 \<or> b2 \<or> b3 \<or> b4, \<lparr>globalBefore = gb, globalAfter = ga, toolBefore = tb, toolAfter = ta\<rparr>))"

section \<open>Running hooks\<close>

fun before_loop ::
  "string \<Rightarrow> (string \<times> 'w before_hook) list \<Rightarrow> obj \<Rightarrow> 'w \<Rightarrow> (js_thrown + BeforeHookResult + obj) \<times> 'w" where
  "before_loop toolName [] current w = (Inr (Inr current), w)"
| "before_loop toolName ((_, hook) # hs) current w =
     (case hook toolName current w of
        (Inl e, w1) \<Rightarrow> (Inl e, w1)
      | (Inr res, w1) \<Rightarrow>
          (if bh_blocked res then (Inr (Inl res), w1)
           else before_loop toolName hs
                  (case bh_modifiedInput res of Some i \<Rightarrow> i | None \<Rightarrow> current) w1))"

definition runBeforeHooks ::
  "'w ToolHookRegistry \<Rightarrow> string \<Rightarrow> obj \<Rightarrow> 'w \<Rightarrow> (js_thrown + BeforeHookResult) \<times> 'w" where
  "runBeforeHooks reg toolName input w =
     (case before_loop toolName (globalBefore reg @ hook_list (toolBefore reg) toolName) input w of
        (Inl e, w') \<Rightarrow> (Inl e, w')
      | (Inr (Inl res), w') \<Rightarrow> (Inr res, w')
      | (Inr (Inr current), w') \<Rightarrow>
          (Inr \<lparr>bh_blocked = False, bh_reason = None,
                bh_modifiedInput = (if current \<noteq> input then Some current else None)\<rparr>, w'))"

fun after_loop ::
  "string \<Rightarrow> (string \<times> 'w after_hook) list \<Rightarrow> obj \<Rightarrow> ToolResult \<Rightarrow> 'w \<Rightarrow> (js_thrown + ToolResult) \<times> 'w" where
  "after_loop toolName [] input current w = (Inr current, w)"
| "after_loop toolName ((_, hook) # hs) input current w =
     (case hook toolName input current w of
        (Inl e, w1) \<Rightarrow> (Inl e, w1)
      | (Inr r, w1) \<Rightarrow> after_loop toolName hs input r w1)"

definition runAfterHooks ::
  "'w ToolHookRegistry \<Rightarrow> string \<Rightarrow> obj \<Rightarrow> ToolResult \<Rightarrow> 'w \<Rightarrow> (js_thrown + ToolResult) \<times> 'w" where
  "runAfterHooks reg toolName input result w =
     after_loop toolName (globalAfter reg @ hook_list (toolAfter reg) toolName) input result w"

section \<open>Registering and removing\<close>

lemma remove_found: "fst (removeFromList i l) \<longleftrightarrow> i \<in> fst ` set l"
  by (induction i l rule: removeFromList.induct) (force split: prod.splits)+

lemma remove_absent: "i \<notin> fst ` set l \<Longrightarrow> removeFromList i l = (False, l)"
  by (induction i l rule: removeFromList.induct) auto

lemma remove_lists_absent:
  "(\<And>k l. (k, l) \<in> set m \<Longrightarrow> i \<notin> fst ` set l) \<Longrightarrow> remove_in_lists i m = (False, m)"
proof (induction m)
  case (Cons kl m)
  obtain k l where kl: "kl = (k, l)" by (cases kl)
  have "remove_in_lists i m = (False, m)" by (rule Cons.IH) (use Cons.prems in auto)
  moreover have "removeFromList i l = (False, l)" by (rule remove_absent) (use Cons.prems kl in auto)
  ultimately show ?case by (simp add: remove_in_lists_def kl)
qed (simp add: remove_in_lists_def)

lemma remove_last:
  "i \<notin> fst ` set l \<Longrightarrow> removeFromList i (l @ [(i, h)]) = (True, l)"
  by (induction i l rule: removeFromList.induct) auto

definition hook_ids :: "'w ToolHookRegistry \<Rightarrow> string set" where
  "hook_ids reg = fst ` set (globalBefore reg) \<union> fst ` set (globalAfter reg) \<union>
     (\<Union>(k, l) \<in> set (toolBefore reg). fst ` set l) \<union> (\<Union>(k, l) \<in> set (toolAfter reg). fst ` set l)"

text \<open>The lists of hooks a call of a tool runs through.\<close>

definition before_hooks_of :: "'w ToolHookRegistry \<Rightarrow> string \<Rightarrow> (string \<times> 'w before_hook) list" where
  "before_hooks_of reg t = globalBefore reg @ hook_list (toolBefore reg) t"

definition after_hooks_of :: "'w ToolHookRegistry \<Rightarrow> string \<Rightarrow> (string \<times> 'w after_hook) list" where
  "after_hooks_of reg t = globalAfter reg @ hook_list (toolAfter reg) t"

lemma hook_list_remove:
  "hook_list (snd (remove_in_lists i m)) t = snd (removeFromList i (hook_list m t))"
  by (induction m) (auto simp: remove_in_lists_def hook_list_def map_get_def)

lemma before_loop_append:
  "before_loop t (hs @ hs') i w =
     (case before_loop t hs i w of
        (Inr (Inr i'), w') \<Rightarrow> before_loop t hs' i' w'
      | r \<Rightarrow> r)"
  by (induction t hs i w rule: before_loop.induct) (auto split: prod.splits sum.splits)

lemma hook_idsI:
  "i \<in> fst ` set (globalBefore reg) \<Longrightarrow> i \<in> hook_ids reg"
  "i \<in> fst ` set (globalAfter reg) \<Longrightarrow> i \<in> hook_ids reg"
  "(k, l) \<in> set (toolBefore reg) \<Longrightarrow> i \<in> fst ` set l \<Longrightarrow> i \<in> hook_ids reg"
  "(k, l') \<in> set (toolAfter reg) \<Longrightarrow> i \<in> fst ` set l' \<Longrightarrow> i \<in> hook_ids reg"
  unfolding hook_ids_def by blast+

lemma hook_list_idsI:
  "i \<in> fst ` set (hook_list (toolBefore reg) v) \<Longrightarrow> i \<in> hook_ids reg"
  "i \<in> fst ` set (hook_list (toolAfter reg) v) \<Longrightarrow> i \<in> hook_ids reg"
  using map_of_SomeD [of "toolBefore reg" v] map_of_SomeD [of "toolAfter reg" v] hook_idsI(3,4)
  by (cases "map_of (toolBefore reg) v"; cases "map_of (toolAfter reg) v"; fastforce simp: hook_list_def map_get_def)+

lemma remove_unknown:
  assumes "i \<notin> hook_ids reg"
  shows "hooks_remove i reg = (False, reg)"
proof -
  have "removeFromList i (globalBefore reg) = (False, globalBefore reg)"
    "removeFromList i (globalAfter reg) = (False, globalAfter reg)"
    using assms hook_idsI(1,2) by (blast intro: remove_absent)+
  moreover have "remove_in_lists i (toolBefore reg) = (False, toolBefore reg)"
    "remove_in_lists i (toolAfter reg) = (False, toolAfter reg)"
    using assms hook_idsI(3,4) by (blast intro: remove_lists_absent)+
  ultimately show ?thesis by (simp add: hooks_remove_def)
qed

text \<open>Removing a hook that was registered under a fresh id brings back the hooks of every tool.\<close>

lemma register_remove:
  fixes t :: string and h :: "'w before_hook" and now :: nat
  assumes "i \<notin> hook_ids reg" "map_ok (toolBefore reg)"
  defines "reg' \<equiv> snd (hooks_remove i (registerBefore t h (Some i) now reg))"
  shows "before_hooks_of reg' u = before_hooks_of reg u"
    and "after_hooks_of reg' u = after_hooks_of reg u"
proof -
  have absent: "i \<notin> fst ` set (globalBefore reg)" "i \<notin> fst ` set (globalAfter reg)"
    using assms(1) hook_idsI(1,2) by blast+
  have "i \<notin> fst ` set (hook_list (toolBefore reg) v)" "i \<notin> fst ` set (hook_list (toolAfter reg) v)" for v
    using assms(1) hook_list_idsI by blast+
  moreover have "hook_list (map_set t l m) v = (if v = t then l else hook_list m v)" if "map_ok m" for l v and m :: "(string, (string \<times> 'w before_hook) list) js_map"
    using jm.find_update [OF that] by (simp add: hook_list_def)
  ultimately show "before_hooks_of reg' u = before_hooks_of reg u"
    and "after_hooks_of reg' u = after_hooks_of reg u"
    using assms(2) absent unfolding reg'_def
    by (simp_all add: hooks_remove_def registerBefore_def before_hooks_of_def after_hooks_of_def case_prod_unfold
        hook_list_remove remove_absent remove_last Let_def)
qed

end
