(* ===== verification/ToolExecutor.thy ===== *)
theory ToolExecutor
  imports ToolHooks ResultCache Sanitizer CompactionStrategies
begin

text \<open>
  Running one tool call (\<open>tools/executor.ts\<close>): permission, before-hooks, validation, timeout, cache
  or execution, size cap, redaction, after-hooks. Everything asynchronous (the user's answer, hooks,
  the tool) is a function of a state of the world that it moves on. A stage either throws, ends the
  call with a result, or hands a value to the next stage; the log records what was done, in order.

  The timeout is cooperative: the tool receives the deadline with its signal, and nothing else
  stops it. \<open>es_timer\<close> says whether a timer is armed. \<open>None\<close> as an outcome means that a text left
  the range the model of strings covers (an escape above 0xFF in JSON output). Progress values are
  forwarded to a callback that does not throw.
\<close>

record ToolCall =
  tc_id :: string
  tc_name :: string
  tc_input :: obj

record ToolExecutionResult =
  er_toolCall :: ToolCall
  er_result :: ToolResult
  er_durationMs :: int
  er_wasPermissionDenied :: bool
  er_cacheHit :: "bool option"

datatype validation = ValidInput | InvalidInput string "nat option"

record 'w ExecTool =
  et_name :: string
  et_requiresPermission :: bool
  et_validateInput :: "(obj \<Rightarrow> 'w \<Rightarrow> (js_thrown + validation) \<times> 'w) option"
  et_timeoutMs :: "nat option"
  et_disableTimeout :: bool
  et_maxResultSize :: "int option"
  et_cacheKey :: "(obj \<Rightarrow> 'w \<Rightarrow> js_thrown + string option) option"
  et_execute :: "obj \<Rightarrow> nat option \<Rightarrow> 'w \<Rightarrow> string list \<times> (js_thrown + ToolResult) \<times> 'w"

record 'w exec_options =
  xo_requestPermission :: "string \<Rightarrow> string \<Rightarrow> 'w \<Rightarrow> (js_thrown + bool) \<times> 'w"
  xo_hooks :: "'w ToolHookRegistry option"
  xo_defaultTimeoutMs :: "nat option"
  xo_maxResultSize :: "int option"
  xo_now :: "'w \<Rightarrow> int"
  xo_num :: "string \<Rightarrow> string"

record 'w exec_state =
  es_world :: 'w
  es_cache :: "ToolResultCache option"
  es_timer :: bool

datatype exec_event =
    AskedPermission string | RanBeforeHooks | RanValidation | LookedUp string | RanTool obj "nat option"
  | Reported string | Stored string | RanAfterHooks

section \<open>Helpers\<close>

definition resolveTimeout :: "'w ExecTool \<Rightarrow> 'w exec_options \<Rightarrow> nat" where
  "resolveTimeout tool opts = (case et_timeoutMs tool of
       Some t \<Rightarrow> t
     | None \<Rightarrow> (case xo_defaultTimeoutMs opts of Some t \<Rightarrow> t | None \<Rightarrow> 120000))"

definition resolveMaxResultSize :: "'w ExecTool \<Rightarrow> 'w exec_options \<Rightarrow> int" where
  "resolveMaxResultSize tool opts = (case et_maxResultSize tool of
       Some m \<Rightarrow> m
     | None \<Rightarrow> (case xo_maxResultSize opts of Some m \<Rightarrow> m | None \<Rightarrow> 100000))"

text \<open>\<open>Math.round(timeoutMs / 1000)\<close>.\<close>

definition round_seconds :: "nat \<Rightarrow> nat" where
  "round_seconds ms = (ms + 500) div 1000"

definition error_result :: "string \<Rightarrow> ToolResult" where
  "error_result m = \<lparr>content = m, isError = True, metadata = None\<rparr>"

fun errorToToolResult :: "js_thrown \<Rightarrow> nat \<Rightarrow> ToolResult" where
  "errorToToolResult (ThrownDom n m) timeoutMs =
     (if n = ''AbortError''
      then error_result (''Tool execution timed out after '' @ show_nat (round_seconds timeoutMs) @ ''s.'')
      else error_result (''Error: '' @ m))"
| "errorToToolResult (ThrownError n m) timeoutMs =
     (if n = ''AbortError'' then error_result ''Tool execution was cancelled.''
      else error_result (''Error: '' @ m))"
| "errorToToolResult e timeoutMs = error_result (''Error: '' @ thrown_message e)"

definition content_bytes :: "string \<Rightarrow> nat" where
  "content_bytes s = byteLength (ascii s)"

text \<open>\<open>...result.metadata\<close>: nothing if it is missing.\<close>

definition metadata_fields :: "ToolResult \<Rightarrow> obj" where
  "metadata_fields r = (case metadata r of Some md \<Rightarrow> md | None \<Rightarrow> [])"

definition capResultSize :: "ToolResult \<Rightarrow> int \<Rightarrow> ToolResult" where
  "capResultSize result maxSize =
     (let originalBytes = content_bytes (content result) in
      if int originalBytes \<le> maxSize then result
      else result\<lparr>content := latin_text (headTailTruncate (ascii (content result)) maxSize None None),
                  metadata := Some (set_prop ''originalSize'' (JNum (show_nat originalBytes))
                                (set_prop ''truncated'' (JBool True) (metadata_fields result)))\<rparr>)"

definition executor_summarizeInput :: "obj \<Rightarrow> string" where
  "executor_summarizeInput input = (let json = json_stringify (JObj input) in
     if length json \<le> 200 then json else take 200 json @ ''...'')"

section \<open>Stages\<close>

type_synonym ('w, 'a) stage =
  "'w exec_state \<Rightarrow> (js_thrown + ToolExecutionResult + 'a) option \<times> exec_event list \<times> 'w exec_state"

definition then_stage :: "('w, 'a) stage \<Rightarrow> ('a \<Rightarrow> ('w, 'b) stage) \<Rightarrow> ('w, 'b) stage" where
  "then_stage m k s = (case m s of
       (Some (Inr (Inr a)), evs, s1) \<Rightarrow> (case k a s1 of (r, evs', s2) \<Rightarrow> (r, evs @ evs', s2))
     | (Some (Inr (Inl r)), evs, s1) \<Rightarrow> (Some (Inr (Inl r)), evs, s1)
     | (Some (Inl e), evs, s1) \<Rightarrow> (Some (Inl e), evs, s1)
     | (None, evs, s1) \<Rightarrow> (None, evs, s1))"

definition refuse :: "'w exec_options \<Rightarrow> ToolCall \<Rightarrow> int \<Rightarrow> ToolResult \<Rightarrow> bool \<Rightarrow> 'w exec_state \<Rightarrow> ToolExecutionResult" where
  "refuse opts call start r denied s =
     \<lparr>er_toolCall = call, er_result = r, er_durationMs = xo_now opts (es_world s) - start,
      er_wasPermissionDenied = denied, er_cacheHit = None\<rparr>"

definition permission_stage :: "'w exec_options \<Rightarrow> 'w ExecTool \<Rightarrow> ToolCall \<Rightarrow> int \<Rightarrow> ('w, unit) stage" where
  "permission_stage opts tool call start s =
     (if \<not> et_requiresPermission tool then (Some (Inr (Inr ())), [], s)
      else (let reason = ''Execute tool '' @ [CHR 0x22] @ et_name tool @ [CHR 0x22] @ '' with input: '' @
                         executor_summarizeInput (tc_input call)
            in case xo_requestPermission opts (et_name tool) reason (es_world s) of
                 (Inl e, w) \<Rightarrow> (Some (Inl e), [AskedPermission (et_name tool)], s\<lparr>es_world := w\<rparr>)
               | (Inr granted, w) \<Rightarrow>
                   (if granted then (Some (Inr (Inr ())), [AskedPermission (et_name tool)], s\<lparr>es_world := w\<rparr>)
                    else (Some (Inr (Inl (refuse opts call start
                            (error_result (''Permission denied for tool '' @ [CHR 0x22] @ et_name tool @ [CHR 0x22] @ ''.''))
                            True (s\<lparr>es_world := w\<rparr>)))), [AskedPermission (et_name tool)], s\<lparr>es_world := w\<rparr>))))"

definition before_stage :: "'w exec_options \<Rightarrow> 'w ExecTool \<Rightarrow> ToolCall \<Rightarrow> int \<Rightarrow> ('w, obj) stage" where
  "before_stage opts tool call start s = (case xo_hooks opts of
       None \<Rightarrow> (Some (Inr (Inr (tc_input call))), [], s)
     | Some hooks \<Rightarrow>
         (case runBeforeHooks hooks (et_name tool) (tc_input call) (es_world s) of
            (Inl e, w) \<Rightarrow> (Some (Inl e), [RanBeforeHooks], s\<lparr>es_world := w\<rparr>)
          | (Inr res, w) \<Rightarrow>
              (if bh_blocked res
               then (Some (Inr (Inl (refuse opts call start
                       (error_result (case bh_reason res of Some r \<Rightarrow> r
                          | None \<Rightarrow> ''Blocked by before-hook for '' @ [CHR 0x22] @ et_name tool @ [CHR 0x22] @ ''.''))
                       False (s\<lparr>es_world := w\<rparr>)))), [RanBeforeHooks], s\<lparr>es_world := w\<rparr>)
               else (Some (Inr (Inr (case bh_modifiedInput res of Some i \<Rightarrow> i | None \<Rightarrow> tc_input call))),
                     [RanBeforeHooks], s\<lparr>es_world := w\<rparr>))))"

definition validate_stage :: "'w exec_options \<Rightarrow> 'w ExecTool \<Rightarrow> ToolCall \<Rightarrow> int \<Rightarrow> obj \<Rightarrow> ('w, unit) stage" where
  "validate_stage opts tool call start input s = (case et_validateInput tool of
       None \<Rightarrow> (Some (Inr (Inr ())), [], s)
     | Some validate \<Rightarrow>
         (case validate input (es_world s) of
            (Inl e, w) \<Rightarrow> (Some (Inl e), [RanValidation], s\<lparr>es_world := w\<rparr>)
          | (Inr ValidInput, w) \<Rightarrow> (Some (Inr (Inr ())), [RanValidation], s\<lparr>es_world := w\<rparr>)
          | (Inr (InvalidInput m code), w) \<Rightarrow>
              (Some (Inr (Inl (refuse opts (call\<lparr>tc_input := input\<rparr>) start
                 \<lparr>content = m, isError = True,
                  metadata = Some [(''validation'', JObj [(''errorCode'', JNum (show_nat (case code of Some c \<Rightarrow> c | None \<Rightarrow> 0)))])]\<rparr>
                 False (s\<lparr>es_world := w\<rparr>)))), [RanValidation], s\<lparr>es_world := w\<rparr>)))"

text \<open>Arming the timer and computing the cache key, which may throw with the timer armed.\<close>

definition arm_stage :: "'w exec_options \<Rightarrow> 'w ExecTool \<Rightarrow> obj \<Rightarrow> ('w, string option) stage" where
  "arm_stage opts tool input s =
     (let s1 = s\<lparr>es_timer := \<not> et_disableTimeout tool\<rparr> in
      case (es_cache s, et_cacheKey tool) of
        (Some c, Some keyf) \<Rightarrow>
          (case keyf input (es_world s) of
             Inl e \<Rightarrow> (Some (Inl e), [], s1)
           | Inr k \<Rightarrow> (Some (Inr (Inr k)), [], s1))
      | _ \<Rightarrow> (Some (Inr (Inr None)), [], s1))"

definition lookup_cache ::
  "'w ExecTool \<Rightarrow> string option \<Rightarrow> 'w exec_state \<Rightarrow> ToolResult option \<times> exec_event list \<times> 'w exec_state" where
  "lookup_cache tool key s = (case (es_cache s, key) of
       (Some c, Some k) \<Rightarrow>
         (case cache_get (et_name tool) k c of
            (Some hit, c') \<Rightarrow> (Some hit, [LookedUp k], s\<lparr>es_cache := Some c', es_timer := False\<rparr>)
          | (None, c') \<Rightarrow> (None, [LookedUp k], s\<lparr>es_cache := Some c'\<rparr>))
     | _ \<Rightarrow> (None, [], s))"

definition run_tool ::
  "'w exec_options \<Rightarrow> 'w ExecTool \<Rightarrow> obj \<Rightarrow> string option \<Rightarrow> 'w exec_state
     \<Rightarrow> ToolResult \<times> exec_event list \<times> 'w exec_state" where
  "run_tool opts tool input key s =
     (let deadline = (if et_disableTimeout tool then None else Some (resolveTimeout tool opts)) in
      case et_execute tool input deadline (es_world s) of (ps, out, w) \<Rightarrow>
        (let result = (case out of Inl e \<Rightarrow> errorToToolResult e (resolveTimeout tool opts) | Inr r \<Rightarrow> r);
             s1 = s\<lparr>es_world := w, es_timer := False\<rparr>
         in case (es_cache s, key) of
              (Some c, Some k) \<Rightarrow>
                (result, RanTool input deadline # map Reported ps @ [Stored k],
                 s1\<lparr>es_cache := Some (cache_set (et_name tool) k result c)\<rparr>)
            | _ \<Rightarrow> (result, RanTool input deadline # map Reported ps, s1)))"

definition execute_stage ::
  "'w exec_options \<Rightarrow> 'w ExecTool \<Rightarrow> obj \<Rightarrow> string option \<Rightarrow> ('w, ToolResult \<times> bool) stage" where
  "execute_stage opts tool input key s =
     (case lookup_cache tool key s of
        (Some hit, evs, s1) \<Rightarrow> (Some (Inr (Inr (hit, True))), evs, s1)
      | (None, evs, s1) \<Rightarrow>
          (case run_tool opts tool input key s1 of
             (result, evs', s2) \<Rightarrow> (Some (Inr (Inr (result, False))), evs @ evs', s2)))"

definition present_stage :: "'w exec_options \<Rightarrow> 'w ExecTool \<Rightarrow> ToolResult \<Rightarrow> ('w, ToolResult) stage" where
  "present_stage opts tool result s =
     (let capped = capResultSize result (resolveMaxResultSize tool opts) in
      case sanitizeToolResultText (xo_num opts) (content capped) of
        None \<Rightarrow> (None, [], s)
      | Some t \<Rightarrow> (Some (Inr (Inr (capped\<lparr>content := t\<rparr>))), [], s))"

definition after_stage :: "'w exec_options \<Rightarrow> 'w ExecTool \<Rightarrow> obj \<Rightarrow> ToolResult \<Rightarrow> ('w, ToolResult) stage" where
  "after_stage opts tool input result s = (case xo_hooks opts of
       None \<Rightarrow> (Some (Inr (Inr result)), [], s)
     | Some hooks \<Rightarrow>
         (case runAfterHooks hooks (et_name tool) input result (es_world s) of
            (Inl e, w) \<Rightarrow> (Some (Inl e), [RanAfterHooks], s\<lparr>es_world := w\<rparr>)
          | (Inr r, w) \<Rightarrow> (Some (Inr (Inr r)), [RanAfterHooks], s\<lparr>es_world := w\<rparr>)))"

definition finish_stage ::
  "'w exec_options \<Rightarrow> ToolCall \<Rightarrow> int \<Rightarrow> obj \<Rightarrow> bool \<Rightarrow> ToolResult \<Rightarrow> ('w, ToolExecutionResult) stage" where
  "finish_stage opts call start input hit result s =
     (Some (Inr (Inr \<lparr>er_toolCall = call\<lparr>tc_input := input\<rparr>, er_result = result,
        er_durationMs = xo_now opts (es_world s) - start, er_wasPermissionDenied = False,
        er_cacheHit = Some hit\<rparr>)), [], s)"

definition executeTool ::
  "'w exec_options \<Rightarrow> 'w ExecTool \<Rightarrow> ToolCall \<Rightarrow> 'w exec_state
     \<Rightarrow> (js_thrown + ToolExecutionResult) option \<times> exec_event list \<times> 'w exec_state" where
  "executeTool opts tool call s =
     (let start = xo_now opts (es_world s) in
      case then_stage (permission_stage opts tool call start) (\<lambda>_.
           then_stage (before_stage opts tool call start) (\<lambda>input.
           then_stage (validate_stage opts tool call start input) (\<lambda>_.
           then_stage (arm_stage opts tool input) (\<lambda>key.
           then_stage (execute_stage opts tool input key) (\<lambda>(result, hit).
           then_stage (present_stage opts tool result) (\<lambda>shown.
           then_stage (after_stage opts tool input shown) (\<lambda>final.
           finish_stage opts call start input hit final))))))) s of
        (r, evs, s') \<Rightarrow> (map_option (\<lambda>x. case x of Inl e \<Rightarrow> Inl e | Inr (Inl y) \<Rightarrow> Inr y | Inr (Inr y) \<Rightarrow> Inr y) r, evs, s'))"

text \<open>The batch runs one call after the other, without a cache; a throw ends it.\<close>

fun executeToolBatch ::
  "'w exec_options \<Rightarrow> ('w ExecTool \<times> ToolCall) list \<Rightarrow> 'w
     \<Rightarrow> (js_thrown + ToolExecutionResult list) option \<times> 'w" where
  "executeToolBatch opts [] w = (Some (Inr []), w)"
| "executeToolBatch opts ((tool, call) # cs) w =
     (case executeTool opts tool call \<lparr>es_world = w, es_cache = None, es_timer = False\<rparr> of
        (None, evs, s) \<Rightarrow> (None, es_world s)
      | (Some (Inl e), evs, s) \<Rightarrow> (Some (Inl e), es_world s)
      | (Some (Inr r), evs, s) \<Rightarrow>
          (case executeToolBatch opts cs (es_world s) of
             (Some (Inr rs), w') \<Rightarrow> (Some (Inr (r # rs)), w')
           | (x, w') \<Rightarrow> (x, w')))"

section \<open>Discipline of a call\<close>

primrec runs_of :: "exec_event list \<Rightarrow> (obj \<times> nat option) list" where
  "runs_of [] = []"
| "runs_of (e # es) = (case e of RanTool i d \<Rightarrow> [(i, d)] | _ \<Rightarrow> []) @ runs_of es"

lemma runs_of_append [simp]: "runs_of (es @ fs) = runs_of es @ runs_of fs"
  by (induction es) auto

lemma runs_of_reports [simp]: "runs_of (map Reported ps) = []"
  by (induction ps) auto

lemma then_stage_cases [consumes 1, case_names outside threw ended go]:
  assumes "then_stage m k s = (r, evs, s')"
  obtains "m s = (None, evs, s')" "r = None"
  | e where "m s = (Some (Inl e), evs, s')" "r = Some (Inl e)"
  | y where "m s = (Some (Inr (Inl y)), evs, s')" "r = Some (Inr (Inl y))"
  | a e1 s1 e2 where "m s = (Some (Inr (Inr a)), e1, s1)" "k a s1 = (r, e2, s')" "evs = e1 @ e2"
proof -
  obtain x e1 s1 where m: "m s = (x, e1, s1)" by (metis prod_cases3)
  show ?thesis
  proof (cases x)
    case None
    then show ?thesis using m assms that(1) by (simp add: then_stage_def)
  next
    case (Some y)
    show ?thesis
    proof (cases y)
      case (Inl e)
      then show ?thesis using m Some assms that(2) by (simp add: then_stage_def)
    next
      case (Inr z)
      then show ?thesis using m Some assms that(3,4) by (cases z) (auto simp: then_stage_def split: prod.splits)
    qed
  qed
qed

lemma then_stage_go:
  "m s = (Some (Inr (Inr a)), e1, s1) \<Longrightarrow> then_stage m k s = (r, evs, s') \<Longrightarrow>
     \<exists>e2. k a s1 = (r, e2, s') \<and> evs = e1 @ e2"
  by (auto simp: then_stage_def split: prod.splits)

text \<open>A stage before the tool: it neither runs it nor touches the cache or the timer, and it ends
  a call only with an error result.\<close>

definition quiet :: "('w, 'a) stage \<Rightarrow> bool" where
  "quiet m \<longleftrightarrow> (\<forall>s r evs s'. m s = (r, evs, s') \<longrightarrow>
     r \<noteq> None \<and> runs_of evs = [] \<and> RanAfterHooks \<notin> set evs \<and> es_cache s' = es_cache s \<and> es_timer s' = es_timer s \<and>
     (\<forall>y. r = Some (Inr (Inl y)) \<longrightarrow> isError (er_result y) \<and> er_cacheHit y = None))"

lemma quiet_permission: "quiet (permission_stage opts tool call start)"
  by (auto simp: quiet_def permission_stage_def refuse_def error_result_def Let_def
      split: if_splits prod.splits sum.splits)

lemma quiet_before: "quiet (before_stage opts tool call start)"
  by (auto simp: quiet_def before_stage_def refuse_def error_result_def
      split: if_splits prod.splits sum.splits option.splits)

lemma quiet_validate: "quiet (validate_stage opts tool call start input)"
  by (auto simp: quiet_def validate_stage_def refuse_def
      split: if_splits prod.splits sum.splits option.splits validation.splits)

text \<open>A result as the after-hooks get it: capped, then redacted. Without hooks it is what the call returns.\<close>

definition delivered :: "'w exec_options \<Rightarrow> 'w ExecTool \<Rightarrow> ToolResult \<Rightarrow> bool" where
  "delivered opts tool t \<longleftrightarrow> xo_hooks opts \<noteq> None \<or>
     (\<exists>raw. sanitizeToolResultText (xo_num opts)
        (content (capResultSize raw (resolveMaxResultSize tool opts))) = Some (content t))"

definition may_run :: "'w exec_options \<Rightarrow> 'w ExecTool \<Rightarrow> ToolCall \<Rightarrow> 'w \<Rightarrow> bool" where
  "may_run opts tool call w \<longleftrightarrow> (et_requiresPermission tool \<longrightarrow>
     fst (xo_requestPermission opts (et_name tool)
       (''Execute tool '' @ [CHR 0x22] @ et_name tool @ [CHR 0x22] @ '' with input: '' @
        executor_summarizeInput (tc_input call)) w) = Inr True)"

lemma no_permission_no_run:
  assumes "then_stage (permission_stage opts tool call start) k s = (r, evs, s')" "runs_of evs \<noteq> []"
  shows "may_run opts tool call (es_world s)"
  using assms
  by (auto simp: then_stage_def permission_stage_def may_run_def Let_def split: if_splits prod.splits sum.splits)

text \<open>What a whole call leaves behind, by its outcome.\<close>

definition disciplined ::
  "(ToolResult \<Rightarrow> bool) \<Rightarrow> ToolResultCache option \<Rightarrow> (js_thrown + ToolExecutionResult + ToolExecutionResult) option \<Rightarrow> exec_event list
     \<Rightarrow> 'w exec_state \<Rightarrow> bool" where
  "disciplined Q c0 r evs s' \<longleftrightarrow> (case r of
       None \<Rightarrow> length (runs_of evs) \<le> 1 \<and> \<not> es_timer s'
     | Some (Inl e) \<Rightarrow> length (runs_of evs) \<le> 1 \<and> (es_timer s' \<longrightarrow> runs_of evs = [])
     | Some (Inr (Inl y)) \<Rightarrow> runs_of evs = [] \<and> RanAfterHooks \<notin> set evs \<and> es_cache s' = c0 \<and> \<not> es_timer s' \<and>
         isError (er_result y) \<and> er_cacheHit y = None
     | Some (Inr (Inr y)) \<Rightarrow> \<not> es_timer s' \<and> \<not> er_wasPermissionDenied y \<and> Q (er_result y) \<and>
         (er_cacheHit y = Some True \<and> runs_of evs = [] \<or>
          er_cacheHit y = Some False \<and> (\<exists>d. runs_of evs = [(tc_input (er_toolCall y), d)])))"

lemma quiet_then:
  assumes "quiet m" "then_stage m k s = (r, evs, s')" "\<not> es_timer s"
    and "\<And>a s1 e2. k a s1 = (r, e2, s') \<Longrightarrow> \<not> es_timer s1 \<Longrightarrow> disciplined Q (es_cache s1) r e2 s'"
  shows "disciplined Q (es_cache s) r evs s'"
  using assms(2)
proof (cases rule: then_stage_cases)
  case (go a e1 s1 e2)
  have q: "runs_of e1 = []" "RanAfterHooks \<notin> set e1" "es_cache s1 = es_cache s" "es_timer s1 = es_timer s"
    using assms(1) go(1) unfolding quiet_def by blast+
  have "disciplined Q (es_cache s1) r e2 s'" using assms(4) [OF go(2)] q(4) assms(3) by simp
  then show ?thesis using q go(3) by (auto simp: disciplined_def split: option.splits sum.splits)
qed (use assms(1,3) in \<open>auto simp: quiet_def disciplined_def\<close>)

text \<open>From the timer on: lookup, execution, presentation.\<close>

lemma execute_stage_runs:
  assumes "execute_stage opts tool input key s = (r, evs, s')"
  obtains result hit where "r = Some (Inr (Inr (result, hit)))" "\<not> es_timer s'"
    "if hit then runs_of evs = [] else (\<exists>d. runs_of evs = [(input, d)])"
proof -
  obtain h e1 s1 where l: "lookup_cache tool key s = (h, e1, s1)" by (metis prod_cases3)
  have e1: "runs_of e1 = []" "h \<noteq> None \<Longrightarrow> \<not> es_timer s1"
    using l by (auto simp: lookup_cache_def split: option.splits prod.splits)
  show ?thesis
  proof (cases h)
    case (Some hit)
    then show ?thesis using that [of hit True] assms l e1 by (simp add: execute_stage_def)
  next
    case None
    obtain result e2 s2 where t: "run_tool opts tool input key s1 = (result, e2, s2)" by (metis prod_cases3)
    have "(\<exists>d. runs_of e2 = [(input, d)]) \<and> \<not> es_timer s2"
      using t by (auto simp: run_tool_def Let_def split: prod.splits option.splits)
    then show ?thesis using that [of result False] assms l t None e1 by (auto simp: execute_stage_def)
  qed
qed

lemma tail_disciplined:
  assumes "then_stage (arm_stage opts tool input) (\<lambda>key.
           then_stage (execute_stage opts tool input key) (\<lambda>(result, hit).
           then_stage (present_stage opts tool result) (\<lambda>shown.
           then_stage (after_stage opts tool input shown) (\<lambda>final.
           finish_stage opts call start input hit final)))) s = (r, evs, s')"
  shows "disciplined (delivered opts tool) (es_cache s) r evs s'"
  using assms
proof (cases rule: then_stage_cases)
  case (go key e1 s1 e2)
  have e1: "e1 = []" using go(1) by (auto simp: arm_stage_def Let_def split: option.splits sum.splits)
  obtain res e3 s2 where x: "execute_stage opts tool input key s1 = (res, e3, s2)" by (metis prod_cases3)
  obtain result hit where h: "res = Some (Inr (Inr (result, hit)))" "\<not> es_timer s2"
    "if hit then runs_of e3 = [] else (\<exists>d. runs_of e3 = [(input, d)])"
    by (rule execute_stage_runs [OF x])
  obtain e4 where rest: "then_stage (present_stage opts tool result) (\<lambda>shown.
           then_stage (after_stage opts tool input shown) (\<lambda>final.
           finish_stage opts call start input hit final)) s2 = (r, e4, s')" "e2 = e3 @ e4"
    using then_stage_go [OF x [unfolded h(1)] go(2)] by auto
  from rest(1) show ?thesis
  proof (cases rule: then_stage_cases)
    case pr: (go shown e5 s3 e6)
    have s3: "s3 = s2" "e5 = []" using pr(1) by (auto simp: present_stage_def Let_def split: option.splits)
    from pr(2) show ?thesis
    proof (cases rule: then_stage_cases)
      case (go final e7 s4 e8)
      have "runs_of e7 = []" "es_timer s4 = es_timer s3"
        using go(1) by (auto simp: after_stage_def split: option.splits prod.splits sum.splits)
      moreover have "delivered opts tool final"
        using pr(1) go(1) by (auto simp: present_stage_def after_stage_def delivered_def Let_def
            split: option.splits prod.splits sum.splits)
      ultimately show ?thesis using go(2,3) pr(3) rest(2) \<open>evs = e1 @ e2\<close> e1 s3 h
        by (auto simp: finish_stage_def disciplined_def split: if_splits)
    qed (use h rest(2) pr(3) s3 \<open>evs = e1 @ e2\<close> e1 in
        \<open>auto simp: after_stage_def disciplined_def split: option.splits prod.splits sum.splits if_splits\<close>)
  qed (use h rest(2) \<open>evs = e1 @ e2\<close> e1 in
        \<open>auto simp: present_stage_def disciplined_def Let_def split: option.splits if_splits\<close>)
qed (auto simp: arm_stage_def disciplined_def Let_def split: option.splits sum.splits)


section \<open>Calls and the cache\<close>

definition plain_tool :: "'w ExecTool \<Rightarrow> 'w exec_options \<Rightarrow> bool" where
  "plain_tool tool opts \<longleftrightarrow> \<not> et_requiresPermission tool \<and> et_validateInput tool = None \<and> xo_hooks opts = None"

lemma plain_call:
  assumes "plain_tool tool opts" "arm_stage opts tool (tc_input call) s = (Some (Inr (Inr key)), [], s1)"
    and "execute_stage opts tool (tc_input call) key s1 = (Some (Inr (Inr (result, hit))), evs, s2)"
    and "present_stage opts tool result s2 = (Some (Inr (Inr shown)), [], s2)"
  shows "executeTool opts tool call s =
    (Some (Inr \<lparr>er_toolCall = call, er_result = shown, er_durationMs = xo_now opts (es_world s2) - xo_now opts (es_world s),
       er_wasPermissionDenied = False, er_cacheHit = Some hit\<rparr>), evs, s2)"
  using assms
  by (simp add: executeTool_def then_stage_def permission_stage_def before_stage_def validate_stage_def
      after_stage_def finish_stage_def plain_tool_def)

text \<open>The second call is served from the cache. For a tool without permission, hooks and
  validation, whose cache key is the same each time and not in the cache yet, a call that runs the
  tool and gets a result that is no error and fits into the cache stores it as it is; the same call
  made right after does not run the tool again and returns the same result.\<close>

theorem executeTool_cached:
  assumes "plain_tool tool opts" and "et_cacheKey tool = Some keyf" "\<And>w. keyf (tc_input call) w = Inr (Some k)"
    and "es_cache s = Some c" "cache_step\<^sup>*\<^sup>* (cache_new me mb) c"
    and "map_get (entries c) (composite (et_name tool) k) = None"
    and "et_execute tool (tc_input call) (if et_disableTimeout tool then None else Some (resolveTimeout tool opts)) (es_world s)
           = (ps, Inr result, w)"
    and "\<not> isError result" "0 < maxEntries c" "utf8_length (content result) \<le> int (maxBytes c)"
    and "sanitizeToolResultText (xo_num opts) (content (capResultSize result (resolveMaxResultSize tool opts))) = Some t"
  shows "\<exists>r1 r2 evs1 evs2 s1 s2. executeTool opts tool call s = (Some (Inr r1), evs1, s1) \<and>
      executeTool opts tool call s1 = (Some (Inr r2), evs2, s2) \<and>
      er_cacheHit r1 = Some False \<and> length (runs_of evs1) = 1 \<and>
      er_cacheHit r2 = Some True \<and> runs_of evs2 = [] \<and> er_result r2 = er_result r1"
proof -
  let ?shown = "(capResultSize result (resolveMaxResultSize tool opts))\<lparr>content := t\<rparr>"
  let ?c1 = "snd (cache_get (et_name tool) k c)"
  let ?c2 = "cache_set (et_name tool) k result ?c1"
  let ?d = "if et_disableTimeout tool then None else Some (resolveTimeout tool opts)"
  let ?s1 = "s\<lparr>es_timer := \<not> et_disableTimeout tool\<rparr>"
  let ?s2 = "s\<lparr>es_world := w, es_cache := Some ?c2, es_timer := False\<rparr>"
  let ?e1 = "[LookedUp k, RanTool (tc_input call) ?d] @ map Reported ps @ [Stored k]"
  have inv: "cache_inv c" by (rule rcm.inv_reachable [OF assms(5)])
  have miss: "cache_get (et_name tool) k c = (None, c\<lparr>misses := misses c + 1\<rparr>)"
    using assms(6) by (simp add: cache_get_def Let_def)
  have hit: "fst (cache_get (et_name tool) k ?c2) = Some result"
    using cache_get_after_set [of ?c1 result "et_name tool" k] inv assms(6,8,9,10) miss
    by (simp add: cache_inv_def)
  have shown: "present_stage opts tool result x = (Some (Inr (Inr ?shown)), [], x)" for x
    using assms(11) by (simp add: present_stage_def Let_def)
  have x1: "execute_stage opts tool (tc_input call) (Some k) ?s1 = (Some (Inr (Inr (result, False))), ?e1, ?s2)"
    using assms(4,7) miss by (simp add: execute_stage_def lookup_cache_def run_tool_def Let_def)
  have a1: "arm_stage opts tool (tc_input call) s = (Some (Inr (Inr (Some k))), [], ?s1)"
    and a2: "arm_stage opts tool (tc_input call) ?s2 = (Some (Inr (Inr (Some k))), [], ?s2\<lparr>es_timer := \<not> et_disableTimeout tool\<rparr>)"
    using assms(2-4) by (simp_all add: arm_stage_def Let_def)
  obtain c3 where c3: "cache_get (et_name tool) k ?c2 = (Some result, c3)"
    using hit by (cases "cache_get (et_name tool) k ?c2") auto
  have x2: "execute_stage opts tool (tc_input call) (Some k) (?s2\<lparr>es_timer := \<not> et_disableTimeout tool\<rparr>) =
      (Some (Inr (Inr (result, True))), [LookedUp k], ?s2\<lparr>es_cache := Some c3\<rparr>)"
    using c3 by (simp add: execute_stage_def lookup_cache_def)
  show ?thesis
    using plain_call [OF assms(1) a1 x1 shown] plain_call [OF assms(1) a2 x2 shown] by simp
qed

text \<open>A read tool with a cache key, run by a user who denies every request.\<close>

definition sample_exec :: "bool \<Rightarrow> nat ExecTool" where
  "sample_exec perm =
     \<lparr>et_name = ''readFile'', et_requiresPermission = perm, et_validateInput = None, et_timeoutMs = None,
      et_disableTimeout = False, et_maxResultSize = None, et_cacheKey = Some (\<lambda>i w. Inr (Some ''a'')),
      et_execute = (\<lambda>i d n. ([], Inr (sample_result ''x''), Suc n))\<rparr>"

definition sample_opts :: "nat exec_options" where
  "sample_opts =
     \<lparr>xo_requestPermission = (\<lambda>n m w. (Inr False, Suc w)), xo_hooks = None, xo_defaultTimeoutMs = None,
      xo_maxResultSize = None, xo_now = int, xo_num = (\<lambda>l. l)\<rparr>"

definition sample_call :: ToolCall where
  "sample_call = \<lparr>tc_id = ''1'', tc_name = ''readFile'', tc_input = []\<rparr>"

definition sample_state :: "nat exec_state" where
  "sample_state = \<lparr>es_world = 0, es_cache = Some (cache_new None None), es_timer = False\<rparr>"


lemma plain_x: "sanitized (sanitizeOutput ''x'') = ''x''"
  by code_simp

theorem executeTool_cached_witness:
  "\<exists>r1 r2 evs1 evs2 s1 s2. executeTool sample_opts (sample_exec False) sample_call sample_state = (Some (Inr r1), evs1, s1) \<and>
      executeTool sample_opts (sample_exec False) sample_call s1 = (Some (Inr r2), evs2, s2) \<and>
      er_cacheHit r2 = Some True \<and> runs_of evs2 = [] \<and> er_result r2 = er_result r1"
proof -
  have cap: "content (capResultSize (sample_result ''x'') (resolveMaxResultSize (sample_exec False) sample_opts)) = ''x''"
    by (simp add: capResultSize_def resolveMaxResultSize_def sample_exec_def sample_opts_def sample_result_def
        content_bytes_def ascii_def Let_def)
  have "sanitizeToolResultText (xo_num sample_opts)
      (content (capResultSize (sample_result ''x'') (resolveMaxResultSize (sample_exec False) sample_opts))) = Some ''x''"
    unfolding cap by (simp add: sanitizeToolResultText_def plain_x js_trimStart_def is_space_char_def)
  then show ?thesis
    using executeTool_cached [of "sample_exec False" sample_opts "\<lambda>i w. Inr (Some ''a'')" sample_call "''a''" sample_state
        "cache_new None None" None None "[]" "sample_result ''x''" 1 "''x''"]
    by (auto simp: plain_tool_def sample_exec_def sample_opts_def sample_call_def sample_state_def sample_result_def
        cache_new_def map_get_def resolveTimeout_def utf8_length_def)
qed

section \<open>The size cap\<close>

lemma byteLength_plain: "\<forall>u \<in> set us. u < 0xd800 \<Longrightarrow> byteLength us = sum_list (map (\<lambda>u. if u < 0x80 then 1 else if u < 0x800 then 2 else 3) us)"
  by (induction us rule: byteLength.induct) (auto simp: is_high_def)

lemma char_small: "(of_char c :: nat) < 256"
  by (metis mod_less_divisor of_char_mod_256 zero_less_numeral)

lemma latin_bytes:
  assumes "\<forall>u \<in> set us. u < 256 \<or> u = 0x2014 \<or> u = 0x2026"
  shows "content_bytes (latin_text us) = byteLength us"
proof -
  have small: "\<forall>u \<in> set (ascii t). u < 0xd800" for t
    by (auto simp: ascii_def intro: less_trans [OF char_small])
  have "sum_list (map (\<lambda>u. if u < 0x80 then 1 else if u < 0x800 then 2 else 3) (ascii (latin_text us))) =
      sum_list (map (\<lambda>u. if u < 0x80 then 1 else if u < 0x800 then 2 else (3::nat)) us)"
    using assms by (induction us) (auto simp: latin_text_def ascii_def)
  moreover have "\<forall>u \<in> set us. u < 0xd800" using assms by auto
  ultimately show ?thesis using small by (simp add: content_bytes_def byteLength_plain)
qed

definition latin_unit :: "nat \<Rightarrow> bool" where
  "latin_unit u \<longleftrightarrow> u < 256 \<or> u = 0x2014 \<or> u = 0x2026"

lemma ascii_units: "list_all latin_unit (ascii s)"
  using char_small by (auto simp: ascii_def latin_unit_def list_all_iff)

lemma prefix_units: "list_all latin_unit s \<Longrightarrow> list_all latin_unit (byteSafePrefix s m)"
  "list_all latin_unit s \<Longrightarrow> list_all latin_unit (byteSafeSuffix s m)"
  by (auto simp: byteSafePrefix_def byteSafeSuffix_def Let_def list_all_iff dest: in_set_takeD in_set_dropD)

lemma snap_units: "list_all latin_unit s \<Longrightarrow> list_all latin_unit (snap_head s)"
  "list_all latin_unit s \<Longrightarrow> list_all latin_unit (snap_tail s)"
  by (auto simp: snap_head_def snap_tail_def list_all_iff split: option.splits dest: in_set_takeD in_set_dropD)

lemma cap_units: "list_all latin_unit s \<Longrightarrow> list_all latin_unit mk \<Longrightarrow> list_all latin_unit (capBytes s m mk)"
  using prefix_units by (auto simp: capBytes_def)

lemma marker_units: "list_all latin_unit truncated_marker" "list_all latin_unit (drop_marker a b c d)"
  using ascii_units by (auto simp: truncated_marker_def drop_marker_def latin_unit_def)

lemma headTail_units: "list_all latin_unit s \<Longrightarrow> list_all latin_unit (headTailTruncate s m f sn)"
  unfolding headTailTruncate_def Let_def
  by (auto intro!: cap_units marker_units prefix_units snap_units)

lemma map_of_replace: "map_of (replace_prop k v kvs) = (if k \<in> fst ` set kvs then (map_of kvs)(k \<mapsto> v) else map_of kvs)"
  by (induction k v kvs rule: replace_prop.induct) (auto simp: fun_eq_iff)

lemma map_of_insert_index: "k \<notin> fst ` set kvs \<Longrightarrow> map_of (insert_index n k v kvs) = (map_of kvs)(k \<mapsto> v)"
  by (induction n k v kvs rule: insert_index.induct) (auto simp: fun_eq_iff split: option.splits)

lemma map_of_set_prop: "map_of (set_prop k v kvs) = (map_of kvs)(k \<mapsto> v)"
  by (auto simp: set_prop_def map_of_replace map_of_insert_index fun_eq_iff map_add_def
      dest: map_of_SomeD intro!: ext split: option.splits)
    (metis image_iff fst_conv map_of_SomeD)

text \<open>A capped result fits into the limit, in bytes, and says that it was cut.\<close>

lemma capResultSize_fits:
  assumes "0 \<le> m"
  shows "int (content_bytes (content (capResultSize r m))) \<le> m"
    and "capResultSize r m = r \<or> map_of (metadata_fields (capResultSize r m)) ''truncated'' = Some (JBool True)"
proof -
  have "content_bytes (latin_text (headTailTruncate (ascii (content r)) m None None)) =
      byteLength (headTailTruncate (ascii (content r)) m None None)"
    using headTail_units [OF ascii_units, of "content r" m None None]
    by (intro latin_bytes) (auto simp: list_all_iff latin_unit_def)
  then show "int (content_bytes (content (capResultSize r m))) \<le> m"
    using headTailTruncate_fits [OF assms, of "ascii (content r)" None None] by (simp add: capResultSize_def Let_def)
  show "capResultSize r m = r \<or> map_of (metadata_fields (capResultSize r m)) ''truncated'' = Some (JBool True)"
    by (simp add: capResultSize_def Let_def metadata_fields_def map_of_set_prop)
qed

end
