(* ===== verification/Orchestrator.thy ===== *)
theory Orchestrator
  imports ToolExecutor
begin

text \<open>
  The tool orchestrator (\<open>tools/orchestrator.ts\<close>): calls are split into read-only ones, which run in
  concurrent batches, and the others, which run one at a time. What a tool returns for an input is
  a parameter of the tool; the clock is left out. The loop of \<open>chunk\<close> is a partial function:
  \<open>None\<close> stands for a loop that does not end, which a step that is not positive makes it do.
\<close>

record OrchTool =
  ot_isReadOnly :: bool
  ot_execute :: "obj \<Rightarrow> js_thrown + ToolResult"

record OrchestratedResult =
  or_toolCall :: ToolCall
  or_result :: ToolResult

type_synonym orch_entry = "ToolCall \<times> OrchTool"

fun partitionToolCalls ::
  "ToolCall list \<Rightarrow> (string, OrchTool) js_map \<Rightarrow> orch_entry list \<times> orch_entry list \<times> ToolCall list" where
  "partitionToolCalls [] tools = ([], [], [])"
| "partitionToolCalls (call # calls) tools =
     (case partitionToolCalls calls tools of (readOnly, writing, unknown) \<Rightarrow>
        (case map_get tools (tc_name call) of
           None \<Rightarrow> (readOnly, writing, call # unknown)
         | Some tool \<Rightarrow> if ot_isReadOnly tool then ((call, tool) # readOnly, writing, unknown)
                        else (readOnly, (call, tool) # writing, unknown)))"

definition executeSingle :: "orch_entry \<Rightarrow> OrchestratedResult" where
  "executeSingle ct =
     \<lparr>or_toolCall = fst ct,
      or_result = (case ot_execute (snd ct) (tc_input (fst ct)) of
          Inr r \<Rightarrow> r
        | Inl e \<Rightarrow> error_result (''Error: '' @ thrown_message e))\<rparr>"

definition slice :: "'a list \<Rightarrow> int \<Rightarrow> int \<Rightarrow> 'a list" where
  "slice xs i j =
     (let n = int (length xs);
          clip = (\<lambda>k. nat (if k < 0 then max 0 (n + k) else min n k))
      in drop (clip i) (take (clip j) xs))"

partial_function (option) chunk_from :: "'a list \<Rightarrow> int \<Rightarrow> int \<Rightarrow> 'a list list option" where
  "chunk_from arr step i =
     (if i < int (length arr)
      then Option.bind (chunk_from arr step (i + step)) (\<lambda>cs. Some (slice arr i (i + step) # cs))
      else Some [])"

definition chunk :: "'a list \<Rightarrow> int \<Rightarrow> 'a list list option" where
  "chunk arr step = chunk_from arr step 0"

definition unknown_result :: "ToolCall \<Rightarrow> OrchestratedResult" where
  "unknown_result call = \<lparr>or_toolCall = call, or_result = error_result (''Unknown tool: '' @ tc_name call)\<rparr>"

text \<open>The groups of calls that run concurrently, in the order they are started.\<close>

definition schedule :: "ToolCall list \<Rightarrow> (string, OrchTool) js_map \<Rightarrow> int \<Rightarrow> orch_entry list list option" where
  "schedule calls tools maxConcurrency =
     (case partitionToolCalls calls tools of (readOnly, writing, unknown) \<Rightarrow>
        (if readOnly = [] then Some (map (\<lambda>ct. [ct]) writing)
         else map_option (\<lambda>batches. batches @ map (\<lambda>ct. [ct]) writing) (chunk readOnly maxConcurrency)))"

definition executeOrchestrated ::
  "ToolCall list \<Rightarrow> (string, OrchTool) js_map \<Rightarrow> int \<Rightarrow> OrchestratedResult list option" where
  "executeOrchestrated calls tools maxConcurrency =
     (case partitionToolCalls calls tools of (readOnly, writing, unknown) \<Rightarrow>
        map_option (\<lambda>batches. map unknown_result unknown @ concat (map (map executeSingle) batches))
          (schedule calls tools maxConcurrency))"

section \<open>Chunks\<close>

lemma chunk_from_positive:
  assumes "0 < step"
  shows "0 \<le> i \<Longrightarrow> \<exists>cs. chunk_from arr step i = Some cs \<and> concat cs = drop (nat i) arr \<and>
    (\<forall>c \<in> set cs. c \<noteq> [] \<and> int (length c) \<le> step)"
proof (induction "nat (int (length arr) - i)" arbitrary: i rule: less_induct)
  case less
  show ?case
  proof (cases "i < int (length arr)")
    case False
    then show ?thesis by (subst chunk_from.simps) simp
  next
    case True
    obtain cs where cs: "chunk_from arr step (i + step) = Some cs" "concat cs = drop (nat (i + step)) arr"
      "\<forall>c \<in> set cs. c \<noteq> [] \<and> int (length c) \<le> step"
      using less.hyps [of "i + step"] less.prems True assms by fastforce
    have s: "slice arr i (i + step) = take (nat step) (drop (nat i) arr)"
      using less.prems True assms
      by (auto simp: slice_def Let_def drop_take min_def nat_diff_distrib nat_add_distrib)
    have "slice arr i (i + step) @ drop (nat (i + step)) arr = drop (nat i) arr"
      using less.prems assms unfolding s by (simp add: nat_add_distrib add.commute [of "nat i"] drop_drop [symmetric] del: drop_drop)
    moreover have "slice arr i (i + step) \<noteq> []" "int (length (slice arr i (i + step))) \<le> step"
      using less.prems True assms unfolding s by auto
    ultimately show ?thesis using cs True by (subst chunk_from.simps) simp
  qed
qed

lemma chunk_stuck: "arr \<noteq> [] \<Longrightarrow> chunk arr 0 = None"
proof -
  assume "arr \<noteq> []"
  then have "chunk_from arr 0 0 = Option.bind (chunk_from arr 0 0) (\<lambda>cs. Some (slice arr 0 0 # cs))"
    by (subst chunk_from.simps) simp
  then show ?thesis unfolding chunk_def by (cases "chunk_from arr 0 0") auto
qed

section \<open>Every call is answered\<close>

lemma partition_filter:
  "partitionToolCalls calls tools = (readOnly, writing, unknown) \<Longrightarrow>
     map fst readOnly = filter (\<lambda>c. \<exists>t. map_get tools (tc_name c) = Some t \<and> ot_isReadOnly t) calls \<and>
     map fst writing = filter (\<lambda>c. \<exists>t. map_get tools (tc_name c) = Some t \<and> \<not> ot_isReadOnly t) calls \<and>
     unknown = filter (\<lambda>c. map_get tools (tc_name c) = None) calls"
proof (induction calls arbitrary: readOnly writing unknown)
  case (Cons call calls)
  obtain ro w u where p: "partitionToolCalls calls tools = (ro, w, u)" by (metis prod_cases3)
  show ?case using Cons.prems Cons.IH [OF p] p by (auto split: option.splits if_splits)
qed auto

lemma schedule_positive:
  assumes "0 < m"
  shows "\<exists>bs. schedule calls tools m = Some bs \<and>
    concat bs = fst (partitionToolCalls calls tools) @ fst (snd (partitionToolCalls calls tools)) \<and>
    (\<forall>b \<in> set bs. (list_all (ot_isReadOnly \<circ> snd) b \<or> length b = 1) \<and> int (length b) \<le> m)"
proof -
  obtain ro w u where p: "partitionToolCalls calls tools = (ro, w, u)" by (metis prod_cases3)
  have ro: "list_all (ot_isReadOnly \<circ> snd) ro"
    using p by (induction calls arbitrary: ro w u) (auto split: prod.splits option.splits if_splits)
  have single: "concat (map (\<lambda>ct. [ct]) w) = w" by (induction w) auto
  obtain cs where cs: "chunk ro m = Some cs" "concat cs = ro" "\<forall>c \<in> set cs. c \<noteq> [] \<and> int (length c) \<le> m"
    using chunk_from_positive [OF assms, of 0 ro] by (auto simp: chunk_def)
  have "list_all (ot_isReadOnly \<circ> snd) b" if "b \<in> set cs" for b
    using that ro cs(2) by (auto simp: list_all_iff)
  then show ?thesis using p cs single assms by (auto simp: schedule_def)
qed

text \<open>C37: The orchestrator answers every call exactly once. With a positive limit it returns: the calls
  of the results are those given, first the calls to unknown tools, then the read-only ones, then
  the others, each group in its order. At most \<open>maxConcurrency\<close> calls run together, only read-only
  calls share a batch, and those that may write come one by one after all of them. With a limit of
  zero and a read-only call it does not return.\<close>

theorem orchestrator_answers:
  assumes "0 < m"
  shows "(\<exists>rs bs. executeOrchestrated calls tools m = Some rs \<and> schedule calls tools m = Some bs \<and>
      map or_toolCall rs =
        filter (\<lambda>c. map_get tools (tc_name c) = None) calls @
        filter (\<lambda>c. \<exists>t. map_get tools (tc_name c) = Some t \<and> ot_isReadOnly t) calls @
        filter (\<lambda>c. \<exists>t. map_get tools (tc_name c) = Some t \<and> \<not> ot_isReadOnly t) calls \<and>
      (\<forall>b \<in> set bs. (list_all (ot_isReadOnly \<circ> snd) b \<or> length b = 1) \<and> int (length b) \<le> m)) \<and>
    (filter (\<lambda>c. \<exists>t. map_get tools (tc_name c) = Some t \<and> ot_isReadOnly t) calls \<noteq> [] \<longrightarrow>
      executeOrchestrated calls tools 0 = None)"
proof (intro conjI impI)
  obtain ro w u where p: "partitionToolCalls calls tools = (ro, w, u)" by (metis prod_cases3)
  note parts = partition_filter [OF p]
  obtain bs where bs: "schedule calls tools m = Some bs" "concat bs = ro @ w"
    "\<forall>b \<in> set bs. (list_all (ot_isReadOnly \<circ> snd) b \<or> length b = 1) \<and> int (length b) \<le> m"
    using schedule_positive [OF assms, of calls tools] p by auto
  have "map or_toolCall (concat (map (map executeSingle) bs)) = map fst (concat bs)"
    by (simp add: map_concat executeSingle_def comp_def)
  then have "map or_toolCall (map unknown_result u @ concat (map (map executeSingle) bs)) = u @ map fst ro @ map fst w"
    using bs(2) by (simp add: unknown_result_def comp_def)
  then show "\<exists>rs bs. executeOrchestrated calls tools m = Some rs \<and> schedule calls tools m = Some bs \<and>
      map or_toolCall rs =
        filter (\<lambda>c. map_get tools (tc_name c) = None) calls @
        filter (\<lambda>c. \<exists>t. map_get tools (tc_name c) = Some t \<and> ot_isReadOnly t) calls @
        filter (\<lambda>c. \<exists>t. map_get tools (tc_name c) = Some t \<and> \<not> ot_isReadOnly t) calls \<and>
      (\<forall>b \<in> set bs. (list_all (ot_isReadOnly \<circ> snd) b \<or> length b = 1) \<and> int (length b) \<le> m)"
    using p bs parts by (simp add: executeOrchestrated_def)
  show "executeOrchestrated calls tools 0 = None"
    if "filter (\<lambda>c. \<exists>t. map_get tools (tc_name c) = Some t \<and> ot_isReadOnly t) calls \<noteq> []"
    using that parts p chunk_stuck [of ro] by (auto simp: executeOrchestrated_def schedule_def)
qed

definition two_calls :: "ToolCall list" where
  "two_calls = [\<lparr>tc_id = ''1'', tc_name = ''write'', tc_input = []\<rparr>, \<lparr>tc_id = ''2'', tc_name = ''read'', tc_input = []\<rparr>]"

definition two_tools :: "(string, OrchTool) js_map" where
  "two_tools = [(''read'', \<lparr>ot_isReadOnly = True, ot_execute = \<lambda>i. Inr (sample_result ''r'')\<rparr>),
     (''write'', \<lparr>ot_isReadOnly = False, ot_execute = \<lambda>i. Inr (sample_result ''w'')\<rparr>)]"

theorem orchestrator_answers_witness:
  "(\<exists>rs. executeOrchestrated two_calls two_tools 10 = Some rs \<and> map (tc_id \<circ> or_toolCall) rs = [''2'', ''1'']) \<and>
   executeOrchestrated two_calls two_tools 0 = None"
proof -
  have sel: "filter (\<lambda>c. \<exists>t. map_get two_tools (tc_name c) = Some t \<and> ot_isReadOnly t) two_calls = [two_calls ! 1]"
    "filter (\<lambda>c. \<exists>t. map_get two_tools (tc_name c) = Some t \<and> \<not> ot_isReadOnly t) two_calls = [two_calls ! 0]"
    "filter (\<lambda>c. map_get two_tools (tc_name c) = None) two_calls = []"
    by (simp_all add: two_calls_def two_tools_def map_get_def)
  obtain rs where rs: "executeOrchestrated two_calls two_tools 10 = Some rs" "map or_toolCall rs = [two_calls ! 1, two_calls ! 0]"
    using orchestrator_answers [of 10 two_calls two_tools] unfolding sel by auto
  have "map tc_id (map or_toolCall rs) = [''2'', ''1'']" unfolding rs(2) by (simp add: two_calls_def)
  then show ?thesis using rs(1) orchestrator_answers [of 10 two_calls two_tools] sel(1) by simp
qed

end
