(* ===== verification/LoopProc.thy ===== *)
theory LoopProc
  imports Main
begin

text \<open>
  Asynchronous code as processes. A process returns a value, makes an observation (an event it
  yields, or a mark that something happened) or performs one atomic action on the shared state: the
  code between two awaits. The continuation of an action sees the state before it. One process
  alone is run to its end; several are interleaved by a schedule, any list of numbers that says which
  process makes the next move, after which the rest run to their ends in order. Processes are
  well-founded: every run of one ends.
\<close>

section \<open>Processes\<close>

datatype ('s, 'e, 'a) proc =
    Ret 'a
  | Say 'e "('s, 'e, 'a) proc"
  | Act "'s \<Rightarrow> 's" "'s \<Rightarrow> ('s, 'e, 'a) proc"

primrec bind_proc :: "('s, 'e, 'a) proc \<Rightarrow> ('a \<Rightarrow> ('s, 'e, 'b) proc) \<Rightarrow> ('s, 'e, 'b) proc" where
  "bind_proc (Ret a) f = f a"
| "bind_proc (Say e p) f = Say e (bind_proc p f)"
| "bind_proc (Act g k) f = Act g (\<lambda>s. bind_proc (k s) f)"

definition call :: "('s \<Rightarrow> 'r \<times> 's) \<Rightarrow> ('s, 'e, 'r) proc" where
  "call f = Act (snd \<circ> f) (\<lambda>s. Ret (fst (f s)))"

primrec say_all :: "'e list \<Rightarrow> ('s, 'e, 'a) proc \<Rightarrow> ('s, 'e, 'a) proc" where
  "say_all [] p = p"
| "say_all (e # es) p = Say e (say_all es p)"

section \<open>Running\<close>

primrec run_proc :: "('s, 'e, 'a) proc \<Rightarrow> 's \<Rightarrow> 'a \<times> 'e list \<times> 's" where
  "run_proc (Ret a) = (\<lambda>s. (a, [], s))"
| "run_proc (Say e p) = (\<lambda>s. case run_proc p s of (a, es, s') \<Rightarrow> (a, e # es, s'))"
| "run_proc (Act g k) = (\<lambda>s. run_proc (k s) (g s))"

text \<open>One move of a process: what it says, what is left, the state.\<close>

fun move :: "('s, 'e, 'a) proc \<Rightarrow> 's \<Rightarrow> 'e list \<times> ('s, 'e, 'a) proc \<times> 's" where
  "move (Ret a) s = ([], Ret a, s)"
| "move (Say e p) s = ([e], p, s)"
| "move (Act g k) s = ([], k s, g s)"

definition move_at :: "nat \<Rightarrow> ('e list \<times> ('s, 'e, 'a) proc) list \<times> 's \<Rightarrow> ('e list \<times> ('s, 'e, 'a) proc) list \<times> 's" where
  "move_at i c = (case c of (ps, s) \<Rightarrow>
     (if i < length ps
      then (case move (snd (ps ! i)) s of (es, p, s') \<Rightarrow> (ps[i := (fst (ps ! i) @ es, p)], s'))
      else (ps, s)))"

primrec finish :: "('e list \<times> ('s, 'e, 'a) proc) list \<Rightarrow> 's \<Rightarrow> ('e list \<times> 'a) list \<times> 's" where
  "finish [] s = ([], s)"
| "finish (q # qs) s = (case run_proc (snd q) s of (a, es, s') \<Rightarrow>
     (case finish qs s' of (rs, s'') \<Rightarrow> ((fst q @ es, a) # rs, s'')))"

primrec moves :: "nat list \<Rightarrow> ('e list \<times> ('s, 'e, 'a) proc) list \<times> 's \<Rightarrow> ('e list \<times> ('s, 'e, 'a) proc) list \<times> 's" where
  "moves [] c = c"
| "moves (i # is) c = moves is (move_at i c)"

definition run_parallel :: "nat list \<Rightarrow> ('s, 'e, 'a) proc list \<Rightarrow> 's \<Rightarrow> ('e list \<times> 'a) list \<times> 's" where
  "run_parallel sched ps s = (case moves sched (map (Pair []) ps, s) of (qs, s') \<Rightarrow> finish qs s')"

section \<open>Reasoning\<close>

text \<open>\<open>every Q es p\<close>: whatever the states in between, a run of \<open>p\<close> that has said \<open>es\<close> so far ends
  with a record of observations and a value that satisfy \<open>Q\<close>.\<close>

primrec every :: "('e list \<Rightarrow> 'a \<Rightarrow> bool) \<Rightarrow> ('s, 'e, 'a) proc \<Rightarrow> 'e list \<Rightarrow> bool" where
  "every Q (Ret a) = (\<lambda>es. Q es a)"
| "every Q (Say e p) = (\<lambda>es. every Q p (es @ [e]))"
| "every Q (Act g k) = (\<lambda>es. \<forall>s. every Q (k s) es)"

lemma every_mono: "every Q p es \<Longrightarrow> (\<And>es a. Q es a \<Longrightarrow> R es a) \<Longrightarrow> every R p es"
  by (induction p arbitrary: es) auto

lemma every_bind: "every Q (bind_proc p f) es \<longleftrightarrow> every (\<lambda>es' a. every Q (f a) es') p es"
  by (induction p arbitrary: es) auto

lemma every_say_all [simp]: "every Q (say_all xs p) es \<longleftrightarrow> every Q p (es @ xs)"
  by (induction xs arbitrary: es) auto

lemma every_call [simp]: "every Q (call f) es \<longleftrightarrow> (\<forall>s. Q es (fst (f s)))"
  by (simp add: call_def)

lemma every_prefix: "every (\<lambda>es' a. Q es' a \<and> (\<exists>xs. es' = es @ xs)) p es \<longleftrightarrow> every Q p es"
proof -
  have "every Q p (es @ ys) \<Longrightarrow> every (\<lambda>es' a. Q es' a \<and> (\<exists>xs. es' = es @ xs)) p (es @ ys)" for ys
  proof (induction p arbitrary: ys)
    case (Say e p)
    from Say.IH [of "ys @ [e]"] Say.prems show ?case by simp
  qed auto
  from this [of "[]"] show ?thesis by (auto intro: every_mono)
qed

lemma run_every: "every Q p es \<Longrightarrow> run_proc p s = (a, es', s') \<Longrightarrow> Q (es @ es') a"
proof (induction p arbitrary: es s es')
  case (Say e p)
  obtain a1 es1 s1 where r: "run_proc p s = (a1, es1, s1)" by (metis prod_cases3)
  then have "es' = e # es1" "a1 = a" "s1 = s'" using Say.prems(2) by auto
  then show ?case using Say.IH [of "es @ [e]" s es1] Say.prems(1) r by simp
next
  case (Act g k)
  then show ?case using Act.IH [of "k s" es "g s" es'] by simp
qed auto

lemma run_bind:
  "run_proc (bind_proc p f) s = (case run_proc p s of (a, es, s1) \<Rightarrow> (case run_proc (f a) s1 of (b, es', s2) \<Rightarrow> (b, es @ es', s2)))"
  by (induction p arbitrary: s) (auto split: prod.splits)

lemma run_say_all: "run_proc (say_all xs p) s = (case run_proc p s of (a, es, s1) \<Rightarrow> (a, xs @ es, s1))"
  by (induction xs) (auto split: prod.splits)

lemma run_call [simp]: "run_proc (call f) s = (fst (f s), [], snd (f s))"
  by (simp add: call_def)

lemma every_move: "every Q p es \<Longrightarrow> move p s = (xs, p', s') \<Longrightarrow> every Q p' (es @ xs)"
  by (cases p) auto

text \<open>Every schedule gives each process a run of its own: as many results as processes, in their
  order, each with the observations of its own process.\<close>

lemma finish_every:
  "list_all2 (\<lambda>Q q. every Q (snd q) (fst q)) Qs qs \<Longrightarrow> finish qs s = (rs, s') \<Longrightarrow>
   list_all2 (\<lambda>Q r. Q (fst r) (snd r)) Qs rs"
proof (induction Qs qs arbitrary: s rs s' rule: list_all2_induct)
  case (Cons Q Qs q qs)
  obtain a es s1 where r: "run_proc (snd q) s = (a, es, s1)" by (metis prod_cases3)
  obtain rs1 s2 where f: "finish qs s1 = (rs1, s2)" by (metis surj_pair)
  have "rs = (fst q @ es, a) # rs1" "s2 = s'" using Cons.prems r f by auto
  then show ?case using Cons.IH [OF f] run_every [OF Cons.hyps(1) r] f by auto
qed simp

lemma nth_list_update': "i < length xs \<Longrightarrow> xs[i := x] ! j = (if i = j then x else xs ! j)"
  by (rule nth_list_update)

lemma move_at_every:
  assumes "list_all2 (\<lambda>Q q. every Q (snd q) (fst q)) Qs ps" "move_at i (ps, s) = (ps', s')"
  shows "list_all2 (\<lambda>Q q. every Q (snd q) (fst q)) Qs ps'"
proof (cases "i < length ps")
  case True
  obtain es p s1 where m: "move (snd (ps ! i)) s = (es, p, s1)" by (metis prod_cases3)
  then have "ps' = ps[i := (fst (ps ! i) @ es, p)]" using assms(2) True by (simp add: move_at_def)
  moreover have "every (Qs ! i) p (fst (ps ! i) @ es)"
    using every_move [OF _ m, of "Qs ! i" "fst (ps ! i)"] assms(1) True by (simp add: list_all2_conv_all_nth)
  ultimately show ?thesis using assms(1) True by (auto simp: list_all2_conv_all_nth nth_list_update')
qed (use assms in \<open>simp add: move_at_def\<close>)

lemma moves_every:
  "list_all2 (\<lambda>Q q. every Q (snd q) (fst q)) Qs ps \<Longrightarrow> moves sched (ps, s) = (ps', s') \<Longrightarrow>
   list_all2 (\<lambda>Q q. every Q (snd q) (fst q)) Qs ps'"
proof (induction sched arbitrary: ps s)
  case (Cons i sched)
  obtain ps1 s1 where m: "move_at i (ps, s) = (ps1, s1)" by (metis surj_pair)
  show ?case by (rule Cons.IH [OF move_at_every [OF Cons.prems(1) m]]) (use Cons.prems(2) m in simp)
qed simp

lemma parallel_every:
  assumes "list_all2 (\<lambda>Q p. every Q p []) Qs ps" "run_parallel sched ps s = (rs, s')"
  shows "list_all2 (\<lambda>Q r. Q (fst r) (snd r)) Qs rs"
proof -
  obtain qs s1 where m: "moves sched (map (Pair []) ps, s) = (qs, s1)" by (metis surj_pair)
  have "list_all2 (\<lambda>Q q. every Q (snd q) (fst q)) Qs (map (Pair []) ps)"
    using assms(1) by (simp add: list_all2_map2)
  from finish_every [OF moves_every [OF this m]] show ?thesis using assms(2) m by (simp add: run_parallel_def)
qed

text \<open>An invariant of the shared state that every action keeps is kept by every run.\<close>

primrec keeps :: "('s \<Rightarrow> bool) \<Rightarrow> ('s, 'e, 'a) proc \<Rightarrow> bool" where
  "keeps I (Ret a) \<longleftrightarrow> True"
| "keeps I (Say e p) \<longleftrightarrow> keeps I p"
| "keeps I (Act g k) \<longleftrightarrow> (\<forall>s. I s \<longrightarrow> I (g s) \<and> keeps I (k s))"

lemma run_keeps: "keeps I p \<Longrightarrow> I s \<Longrightarrow> run_proc p s = (a, es, s') \<Longrightarrow> I s'"
proof (induction p arbitrary: s es)
  case (Act g k)
  then show ?case using Act.IH [of "k s" "g s" es] by simp
qed (auto split: prod.splits)

lemma keeps_bind: "keeps I p \<Longrightarrow> (\<And>a. keeps I (f a)) \<Longrightarrow> keeps I (bind_proc p f)"
  by (induction p) auto

lemma keeps_say_all [simp]: "keeps I (say_all es p) \<longleftrightarrow> keeps I p"
  by (induction es) auto

lemma keeps_call: "keeps I (call f) \<longleftrightarrow> (\<forall>s. I s \<longrightarrow> I (snd (f s)))"
  by (simp add: call_def)

lemma finish_keeps:
  "list_all (\<lambda>q. keeps I (snd q)) qs \<Longrightarrow> I s \<Longrightarrow> finish qs s = (rs, s') \<Longrightarrow> I s'"
proof (induction qs arbitrary: s rs s')
  case (Cons q qs)
  obtain a es s1 where r: "run_proc (snd q) s = (a, es, s1)" by (metis prod_cases3)
  obtain rs1 s2 where f: "finish qs s1 = (rs1, s2)" by (metis surj_pair)
  have "keeps I (snd q)" using Cons.prems(1) by simp
  from run_keeps [OF this Cons.prems(2) r] have "I s1" .
  moreover have "s2 = s'" using Cons.prems(3) r f by simp
  ultimately show ?case using Cons.IH [of s1 rs1 s'] Cons.prems(1) f by simp
qed simp

lemma move_keeps: "keeps I p \<Longrightarrow> I s \<Longrightarrow> move p s = (es, p', s') \<Longrightarrow> keeps I p' \<and> I s'"
  by (cases p) auto

lemma moves_keep:
  "list_all (\<lambda>q. keeps I (snd q)) ps \<Longrightarrow> I s \<Longrightarrow> moves sched (ps, s) = (ps', s') \<Longrightarrow>
   list_all (\<lambda>q. keeps I (snd q)) ps' \<and> I s'"
proof (induction sched arbitrary: ps s)
  case (Cons i sched)
  show ?case
  proof (cases "i < length ps")
    case True
    obtain es p s1 where m: "move (snd (ps ! i)) s = (es, p, s1)" by (metis prod_cases3)
    have "keeps I (snd (ps ! i))" using Cons.prems(1) True by (simp add: list_all_length)
    from move_keeps [OF this Cons.prems(2) m] have p: "keeps I p" "I s1" by auto
    have "list_all (\<lambda>q. keeps I (snd q)) (ps[i := (fst (ps ! i) @ es, p)])"
      using Cons.prems(1) p(1) True by (auto simp: list_all_length nth_list_update')
    from Cons.IH [OF this p(2)] show ?thesis using Cons.prems(3) True m by (simp add: move_at_def)
  next
    case False
    then show ?thesis using Cons.IH [OF Cons.prems(1,2)] Cons.prems(3) by (simp add: move_at_def)
  qed
qed simp

lemma parallel_keeps:
  assumes "list_all (keeps I) ps" "I s" "run_parallel sched ps s = (rs, s')"
  shows "I s'"
proof -
  obtain qs s1 where m: "moves sched (map (Pair []) ps, s) = (qs, s1)" by (metis surj_pair)
  have "list_all (\<lambda>q. keeps I (snd q)) (map (Pair []) ps)" using assms(1) by (simp add: list.pred_map comp_def)
  from moves_keep [OF this assms(2) m] have "list_all (\<lambda>q. keeps I (snd q)) qs" "I s1" by auto
  moreover have "finish qs s1 = (rs, s')" using assms(3) m by (simp add: run_parallel_def)
  ultimately show ?thesis by (rule finish_keeps)
qed

end
