(* ===== verification/PromptCache.thy ===== *)
theory PromptCache
  imports Messages Errors
begin

text \<open>
  What the loop puts into a request beside the history: the system prompt and its cache markers
  (\<open>core/system-prompt.ts\<close>, \<open>core/cache-control.ts\<close>), reminders attached to the last user message,
  the marker on the last message, and the names of the skills a history has used (the helpers at the
  end of \<open>core/loop.ts\<close>). A message on the wire is a role and a content: marking turns a plain
  text, also that of a system message, into a list of one block.
\<close>

section \<open>System prompt and markers\<close>

record SystemPromptBlock =
  sp_text :: string
  sp_cacheControl :: "bool option"

datatype SystemPrompt = PromptText string | PromptBlocks "SystemPromptBlock list"

definition CACHE_CONTROL_MARKER_LIMIT :: nat where "CACHE_CONTROL_MARKER_LIMIT = 4"

definition normalize_block :: "SystemPromptBlock \<Rightarrow> SystemPromptBlock" where
  "normalize_block b = \<lparr>sp_text = sp_text b, sp_cacheControl = Some (sp_cacheControl b = Some True)\<rparr>"

fun normalizeSystemPrompt :: "SystemPrompt \<Rightarrow> SystemPromptBlock list" where
  "normalizeSystemPrompt (PromptText t) = (if t = [] then [] else [\<lparr>sp_text = t, sp_cacheControl = Some True\<rparr>])"
| "normalizeSystemPrompt (PromptBlocks bs) = map normalize_block (filter (\<lambda>b. sp_text b \<noteq> []) bs)"

fun systemPromptToText :: "SystemPrompt \<Rightarrow> string" where
  "systemPromptToText (PromptText t) = t"
| "systemPromptToText (PromptBlocks bs) = concat (map sp_text bs)"

fun countCacheMarkers :: "SystemPrompt \<Rightarrow> nat" where
  "countCacheMarkers (PromptText t) = (if t \<noteq> [] then 1 else 0)"
| "countCacheMarkers (PromptBlocks bs) =
     length (filter (\<lambda>b. sp_cacheControl b = Some True \<and> sp_text b \<noteq> []) bs)"

record CacheProfile =
  profile_ttl :: "string option"

definition buildCacheMarker :: "CacheProfile option \<Rightarrow> CacheControl" where
  "buildCacheMarker profile =
     (case profile of
        Some p \<Rightarrow> if profile_ttl p = Some ''1h'' then \<lparr>ttl = Some ''1h''\<rparr> else \<lparr>ttl = None\<rparr>
      | None \<Rightarrow> \<lparr>ttl = None\<rparr>)"

section \<open>System blocks of a request\<close>

record SystemTextBlock =
  st_text :: string
  st_cache_control :: "CacheControl option"

type_synonym RequestSystem = "string + SystemTextBlock list"

fun system_block_loop :: "CacheControl \<Rightarrow> nat \<Rightarrow> nat \<Rightarrow> SystemPromptBlock list \<Rightarrow> SystemTextBlock list" where
  "system_block_loop marker budget used [] = []"
| "system_block_loop marker budget used (b # bs) =
     (if sp_cacheControl b = Some True \<and> used < budget
      then \<lparr>st_text = sp_text b, st_cache_control = Some marker\<rparr> # system_block_loop marker budget (Suc used) bs
      else \<lparr>st_text = sp_text b, st_cache_control = None\<rparr> # system_block_loop marker budget used bs)"

definition show_int :: "int \<Rightarrow> string" where
  "show_int i = (if i < 0 then CHR ''-'' # show_nat (nat (- i)) else show_nat (nat i))"

definition buildSystemRequestBlocks ::
  "SystemPrompt \<Rightarrow> int \<Rightarrow> CacheProfile option \<Rightarrow> js_thrown + RequestSystem" where
  "buildSystemRequestBlocks sp markerBudget cacheProfile =
     (if markerBudget < 0
      then Inl (ThrownError ''Error'' (''markerBudget must be >= 0, got '' @ show_int markerBudget))
      else (let normalized = normalizeSystemPrompt sp in
            if normalized = [] then Inr (Inl [])
            else Inr (Inr (system_block_loop (buildCacheMarker cacheProfile) (nat markerBudget) 0 normalized))))"

definition countSystemBlockMarkers :: "RequestSystem \<Rightarrow> nat" where
  "countSystemBlockMarkers system = (case system of
       Inl t \<Rightarrow> 0
     | Inr bs \<Rightarrow> length (filter (\<lambda>b. st_cache_control b \<noteq> None) bs))"

section \<open>Skills a history has used\<close>

fun skill_name :: "ContentBlock \<Rightarrow> string option" where
  "skill_name (ToolUseBlock i n inp cc) =
     (if n = ''skill'' then (case map_of inp ''name'' of Some (JStr s) \<Rightarrow> if s = [] then None else Some s | _ \<Rightarrow> None)
      else None)"
| "skill_name b = None"

fun skill_loop :: "string list \<Rightarrow> ContentBlock list \<Rightarrow> string list" where
  "skill_loop seen [] = seen"
| "skill_loop seen (b # bs) = (case skill_name b of
       None \<Rightarrow> skill_loop seen bs
     | Some n \<Rightarrow> if n \<in> set seen then skill_loop seen bs else skill_loop (seen @ [n]) bs)"

fun assistant_part :: "Message \<Rightarrow> ContentBlock list" where
  "assistant_part (AssistantMessage bs) = bs"
| "assistant_part m = []"

definition extractActiveSkillNames :: "Message list \<Rightarrow> string list" where
  "extractActiveSkillNames messages = foldl (\<lambda>seen m. skill_loop seen (assistant_part m)) [] messages"

section \<open>Reminders on the last user message\<close>

fun last_user :: "Message list \<Rightarrow> nat option" where
  "last_user [] = None"
| "last_user (m # ms) = (case last_user ms of
       Some i \<Rightarrow> Some (Suc i)
     | None \<Rightarrow> if role m = User then Some 0 else None)"

fun add_block :: "ContentBlock \<Rightarrow> Message \<Rightarrow> Message" where
  "add_block b (UserMessage (Inl t)) = UserMessage (Inr [TextBlock t None, b])"
| "add_block b (UserMessage (Inr bs)) = UserMessage (Inr (bs @ [b]))"
| "add_block b m = m"

definition attachRemindersToMessages :: "Message list \<Rightarrow> string list \<Rightarrow> Message list" where
  "attachRemindersToMessages messages fragments =
     (if fragments = [] then messages
      else (case last_user messages of
          None \<Rightarrow> messages
        | Some i \<Rightarrow> messages[i := add_block (TextBlock (js_join [CHR 0x0A, CHR 0x0A] fragments) None) (messages ! i)]))"

section \<open>The marker on the last message\<close>

record WireMessage =
  wire_role :: Role
  wire_content :: Content

definition wire :: "Message \<Rightarrow> WireMessage" where
  "wire m = \<lparr>wire_role = role m, wire_content = message_content m\<rparr>"

fun set_marker :: "CacheControl \<Rightarrow> ContentBlock \<Rightarrow> ContentBlock" where
  "set_marker mk (TextBlock t cc) = TextBlock t (Some mk)"
| "set_marker mk (ImageBlock s cc) = ImageBlock s (Some mk)"
| "set_marker mk (DocumentBlock d cc) = DocumentBlock d (Some mk)"
| "set_marker mk (ToolUseBlock i n inp cc) = ToolUseBlock i n inp (Some mk)"
| "set_marker mk (ToolResultBlock i c e md cc) = ToolResultBlock i c e md (Some mk)"
| "set_marker mk (ThinkingBlock t s cc) = ThinkingBlock t s (Some mk)"
| "set_marker mk (RedactedThinkingBlock d cc) = RedactedThinkingBlock d (Some mk)"

definition markLastBlock :: "CacheControl \<Rightarrow> WireMessage \<Rightarrow> WireMessage" where
  "markLastBlock mk m = (case wire_content m of
       Inl t \<Rightarrow> m\<lparr>wire_content := Inr [TextBlock t (Some mk)]\<rparr>
     | Inr bs \<Rightarrow> if bs = [] then m else m\<lparr>wire_content := Inr (butlast bs @ [set_marker mk (last bs)])\<rparr>)"

definition applyMessageCacheMarkers :: "Message list \<Rightarrow> nat \<Rightarrow> CacheProfile option \<Rightarrow> WireMessage list" where
  "applyMessageCacheMarkers messages reservedMarkers cacheProfile =
     (if messages = [] \<or> reservedMarkers \<ge> CACHE_CONTROL_MARKER_LIMIT then map wire messages
      else map wire (butlast messages) @ [markLastBlock (buildCacheMarker cacheProfile) (wire (last messages))])"

section \<open>Markers stay within the limit\<close>

fun block_marker :: "ContentBlock \<Rightarrow> CacheControl option" where
  "block_marker (TextBlock t cc) = cc"
| "block_marker (ImageBlock s cc) = cc"
| "block_marker (DocumentBlock d cc) = cc"
| "block_marker (ToolUseBlock i n inp cc) = cc"
| "block_marker (ToolResultBlock i c e md cc) = cc"
| "block_marker (ThinkingBlock t s cc) = cc"
| "block_marker (RedactedThinkingBlock d cc) = cc"

fun clear_marker :: "ContentBlock \<Rightarrow> ContentBlock" where
  "clear_marker (TextBlock t cc) = TextBlock t None"
| "clear_marker (ImageBlock s cc) = ImageBlock s None"
| "clear_marker (DocumentBlock d cc) = DocumentBlock d None"
| "clear_marker (ToolUseBlock i n inp cc) = ToolUseBlock i n inp None"
| "clear_marker (ToolResultBlock i c e md cc) = ToolResultBlock i c e md None"
| "clear_marker (ThinkingBlock t s cc) = ThinkingBlock t s None"
| "clear_marker (RedactedThinkingBlock d cc) = RedactedThinkingBlock d None"

text \<open>A content as a list of blocks: a text counts as one block without marker.\<close>

definition as_blocks :: "Content \<Rightarrow> ContentBlock list" where
  "as_blocks c = (case c of Inl t \<Rightarrow> [TextBlock t None] | Inr bs \<Rightarrow> bs)"

definition wire_markers :: "WireMessage list \<Rightarrow> nat" where
  "wire_markers ms = length (filter (\<lambda>b. block_marker b \<noteq> None) (concat (map (as_blocks \<circ> wire_content) ms)))"

definition unmarked :: "Message list \<Rightarrow> bool" where
  "unmarked ms \<longleftrightarrow> wire_markers (map wire ms) = 0"

text \<open>What a wire message says, whatever its markers.\<close>

definition says :: "WireMessage \<Rightarrow> Role \<times> ContentBlock list" where
  "says m = (wire_role m, map clear_marker (as_blocks (wire_content m)))"

lemma marker_set [simp]: "block_marker (set_marker mk b) = Some mk" "clear_marker (set_marker mk b) = clear_marker b"
  by (cases b; simp)+

lemma clear_unmarked: "block_marker b = None \<Longrightarrow> clear_marker b = b"
  by (cases b) auto

lemma wire_markers_append: "wire_markers (ms @ ns) = wire_markers ms + wire_markers ns"
  by (simp add: wire_markers_def)

lemma map_last_split: "xs \<noteq> [] \<Longrightarrow> map f xs = map f (butlast xs) @ [f (last xs)]"
  by (induction xs) auto

lemma mark_last_says: "says (markLastBlock mk m) = says m"
proof (cases "wire_content m")
  case (Inr bs)
  then show ?thesis by (auto simp: says_def markLastBlock_def as_blocks_def map_last_split)
qed (simp add: says_def markLastBlock_def as_blocks_def)

lemma mark_last_count: "wire_markers [markLastBlock mk m] \<le> wire_markers [m] + 1"
proof (cases "wire_content m")
  case (Inr bs)
  show ?thesis
  proof (cases "bs = []")
    case False
    have "length (filter (\<lambda>b. block_marker b \<noteq> None) (butlast bs)) \<le> length (filter (\<lambda>b. block_marker b \<noteq> None) bs)"
      by (subst (2) append_butlast_last_id [OF False, symmetric]) simp
    then show ?thesis using Inr False by (simp add: wire_markers_def markLastBlock_def as_blocks_def)
  qed (use Inr in \<open>simp add: wire_markers_def markLastBlock_def\<close>)
qed (simp add: wire_markers_def markLastBlock_def as_blocks_def)

lemma system_loop_count:
  "used \<le> budget \<Longrightarrow>
   length (filter (\<lambda>b. st_cache_control b \<noteq> None) (system_block_loop mk budget used bs)) =
     min (budget - used) (length (filter (\<lambda>b. sp_cacheControl b = Some True) bs))"
  by (induction mk budget used bs rule: system_block_loop.induct) auto

lemma system_loop_texts: "map st_text (system_block_loop mk budget used bs) = map sp_text bs"
  by (induction mk budget used bs rule: system_block_loop.induct) auto

lemma normalized_markers:
  "length (filter (\<lambda>b. sp_cacheControl b = Some True) (normalizeSystemPrompt sp)) = countCacheMarkers sp"
proof (cases sp)
  case (PromptBlocks bs)
  have "length (filter (\<lambda>b. sp_cacheControl b = Some True) (map normalize_block (filter (\<lambda>b. sp_text b \<noteq> []) bs))) =
      length (filter (\<lambda>b. sp_cacheControl b = Some True \<and> sp_text b \<noteq> []) bs)"
    by (induction bs) (auto simp: normalize_block_def)
  with PromptBlocks show ?thesis by simp
qed simp

lemma normalized_text: "concat (map sp_text (normalizeSystemPrompt sp)) = systemPromptToText sp"
proof (cases sp)
  case (PromptBlocks bs)
  have "concat (map sp_text (map normalize_block (filter (\<lambda>b. sp_text b \<noteq> []) bs))) = concat (map sp_text bs)"
    by (induction bs) (auto simp: normalize_block_def)
  with PromptBlocks show ?thesis by simp
qed simp

definition system_text :: "RequestSystem \<Rightarrow> string" where
  "system_text s = (case s of Inl t \<Rightarrow> t | Inr bs \<Rightarrow> concat (map st_text bs))"

lemma build_system:
  assumes "0 \<le> budget"
  shows "\<exists>s. buildSystemRequestBlocks sp budget profile = Inr s \<and> system_text s = systemPromptToText sp \<and>
    countSystemBlockMarkers s = min (nat budget) (countCacheMarkers sp)"
proof (cases "normalizeSystemPrompt sp = []")
  case True
  then have "countCacheMarkers sp = 0" "systemPromptToText sp = []"
    using normalized_markers [of sp] normalized_text [of sp] by auto
  with True assms show ?thesis
    by (simp add: buildSystemRequestBlocks_def system_text_def countSystemBlockMarkers_def)
next
  case False
  with assms show ?thesis
    using system_loop_count [of 0 "nat budget" "buildCacheMarker profile" "normalizeSystemPrompt sp"]
    by (simp add: buildSystemRequestBlocks_def Let_def system_text_def countSystemBlockMarkers_def
        system_loop_texts normalized_markers normalized_text)
qed

lemma message_markers:
  assumes "unmarked ms"
  shows "wire_markers (applyMessageCacheMarkers ms n profile) \<le> (if n < CACHE_CONTROL_MARKER_LIMIT then 1 else 0)"
proof (cases "ms = [] \<or> n \<ge> CACHE_CONTROL_MARKER_LIMIT")
  case True
  then show ?thesis using assms by (auto simp: applyMessageCacheMarkers_def unmarked_def)
next
  case False
  then have "map wire ms = map wire (butlast ms) @ [wire (last ms)]" by (simp add: map_last_split)
  then have "wire_markers (map wire (butlast ms)) = 0" "wire_markers [wire (last ms)] = 0"
    using assms by (auto simp: unmarked_def wire_markers_append)
  then show ?thesis
    using False mark_last_count [of "buildCacheMarker profile" "wire (last ms)"]
    by (simp add: applyMessageCacheMarkers_def wire_markers_append)
qed

lemma apply_markers_says: "map says (applyMessageCacheMarkers ms n profile) = map (says \<circ> wire) ms"
proof (cases "ms = []")
  case False
  then have "map (says \<circ> wire) ms = map (says \<circ> wire) (butlast ms) @ [says (wire (last ms))]"
    by (simp add: map_last_split)
  then show ?thesis by (simp add: applyMessageCacheMarkers_def mark_last_says)
qed (simp add: applyMessageCacheMarkers_def)

text \<open>C16: Cache markers of a request. With the budget the loop gives to the system prompt (three of the
  four markers the provider accepts), for a history without markers of its own: the system blocks
  carry the text of the prompt and as many markers as the prompt asks for, up to the budget; system
  and messages together never carry more than four; and marking changes nothing a message
  says, neither its role nor its blocks.\<close>

theorem request_markers_bounded:
  assumes "unmarked ms"
  shows "\<exists>s. buildSystemRequestBlocks sp (int CACHE_CONTROL_MARKER_LIMIT - 1) profile = Inr s \<and>
    system_text s = systemPromptToText sp \<and>
    countSystemBlockMarkers s = min 3 (countCacheMarkers sp) \<and>
    countSystemBlockMarkers s + wire_markers (applyMessageCacheMarkers ms (countSystemBlockMarkers s) profile) \<le> 4 \<and>
    map says (applyMessageCacheMarkers ms (countSystemBlockMarkers s) profile) = map (says \<circ> wire) ms"
proof -
  obtain s where "buildSystemRequestBlocks sp 3 profile = Inr s" "system_text s = systemPromptToText sp"
    "countSystemBlockMarkers s = min 3 (countCacheMarkers sp)"
    using build_system [of 3 sp profile] by auto
  moreover from this(3) have "countSystemBlockMarkers s +
      wire_markers (applyMessageCacheMarkers ms (countSystemBlockMarkers s) profile) \<le> 4"
    using message_markers [OF assms, of "countSystemBlockMarkers s" profile]
    by (simp add: CACHE_CONTROL_MARKER_LIMIT_def split: if_splits)
  ultimately show ?thesis by (simp add: CACHE_CONTROL_MARKER_LIMIT_def apply_markers_says)
qed

definition five_stable_blocks :: SystemPrompt where
  "five_stable_blocks = PromptBlocks (replicate 5 \<lparr>sp_text = ''rules'', sp_cacheControl = Some True\<rparr>)"

theorem request_markers_bounded_witness:
  "\<exists>s. buildSystemRequestBlocks five_stable_blocks 3 None = Inr s \<and> countSystemBlockMarkers s = 3 \<and>
     3 + wire_markers (applyMessageCacheMarkers [UserMessage (Inl ''hi'')] 3 None) = 4"
proof -
  have u: "unmarked [UserMessage (Inl ''hi'')]"
    by (simp add: unmarked_def wire_markers_def wire_def as_blocks_def)
  have m: "wire_markers (applyMessageCacheMarkers [UserMessage (Inl ''hi'')] 3 None) = 1"
    by (simp add: wire_markers_def applyMessageCacheMarkers_def wire_def as_blocks_def markLastBlock_def
        CACHE_CONTROL_MARKER_LIMIT_def)
  show ?thesis
    using request_markers_bounded [OF u, of five_stable_blocks None] m
    by (auto simp: CACHE_CONTROL_MARKER_LIMIT_def five_stable_blocks_def numeral_eq_Suc)
qed

section \<open>Reminders and skills\<close>

lemma last_user_Some: "last_user ms = Some i \<Longrightarrow> i < length ms \<and> role (ms ! i) = User \<and> (\<forall>j < length ms. i < j \<longrightarrow> role (ms ! j) \<noteq> User)"
proof (induction ms arbitrary: i)
  case (Cons m ms)
  show ?case
  proof (cases "last_user ms")
    case None
    have no: "last_user ns = None \<Longrightarrow> j < length ns \<Longrightarrow> role (ns ! j) \<noteq> User" for ns j
      by (induction ns arbitrary: j) (auto simp: less_Suc_eq_0_disj split: option.splits if_splits)
    show ?thesis using Cons.prems None no [OF None] by (auto simp: less_Suc_eq_0_disj split: if_splits)
  next
    case (Some k)
    then show ?thesis using Cons.prems Cons.IH [OF Some] by (auto simp: less_Suc_eq_0_disj)
  qed
qed simp

text \<open>Reminders add one text block at the end of the last user message and leave the rest alone;
  the answers a message gives to tool calls stay, so the pairing is as before.\<close>

lemma attach_uses: "map uses (attachRemindersToMessages ms fs) = map uses ms"
  "map results (attachRemindersToMessages ms fs) = map results ms"
proof -
  have a: "uses (add_block (TextBlock t None) m) = uses m" "results (add_block (TextBlock t None) m) = results m" for t m
    by (cases "(TextBlock t None, m)" rule: add_block.cases;
        simp add: block_results_def block_uses_def List.map_filter_def)+
  have upd: "i < length ms \<Longrightarrow> map f (ms[i := g (ms ! i)]) = map f ms" if "\<And>m. f (g m) = f m"
    for f :: "Message \<Rightarrow> 'x" and g i
    using that by (auto simp: list_eq_iff_nth_eq nth_list_update)
  show "map uses (attachRemindersToMessages ms fs) = map uses ms"
    using last_user_Some [of ms] by (auto simp: attachRemindersToMessages_def a intro!: upd split: option.splits)
  show "map results (attachRemindersToMessages ms fs) = map results ms"
    using last_user_Some [of ms] by (auto simp: attachRemindersToMessages_def a intro!: upd split: option.splits)
qed

lemma skill_loop_spec:
  "distinct seen \<Longrightarrow> distinct (skill_loop seen bs) \<and>
   set (skill_loop seen bs) = set seen \<union> {n. \<exists>b \<in> set bs. skill_name b = Some n}"
  by (induction seen bs rule: skill_loop.induct) (auto split: option.splits if_splits)

lemma active_skills:
  "distinct (extractActiveSkillNames ms) \<and>
   set (extractActiveSkillNames ms) = {n. \<exists>m \<in> set ms. \<exists>b \<in> set (assistant_part m). skill_name b = Some n}"
proof -
  have "distinct seen \<Longrightarrow> distinct (foldl (\<lambda>seen m. skill_loop seen (assistant_part m)) seen ms) \<and>
      set (foldl (\<lambda>seen m. skill_loop seen (assistant_part m)) seen ms) =
        set seen \<union> {n. \<exists>m \<in> set ms. \<exists>b \<in> set (assistant_part m). skill_name b = Some n}" for seen
    by (induction ms arbitrary: seen) (auto simp: skill_loop_spec)
  from this [of "[]"] show ?thesis by (simp add: extractActiveSkillNames_def)
qed

end
