(* ===== verification/Pricing.thy ===== *)
theory Pricing
  imports JsMap JsValue
begin

text \<open>
  Model prices (\<open>provider/pricing.ts\<close>): lookup of a model in the shipped catalog, with the provider
  prefix and a date suffix taken off, the cost of token counts, and the fallback rates with the
  one-time warning. The catalog (a data file) is a parameter, given as the maps it parses to.
  Prices are rationals, so a sum of products is exact.
\<close>

record ModelPricing =
  mp_input :: rat
  mp_output :: rat
  mp_cacheRead :: "rat option"
  mp_cacheWrite :: "rat option"

record RawCost =
  rc_input :: "rat option"
  rc_output :: "rat option"
  rc_cache_read :: "rat option"
  rc_cache_write :: "rat option"

record RawModel =
  rm_id :: string
  rm_name :: "string option"
  rm_cost :: "RawCost option"
  rm_context :: "nat option"
  rm_output :: "nat option"
  rm_tool_call :: "bool option"

type_synonym catalog = "(string, (string, RawModel) js_map) js_map"

record ModelInfo =
  mi_id :: string
  mi_name :: string
  mi_pricing :: ModelPricing
  mi_contextWindow :: "nat option"
  mi_maxOutput :: "nat option"
  mi_supportsToolCall :: bool

section \<open>Lookup\<close>

text \<open>\<open>/-\d{8}$/\<close>\<close>

definition dated :: "string \<Rightarrow> bool" where
  "dated m \<longleftrightarrow> 9 \<le> length m \<and> m ! (length m - 9) = CHR ''-'' \<and> list_all is_digit_char (drop (length m - 8) m)"

definition findModel :: "catalog \<Rightarrow> string \<Rightarrow> string \<Rightarrow> RawModel option" where
  "findModel cat provider modelId = (case map_get cat provider of
       None \<Rightarrow> None
     | Some models \<Rightarrow> (case map_get models modelId of
           Some direct \<Rightarrow> Some direct
         | None \<Rightarrow> (if dated modelId then map_get models (take (length modelId - 9) modelId) else None)))"

definition toPricing :: "RawModel \<Rightarrow> ModelPricing option" where
  "toPricing raw = (case rm_cost raw of
       None \<Rightarrow> None
     | Some c \<Rightarrow> (case (rc_input c, rc_output c) of
           (Some i, Some ou) \<Rightarrow> Some \<lparr>mp_input = i, mp_output = ou, mp_cacheRead = rc_cache_read c, mp_cacheWrite = rc_cache_write c\<rparr>
         | _ \<Rightarrow> None))"

definition toInfo :: "RawModel \<Rightarrow> ModelInfo option" where
  "toInfo raw = map_option (\<lambda>p. \<lparr>mi_id = rm_id raw, mi_name = (case rm_name raw of Some n \<Rightarrow> n | None \<Rightarrow> rm_id raw),
     mi_pricing = p, mi_contextWindow = rm_context raw, mi_maxOutput = rm_output raw,
     mi_supportsToolCall = (rm_tool_call raw = Some True)\<rparr>) (toPricing raw)"

definition stripProviderPrefix :: "string \<Rightarrow> string \<Rightarrow> string" where
  "stripProviderPrefix provider model =
     (if js_startsWith model (provider @ '':'') then drop (length provider + 1) model else model)"

definition getModelPricing :: "catalog \<Rightarrow> string \<Rightarrow> string \<Rightarrow> ModelPricing option" where
  "getModelPricing cat provider model =
     (case findModel cat provider (stripProviderPrefix provider model) of None \<Rightarrow> None | Some raw \<Rightarrow> toPricing raw)"

definition getModelInfo :: "catalog \<Rightarrow> string \<Rightarrow> string \<Rightarrow> ModelInfo option" where
  "getModelInfo cat provider model =
     (case findModel cat provider (stripProviderPrefix provider model) of None \<Rightarrow> None | Some raw \<Rightarrow> toInfo raw)"

definition listModels :: "catalog \<Rightarrow> string \<Rightarrow> ModelInfo list" where
  "listModels cat provider = (case map_get cat provider of
       None \<Rightarrow> []
     | Some models \<Rightarrow> List.map_filter (toInfo \<circ> snd) models)"

section \<open>Cost\<close>

definition calculateCost :: "ModelPricing \<Rightarrow> nat \<Rightarrow> nat \<Rightarrow> nat \<Rightarrow> nat \<Rightarrow> rat" where
  "calculateCost p inputTokens outputTokens cacheReadTokens cacheCreationTokens =
     of_nat inputTokens / 1000000 * mp_input p + of_nat outputTokens / 1000000 * mp_output p +
     (case mp_cacheRead p of Some r \<Rightarrow> of_nat cacheReadTokens / 1000000 * r | None \<Rightarrow> 0) +
     (case mp_cacheWrite p of Some r \<Rightarrow> of_nat cacheCreationTokens / 1000000 * r | None \<Rightarrow> 0)"

definition FALLBACK_PRICING :: ModelPricing where
  "FALLBACK_PRICING = \<lparr>mp_input = 3, mp_output = 15, mp_cacheRead = Some (3 / 10), mp_cacheWrite = Some (15 / 4)\<rparr>"

definition estimateCostFallback :: "nat \<Rightarrow> nat \<Rightarrow> nat \<Rightarrow> nat \<Rightarrow> rat" where
  "estimateCostFallback = calculateCost FALLBACK_PRICING"

text \<open>The set of models warned about: whether the warning fires, and the set afterwards.\<close>

definition warnIfFallbackPricing :: "catalog \<Rightarrow> string \<Rightarrow> string \<Rightarrow> string list \<Rightarrow> bool \<times> string list" where
  "warnIfFallbackPricing cat provider model warned =
     (let bare = stripProviderPrefix provider model; key = provider @ '':'' @ bare in
      if key \<in> set warned then (False, warned)
      else if getModelPricing cat provider bare \<noteq> None then (False, warned)
      else (True, warned @ [key]))"

record ComputedCost =
  cc_costUsd :: rat
  cc_isFallback :: bool

definition computeCostWithFallback ::
  "catalog \<Rightarrow> string \<Rightarrow> string \<Rightarrow> nat \<Rightarrow> nat \<Rightarrow> nat \<Rightarrow> nat \<Rightarrow> string list \<Rightarrow> ComputedCost \<times> string list" where
  "computeCostWithFallback cat provider model i ou cr cw warned = (case getModelPricing cat provider model of
       Some p \<Rightarrow> (\<lparr>cc_costUsd = calculateCost p i ou cr cw, cc_isFallback = False\<rparr>, warned)
     | None \<Rightarrow> (\<lparr>cc_costUsd = estimateCostFallback i ou cr cw, cc_isFallback = True\<rparr>,
                snd (warnIfFallbackPricing cat provider model warned)))"

section \<open>Facts\<close>

definition price_ok :: "ModelPricing \<Rightarrow> bool" where
  "price_ok p \<longleftrightarrow> 0 \<le> mp_input p \<and> 0 \<le> mp_output p \<and>
     (case mp_cacheRead p of Some r \<Rightarrow> 0 \<le> r | None \<Rightarrow> True) \<and> (case mp_cacheWrite p of Some r \<Rightarrow> 0 \<le> r | None \<Rightarrow> True)"

definition catalog_ok :: "catalog \<Rightarrow> bool" where
  "catalog_ok cat \<longleftrightarrow> (\<forall>provider models m raw p. map_get cat provider = Some models \<longrightarrow> map_get models m = Some raw \<longrightarrow>
     toPricing raw = Some p \<longrightarrow> price_ok p)"

lemma cost_nonneg: "price_ok p \<Longrightarrow> 0 \<le> calculateCost p i ou cr cw"
  by (auto simp: price_ok_def calculateCost_def split: option.splits intro!: add_nonneg_nonneg mult_nonneg_nonneg)

text \<open>Costs add up: the cost of two calls is the cost of their summed counts.\<close>

lemma cost_additive:
  "calculateCost p (i + i') (ou + ou') (cr + cr') (cw + cw') = calculateCost p i ou cr cw + calculateCost p i' ou' cr' cw'"
  by (auto simp: calculateCost_def add_divide_distrib distrib_right split: option.splits)

lemma pricing_from_catalog:
  assumes "catalog_ok cat" "getModelPricing cat provider model = Some p"
  shows "price_ok p"
  using assms by (auto simp: catalog_ok_def getModelPricing_def findModel_def split: option.splits if_splits)

lemma computed_cost_nonneg:
  assumes "catalog_ok cat"
  shows "0 \<le> cc_costUsd (fst (computeCostWithFallback cat provider model i ou cr cw warned))"
proof (cases "getModelPricing cat provider model")
  case None
  have "price_ok FALLBACK_PRICING" by (simp add: price_ok_def FALLBACK_PRICING_def)
  with None show ?thesis by (simp add: computeCostWithFallback_def estimateCostFallback_def cost_nonneg)
next
  case (Some p)
  then show ?thesis using pricing_from_catalog [OF assms Some] by (simp add: computeCostWithFallback_def cost_nonneg)
qed

text \<open>A qualified and a bare name have the same price.\<close>

lemma qualified_name:
  "\<not> js_startsWith m (provider @ '':'') \<Longrightarrow> getModelPricing cat provider (provider @ '':'' @ m) = getModelPricing cat provider m"
  by (simp add: getModelPricing_def stripProviderPrefix_def js_startsWith_iff)

text \<open>A model is warned about at most once.\<close>

lemma warned_once: "fst (warnIfFallbackPricing cat p m (snd (warnIfFallbackPricing cat p m warned))) = False"
  by (simp add: warnIfFallbackPricing_def Let_def)

end
