(* ===== verification/LoopEvents.thy ===== *)
theory LoopEvents
  imports PromptCache Pricing
begin

text \<open>
  The data of the agent loop: stop reasons, usage, the events it yields (\<open>core/events.ts\<close>), and the
  bounded presentation data of a tool (\<open>normalizeToolUIDescriptor\<close> in \<open>core/loop.ts\<close>), and the text of
  a denial (\<open>formatDecisionReason\<close> in \<open>permissions/types.ts\<close>). Timestamps, durations and random
  request ids of events are left out.
\<close>

section \<open>Usage\<close>

datatype StopReason =
    EndTurn | ToolUseStop | MaxTokens | MaxTurns | BudgetExceeded | Aborted | ErrorStop
  | Refusal | PauseTurn | StopSequence

fun stop_text :: "StopReason \<Rightarrow> string" where
  "stop_text EndTurn = ''end_turn''"
| "stop_text ToolUseStop = ''tool_use''"
| "stop_text MaxTokens = ''max_tokens''"
| "stop_text MaxTurns = ''max_turns''"
| "stop_text BudgetExceeded = ''budget_exceeded''"
| "stop_text Aborted = ''aborted''"
| "stop_text ErrorStop = ''error''"
| "stop_text Refusal = ''refusal''"
| "stop_text PauseTurn = ''pause_turn''"
| "stop_text StopSequence = ''stop_sequence''"

datatype CostBasis = Metered | SubscriptionAllowance | UnknownBasis

record ProviderFacts =
  pf_requestId :: "string option"
  pf_generationId :: "string option"
  pf_servedModelId :: "string option"
  pf_servedProvider :: "string option"
  pf_servedTier :: "string option"

record TurnUsage =
  tu_inputTokens :: nat
  tu_outputTokens :: nat
  tu_cacheReadTokens :: nat
  tu_cacheCreationTokens :: nat
  tu_model :: string
  tu_costUsd :: rat
  tu_costBasis :: "CostBasis option"
  tu_fromProvider :: bool
  tu_reasoningTokens :: "nat option"
  tu_costClassification :: "string option"
  tu_providerFacts :: "ProviderFacts option"
  tu_isFallbackPricing :: bool

definition zero_usage :: "string \<Rightarrow> TurnUsage" where
  "zero_usage model = \<lparr>tu_inputTokens = 0, tu_outputTokens = 0, tu_cacheReadTokens = 0, tu_cacheCreationTokens = 0,
     tu_model = model, tu_costUsd = 0, tu_costBasis = None, tu_fromProvider = False, tu_reasoningTokens = None,
     tu_costClassification = None, tu_providerFacts = None, tu_isFallbackPricing = False\<rparr>"

section \<open>Presentation data of a tool\<close>

record ToolUIPreview =
  up_contentField :: string
  up_format :: string
  up_truncateAtLines :: "int option"

record ToolUIOpenAction =
  uo_target :: string
  uo_pathField :: string

record ToolUIDescriptor =
  ud_kind :: string
  ud_verb :: string
  ud_primaryField :: "string option"
  ud_metaFields :: "string list option"
  ud_preview :: "ToolUIPreview option"
  ud_openAction :: "ToolUIOpenAction option"

definition ui_char_ok :: "char \<Rightarrow> bool" where
  "ui_char_ok c \<longleftrightarrow> 0x20 \<le> (of_char c :: nat) \<and> (of_char c :: nat) \<noteq> 0x7F"

definition boundedUIString :: "string \<Rightarrow> string option" where
  "boundedUIString value =
     (if value = [] \<or> length value > 120 then None
      else if list_all ui_char_ok value then Some value else None)"

definition isToolUIKind :: "string \<Rightarrow> bool" where
  "isToolUIKind v \<longleftrightarrow> v \<in> set [''file-write'', ''file-read'', ''file-edit'', ''shell'', ''search'', ''image'',
     ''external-action'', ''conversational'']"

definition isToolUIPreviewFormat :: "string \<Rightarrow> bool" where
  "isToolUIPreviewFormat v \<longleftrightarrow> v \<in> set [''code'', ''diff'', ''markdown'', ''plain'', ''image-thumb'']"

definition isToolUIOpenTarget :: "string \<Rightarrow> bool" where
  "isToolUIOpenTarget v \<longleftrightarrow> v \<in> set [''file-pane'', ''terminal-pane'', ''image-pane'', ''search-pane'', ''url'']"

definition preview_ok :: "ToolUIPreview \<Rightarrow> bool" where
  "preview_ok p \<longleftrightarrow> boundedUIString (up_contentField p) \<noteq> None \<and> isToolUIPreviewFormat (up_format p) \<and>
     (case up_truncateAtLines p of Some n \<Rightarrow> 0 < n \<and> n \<le> 10000 | None \<Rightarrow> True)"

definition openAction_ok :: "ToolUIOpenAction \<Rightarrow> bool" where
  "openAction_ok a \<longleftrightarrow> boundedUIString (uo_pathField a) \<noteq> None \<and> isToolUIOpenTarget (uo_target a)"

definition normalizeToolUIDescriptor :: "ToolUIDescriptor option \<Rightarrow> ToolUIDescriptor option" where
  "normalizeToolUIDescriptor value = (case value of
       None \<Rightarrow> None
     | Some d \<Rightarrow>
         (if \<not> isToolUIKind (ud_kind d) then None
          else if boundedUIString (ud_verb d) = None then None
          else if (case ud_primaryField d of Some f \<Rightarrow> boundedUIString f = None | None \<Rightarrow> False) then None
          else if (case ud_metaFields d of
                     Some fs \<Rightarrow> length fs > 16 \<or> list_ex (\<lambda>f. boundedUIString f = None) fs | None \<Rightarrow> False) then None
          else if (case ud_preview d of Some p \<Rightarrow> \<not> preview_ok p | None \<Rightarrow> False) then None
          else if (case ud_openAction d of Some a \<Rightarrow> \<not> openAction_ok a | None \<Rightarrow> False) then None
          else Some d))"

text \<open>What reaches an event is bounded: every text has between 1 and 120 printable characters, at most
  sixteen meta fields.\<close>

definition ui_texts :: "ToolUIDescriptor \<Rightarrow> string list" where
  "ui_texts d = ud_verb d # (case ud_primaryField d of Some f \<Rightarrow> [f] | None \<Rightarrow> []) @
     (case ud_metaFields d of Some fs \<Rightarrow> fs | None \<Rightarrow> []) @
     (case ud_preview d of Some p \<Rightarrow> [up_contentField p] | None \<Rightarrow> []) @
     (case ud_openAction d of Some a \<Rightarrow> [uo_pathField a] | None \<Rightarrow> [])"

lemma descriptor_bounded:
  "normalizeToolUIDescriptor value = Some d \<Longrightarrow>
     value = Some d \<and> list_all (\<lambda>t. t \<noteq> [] \<and> length t \<le> 120 \<and> list_all ui_char_ok t) (ui_texts d) \<and>
     length (ui_texts d) \<le> 20 \<and> length (concat (ui_texts d)) \<le> 2400"
proof -
  assume n: "normalizeToolUIDescriptor value = Some d"
  then have v: "value = Some d" by (auto simp: normalizeToolUIDescriptor_def split: option.splits if_splits)
  have b: "boundedUIString t \<noteq> None \<longleftrightarrow> t \<noteq> [] \<and> length t \<le> 120 \<and> list_all ui_char_ok t" for t
    by (auto simp: boundedUIString_def)
  have all: "list_all (\<lambda>t. boundedUIString t \<noteq> None) (ui_texts d)" and len: "length (ui_texts d) \<le> 20"
    using n v by (auto simp: normalizeToolUIDescriptor_def ui_texts_def preview_ok_def openAction_ok_def list_all_iff
        list_ex_iff split: option.splits if_splits)
  have sum: "list_all (\<lambda>t. length t \<le> 120) ts \<Longrightarrow> length (concat ts) \<le> 120 * length ts" for ts :: "string list"
    by (induction ts) auto
  have "length (concat (ui_texts d)) \<le> 120 * length (ui_texts d)"
    using all unfolding b by (intro sum) (auto simp: list_all_iff)
  then show ?thesis using v all [unfolded b] len by auto
qed

section \<open>Events\<close>

text \<open>What a host says about a permission decision beside the verdict.\<close>

record PermissionMeta =
  pm_policyRevision :: "string option"
  pm_zoneLevel :: "nat option"
  pm_zoneName :: "string option"
  pm_explanation :: "string option"
  pm_severityTag :: "string option"
  pm_severityReason :: "string option"

datatype DecisionReason =
    UserDenied string obj "string option" "string option" "string option"
  | TimeoutDenied string nat
  | HookDenied string string "string option"

text \<open>The best one-line description of what a call targets; the ellipsis is written as three dots.\<close>

definition in_backquotes :: "string \<Rightarrow> string" where
  "in_backquotes t = [CHR 0x60] @ t @ [CHR 0x60]"

definition first_of :: "obj \<Rightarrow> string list \<Rightarrow> json option" where
  "first_of input keys = find (\<lambda>v. v \<noteq> JNull) (List.map_filter (map_of input) keys)"

fun string_of :: "json option \<Rightarrow> string option" where
  "string_of (Some (JStr t)) = Some t"
| "string_of v = None"

definition describeToolInput :: "string \<Rightarrow> obj \<Rightarrow> string" where
  "describeToolInput toolName input =
     (case string_of (first_of input [''file_path'', ''path'', ''filePath'']) of
        Some p \<Rightarrow> in_backquotes p
      | None \<Rightarrow>
     (case string_of (first_of input [''url'', ''endpoint'', ''target_url'']) of
        Some u \<Rightarrow> in_backquotes u
      | None \<Rightarrow>
     (case string_of (map_of input ''command'') of
        Some c \<Rightarrow> in_backquotes (if length c > 80 then take 80 c @ ''...'' else c)
      | None \<Rightarrow>
     (case string_of (first_of input [''query'', ''pattern'']) of
        Some q \<Rightarrow> in_backquotes q
      | None \<Rightarrow> ''the proposed call ('' @ toolName @ '')''))))"

definition truthy :: "string option \<Rightarrow> string option" where
  "truthy v = (case v of Some t \<Rightarrow> if t = [] then None else Some t | None \<Rightarrow> None)"

primrec formatDecisionReason :: "DecisionReason \<Rightarrow> string" where
  "formatDecisionReason (UserDenied toolName toolInput severityTag severityReason remark) =
     ''Permission denied: the user declined '' @ toolName @ '' on '' @ describeToolInput toolName toolInput @
     (case truthy severityTag of
        Some tag \<Rightarrow> '' (severity: '' @ tag @ (case truthy severityReason of Some r \<Rightarrow> '' - '' @ r | None \<Rightarrow> []) @ '')''
      | None \<Rightarrow> []) @ ''.'' @
     (case truthy remark of Some t \<Rightarrow> '' User noted: '' @ [CHR 0x22] @ t @ [CHR 0x22] @ ''.'' | None \<Rightarrow> []) @
     '' Do not retry this exact call. If the task still needs this action, '' @
     ''ask the user in chat (or use ask_user) before attempting a different approach.''"
| "formatDecisionReason (TimeoutDenied toolName timeoutMs) =
     ''Permission timed out: '' @ toolName @ '' was not approved within '' @ show_nat timeoutMs @ ''ms '' @
     ''(no user available). Stop the run and surface the pending action to the user, '' @
     ''or re-run interactively / with an operating policy that explicitly allows it.''"
| "formatDecisionReason (HookDenied toolName reason ruleId) =
     ''Permission denied by hook'' @ (case truthy ruleId of Some r \<Rightarrow> '' ('' @ r @ '')'' | None \<Rightarrow> []) @ '': '' @ reason @
     ''. Do not retry; the host environment has rejected this action. '' @
     ''Surface the block to the user with the hook'' @ [CHR 0x27] @ ''s reason verbatim.''"

record SkillActivationMark =
  sk_sourceRef :: string
  sk_sourceDigest :: string
  sk_skillName :: string
  sk_skillDigest :: string

record CredentialRequest =
  cq_label :: string
  cq_hint :: string
  cq_usage :: string
  cq_placement :: json
  cq_isRequired :: bool

record CredentialHandle =
  ch_credentialId :: string
  ch_label :: string

record SensitiveInputRequest =
  sq_label :: string
  sq_usage :: string

datatype SensitiveInputResolution = Injected | DeniedInput | Indeterminate | FailedInput string

text \<open>What \<open>tool.call.end\<close> says about a call that produced a result.\<close>

record ToolCallOutcome =
  to_metadata :: "obj option"
  to_cacheHit :: bool
  to_outputBytesRaw :: nat
  to_outputBytesToModel :: nat
  to_truncated :: bool

datatype (plugins only: code) LoomEvent =
    SessionStart string string
  | SessionEnd string StopReason TurnUsage nat
  | TurnStart nat
  | TurnEnd nat StopReason TurnUsage
  | LoopError string string bool nat
  | Recovery string nat string nat
  | ToolResultDropped nat nat nat
  | CompactionStarted string int nat
  | CompactionEnded string int int int nat "string list"
  | ContextPressure rat nat nat nat
  | CacheStatus nat nat nat int rat nat
  | TextDeltaEvent string nat
  | ThinkingDeltaEvent string nat
  | TextComplete string nat
  | ThinkingComplete string nat
  | ToolCallStart string string "ToolUIDescriptor option" nat
  | ToolCallArgsDelta string string nat
  | ToolCallProgress string string nat
  | ToolCallEnd string string string bool "ToolUIDescriptor option" "ToolCallOutcome option" nat
  | PermissionRequested string string obj string nat "string option" "string option" "PermissionMeta option"
  | PermissionAnswered string bool nat "DecisionReason option"
  | SecurityBlock string string string nat
  | CredentialAsked CredentialRequest nat
  | CredentialAnswered "string option" string bool nat
  | SensitiveAsked string string SensitiveInputRequest "string option" string nat
  | SensitiveAnswered string string "string option" string SensitiveInputResolution nat
  | SkillActivated string SkillActivationMark "string option" nat
  | CheckpointSaved string nat

text \<open>The turn of an event that belongs to the output of a turn.\<close>

primrec content_turn :: "LoomEvent \<Rightarrow> nat option" where
  "content_turn (TextDeltaEvent t n) = Some n"
| "content_turn (ThinkingDeltaEvent t n) = Some n"
| "content_turn (TextComplete t n) = Some n"
| "content_turn (ThinkingComplete t n) = Some n"
| "content_turn (ToolCallStart i t d n) = Some n"
| "content_turn (ToolCallArgsDelta i d n) = Some n"
| "content_turn (ToolCallProgress i d n) = Some n"
| "content_turn (ToolCallEnd i t r e d oc n) = Some n"
| "content_turn (PermissionRequested i t inp r n ag pr meta) = Some n"
| "content_turn (PermissionAnswered i g n r) = Some n"
| "content_turn (SecurityBlock t l r n) = Some n"
| "content_turn (CredentialAsked q n) = Some n"
| "content_turn (CredentialAnswered c l d n) = Some n"
| "content_turn (SensitiveAsked i t q ag ad n) = Some n"
| "content_turn (SensitiveAnswered i t ag ad r n) = Some n"
| "content_turn (SkillActivated i s ag n) = Some n"
| "content_turn (SessionStart x0 x1) = None"
| "content_turn (SessionEnd x0 x1 x2 x3) = None"
| "content_turn (TurnStart x0) = None"
| "content_turn (TurnEnd x0 x1 x2) = None"
| "content_turn (LoopError x0 x1 x2 x3) = None"
| "content_turn (Recovery x0 x1 x2 x3) = None"
| "content_turn (ToolResultDropped x0 x1 x2) = None"
| "content_turn (CompactionStarted x0 x1 x2) = None"
| "content_turn (CompactionEnded x0 x1 x2 x3 x4 x5) = None"
| "content_turn (ContextPressure x0 x1 x2 x3) = None"
| "content_turn (CacheStatus x0 x1 x2 x3 x4 x5) = None"
| "content_turn (CheckpointSaved x0 x1) = None"

end
