(* ===== verification/Reminders.thy ===== *)
theory Reminders
  imports JsMap Errors
begin

text \<open>
  Reminders (\<open>reminders/\<close>): events queued by the runtime and rendered, through registered templates,
  into texts the next request carries. The template registry holds two maps (by event type and by
  id), the injector a queue and a set of silenced template ids. A template's \<open>render\<close> may throw.
  Counts are integers; a dash or an arrow of a text is written with characters below 256.
\<close>

section \<open>Events and templates\<close>

datatype ReminderEvent =
    ModeEntered string
  | ModeExited string string
  | HookSuccess string string
  | HookBlocked string string
  | HookContextNote string string
  | CompactionDone int int
  | BudgetWarn int int string
  | McpEmpty string string
  | ToolDenied string string
  | FsModified string string
  | TaskNudge
  | SessionContinued string
  | SkillsPreviouslyInvoked "string list"

fun reminder_type :: "ReminderEvent \<Rightarrow> string" where
  "reminder_type (ModeEntered m) = ''mode.entered''"
| "reminder_type (ModeExited m r) = ''mode.exited''"
| "reminder_type (HookSuccess h r) = ''hook.success''"
| "reminder_type (HookBlocked h r) = ''hook.blocked''"
| "reminder_type (HookContextNote h r) = ''hook.context''"
| "reminder_type (CompactionDone p r) = ''compaction.done''"
| "reminder_type (BudgetWarn u t r) = ''budget.warn''"
| "reminder_type (McpEmpty s r) = ''mcp.empty''"
| "reminder_type (ToolDenied t r) = ''tool.denied''"
| "reminder_type (FsModified p s) = ''fs.modified''"
| "reminder_type TaskNudge = ''task.nudge''"
| "reminder_type (SessionContinued c) = ''session.continued''"
| "reminder_type (SkillsPreviouslyInvoked ss) = ''skills.previously-invoked''"

record ReminderTemplate =
  rt_id :: string
  rt_eventType :: string
  rt_suppressible :: bool
  rt_render :: "ReminderEvent \<Rightarrow> nat \<Rightarrow> js_thrown + string"

definition quote :: "string \<Rightarrow> string" where
  "quote s = [CHR 0x22] @ s @ [CHR 0x22]"

definition defineTemplate :: "string \<Rightarrow> string \<Rightarrow> bool \<Rightarrow> (ReminderEvent \<Rightarrow> string) \<Rightarrow> ReminderTemplate" where
  "defineTemplate i ty hush body =
     \<lparr>rt_id = i, rt_eventType = ty, rt_suppressible = hush,
      rt_render = (\<lambda>e ctx. if reminder_type e \<noteq> ty
         then Inl (ThrownError ''Error'' (''Reminder template '' @ quote i @ '' cannot render event of type '' @
                quote (reminder_type e) @ '' - expected '' @ quote ty @ ''.''))
         else Inr (body e))\<rparr>"

section \<open>The registry\<close>

record ReminderRegistry =
  byEventType :: "(string, ReminderTemplate list) js_map"
  byId :: "(string, ReminderTemplate) js_map"

definition reminders_new :: ReminderRegistry where
  "reminders_new = \<lparr>byEventType = [], byId = []\<rparr>"

definition templatesFor :: "ReminderRegistry \<Rightarrow> string \<Rightarrow> ReminderTemplate list" where
  "templatesFor r ty = (case map_get (byEventType r) ty of Some l \<Rightarrow> l | None \<Rightarrow> [])"

definition register_template :: "ReminderTemplate \<Rightarrow> ReminderRegistry \<Rightarrow> js_thrown + ReminderRegistry" where
  "register_template t r =
     (if map_has (byId r) (rt_id t)
      then Inl (ThrownError ''Error'' (''Reminder template id collision: '' @ quote (rt_id t) @ '' is already registered.''))
      else Inr (r\<lparr>byEventType := map_set (rt_eventType t) (templatesFor r (rt_eventType t) @ [t]) (byEventType r),
                  byId := map_set (rt_id t) t (byId r)\<rparr>))"

definition unregister_template :: "string \<Rightarrow> ReminderRegistry \<Rightarrow> ReminderTemplate option \<times> ReminderRegistry" where
  "unregister_template i r = (case map_get (byId r) i of
       None \<Rightarrow> (None, r)
     | Some t \<Rightarrow>
         (let r1 = r\<lparr>byId := map_delete i (byId r)\<rparr>
          in (Some t, case map_get (byEventType r) (rt_eventType t) of
                None \<Rightarrow> r1
              | Some l \<Rightarrow>
                  (let filtered = filter (\<lambda>x. rt_id x \<noteq> i) l in
                   if filtered = [] then r1\<lparr>byEventType := map_delete (rt_eventType t) (byEventType r)\<rparr>
                   else r1\<lparr>byEventType := map_set (rt_eventType t) filtered (byEventType r)\<rparr>))))"

definition template_has :: "ReminderRegistry \<Rightarrow> string \<Rightarrow> bool" where
  "template_has r i = map_has (byId r) i"

definition all_templates :: "ReminderRegistry \<Rightarrow> ReminderTemplate list" where
  "all_templates r = map snd (byId r)"

section \<open>The injector\<close>

record ReminderInjector =
  reminder_queue :: "ReminderEvent list"
  suppressed :: "string list"
  reminder_registry :: ReminderRegistry

definition injector_new :: "ReminderRegistry \<Rightarrow> string list \<Rightarrow> ReminderInjector" where
  "injector_new r suppress = \<lparr>reminder_queue = [], suppressed = suppress, reminder_registry = r\<rparr>"

definition reminder_emit :: "ReminderEvent \<Rightarrow> ReminderInjector \<Rightarrow> ReminderInjector" where
  "reminder_emit e j = j\<lparr>reminder_queue := reminder_queue j @ [e]\<rparr>"

definition wrap_reminder :: "string \<Rightarrow> string" where
  "wrap_reminder body = ''<system-reminder>'' @ [CHR 0x0A] @ body @ [CHR 0x0A] @ ''</system-reminder>''"

fun render_templates :: "string list \<Rightarrow> ReminderEvent \<Rightarrow> nat \<Rightarrow> ReminderTemplate list \<Rightarrow> js_thrown + string list" where
  "render_templates hush e ctx [] = Inr []"
| "render_templates hush e ctx (t # ts) =
     (if rt_suppressible t \<and> rt_id t \<in> set hush then render_templates hush e ctx ts
      else (case rt_render t e ctx of
          Inl err \<Rightarrow> Inl err
        | Inr text \<Rightarrow>
            (let body = js_trim text in
             case render_templates hush e ctx ts of
               Inl err \<Rightarrow> Inl err
             | Inr out \<Rightarrow> Inr (if body = [] then out else wrap_reminder body # out))))"

fun render_queue :: "ReminderInjector \<Rightarrow> nat \<Rightarrow> ReminderEvent list \<Rightarrow> js_thrown + string list" where
  "render_queue j ctx [] = Inr []"
| "render_queue j ctx (e # es) =
     (case render_templates (suppressed j) e ctx (templatesFor (reminder_registry j) (reminder_type e)) of
        Inl err \<Rightarrow> Inl err
      | Inr out \<Rightarrow> (case render_queue j ctx es of Inl err \<Rightarrow> Inl err | Inr out' \<Rightarrow> Inr (out @ out')))"

definition reminder_drain :: "nat \<Rightarrow> ReminderInjector \<Rightarrow> (js_thrown + string list) \<times> ReminderInjector" where
  "reminder_drain ctx j = (case render_queue j ctx (reminder_queue j) of
       Inl err \<Rightarrow> (Inl err, j)
     | Inr out \<Rightarrow> (Inr out, j\<lparr>reminder_queue := []\<rparr>))"

definition reminder_clear :: "ReminderInjector \<Rightarrow> ReminderInjector" where
  "reminder_clear j = j\<lparr>reminder_queue := []\<rparr>"

definition isSuppressed :: "ReminderInjector \<Rightarrow> string \<Rightarrow> bool" where
  "isSuppressed j i = (i \<in> set (suppressed j))"

section \<open>Default templates\<close>

definition print_int :: "int \<Rightarrow> string" where
  "print_int i = (if i < 0 then CHR ''-'' # show_nat (nat (- i)) else show_nat (nat i))"

definition blank_line :: string where "blank_line = [CHR 0x0A, CHR 0x0A]"

primrec default_body :: "ReminderEvent \<Rightarrow> string" where
  "default_body (ModeEntered m) = ''Mode active: '' @ m @
     ''. Behavior overlays for this mode are now in effect; previous mode rules no longer apply.''"
| "default_body (ModeExited m outcome) = ''Mode exited: '' @ m @ '' ('' @ outcome @ ''). Default behavior is restored.''"
| "default_body (HookSuccess h out) =
     (if js_trim out = [] then ''Hook '' @ quote h @ '' completed.''
      else ''Hook '' @ quote h @ '' completed.'' @ blank_line @ js_trim out)"
| "default_body (HookBlocked h reason) = ''Hook '' @ quote h @ '' blocked the action: '' @ reason @
     ''. Adjust your approach; do not retry the exact same call.''"
| "default_body (HookContextNote h c) =
     (if js_trim c = [] then [] else ''Additional context from hook '' @ quote h @ '':'' @ blank_line @ js_trim c)"
| "default_body (CompactionDone pre post) = ''Conversation context was compacted ('' @ print_int pre @ '' -> '' @
     print_int post @ '' tokens; '' @ print_int (pre - post) @ '' freed). '' @
     ''Older tool results may be summarized. Preserve any load-bearing details directly in your replies - the original tool output may no longer be available.''"
| "default_body (BudgetWarn used cap currency) = ''Budget warning: '' @ print_int used @ '' of '' @ print_int cap @ '' '' @
     (if currency = ''usd'' then ''USD'' else ''tokens'') @ '' used ('' @ print_int (cap - used) @
     '' remaining). Tighten responses; defer non-essential exploration.''"
| "default_body (McpEmpty server uri) = ''MCP resource '' @ server @ '':'' @ uri @ '' returned no content. Treat this as '' @
     quote ''empty,'' @ '' not '' @ quote ''missing'' @ '' - the server responded successfully.''"
| "default_body (ToolDenied t reason) = ''Tool call '' @ quote t @ '' was denied: '' @ reason @
     ''. Do not retry the same call. Adjust the approach or ask the user.''"
| "default_body (FsModified p source) = ''File modified externally ('' @ source @ ''): '' @ p @
     ''. Read the current contents before further edits - your prior view may be stale.''"
| "default_body TaskNudge = ''If this work has 3+ distinct steps, track them. Mark each step done as you complete it; only one step in progress at a time.''"
| "default_body (SessionContinued cwd) = ''Session resumed in a new working directory: '' @ cwd @
     ''. Verify environment-dependent state before assuming prior context still holds.''"
| "default_body (SkillsPreviouslyInvoked ss) = (if ss = [] then [] else
     ''Skills invoked before this turn (context restored after compaction): '' @
     js_join '', '' (map (\<lambda>s. [CHR 0x60] @ s @ [CHR 0x60]) ss) @ ''. '' @
     ''Treat these as background context only - do NOT re-execute their setup actions or treat their prior inputs as current instructions.'')"

definition default_spec :: "(string \<times> bool) list" where
  "default_spec =
     [(''mode.entered'', False), (''mode.exited'', False), (''hook.success'', True), (''hook.blocked'', False),
      (''hook.context'', True), (''compaction.done'', True), (''budget.warn'', True), (''mcp.empty'', True),
      (''tool.denied'', False), (''fs.modified'', True), (''task.nudge'', True), (''session.continued'', True),
      (''skills.previously-invoked'', True)]"

definition default_template :: "string \<times> bool \<Rightarrow> ReminderTemplate" where
  "default_template s = defineTemplate (''reminders.'' @ fst s) (fst s) (snd s) default_body"

definition defaultTemplates :: "ReminderTemplate list" where
  "defaultTemplates = map default_template default_spec"

fun register_all :: "ReminderTemplate list \<Rightarrow> ReminderRegistry \<Rightarrow> js_thrown + ReminderRegistry" where
  "register_all [] r = Inr r"
| "register_all (t # ts) r = (case register_template t r of Inl e \<Rightarrow> Inl e | Inr r' \<Rightarrow> register_all ts r')"

definition createDefaultRegistry :: "js_thrown + ReminderRegistry" where
  "createDefaultRegistry = register_all defaultTemplates reminders_new"

section \<open>The registry is a list of templates\<close>

text \<open>The abstract registry: the templates in registration order, with distinct ids. Both maps are
  determined by it.\<close>

definition registry_abs :: "ReminderTemplate list \<Rightarrow> ReminderRegistry \<Rightarrow> bool" where
  "registry_abs ts r \<longleftrightarrow> distinct (map rt_id ts) \<and> byId r = map (\<lambda>t. (rt_id t, t)) ts \<and>
     distinct (map fst (byEventType r)) \<and>
     (\<forall>ty. templatesFor r ty = filter (\<lambda>t. rt_eventType t = ty) ts)"

lemma registry_abs_new: "registry_abs [] reminders_new"
  by (simp add: registry_abs_def reminders_new_def templatesFor_def map_get_def)

lemma byId_lookup:
  "map_get (map (\<lambda>t. (rt_id t, t)) ts) i = find (\<lambda>t. rt_id t = i) ts"
  by (induction ts) (auto simp: map_get_def)

lemma templates_set:
  "templatesFor (r\<lparr>byEventType := map_set ty l (byEventType r), byId := b\<rparr>) ty' = (if ty' = ty then l else templatesFor r ty')"
  by (simp add: templatesFor_def map_get_def map_set_def update_conv)

lemma map_set_keys: "distinct (map fst m) \<Longrightarrow> distinct (map fst (map_set k v m))"
  by (simp add: map_set_def distinct_update)

lemma register_refines:
  assumes "registry_abs ts r"
  shows "case register_template t r of
      Inl e \<Rightarrow> rt_id t \<in> rt_id ` set ts
    | Inr r' \<Rightarrow> rt_id t \<notin> rt_id ` set ts \<and> registry_abs (ts @ [t]) r'"
proof -
  have has: "map_has (byId r) (rt_id t) \<longleftrightarrow> rt_id t \<in> rt_id ` set ts"
    using assms by (auto simp: registry_abs_def map_has_def comp_def image_image)
  have "rt_id t \<notin> rt_id ` set us \<Longrightarrow>
      map_set (rt_id t) t (map (\<lambda>t. (rt_id t, t)) us) = map (\<lambda>t. (rt_id t, t)) us @ [(rt_id t, t)]" for us
    by (induction us) (auto simp: map_set_def)
  then have "rt_id t \<notin> rt_id ` set ts \<Longrightarrow> map_set (rt_id t) t (byId r) = byId r @ [(rt_id t, t)]"
    using assms by (simp add: registry_abs_def)
  then show ?thesis
    using assms has
    by (auto simp: register_template_def registry_abs_def templates_set map_set_keys)
qed

lemma unregister_refines:
  assumes "registry_abs ts r"
  shows "fst (unregister_template i r) = find (\<lambda>t. rt_id t = i) ts \<and>
    registry_abs (filter (\<lambda>t. rt_id t \<noteq> i) ts) (snd (unregister_template i r))"
proof (cases "find (\<lambda>t. rt_id t = i) ts")
  case None
  then have "filter (\<lambda>t. rt_id t \<noteq> i) ts = ts" by (auto simp: find_None_iff filter_id_conv)
  with None assms show ?thesis by (simp add: unregister_template_def registry_abs_def byId_lookup)
next
  case (Some t)
  then have t: "t \<in> set ts" "rt_id t = i" by (auto simp: find_Some_iff)
  have same: "\<And>x. x \<in> set ts \<Longrightarrow> rt_id x = i \<Longrightarrow> x = t"
    using assms t by (auto simp: registry_abs_def distinct_map inj_on_def)
  have l: "templatesFor r (rt_eventType t) = filter (\<lambda>x. rt_eventType x = rt_eventType t) ts"
    and o': "\<And>ty. templatesFor r ty = filter (\<lambda>x. rt_eventType x = ty) ts"
    using assms by (auto simp: registry_abs_def)
  have ne: "templatesFor r (rt_eventType t) \<noteq> []" using l t(1) by (auto simp: filter_empty_conv)
  then obtain l' where l': "map_get (byEventType r) (rt_eventType t) = Some l'" "l' = templatesFor r (rt_eventType t)"
    by (auto simp: templatesFor_def split: option.splits)
  have del: "map_delete i (byId r) = map (\<lambda>t. (rt_id t, t)) (filter (\<lambda>t. rt_id t \<noteq> i) ts)"
  proof -
    have "map_delete i (map (\<lambda>t. (rt_id t, t)) us) = map (\<lambda>t. (rt_id t, t)) (filter (\<lambda>t. rt_id t \<noteq> i) us)" for us
      by (induction us) (auto simp: map_delete_def)
    then show ?thesis using assms by (simp add: registry_abs_def)
  qed
  have other: "filter (\<lambda>x. rt_eventType x = ty) (filter (\<lambda>x. rt_id x \<noteq> i) ts) =
      (if ty = rt_eventType t then filter (\<lambda>x. rt_id x \<noteq> i) (templatesFor r ty) else templatesFor r ty)" for ty
  proof (cases "ty = rt_eventType t")
    case False
    then show ?thesis using same by (auto simp: o' intro!: filter_cong)
  qed (simp add: o' conj_commute)
  have keys: "distinct (map fst (map_delete k (byEventType r)))" "distinct (map fst (map_set k v (byEventType r)))" for k v
    using assms by (simp_all add: registry_abs_def map_delete_def map_set_def distinct_map_filter distinct_update
        AList.delete_eq)
  have look: "map_get (byId r) i = Some t" using Some assms by (simp add: registry_abs_def byId_lookup)
  have "templatesFor (snd (unregister_template i r)) ty =
      (if ty = rt_eventType t then filter (\<lambda>x. rt_id x \<noteq> i) l' else templatesFor r ty)" for ty
    using look l'(1) unfolding unregister_template_def templatesFor_def
    by (simp add: Let_def map_get_def map_set_def map_delete_def update_conv delete_conv)
  then have "templatesFor (snd (unregister_template i r)) ty = filter (\<lambda>x. rt_eventType x = ty) (filter (\<lambda>x. rt_id x \<noteq> i) ts)" for ty
    unfolding other l'(2) by simp
  moreover have "fst (unregister_template i r) = Some t"
    using Some assms by (simp add: unregister_template_def registry_abs_def byId_lookup Let_def)
  moreover have "byId (snd (unregister_template i r)) = map (\<lambda>t. (rt_id t, t)) (filter (\<lambda>t. rt_id t \<noteq> i) ts)"
    using Some l' assms del by (simp add: unregister_template_def registry_abs_def byId_lookup Let_def)
  moreover have "distinct (map fst (byEventType (snd (unregister_template i r))))"
    using Some l' assms keys by (simp add: unregister_template_def registry_abs_def byId_lookup Let_def)
  ultimately show ?thesis using Some assms by (simp add: registry_abs_def distinct_map_filter)
qed

text \<open>Operations on the abstract registry.\<close>

datatype registry_op = Register ReminderTemplate | Unregister string

fun registry_do :: "ReminderRegistry \<Rightarrow> registry_op \<Rightarrow> ReminderRegistry" where
  "registry_do r (Register t) = (case register_template t r of Inl e \<Rightarrow> r | Inr r' \<Rightarrow> r')"
| "registry_do r (Unregister i) = snd (unregister_template i r)"

fun list_do :: "ReminderTemplate list \<Rightarrow> registry_op \<Rightarrow> ReminderTemplate list" where
  "list_do ts (Register t) = (if rt_id t \<in> rt_id ` set ts then ts else ts @ [t])"
| "list_do ts (Unregister i) = filter (\<lambda>t. rt_id t \<noteq> i) ts"

lemma registry_step: "registry_abs ts r \<Longrightarrow> registry_abs (list_do ts op) (registry_do r op)"
  using register_refines [of ts r] unregister_refines [of ts r]
  by (cases op) (fastforce split: sum.splits)+

text \<open>C40: The template registry refines a list. After any sequence of registrations (those with a taken
  id throw and change nothing) and removals, the two maps of the registry hold exactly the
  templates of the abstract list: by id in registration order, and for each event type the
  templates of that type in registration order.\<close>

theorem registry_refines_list:
  "let ts = foldl list_do [] ops; r = foldl registry_do reminders_new ops in
   all_templates r = ts \<and> templatesFor r ty = filter (\<lambda>t. rt_eventType t = ty) ts \<and>
   (template_has r i \<longleftrightarrow> i \<in> rt_id ` set ts)"
proof -
  have "registry_abs ts r \<Longrightarrow> registry_abs (foldl list_do ts ops) (foldl registry_do r ops)" for ts r
    by (induction ops arbitrary: ts r) (auto simp: registry_step)
  then have "registry_abs (foldl list_do [] ops) (foldl registry_do reminders_new ops)"
    by (simp add: registry_abs_new)
  then show ?thesis
    by (auto simp: Let_def registry_abs_def all_templates_def template_has_def map_has_def comp_def image_iff)
qed

section \<open>What a drain delivers\<close>

definition silenced :: "ReminderInjector \<Rightarrow> ReminderTemplate \<Rightarrow> bool" where
  "silenced j t \<longleftrightarrow> rt_suppressible t \<and> rt_id t \<in> set (suppressed j)"

definition delivers :: "nat \<Rightarrow> ReminderEvent \<Rightarrow> ReminderTemplate \<Rightarrow> string list" where
  "delivers ctx e t = (case rt_render t e ctx of
       Inr text \<Rightarrow> if js_trim text = [] then [] else [wrap_reminder (js_trim text)]
     | Inl err \<Rightarrow> [])"

lemma render_templates_Inr:
  assumes "\<And>t. t \<in> set ts \<Longrightarrow> \<not> isl (rt_render t e ctx)"
  shows "render_templates (suppressed j) e ctx ts =
    Inr (concat (map (delivers ctx e) (filter (\<lambda>t. \<not> silenced j t) ts)))"
  using assms
  by (induction ts) (auto simp: silenced_def delivers_def Let_def isl_def split: sum.splits)

lemma render_queue_Inr:
  assumes "\<And>e t. e \<in> set es \<Longrightarrow> t \<in> set (templatesFor (reminder_registry j) (reminder_type e)) \<Longrightarrow> \<not> isl (rt_render t e ctx)"
  shows "render_queue j ctx es = Inr (concat (map (\<lambda>e. concat (map (delivers ctx e)
    (filter (\<lambda>t. \<not> silenced j t) (templatesFor (reminder_registry j) (reminder_type e))))) es))"
  using assms by (induction es) (auto simp: render_templates_Inr)

lemma register_all_abs:
  "registry_abs us r \<Longrightarrow> distinct (map rt_id (us @ ts)) \<Longrightarrow> \<exists>r'. register_all ts r = Inr r' \<and> registry_abs (us @ ts) r'"
proof (induction ts arbitrary: us r)
  case (Cons t ts)
  obtain r1 where "register_template t r = Inr r1" "registry_abs (us @ [t]) r1"
    using register_refines [OF Cons.prems(1), of t] Cons.prems(2) by (auto split: sum.splits)
  with Cons.IH [of "us @ [t]" r1] Cons.prems(2) show ?case by auto
qed simp

lemma default_registry: "\<exists>r. createDefaultRegistry = Inr r \<and> registry_abs defaultTemplates r"
proof -
  have "map rt_id defaultTemplates = map (\<lambda>s. ''reminders.'' @ fst s) default_spec"
    by (simp add: defaultTemplates_def default_template_def defineTemplate_def comp_def)
  moreover have "distinct (map (\<lambda>s. ''reminders.'' @ fst s) default_spec)" by code_simp
  ultimately show ?thesis
    using register_all_abs [OF registry_abs_new, of defaultTemplates] by (simp add: createDefaultRegistry_def)
qed

lemma default_for_type:
  "filter (\<lambda>t. rt_eventType t = ty) defaultTemplates = map default_template (filter (\<lambda>s. fst s = ty) default_spec)"
  by (simp add: defaultTemplates_def default_template_def defineTemplate_def filter_map comp_def)

definition load_bearing :: "string list" where
  "load_bearing = [''mode.entered'', ''mode.exited'', ''hook.blocked'', ''tool.denied'']"

lemma types_listed: "reminder_type e \<in> set (map fst default_spec)"
  by (cases e) (simp_all add: default_spec_def)

lemma listed_once:
  "list_all (\<lambda>ty. \<exists>b \<in> set [True, False]. filter (\<lambda>s. fst s = ty) default_spec = [(ty, b)] \<and>
     (\<not> ty \<in> set load_bearing \<or> \<not> b)) (map fst default_spec)"
  by code_simp

lemma one_default:
  "\<exists>b. filter (\<lambda>s. fst s = reminder_type e) default_spec = [(reminder_type e, b)] \<and>
     (reminder_type e \<in> set load_bearing \<longrightarrow> \<not> b)"
  using listed_once types_listed [of e] unfolding list_all_iff by blast

lemma trim_nonblank: "\<not> is_space_char c \<Longrightarrow> js_trim (c # s) \<noteq> []"
  by (auto simp: js_trim_def js_trimStart_def dropWhile_append)

lemma load_bearing_nonblank:
  assumes "reminder_type e \<in> set load_bearing"
  shows "js_trim (default_body e) \<noteq> []"
proof -
  have "\<exists>s. default_body e = CHR ''M'' # s \<or> default_body e = CHR ''H'' # s \<or> default_body e = CHR ''T'' # s"
    using assms by (cases e) (simp_all add: load_bearing_def)
  moreover have "\<not> is_space_char (CHR ''M'')" "\<not> is_space_char (CHR ''H'')" "\<not> is_space_char (CHR ''T'')"
    by (simp_all add: is_space_char_def)
  ultimately show ?thesis using trim_nonblank by metis
qed

text \<open>Load-bearing reminders reach the model. With the default templates a drain never fails: it
  returns the texts of all queued events in the order they were queued and leaves the queue
  empty, and whatever template ids a profile silences, every queued event that says a mode
  was entered or left, a hook blocked an action or a tool call was denied is among the texts.\<close>

theorem load_bearing_reminders:
  "\<exists>r out. createDefaultRegistry = Inr r \<and>
     reminder_drain ctx \<lparr>reminder_queue = es, suppressed = hush, reminder_registry = r\<rparr> =
       (Inr out, \<lparr>reminder_queue = [], suppressed = hush, reminder_registry = r\<rparr>) \<and>
     length out \<le> length es \<and>
     {wrap_reminder (js_trim (default_body e)) | e. e \<in> set es \<and>
        reminder_type e \<in> set load_bearing} \<subseteq> set out"
proof -
  obtain r where r: "createDefaultRegistry = Inr r" "registry_abs defaultTemplates r" using default_registry by blast
  let ?j = "\<lparr>reminder_queue = es, suppressed = hush, reminder_registry = r\<rparr>"
  have for_type: "templatesFor r (reminder_type e) = map default_template (filter (\<lambda>s. fst s = reminder_type e) default_spec)" for e
    using r(2) by (simp add: registry_abs_def default_for_type)
  have ok: "t \<in> set (templatesFor r (reminder_type e)) \<Longrightarrow> rt_render t e ctx = Inr (default_body e)" for e t
    unfolding for_type by (auto simp: default_template_def defineTemplate_def)
  let ?text = "\<lambda>e. concat (map (delivers ctx e) (filter (\<lambda>t. \<not> silenced ?j t) (templatesFor r (reminder_type e))))"
  have len: "length (?text e) \<le> 1" for e
  proof -
    obtain b where "templatesFor r (reminder_type e) = [default_template (reminder_type e, b)]"
      using one_default [of e] for_type [of e] by auto
    then show ?thesis by (auto simp: delivers_def split: sum.splits)
  qed
  have q: "render_queue ?j ctx es = Inr (concat (map ?text es))"
    using render_queue_Inr [of es ?j ctx] ok by (simp add: isl_def)
  have few: "length (concat (map ?text xs)) \<le> length xs" for xs
  proof (induction xs)
    case (Cons e xs)
    then show ?case using len [of e] by simp
  qed simp
  have "wrap_reminder (js_trim (default_body e)) \<in> set (?text e)"
    if "reminder_type e \<in> set load_bearing" for e
  proof -
    have t: "templatesFor r (reminder_type e) = [default_template (reminder_type e, False)]"
      using one_default [of e] that for_type [of e] by auto
    then show ?thesis using ok [of "default_template (reminder_type e, False)" e] load_bearing_nonblank [OF that]
      by (simp add: silenced_def delivers_def default_template_def defineTemplate_def)
  qed
  then have "{wrap_reminder (js_trim (default_body e)) | e. e \<in> set es \<and>
      reminder_type e \<in> set load_bearing} \<subseteq> set (concat (map ?text es))"
    by (subst set_concat, subst set_map) blast
  then show ?thesis using r(1) q few [of es]
    by (intro exI [of _ r] exI [of _ "concat (map ?text es)"]) (simp add: reminder_drain_def)
qed

end
