(* ===== verification/HookRuntime.thy ===== *)
theory HookRuntime
  imports Reminders Json
begin

text \<open>
  Lifecycle hooks (\<open>hooks/registry.ts\<close>, \<open>executor.ts\<close>, \<open>runtime.ts\<close>): specs bound to lifecycle
  events, the execution of one hook with its timeout and abort, and the run of all hooks of an event
  with the reminders it emits. What a hook function or a child process does is a function of the
  state of the world, and so is which of the racing promises settles first; the decoded output of a
  child is a text below 256, and a JSON escape above that is outside the model.
\<close>

section \<open>Contexts and specs\<close>

datatype HookContext =
    SessionStartHook nat string string
  | PromptSubmitHook nat string
  | ToolPreHook nat string obj
  | ToolPostHook nat string obj string bool
  | ModelPreHook nat string nat
  | ModelPostHook nat string string nat nat rat nat
  | SessionEndHook nat string string
  | ErrorHook nat string string

fun hook_event :: "HookContext \<Rightarrow> string" where
  "hook_event (SessionStartHook t s m) = ''session.start''"
| "hook_event (PromptSubmitHook t p) = ''user.prompt.submit''"
| "hook_event (ToolPreHook t n i) = ''tool.pre''"
| "hook_event (ToolPostHook t n i r e) = ''tool.post''"
| "hook_event (ModelPreHook t m c) = ''model.pre''"
| "hook_event (ModelPostHook t m s i out c n) = ''model.post''"
| "hook_event (SessionEndHook t s r) = ''session.end''"
| "hook_event (ErrorHook t c m) = ''error''"

record HookResult =
  hr_continue :: "bool option"
  hr_reason :: "string option"
  hr_output :: "string option"
  hr_additionalContext :: "string option"

text \<open>How the race of a function hook ends, and what becomes of a child process.\<close>

datatype fn_outcome = FnReturned HookResult | FnThrew js_thrown | FnTimedOut | FnAborted

datatype child_outcome =
    SpawnThrew js_thrown
  | ChildTimedOut
  | ChildAborted
  | ChildError string
  | ChildClosed "nat option" string string

datatype 'w hook_kind =
    FnHook "HookContext \<Rightarrow> 'w \<Rightarrow> fn_outcome \<times> 'w"
  | CommandHook "HookContext \<Rightarrow> 'w \<Rightarrow> child_outcome \<times> 'w"

record HookEgress =
  he_sourceKind :: string
  he_sourceRef :: string
  he_mediation :: string

record 'w HookSpec =
  hs_name :: string
  hs_kind :: "'w hook_kind"
  hs_timeoutMs :: "nat option"
  hs_egress :: "HookEgress option"

section \<open>The registry\<close>

type_synonym 'w HookRegistry = "(string, 'w HookSpec list) js_map"

definition hook_for :: "'w HookRegistry \<Rightarrow> string \<Rightarrow> 'w HookSpec list" where
  "hook_for r event = (case map_get r event of Some l \<Rightarrow> l | None \<Rightarrow> [])"

definition hook_register :: "string \<Rightarrow> 'w HookSpec \<Rightarrow> 'w HookRegistry \<Rightarrow> 'w HookRegistry" where
  "hook_register event hook r = (case map_get r event of
       Some l \<Rightarrow> map_set event (l @ [hook]) r
     | None \<Rightarrow> map_set event [hook] r)"

definition hook_has :: "'w HookRegistry \<Rightarrow> string \<Rightarrow> bool" where
  "hook_has r event = (length (hook_for r event) > 0)"

definition hook_count :: "'w HookRegistry \<Rightarrow> nat" where
  "hook_count r = sum_list (map (length \<circ> snd) r)"

section \<open>One hook\<close>

definition hook_block :: "string \<Rightarrow> HookResult" where
  "hook_block reason = \<lparr>hr_continue = Some False, hr_reason = Some reason, hr_output = None, hr_additionalContext = None\<rparr>"

definition timed_out_text :: "nat \<Rightarrow> string" where
  "timed_out_text ms = ''Hook timed out after '' @ show_nat ms @ ''ms''"

text \<open>With a signal that is aborted at the start, the abort promise wins although the function is
  called all the same.\<close>

definition executeFnHook ::
  "(HookContext \<Rightarrow> 'w \<Rightarrow> fn_outcome \<times> 'w) \<Rightarrow> HookContext \<Rightarrow> nat \<Rightarrow> bool \<Rightarrow> 'w \<Rightarrow> HookResult \<times> 'w" where
  "executeFnHook fn ctx timeoutMs aborted w = (case fn ctx w of (out, w1) \<Rightarrow>
     (if aborted then (hook_block ''Hook aborted before start'', w1)
      else (case out of
          FnReturned r \<Rightarrow> (r, w1)
        | FnThrew e \<Rightarrow> (hook_block (thrown_message e), w1)
        | FnTimedOut \<Rightarrow> (hook_block (timed_out_text timeoutMs), w1)
        | FnAborted \<Rightarrow> (hook_block ''Hook aborted'', w1))))"

definition bool_prop :: "obj \<Rightarrow> string \<Rightarrow> bool option" where
  "bool_prop ob k = (case map_of ob k of Some (JBool b) \<Rightarrow> Some b | _ \<Rightarrow> None)"

definition hook_fields :: "obj \<Rightarrow> HookResult" where
  "hook_fields ob = \<lparr>hr_continue = bool_prop ob ''continue'', hr_reason = str_field ob ''reason'',
     hr_output = str_field ob ''output'', hr_additionalContext = str_field ob ''additionalContext''\<rparr>"

definition tryParseHookResult :: "(string \<Rightarrow> string) \<Rightarrow> string \<Rightarrow> HookResult option" where
  "tryParseHookResult num stdout =
     (if stdout = [] \<or> hd stdout \<noteq> CHR 0x7B then None
      else (case json_parse num stdout of
          Inl e \<Rightarrow> None
        | Inr (JObj ob) \<Rightarrow> Some (hook_fields ob)
        | Inr (JArr vs) \<Rightarrow> Some (hook_fields [])
        | Inr v \<Rightarrow> None))"

definition executeCommandHook ::
  "(string \<Rightarrow> string) \<Rightarrow> (HookContext \<Rightarrow> 'w \<Rightarrow> child_outcome \<times> 'w) \<Rightarrow> HookContext \<Rightarrow> nat \<Rightarrow> bool \<Rightarrow> 'w \<Rightarrow> HookResult \<times> 'w" where
  "executeCommandHook num child ctx timeoutMs aborted w = (case child ctx w of (out, w1) \<Rightarrow>
     (case out of
        SpawnThrew e \<Rightarrow> (hook_block (thrown_message e), w1)
      | _ \<Rightarrow>
        (if aborted then (hook_block ''Hook aborted before start'', w1)
         else (case out of
             SpawnThrew e \<Rightarrow> (hook_block (thrown_message e), w1)
           | ChildTimedOut \<Rightarrow> (hook_block (timed_out_text timeoutMs), w1)
           | ChildAborted \<Rightarrow> (hook_block ''Hook aborted'', w1)
           | ChildError m \<Rightarrow> (hook_block m, w1)
           | ChildClosed code outText errText \<Rightarrow>
               (let stdout = js_trim outText; stderr = js_trim errText in
                case tryParseHookResult num stdout of
                  Some r \<Rightarrow> (r, w1)
                | None \<Rightarrow>
                    (if code = Some 0
                     then (\<lparr>hr_continue = Some True, hr_reason = None,
                            hr_output = (if stdout = [] then None else Some stdout), hr_additionalContext = None\<rparr>, w1)
                     else ((hook_block (if stderr \<noteq> [] then stderr
                              else ''Hook exited with code '' @ (case code of Some n \<Rightarrow> show_nat n | None \<Rightarrow> ''unknown'')))
                             \<lparr>hr_output := (if stdout = [] then None else Some stdout)\<rparr>, w1)))))))"

definition executeHook ::
  "(string \<Rightarrow> string) \<Rightarrow> 'w HookSpec \<Rightarrow> HookContext \<Rightarrow> bool \<Rightarrow> 'w \<Rightarrow> HookResult \<times> 'w" where
  "executeHook num spec ctx aborted w =
     (let timeoutMs = (case hs_timeoutMs spec of Some t \<Rightarrow> t | None \<Rightarrow> 5000) in
      case hs_kind spec of
        FnHook fn \<Rightarrow> executeFnHook fn ctx timeoutMs aborted w
      | CommandHook child \<Rightarrow> executeCommandHook num child ctx timeoutMs aborted w)"

section \<open>All hooks of an event\<close>

record Route =
  ru_sourceKind :: string
  ru_sourceRef :: string
  ru_mediation :: string

text \<open>\<open>routeUnavailable\<close> of the host's egress control; \<open>EgressBlockedError\<close> is told by its name.\<close>

record 'w Egress =
  eg_localOnly :: bool
  eg_routeUnavailable :: "Route \<Rightarrow> 'w \<Rightarrow> (js_thrown + unit) \<times> 'w"

fun egress_blocked :: "js_thrown \<Rightarrow> bool" where
  "egress_blocked (ThrownError n m) \<longleftrightarrow> n = ''EgressBlockedError''"
| "egress_blocked e \<longleftrightarrow> False"

definition hook_route :: "'w HookSpec \<Rightarrow> Route" where
  "hook_route spec = \<lparr>
     ru_sourceKind = (case hs_egress spec of Some e \<Rightarrow> he_sourceKind e
        | None \<Rightarrow> (case hs_kind spec of CommandHook c \<Rightarrow> ''process'' | FnHook f \<Rightarrow> ''tool'')),
     ru_sourceRef = (case hs_egress spec of Some e \<Rightarrow> he_sourceRef e | None \<Rightarrow> ''profile_hook''),
     ru_mediation = (case hs_egress spec of Some e \<Rightarrow> if he_mediation e = ''uncontained'' then ''uncontained'' else ''unknown''
        | None \<Rightarrow> ''unknown'')\<rparr>"

definition needs_route :: "'w HookSpec \<Rightarrow> bool" where
  "needs_route spec = (case hs_egress spec of Some e \<Rightarrow> he_mediation e \<noteq> ''none'' | None \<Rightarrow> True)"

record HookRunResult =
  run_continue :: bool
  blockedReason :: "string option"
  blockedHook :: "string option"

definition route_check :: "'w Egress option \<Rightarrow> 'w HookSpec \<Rightarrow> 'w \<Rightarrow> (js_thrown + unit) \<times> 'w" where
  "route_check egress spec w = (case egress of
       Some eg \<Rightarrow> if needs_route spec then eg_routeUnavailable eg (hook_route spec) w else (Inr (), w)
     | None \<Rightarrow> (Inr (), w))"

definition success_notes :: "'w HookSpec \<Rightarrow> HookResult \<Rightarrow> ReminderEvent list" where
  "success_notes spec r =
     (case hr_output r of Some t \<Rightarrow> [HookSuccess (hs_name spec) t] | None \<Rightarrow> []) @
     (case hr_additionalContext r of
        Some t \<Rightarrow> if js_trim t \<noteq> [] then [HookContextNote (hs_name spec) t] else []
      | None \<Rightarrow> [])"

definition route_reason :: string where
  "route_reason = ''Hook has no verified outbound containment for this local-only run.''"

fun hooks_loop ::
  "(string \<Rightarrow> string) \<Rightarrow> 'w Egress option \<Rightarrow> ('w \<Rightarrow> bool) \<Rightarrow> HookContext \<Rightarrow> 'w HookSpec list \<Rightarrow> 'w
     \<Rightarrow> (js_thrown + HookRunResult) \<times> ReminderEvent list \<times> 'w" where
  "hooks_loop num egress aborted ctx [] w =
     (Inr \<lparr>run_continue = True, blockedReason = None, blockedHook = None\<rparr>, [], w)"
| "hooks_loop num egress aborted ctx (spec # specs) w =
     (case route_check egress spec w of
        (Inl e, w1) \<Rightarrow>
          (if egress_blocked e
           then (Inr \<lparr>run_continue = False, blockedReason = Some route_reason, blockedHook = Some (hs_name spec)\<rparr>,
                 [HookBlocked (hs_name spec) route_reason], w1)
           else (Inl e, [], w1))
      | (Inr u, w1) \<Rightarrow>
          (case executeHook num spec ctx (aborted w1) w1 of
             (r, w2) \<Rightarrow>
               (if hr_continue r = Some False
                then (let reason = (case hr_reason r of Some t \<Rightarrow> t | None \<Rightarrow> ''Hook returned continue: false'') in
                      (Inr \<lparr>run_continue = False, blockedReason = Some reason, blockedHook = Some (hs_name spec)\<rparr>,
                       [HookBlocked (hs_name spec) reason], w2))
                else (case hooks_loop num egress aborted ctx specs w2 of
                    (res, told, w3) \<Rightarrow> (res, success_notes spec r @ told, w3)))))"

text \<open>\<open>aborted\<close> reads the signal, if one was passed.\<close>

definition hooks_run ::
  "(string \<Rightarrow> string) \<Rightarrow> 'w HookRegistry \<Rightarrow> 'w Egress option \<Rightarrow> ('w \<Rightarrow> bool) option \<Rightarrow> HookContext \<Rightarrow> 'w
     \<Rightarrow> (js_thrown + HookRunResult) \<times> ReminderEvent list \<times> 'w" where
  "hooks_run num registry egress signal ctx w =
     hooks_loop num egress (\<lambda>v. case signal of Some f \<Rightarrow> f v | None \<Rightarrow> False) ctx (hook_for registry (hook_event ctx)) w"

section \<open>Hooks fail closed\<close>

text \<open>A hook that lets the action pass: it ran to its own end and did not say no.\<close>

definition kind_passes :: "(string \<Rightarrow> string) \<Rightarrow> 'w hook_kind \<Rightarrow> HookContext \<Rightarrow> 'w \<Rightarrow> bool" where
  "kind_passes num k ctx w = (case k of
       FnHook fn \<Rightarrow> (\<exists>r. fst (fn ctx w) = FnReturned r \<and> hr_continue r \<noteq> Some False)
     | CommandHook child \<Rightarrow> (\<exists>code outText errText. fst (child ctx w) = ChildClosed code outText errText \<and>
         (case tryParseHookResult num (js_trim outText) of
            Some r \<Rightarrow> hr_continue r \<noteq> Some False | None \<Rightarrow> code = Some 0)))"

lemma executeHook_passes:
  "hr_continue (fst (executeHook num spec ctx ab w)) \<noteq> Some False \<Longrightarrow> \<not> ab \<and> kind_passes num (hs_kind spec) ctx w"
  by (auto simp: executeHook_def executeFnHook_def executeCommandHook_def kind_passes_def hook_block_def Let_def
      split: hook_kind.splits prod.splits fn_outcome.splits child_outcome.splits option.splits if_splits)

text \<open>A run in which every hook passed, from one state of the world to the next.\<close>

fun all_passed ::
  "(string \<Rightarrow> string) \<Rightarrow> 'w Egress option \<Rightarrow> ('w \<Rightarrow> bool) option \<Rightarrow> HookContext \<Rightarrow> 'w HookSpec list \<Rightarrow> 'w \<Rightarrow> 'w \<Rightarrow> bool" where
  "all_passed num egress signal ctx [] w w' \<longleftrightarrow> w' = w"
| "all_passed num egress signal ctx (spec # specs) w w' \<longleftrightarrow>
     (\<exists>w1 w2. route_check egress spec w = (Inr (), w1) \<and> (\<forall>f. signal = Some f \<longrightarrow> \<not> f w1) \<and>
        kind_passes num (hs_kind spec) ctx w1 \<and> w2 = snd (executeHook num spec ctx False w1) \<and>
        all_passed num egress signal ctx specs w2 w')"

lemma hooks_loop_passed:
  "hooks_loop num egress (\<lambda>v. case signal of Some f \<Rightarrow> f v | None \<Rightarrow> False) ctx specs w = (Inr res, told, w') \<Longrightarrow>
   run_continue res \<Longrightarrow> all_passed num egress signal ctx specs w w'"
proof (induction specs arbitrary: w told)
  case (Cons spec specs)
  let ?ab = "\<lambda>v. case signal of Some f \<Rightarrow> f v | None \<Rightarrow> False"
  obtain x w1 where rc: "route_check egress spec w = (x, w1)" by (metis surj_pair)
  obtain r w2 where ex: "executeHook num spec ctx (?ab w1) w1 = (r, w2)" by (metis surj_pair)
  have x: "x = Inr ()" using Cons.prems rc by (cases x) (auto split: if_splits)
  have go: "hr_continue r \<noteq> Some False" using Cons.prems rc ex x by (auto simp: Let_def split: if_splits)
  then obtain told' where rest: "hooks_loop num egress ?ab ctx specs w2 = (Inr res, told', w')"
    using Cons.prems rc ex x by (auto split: prod.splits)
  have "\<not> ?ab w1" "kind_passes num (hs_kind spec) ctx w1"
    using executeHook_passes [of num spec ctx "?ab w1" w1] go ex by auto
  then have sig: "\<forall>f. signal = Some f \<longrightarrow> \<not> f w1" and na: "?ab w1 = False" by auto
  have w2: "w2 = snd (executeHook num spec ctx False w1)" using ex unfolding na by simp
  show ?case using rc x sig \<open>kind_passes num (hs_kind spec) ctx w1\<close> w2 Cons.IH [OF rest Cons.prems(2)] by auto
qed simp

lemma hooks_loop_blocked:
  "hooks_loop num egress ab ctx specs w = (Inr res, told, w') \<Longrightarrow> \<not> run_continue res \<Longrightarrow>
   \<exists>h reason. blockedHook res = Some h \<and> blockedReason res = Some reason \<and> h \<in> hs_name ` set specs \<and>
     told \<noteq> [] \<and> last told = HookBlocked h reason"
proof (induction specs arbitrary: w told)
  case (Cons spec specs)
  then show ?case
    by (fastforce simp: Let_def split: prod.splits sum.splits if_splits)
qed auto


definition late_hook :: "nat HookSpec" where
  "late_hook = \<lparr>hs_name = ''lint'', hs_kind = FnHook (\<lambda>c w. (FnTimedOut, Suc w)), hs_timeoutMs = Some 5, hs_egress = None\<rparr>"


end
