(* ===== verification/ModelStream.thy ===== *)
theory ModelStream
  imports LoopEvents HookRuntime CompactionStrategies
begin

text \<open>
  One model call of the agent loop (\<open>streamModelResponse\<close> in \<open>core/loop.ts\<close>): the adapter's chunks
  are pulled one by one under a watchdog, turned into events and accumulated. An adapter is a
  parameter: for a request and a state of the world it gives the outcomes of the successive pulls,
  each with the state after it; the end of the list is the end of the iterator. The set of models
  warned about by the pricing module only steers a console message and is left out.
\<close>

section \<open>Chunks and adapters\<close>

record ProviderUsage =
  us_inputTokens :: nat
  us_outputTokens :: nat
  us_cacheReadTokens :: nat
  us_cacheCreationTokens :: nat
  us_reasoningTokens :: "nat option"
  us_reportedCostUsd :: "rat option"
  us_facts :: ProviderFacts
  us_costBasis :: "string option"

datatype LoopChunk =
    TextDeltaChunk string
  | ThinkingDeltaChunk string
  | ToolUseStartChunk string string
  | ToolUseArgsChunk string string
  | ToolUseEndChunk string
  | MessageCompleteChunk "ContentBlock list" StopReason ProviderUsage
  | StreamErrorChunk js_thrown

record ToolDefinition =
  td_name :: string
  td_description :: string
  td_inputSchema :: obj

record LoopRequest =
  lq_model :: string
  lq_system :: RequestSystem
  lq_messages :: "WireMessage list"
  lq_tools :: "ToolDefinition list"
  lq_maxTokens :: nat
  lq_temperature :: "rat option"
  lq_thinking :: "json option"

datatype stream_pull = PullChunk LoopChunk | PullStalled | PullThrew js_thrown

record 'w LoopProvider =
  lp_name :: string
  lp_mediation :: "Mediation option"
  lp_stream :: "LoopRequest \<Rightarrow> 'w \<Rightarrow> (stream_pull \<times> 'w) list"
  lp_return :: "'w \<Rightarrow> 'w"
  lp_pricing :: "string \<Rightarrow> ModelPricing option"

section \<open>Usage and cost\<close>

definition generic_error :: "string \<Rightarrow> string \<Rightarrow> js_thrown" where
  "generic_error message provider = ThrownProvider (new_ProviderError GenericProviderError message provider
     \<lparr>po_statusCode = None, po_retryAfterMs = None, po_headers = None, po_recoverable = None\<rparr>)"

definition checkedCostBasis :: "string option \<Rightarrow> js_thrown + CostBasis" where
  "checkedCostBasis value =
     (if value = None \<or> value = Some ''metered'' then Inr Metered
      else if value = Some ''subscription_allowance'' then Inr SubscriptionAllowance
      else if value = Some ''unknown'' then Inr UnknownBasis
      else Inl (generic_error ''Provider usage reported an unknown billing basis.'' ''unknown''))"

definition mergeCostBasis :: "CostBasis option \<Rightarrow> CostBasis \<Rightarrow> CostBasis" where
  "mergeCostBasis current incoming =
     (if current = None \<or> current = Some incoming then incoming else UnknownBasis)"

definition no_facts :: ProviderFacts where
  "no_facts = \<lparr>pf_requestId = None, pf_generationId = None, pf_servedModelId = None, pf_servedProvider = None,
     pf_servedTier = None\<rparr>"

definition providerFactsFromUsage :: "ProviderUsage \<Rightarrow> ProviderFacts option" where
  "providerFactsFromUsage usage = (if us_facts usage = no_facts then None else Some (us_facts usage))"

definition computeCost :: "catalog \<Rightarrow> 'w LoopProvider \<Rightarrow> string \<Rightarrow> ProviderUsage \<Rightarrow> ComputedCost" where
  "computeCost cat provider model u =
     fst (computeCostWithFallback cat (lp_name provider) model (us_inputTokens u) (us_outputTokens u)
            (us_cacheReadTokens u) (us_cacheCreationTokens u) [])"

definition turn_usage :: "catalog \<Rightarrow> 'w LoopProvider \<Rightarrow> string \<Rightarrow> ProviderUsage \<Rightarrow> js_thrown + TurnUsage" where
  "turn_usage cat provider activeModel u = (case checkedCostBasis (us_costBasis u) of
       Inl e \<Rightarrow> Inl e
     | Inr costBasis \<Rightarrow>
         (if costBasis \<noteq> Metered \<and> us_reportedCostUsd u \<noteq> None
          then Inl (generic_error ''Provider usage reported conflicting billing semantics.'' (lp_name provider))
          else (let computed = (if costBasis = Metered
                      then (case us_reportedCostUsd u of
                          Some c \<Rightarrow> \<lparr>cc_costUsd = c, cc_isFallback = False\<rparr>
                        | None \<Rightarrow> computeCost cat provider activeModel u)
                      else \<lparr>cc_costUsd = 0, cc_isFallback = False\<rparr>)
                in Inr \<lparr>tu_inputTokens = us_inputTokens u, tu_outputTokens = us_outputTokens u,
                     tu_cacheReadTokens = us_cacheReadTokens u, tu_cacheCreationTokens = us_cacheCreationTokens u,
                     tu_model = activeModel, tu_costUsd = cc_costUsd computed,
                     tu_costBasis = (if costBasis \<noteq> Metered then Some costBasis else None),
                     tu_fromProvider = True, tu_reasoningTokens = us_reasoningTokens u,
                     tu_costClassification = (if costBasis = Metered
                        then Some (if us_reportedCostUsd u \<noteq> None then ''provider_reported'' else ''estimated'') else None),
                     tu_providerFacts = providerFactsFromUsage u, tu_isFallbackPricing = cc_isFallback computed\<rparr>)))"

section \<open>The stream\<close>

record StreamResult =
  sr_content :: "ContentBlock list"
  sr_usage :: TurnUsage
  sr_stopReason :: StopReason

record stream_acc =
  ac_text :: string
  ac_thinking :: string
  ac_result :: StreamResult

text \<open>What a chunk adds, and the events it yields; \<open>ui\<close> is the descriptor of a tool by name.\<close>

fun chunk_step ::
  "catalog \<Rightarrow> 'w LoopProvider \<Rightarrow> (string \<Rightarrow> ToolUIDescriptor option) \<Rightarrow> nat \<Rightarrow> string \<Rightarrow> LoopChunk \<Rightarrow> stream_acc
     \<Rightarrow> js_thrown + (stream_acc \<times> LoomEvent list)" where
  "chunk_step cat provider ui turnIndex model (TextDeltaChunk t) a =
     Inr (a\<lparr>ac_text := ac_text a @ t\<rparr>, [TextDeltaEvent t turnIndex])"
| "chunk_step cat provider ui turnIndex model (ThinkingDeltaChunk t) a =
     Inr (a\<lparr>ac_thinking := ac_thinking a @ t\<rparr>, [ThinkingDeltaEvent t turnIndex])"
| "chunk_step cat provider ui turnIndex model (ToolUseStartChunk i n) a =
     Inr (a, [ToolCallStart i n (normalizeToolUIDescriptor (ui n)) turnIndex])"
| "chunk_step cat provider ui turnIndex model (ToolUseArgsChunk i d) a = Inr (a, [ToolCallArgsDelta i d turnIndex])"
| "chunk_step cat provider ui turnIndex model (ToolUseEndChunk i) a = Inr (a, [])"
| "chunk_step cat provider ui turnIndex model (MessageCompleteChunk bs stop u) a =
     (case turn_usage cat provider model u of
        Inl e \<Rightarrow> Inl e
      | Inr tu \<Rightarrow> Inr (a\<lparr>ac_result := \<lparr>sr_content = sr_content (ac_result a) @ bs, sr_usage = tu,
                                        sr_stopReason = stop\<rparr>\<rparr>, []))"
| "chunk_step cat provider ui turnIndex model (StreamErrorChunk e) a = Inl e"

definition stalled_error :: js_thrown where
  "stalled_error = ThrownError ''Error'' (''Model stream stalled - no chunks received for 30s. '' @
     ''The provider may be slow or unresponsive; try again or pick a different model.'')"

fun pull_loop ::
  "catalog \<Rightarrow> 'w LoopProvider \<Rightarrow> (string \<Rightarrow> ToolUIDescriptor option) \<Rightarrow> nat \<Rightarrow> string \<Rightarrow> ('w \<Rightarrow> bool)
     \<Rightarrow> (stream_pull \<times> 'w) list \<Rightarrow> stream_acc \<Rightarrow> 'w \<Rightarrow> (js_thrown + stream_acc) \<times> LoomEvent list \<times> 'w" where
  "pull_loop cat provider ui turnIndex model aborted pulls a w =
     (if aborted w then (Inr a, [], w)
      else (case pulls of
          [] \<Rightarrow> (Inr a, [], w)
        | (PullStalled, w1) # rest \<Rightarrow> (Inl stalled_error, [], w1)
        | (PullThrew e, w1) # rest \<Rightarrow> (Inl e, [], w1)
        | (PullChunk c, w1) # rest \<Rightarrow>
            (case chunk_step cat provider ui turnIndex model c a of
               Inl e \<Rightarrow> (Inl e, [], w1)
             | Inr (a1, evs) \<Rightarrow>
                 (case pull_loop cat provider ui turnIndex model aborted rest a1 w1 of
                    (r, evs', w2) \<Rightarrow> (r, evs @ evs', w2)))))"

declare pull_loop.simps [simp del]

definition provider_route :: "'w LoopProvider \<Rightarrow> Route" where
  "provider_route provider = \<lparr>ru_sourceKind = ''provider'', ru_sourceRef = lp_name provider,
     ru_mediation = (if lp_mediation provider = Some Uncontained then ''uncontained'' else ''unknown'')\<rparr>"

definition provider_egress :: "'w Egress option \<Rightarrow> 'w LoopProvider \<Rightarrow> 'w \<Rightarrow> (js_thrown + unit) \<times> 'w" where
  "provider_egress egress provider w = (case egress of
       Some eg \<Rightarrow> (if lp_mediation provider \<noteq> Some Fetch \<and> lp_mediation provider \<noteq> Some Delegated
                   then eg_routeUnavailable eg (provider_route provider) w else (Inr (), w))
     | None \<Rightarrow> (Inr (), w))"

definition fresh_acc :: "string \<Rightarrow> stream_acc" where
  "fresh_acc model = \<lparr>ac_text = [], ac_thinking = [],
     ac_result = \<lparr>sr_content = [], sr_usage = zero_usage model, sr_stopReason = EndTurn\<rparr>\<rparr>"

definition complete_events :: "stream_acc \<Rightarrow> nat \<Rightarrow> LoomEvent list" where
  "complete_events a turnIndex =
     (if ac_thinking a \<noteq> [] then [ThinkingComplete (ac_thinking a) turnIndex] else []) @
     (if ac_text a \<noteq> [] then [TextComplete (ac_text a) turnIndex] else [])"

definition streamModelResponse ::
  "catalog \<Rightarrow> 'w LoopProvider \<Rightarrow> LoopRequest \<Rightarrow> (string \<Rightarrow> ToolUIDescriptor option) \<Rightarrow> nat \<Rightarrow> 'w Egress option
     \<Rightarrow> ('w \<Rightarrow> bool) \<Rightarrow> string \<Rightarrow> 'w \<Rightarrow> (js_thrown + StreamResult) \<times> LoomEvent list \<times> 'w" where
  "streamModelResponse cat provider request ui turnIndex egress aborted activeModel w =
     (case provider_egress egress provider w of
        (Inl e, w1) \<Rightarrow> (Inl e, [], w1)
      | (Inr u, w1) \<Rightarrow>
          (case pull_loop cat provider ui turnIndex activeModel aborted (lp_stream provider request w1)
                  (fresh_acc activeModel) w1 of
             (Inl e, evs, w2) \<Rightarrow> (Inl e, evs, lp_return provider w2)
           | (Inr a, evs, w2) \<Rightarrow> (Inr (ac_result a), evs @ complete_events a turnIndex, lp_return provider w2)))"

section \<open>What the events say\<close>

fun delta_text :: "LoomEvent \<Rightarrow> string" where
  "delta_text (TextDeltaEvent t n) = t"
| "delta_text e = []"

fun delta_thinking :: "LoomEvent \<Rightarrow> string" where
  "delta_thinking (ThinkingDeltaEvent t n) = t"
| "delta_thinking e = []"

text \<open>The accumulated texts are those of the events so far, the usage is that of a completed message.\<close>

definition acc_ok :: "catalog \<Rightarrow> 'w LoopProvider \<Rightarrow> string \<Rightarrow> LoomEvent list \<Rightarrow> stream_acc \<Rightarrow> bool" where
  "acc_ok cat provider model evs a \<longleftrightarrow>
     ac_text a = concat (map delta_text evs) \<and> ac_thinking a = concat (map delta_thinking evs) \<and>
     (ac_result a = ac_result (fresh_acc model) \<or> (\<exists>u. turn_usage cat provider model u = Inr (sr_usage (ac_result a))))"

lemma chunk_step_ok:
  assumes "chunk_step cat provider ui n model c a = Inr (a', evs)" "acc_ok cat provider model es a"
  shows "acc_ok cat provider model (es @ evs) a' \<and> list_all (\<lambda>e. content_turn e = Some n) evs"
  using assms by (cases c) (auto simp: acc_ok_def fresh_acc_def split: sum.splits)

lemma pull_loop_ok:
  "pull_loop cat provider ui n model aborted pulls a w = (res, evs, w') \<Longrightarrow> acc_ok cat provider model es a \<Longrightarrow>
     list_all (\<lambda>e. content_turn e = Some n) evs \<and> (\<forall>a'. res = Inr a' \<longrightarrow> acc_ok cat provider model (es @ evs) a')"
proof (induction pulls arbitrary: a w res evs es w')
  case Nil
  then show ?case by (subst (asm) pull_loop.simps) (auto split: if_splits)
next
  case (Cons x pulls)
  obtain p w1 where x: "x = (p, w1)" by (cases x)
  show ?case
  proof (cases "aborted w")
    case True
    then show ?thesis using Cons.prems by (subst (asm) pull_loop.simps) auto
  next
    case live: False
    show ?thesis
    proof (cases p)
      case (PullChunk c)
      show ?thesis
      proof (cases "chunk_step cat provider ui n model c a")
        case (Inl e)
        then show ?thesis using Cons.prems live x PullChunk by (subst (asm) pull_loop.simps) auto
      next
        case (Inr r)
        obtain a1 evs1 where r: "r = (a1, evs1)" by (cases r)
        obtain res2 evs2 w2 where rest: "pull_loop cat provider ui n model aborted pulls a1 w1 = (res2, evs2, w2)"
          by (metis prod_cases3)
        have eq: "res = res2" "evs = evs1 @ evs2"
          using Cons.prems(1) live x PullChunk Inr r rest by (subst (asm) pull_loop.simps, simp)+
        have step: "acc_ok cat provider model (es @ evs1) a1" "list_all (\<lambda>e. content_turn e = Some n) evs1"
          using chunk_step_ok [OF Inr [unfolded r] Cons.prems(2)] by simp_all
        from Cons.IH [OF rest step(1)] step(2) eq show ?thesis by simp
      qed
    qed (use Cons.prems live x in \<open>subst (asm) pull_loop.simps, auto\<close>)+
  qed
qed

lemma stream_ok:
  assumes "streamModelResponse cat provider request ui n egress aborted model w = (res, evs, w')"
  shows "list_all (\<lambda>e. content_turn e = Some n) evs \<and>
         (\<forall>r. res = Inr r \<longrightarrow>
            (\<exists>body. let said = concat (map delta_text body); thought = concat (map delta_thinking body) in
               evs = body @ (if thought \<noteq> [] then [ThinkingComplete thought n] else []) @
                            (if said \<noteq> [] then [TextComplete said n] else [])) \<and>
            (sr_usage r = zero_usage model \<or> (\<exists>u. turn_usage cat provider model u = Inr (sr_usage r)))) \<and>
         (egress = None \<and> aborted w \<longrightarrow>
            res = Inr \<lparr>sr_content = [], sr_usage = zero_usage model, sr_stopReason = EndTurn\<rparr> \<and> evs = [])"
proof -
  have init: "acc_ok cat provider model [] (fresh_acc model)" by (simp add: acc_ok_def fresh_acc_def)
  obtain eg w1 where e: "provider_egress egress provider w = (eg, w1)" by (metis surj_pair)
  show ?thesis
  proof (cases eg)
    case (Inl er)
    have "egress \<noteq> None" using e Inl by (auto simp: provider_egress_def split: option.splits)
    then show ?thesis using assms e Inl by (auto simp: streamModelResponse_def)
  next
    case (Inr u)
    obtain r1 evs1 w2 where l: "pull_loop cat provider ui n model aborted (lp_stream provider request w1) (fresh_acc model) w1 = (r1, evs1, w2)"
      by (metis prod_cases3)
    note ok = pull_loop_ok [OF l init]
    have quiet: "r1 = Inr (fresh_acc model) \<and> evs1 = []" if "aborted w" "egress = None"
      using l that e by (subst (asm) pull_loop.simps) (auto simp: provider_egress_def)
    show ?thesis
    proof (cases r1)
      case (Inl er)
      then show ?thesis using assms e Inr l ok quiet by (auto simp: streamModelResponse_def)
    next
      case ac: (Inr a)
      have res: "res = Inr (ac_result a)" "evs = evs1 @ complete_events a n"
        using assms e Inr l ac by (simp_all add: streamModelResponse_def)
      have a: "acc_ok cat provider model evs1 a" "list_all (\<lambda>e. content_turn e = Some n) evs1" using ok ac by simp_all
      have "evs = evs1 @ (if concat (map delta_thinking evs1) \<noteq> [] then [ThinkingComplete (concat (map delta_thinking evs1)) n] else []) @
              (if concat (map delta_text evs1) \<noteq> [] then [TextComplete (concat (map delta_text evs1)) n] else [])"
        using a(1) res(2) by (simp add: acc_ok_def complete_events_def)
      moreover have "sr_usage (ac_result a) = zero_usage model \<or> (\<exists>u. turn_usage cat provider model u = Inr (sr_usage (ac_result a)))"
        using a(1) by (auto simp: acc_ok_def fresh_acc_def)
      moreover have "list_all (\<lambda>e. content_turn e = Some n) (complete_events a n)" by (simp add: complete_events_def)
      ultimately show ?thesis
        using res a quiet ac unfolding Let_def by (auto simp: fresh_acc_def complete_events_def)
    qed
  qed
qed


definition sample_usage :: ProviderUsage where
  "sample_usage = \<lparr>us_inputTokens = 10, us_outputTokens = 2, us_cacheReadTokens = 0, us_cacheCreationTokens = 0,
     us_reasoningTokens = None, us_reportedCostUsd = Some 1, us_facts = no_facts, us_costBasis = None\<rparr>"

definition saying_provider :: "nat LoopProvider" where
  "saying_provider = \<lparr>lp_name = ''p'', lp_mediation = Some Fetch,
     lp_stream = (\<lambda>rq w. [(PullChunk (TextDeltaChunk ''o''), 1), (PullChunk (ThinkingDeltaChunk ''h''), 2),
        (PullChunk (TextDeltaChunk ''k''), 3),
        (PullChunk (MessageCompleteChunk [TextBlock ''ok'' None] EndTurn sample_usage), 4)]),
     lp_return = id, lp_pricing = (\<lambda>m. None)\<rparr>"

definition sample_request :: LoopRequest where
  "sample_request = \<lparr>lq_model = ''m'', lq_system = Inl [], lq_messages = [], lq_tools = [], lq_maxTokens = 100,
     lq_temperature = None, lq_thinking = None\<rparr>"


end
