(* ===== verification/LoopTools.thy ===== *)
theory LoopTools
  imports LoopProc ModelStream ToolExecutor "HOL-Library.Multiset"
begin

text \<open>
  The tool half of the agent loop (\<open>executeTools\<close>, \<open>executeSingleToolGen\<close> and their helpers in
  \<open>core/loop.ts\<close>, \<open>tools/result-spill.ts\<close>). One call is a process over the state the calls of a turn
  share: the world, the result cache and the reminder queue. The host's answers (egress,
  hooks, permission, approval, authorization, credentials, sensitive input) and the tool itself are
  functions of the world; what they answered is recorded as a mark beside the events, so that a
  theorem can say what preceded a dispatch. A run of all hooks of one event is one action. Read-only
  calls that need no permission run interleaved, in an order the schedule chooses; the others run
  one after the other. The hook runtime and the loop use the same reminder queue.
\<close>

section \<open>Tools and their runs\<close>

datatype tool_progress =
    PlainProgress string
  | CredentialProgress CredentialRequest
  | SensitiveProgress SensitiveInputRequest

datatype tool_reply =
    NoReply
  | CredentialReply "CredentialHandle option"
  | SensitiveReply SensitiveInputResolution

type_synonym tool_value = "ToolResult \<times> SkillActivationMark option"

text \<open>A generator: it ends, or yields and is resumed with a reply. The mark that the trusted
  dispatcher keeps for a result object travels with the result.\<close>

datatype 'w tool_run =
    RunEnd "js_thrown + tool_value"
  | RunYield tool_progress "tool_reply \<times> 'w \<Rightarrow> 'w" "tool_reply \<times> 'w \<Rightarrow> 'w tool_run"

text \<open>\<open>execute\<close> throws, returns a promise, or returns a generator. A promise settles before the timer
  of the call fires, or after it.\<close>

datatype 'w execution =
    ExecThrew js_thrown
  | ExecPromise "'w \<Rightarrow> (bool \<times> (js_thrown + tool_value)) \<times> 'w"
  | ExecGenerator "'w tool_run"

record RunContext =
  rc_cwd :: string
  rc_sessionId :: string
  rc_rootSessionId :: string
  rc_agentId :: "string option"
  rc_toolCallId :: string
  rc_turnIndex :: nat

record 'w LoopTool =
  lt_name :: string
  lt_description :: string
  lt_inputSchema :: obj
  lt_category :: "string option"
  lt_egress :: "string option"
  lt_isReadOnly :: bool
  lt_requiresPermission :: bool
  lt_timeoutMs :: "nat option"
  lt_disableTimeout :: bool
  lt_maxResultSize :: "int option"
  lt_uiDescriptor :: "ToolUIDescriptor option"
  lt_cacheKey :: "(obj \<Rightarrow> RunContext \<Rightarrow> 'w \<Rightarrow> js_thrown + string option) option"
  lt_execute :: "obj \<Rightarrow> RunContext \<Rightarrow> 'w \<Rightarrow> 'w execution \<times> 'w"

datatype sensitive_start =
    StartPending string | StartDenied | StartExpired | StartRevoked | StartUnavailable

datatype sensitive_provision =
    Provided string | ProvisionDenied | ProvisionExpired | ProvisionRevoked | ProvisionUnavailable

record AuthorizationContext =
  az_requestId :: string
  az_agentId :: "string option"
  az_approvalRequested :: bool
  az_policyRevision :: "string option"

section \<open>The host and the configuration\<close>

text \<open>\<open>te_checkPermission\<close> answers with the verdict (allow or ask) and, in its rich form, with metadata.\<close>

record 'w ToolEnv =
  te_sessionId :: string
  te_rootSessionId :: "string option"
  te_agentId :: "string option"
  te_workspacePath :: "string option"
  te_cwd :: string
  te_signal :: "('w \<Rightarrow> bool) option"
  te_egress :: "'w Egress option"
  te_hooks :: "'w HookRegistry option"
  te_num :: "string \<Rightarrow> string"
  te_checkPermission :: "ToolCall \<Rightarrow> 'w \<Rightarrow> (js_thrown + bool \<times> PermissionMeta option) \<times> 'w"
  te_requestApproval :: "ToolCall \<Rightarrow> 'w \<Rightarrow> (js_thrown + bool) \<times> 'w"
  te_authorize :: "(ToolCall \<Rightarrow> AuthorizationContext \<Rightarrow> 'w \<Rightarrow> (js_thrown + bool) \<times> 'w) option"
  te_policyRevision :: "string option"
  te_defaultTimeoutMs :: nat
  te_maxResultSize :: int
  te_spillDir :: "string option"
  te_saveFile :: "string \<Rightarrow> string \<Rightarrow> string \<Rightarrow> 'w \<Rightarrow> string option \<times> 'w"
  te_requestCredential :: "CredentialRequest \<Rightarrow> 'w \<Rightarrow> (js_thrown + CredentialHandle option) \<times> 'w"
  te_isRegistered :: "string \<Rightarrow> 'w \<Rightarrow> bool"
  te_sensitiveRequest :: "SensitiveInputRequest \<Rightarrow> ToolCall \<Rightarrow> 'w \<Rightarrow> (js_thrown + sensitive_start) \<times> 'w"
  te_provision :: "SensitiveInputRequest \<Rightarrow> ToolCall \<Rightarrow> 'w \<Rightarrow> (js_thrown + sensitive_provision) \<times> 'w"
  te_consume :: "string \<Rightarrow> 'w \<Rightarrow> (js_thrown + SensitiveInputResolution) \<times> 'w"
  te_redact :: "string \<Rightarrow> 'w \<Rightarrow> string"

record 'w Shared =
  sh_world :: 'w
  sh_cache :: ToolResultCache
  sh_reminders :: "ReminderInjector option"
  sh_failures :: "js_thrown list"

datatype gate_mark =
    Yielded LoomEvent
  | RouteAnswer bool
  | HookAnswer bool
  | Verdict bool
  | Approval bool
  | Authorization bool
  | CacheAnswer
  | Dispatched
  | PostHookThrew

type_synonym 'w tool_proc = "('w Shared, gate_mark, js_thrown + ToolCall \<times> ToolResult) proc"

section \<open>Small steps\<close>

definition on_world :: "('w \<Rightarrow> 'r \<times> 'w) \<Rightarrow> ('w Shared, 'e, 'r) proc" where
  "on_world f = call (\<lambda>s. case f (sh_world s) of (r, w) \<Rightarrow> (r, s\<lparr>sh_world := w\<rparr>))"

definition read_world :: "('w \<Rightarrow> 'r) \<Rightarrow> ('w Shared, 'e, 'r) proc" where
  "read_world f = call (\<lambda>s. (f (sh_world s), s))"

definition remind :: "ReminderEvent list \<Rightarrow> 'w Shared \<Rightarrow> 'w Shared" where
  "remind told s = s\<lparr>sh_reminders := map_option (fold reminder_emit told) (sh_reminders s)\<rparr>"

definition run_hooks :: "'w ToolEnv \<Rightarrow> 'w HookRegistry \<Rightarrow> HookContext \<Rightarrow> ('w Shared, 'e, js_thrown + HookRunResult) proc" where
  "run_hooks env reg ctx = call (\<lambda>s.
     case hooks_run (te_num env) reg (te_egress env) (te_signal env) ctx (sh_world s) of
       (r, told, w) \<Rightarrow> (r, remind told (s\<lparr>sh_world := w\<rparr>)))"

text \<open>The rejection of a call's promise. The record of the order in which calls reject tells which of
  them \<open>Promise.all\<close> reports.\<close>

definition reject :: "js_thrown \<Rightarrow> 'w tool_proc" where
  "reject e = Act (\<lambda>s. s\<lparr>sh_failures := sh_failures s @ [e]\<rparr>) (\<lambda>s. Ret (Inl e))"

definition refused :: "ToolCall \<Rightarrow> nat \<Rightarrow> string \<Rightarrow> 'w tool_proc" where
  "refused c n msg = Say (Yielded (ToolCallEnd (tc_id c) (tc_name c) msg True None None n)) (Ret (Inr (c, error_result msg)))"

section \<open>Before the call\<close>

definition ref_char :: "char \<Rightarrow> bool" where
  "ref_char ch \<longleftrightarrow> (CHR ''A'' \<le> ch \<and> ch \<le> CHR ''Z'') \<or> (CHR ''a'' \<le> ch \<and> ch \<le> CHR ''z'') \<or> (CHR ''0'' \<le> ch \<and> ch \<le> CHR ''9'') \<or>
     ch \<in> set ''_.:-''"

definition tool_route :: "'w LoopTool \<Rightarrow> Route" where
  "tool_route tool = \<lparr>
     ru_sourceKind = (if lt_category tool = Some ''browser'' then ''browser''
        else if lt_category tool = Some ''shell'' then ''process''
        else if lt_category tool = Some ''mcp'' then ''connector'' else ''tool''),
     ru_sourceRef = (if list_all ref_char (lt_name tool) \<and> 1 \<le> length (lt_name tool) \<and> length (lt_name tool) \<le> 160
        then lt_name tool else ''unrecognized''),
     ru_mediation = (if lt_egress tool = Some ''uncontained'' then ''uncontained'' else ''unknown'')\<rparr>"

definition egress_stage :: "'w ToolEnv \<Rightarrow> 'w LoopTool \<Rightarrow> ToolCall \<Rightarrow> nat \<Rightarrow> 'w tool_proc \<Rightarrow> 'w tool_proc" where
  "egress_stage env tool c n k = (case te_egress env of
       None \<Rightarrow> k
     | Some eg \<Rightarrow>
         (if lt_egress tool = Some ''none'' \<or> lt_egress tool = Some ''brokered'' then k
          else bind_proc (on_world (eg_routeUnavailable eg (tool_route tool))) (\<lambda>r. case r of
              Inr u \<Rightarrow> Say (RouteAnswer True) k
            | Inl e \<Rightarrow> Say (RouteAnswer False)
                (if eg_localOnly eg \<and> egress_blocked e
                 then Say (Yielded (SecurityBlock (tc_name c) ''local-only'' ''egress-route-unavailable'' n))
                   (refused c n (''Execution blocked: '' @ [CHR 0x22] @ lt_name tool @ [CHR 0x22] @
                      '' has no verified outbound containment for this local-only run.''))
                 else reject e))))"

definition pre_hook_stage :: "'w ToolEnv \<Rightarrow> ToolCall \<Rightarrow> nat \<Rightarrow> 'w tool_proc \<Rightarrow> 'w tool_proc" where
  "pre_hook_stage env c n k = (case te_hooks env of
       None \<Rightarrow> k
     | Some reg \<Rightarrow>
         (if \<not> hook_has reg ''tool.pre'' then k
          else bind_proc (run_hooks env reg (ToolPreHook n (tc_name c) (tc_input c))) (\<lambda>r. case r of
              Inl e \<Rightarrow> reject e
            | Inr res \<Rightarrow> Say (HookAnswer (run_continue res))
                (if run_continue res then k
                 else refused c n (formatDecisionReason (HookDenied (tc_name c)
                        (case blockedReason res of Some r \<Rightarrow> r | None \<Rightarrow> ''Tool blocked by hook'') None))))))"

definition request_id :: "'w ToolEnv \<Rightarrow> ToolCall \<Rightarrow> string" where
  "request_id env c = (case te_agentId env of None \<Rightarrow> tc_id c | Some a \<Rightarrow> a @ '':'' @ tc_id c)"

definition classifier_failed :: "js_thrown \<Rightarrow> bool \<times> PermissionMeta option" where
  "classifier_failed e = (False, Some \<lparr>pm_policyRevision = None, pm_zoneLevel = None, pm_zoneName = None,
     pm_explanation = Some (''Permission classifier failed ('' @ thrown_message e @ '') - asking for explicit approval''),
     pm_severityTag = Some ''critical'', pm_severityReason = Some ''classifier-error''\<rparr>)"

definition meta_field :: "(PermissionMeta \<Rightarrow> string option) \<Rightarrow> PermissionMeta option \<Rightarrow> string option" where
  "meta_field f meta = (case meta of Some m \<Rightarrow> f m | None \<Rightarrow> None)"

definition ask_user :: "'w ToolEnv \<Rightarrow> ToolCall \<Rightarrow> nat \<Rightarrow> PermissionMeta option \<Rightarrow> string option \<Rightarrow> 'w tool_proc \<Rightarrow> 'w tool_proc" where
  "ask_user env c n meta revision k =
     Say (Yielded (PermissionRequested (request_id env c) (tc_name c) (tc_input c)
        (case meta_field pm_explanation meta of Some t \<Rightarrow> t | None \<Rightarrow> ''Tool requires explicit approval'')
        n (te_agentId env) revision meta))
     (bind_proc (on_world (te_requestApproval env (c\<lparr>tc_id := request_id env c\<rparr>))) (\<lambda>r.
        (let approved = (case r of Inr b \<Rightarrow> b | Inl e \<Rightarrow> False) in
         Say (Approval approved)
          (if approved then Say (Yielded (PermissionAnswered (request_id env c) True n None)) k
           else (let reason = UserDenied (tc_name c) (tc_input c) (meta_field pm_severityTag meta)
                                (meta_field pm_severityReason meta) None;
                     denied = formatDecisionReason reason in
              Say (Yielded (PermissionAnswered (request_id env c) False n (Some reason)))
               (Act (remind [ToolDenied (tc_name c) denied]) (\<lambda>s. refused c n denied)))))))"

definition authorize_stage :: "'w ToolEnv \<Rightarrow> ToolCall \<Rightarrow> nat \<Rightarrow> bool \<Rightarrow> string option \<Rightarrow> 'w tool_proc \<Rightarrow> 'w tool_proc" where
  "authorize_stage env c n asked revision k = (case te_authorize env of
       None \<Rightarrow> k
     | Some authorize \<Rightarrow>
         bind_proc (on_world (authorize c \<lparr>az_requestId = request_id env c, az_agentId = te_agentId env,
             az_approvalRequested = asked, az_policyRevision = revision\<rparr>)) (\<lambda>r.
           (let authorized = (case r of Inr b \<Rightarrow> b | Inl e \<Rightarrow> False) in
            Say (Authorization authorized)
             (if authorized then k
              else Say (Yielded (SecurityBlock (tc_name c) ''permission-binding'' ''permission-binding-invalid'' n))
                (refused c n (''Execution blocked: the permission binding for '' @ [CHR 0x22] @ tc_name c @ [CHR 0x22] @
                   '' is stale, already used, revoked, or unavailable. Request a new approval.''))))))"

definition permission_gate :: "'w ToolEnv \<Rightarrow> 'w LoopTool \<Rightarrow> ToolCall \<Rightarrow> nat \<Rightarrow> 'w tool_proc \<Rightarrow> 'w tool_proc" where
  "permission_gate env tool c n k =
     (if \<not> lt_requiresPermission tool then k
      else bind_proc (on_world (te_checkPermission env (c\<lparr>tc_id := request_id env c\<rparr>))) (\<lambda>r.
        (case (case r of Inr a \<Rightarrow> a | Inl e \<Rightarrow> classifier_failed e) of (allowed, meta) \<Rightarrow>
          (let revision = (case meta_field pm_policyRevision meta of Some v \<Rightarrow> Some v | None \<Rightarrow> te_policyRevision env) in
           Say (Verdict allowed)
            (if allowed then authorize_stage env c n False revision k
             else ask_user env c n meta revision (authorize_stage env c n True revision k))))))"

section \<open>The call\<close>

definition serve_credential :: "'w ToolEnv \<Rightarrow> nat \<Rightarrow> CredentialRequest \<Rightarrow> ('w Shared, gate_mark, tool_reply) proc" where
  "serve_credential env n q =
     Say (Yielded (CredentialAsked q n))
      (bind_proc (on_world (te_requestCredential env q)) (\<lambda>r.
        (let handle = (case r of Inr h \<Rightarrow> h | Inl e \<Rightarrow> None) in
         Say (Yielded (CredentialAnswered (map_option ch_credentialId handle)
               (case handle of Some h \<Rightarrow> ch_label h | None \<Rightarrow> cq_label q) (handle = None) n))
          (Ret (CredentialReply handle)))))"

fun start_resolution :: "sensitive_start \<Rightarrow> SensitiveInputResolution" where
  "start_resolution StartDenied = DeniedInput"
| "start_resolution StartExpired = FailedInput ''expired''"
| "start_resolution StartRevoked = FailedInput ''revoked''"
| "start_resolution s = FailedInput ''adapter-unavailable''"

fun provision_resolution :: "sensitive_provision \<Rightarrow> SensitiveInputResolution" where
  "provision_resolution ProvisionDenied = DeniedInput"
| "provision_resolution ProvisionExpired = FailedInput ''expired''"
| "provision_resolution ProvisionRevoked = FailedInput ''revoked''"
| "provision_resolution p = FailedInput ''adapter-unavailable''"

definition resolve_provision :: "'w ToolEnv \<Rightarrow> sensitive_provision \<Rightarrow> ('w Shared, gate_mark, SensitiveInputResolution) proc" where
  "resolve_provision env p = (case p of
       Provided handle \<Rightarrow> bind_proc (on_world (te_consume env handle))
         (\<lambda>r. Ret (case r of Inr res \<Rightarrow> res | Inl e \<Rightarrow> Indeterminate))
     | _ \<Rightarrow> Ret (provision_resolution p))"

definition serve_sensitive ::
  "'w ToolEnv \<Rightarrow> ToolCall \<Rightarrow> nat \<Rightarrow> SensitiveInputRequest \<Rightarrow> ('w Shared, gate_mark, tool_reply) proc" where
  "serve_sensitive env c n q =
     bind_proc (on_world (te_sensitiveRequest env q c)) (\<lambda>r.
       (case (case r of Inr st \<Rightarrow> st | Inl e \<Rightarrow> StartUnavailable) of
          StartPending revision \<Rightarrow>
            Say (Yielded (SensitiveAsked (tc_id c) (tc_name c) q (te_agentId env) revision n))
             (bind_proc (on_world (te_provision env q c)) (\<lambda>p.
               bind_proc (resolve_provision env (case p of Inr v \<Rightarrow> v | Inl e \<Rightarrow> ProvisionUnavailable)) (\<lambda>res.
                 Say (Yielded (SensitiveAnswered (tc_id c) (tc_name c) (te_agentId env) revision res n))
                  (Ret (SensitiveReply res)))))
        | st \<Rightarrow> Ret (SensitiveReply (start_resolution st))))"

definition serve :: "'w ToolEnv \<Rightarrow> ToolCall \<Rightarrow> nat \<Rightarrow> tool_progress \<Rightarrow> ('w Shared, gate_mark, tool_reply) proc" where
  "serve env c n p = (case p of
       CredentialProgress q \<Rightarrow> serve_credential env n q
     | SensitiveProgress q \<Rightarrow> serve_sensitive env c n q
     | PlainProgress m \<Rightarrow> bind_proc (read_world (te_redact env m)) (\<lambda>t.
         Say (Yielded (ToolCallProgress (tc_id c) t n)) (Ret NoReply)))"

text \<open>Draining a generator tool; no timer applies.\<close>

primrec drain_run :: "'w ToolEnv \<Rightarrow> ToolCall \<Rightarrow> nat \<Rightarrow> 'w tool_run \<Rightarrow> ('w Shared, gate_mark, js_thrown + tool_value) proc" where
  "drain_run env c n (RunEnd r) = Ret r"
| "drain_run env c n (RunYield p upd resume) =
     bind_proc (serve env c n p) (\<lambda>reply.
       Act (\<lambda>s. s\<lparr>sh_world := upd (reply, sh_world s)\<rparr>) (\<lambda>s. drain_run env c n (resume (reply, sh_world s))))"

definition timeout_error :: "nat \<Rightarrow> string \<Rightarrow> js_thrown" where
  "timeout_error ms toolName = ThrownError ''ToolError''
     (''Tool '' @ [CHR 0x22] @ toolName @ [CHR 0x22] @ '' timed out after '' @ show_nat ms @ ''ms'')"

definition run_context :: "'w ToolEnv \<Rightarrow> ToolCall \<Rightarrow> nat \<Rightarrow> RunContext" where
  "run_context env c n = \<lparr>rc_cwd = (case te_workspacePath env of Some p \<Rightarrow> p | None \<Rightarrow> te_cwd env),
     rc_sessionId = te_sessionId env,
     rc_rootSessionId = (case te_rootSessionId env of Some r \<Rightarrow> r | None \<Rightarrow> te_sessionId env),
     rc_agentId = te_agentId env, rc_toolCallId = tc_id c, rc_turnIndex = n\<rparr>"

definition dispatch :: "'w ToolEnv \<Rightarrow> 'w LoopTool \<Rightarrow> ToolCall \<Rightarrow> nat \<Rightarrow> ('w Shared, gate_mark, js_thrown + tool_value) proc" where
  "dispatch env tool c n =
     Say Dispatched (bind_proc (on_world (lt_execute tool (tc_input c) (run_context env c n))) (\<lambda>ex. case ex of
         ExecThrew e \<Rightarrow> Ret (Inl e)
       | ExecGenerator run \<Rightarrow> drain_run env c n run
       | ExecPromise settle \<Rightarrow> bind_proc (on_world settle) (\<lambda>(late, r).
           (if lt_disableTimeout tool \<or> \<not> late then Ret r
            else Ret (Inl (timeout_error (case lt_timeoutMs tool of Some t \<Rightarrow> t | None \<Rightarrow> te_defaultTimeoutMs env) (tc_name c)))))))"

section \<open>Redaction and size\<close>

fun redactMetadataValue :: "(string \<Rightarrow> string) \<Rightarrow> json \<Rightarrow> json" where
  "redactMetadataValue f (JStr t) = JStr (f t)"
| "redactMetadataValue f (JArr vs) = JArr (map (redactMetadataValue f) vs)"
| "redactMetadataValue f (JObj kvs) =
     JObj (map (\<lambda>(k, v). (k, redactMetadataValue f v)) (filter (\<lambda>(k, v). k \<noteq> ''__proto__'') kvs))"
| "redactMetadataValue f v = v"

definition redactMetadata :: "(string \<Rightarrow> string) \<Rightarrow> obj \<Rightarrow> obj" where
  "redactMetadata f kvs = map (\<lambda>(k, v). (k, redactMetadataValue f v)) (filter (\<lambda>(k, v). k \<noteq> ''__proto__'') kvs)"

definition redactToolResult :: "ToolResult \<Rightarrow> (string \<Rightarrow> string) \<Rightarrow> ToolResult" where
  "redactToolResult r f = r\<lparr>content := f (content r), metadata := map_option (redactMetadata f) (metadata r)\<rparr>"

definition safe_id :: "string \<Rightarrow> string" where
  "safe_id t = map (\<lambda>ch. if (CHR ''a'' \<le> ch \<and> ch \<le> CHR ''z'') \<or> (CHR ''A'' \<le> ch \<and> ch \<le> CHR ''Z'') \<or>
      (CHR ''0'' \<le> ch \<and> ch \<le> CHR ''9'') \<or> ch \<in> set ''._-'' then ch else CHR ''_'') t"

text \<open>\<open>te_saveFile\<close> stands for making the directory and writing the file: the absolute path, or
  nothing when one of them failed.\<close>

definition spillToolResult :: "'w ToolEnv \<Rightarrow> string \<Rightarrow> string \<Rightarrow> 'w \<Rightarrow> string option \<times> 'w" where
  "spillToolResult env callId text w = (case truthy (te_spillDir env) of
       None \<Rightarrow> (None, w)
     | Some dir \<Rightarrow> te_saveFile env dir (safe_id (te_sessionId env @ ''-'' @ callId) @ ''.txt'') text w)"

definition spillMarker :: "string option \<Rightarrow> string" where
  "spillMarker path = (case truthy path of
       None \<Rightarrow> []
     | Some p \<Rightarrow> [CHR 0x0A, CHR 0x0A] @ ''[Full untruncated output saved to '' @ p @
         '' - read it with the readFile tool (or grep / head / tail) if you need the omitted middle.]'')"

definition cap_result :: "ToolResult \<Rightarrow> int \<Rightarrow> nat \<Rightarrow> string option \<Rightarrow> ToolResult" where
  "cap_result r maxSize originalBytes spillPath =
     r\<lparr>content := latin_text (headTailTruncate (ascii (content r)) maxSize None None) @ spillMarker spillPath,
       metadata := Some ((case truthy spillPath of Some p \<Rightarrow> set_prop ''spillPath'' (JStr p) | None \<Rightarrow> id)
          (set_prop ''originalSize'' (JNum (show_nat originalBytes))
            (set_prop ''truncated'' (JBool True) (metadata_fields r))))\<rparr>"

definition cap_stage :: "'w ToolEnv \<Rightarrow> 'w LoopTool \<Rightarrow> ToolCall \<Rightarrow> ToolResult \<Rightarrow> ('w Shared, gate_mark, ToolResult) proc" where
  "cap_stage env tool c r =
     (let maxSize = (case lt_maxResultSize tool of Some m \<Rightarrow> m | None \<Rightarrow> te_maxResultSize env);
          originalBytes = content_bytes (content r) in
      if int originalBytes > maxSize
      then bind_proc (on_world (spillToolResult env (tc_id c) (content r)))
             (\<lambda>path. Ret (cap_result r maxSize originalBytes path))
      else Ret r)"

section \<open>After the call\<close>

definition failed_end :: "'w ToolEnv \<Rightarrow> 'w LoopTool \<Rightarrow> ToolCall \<Rightarrow> nat \<Rightarrow> js_thrown \<Rightarrow> 'w tool_proc" where
  "failed_end env tool c n e =
     bind_proc (read_world (te_redact env (thrown_message e))) (\<lambda>m.
       Say (Yielded (ToolCallEnd (tc_id c) (tc_name c) (''Error: '' @ m) True
              (normalizeToolUIDescriptor (lt_uiDescriptor tool)) None n))
        (Ret (Inr (c, error_result (''Error: '' @ m)))))"

definition post_hook_stage :: "'w ToolEnv \<Rightarrow> 'w LoopTool \<Rightarrow> ToolCall \<Rightarrow> nat \<Rightarrow> ToolResult \<Rightarrow> 'w tool_proc" where
  "post_hook_stage env tool c n r = (case te_hooks env of
       None \<Rightarrow> Ret (Inr (c, r))
     | Some reg \<Rightarrow>
         (if \<not> hook_has reg ''tool.post'' then Ret (Inr (c, r))
          else bind_proc (run_hooks env reg (ToolPostHook n (tc_name c) (tc_input c) (content r) (isError r)))
            (\<lambda>h. case h of Inl e \<Rightarrow> Say PostHookThrew (failed_end env tool c n e) | Inr res \<Rightarrow> Ret (Inr (c, r)))))"

definition present :: "'w ToolEnv \<Rightarrow> 'w LoopTool \<Rightarrow> ToolCall \<Rightarrow> nat \<Rightarrow> bool \<Rightarrow> ToolResult \<Rightarrow> SkillActivationMark option \<Rightarrow> 'w tool_proc" where
  "present env tool c n cacheHit r mark =
     bind_proc (cap_stage env tool c r) (\<lambda>r'.
       say_all (case mark of Some m \<Rightarrow> [Yielded (SkillActivated (tc_id c) m (te_agentId env) n)] | None \<Rightarrow> [])
        (Say (Yielded (ToolCallEnd (tc_id c) (tc_name c) (content r') (isError r')
                (normalizeToolUIDescriptor (lt_uiDescriptor tool))
                (Some \<lparr>to_metadata = metadata r', to_cacheHit = cacheHit, to_outputBytesRaw = content_bytes (content r),
                       to_outputBytesToModel = content_bytes (content r'),
                       to_truncated = (content_bytes (content r) > content_bytes (content r'))\<rparr>) n))
          (post_hook_stage env tool c n r')))"

text \<open>The key, the question whether the tool takes sensitive input, and the lookup are one step.\<close>

definition lookup :: "'w ToolEnv \<Rightarrow> 'w LoopTool \<Rightarrow> ToolCall \<Rightarrow> nat
    \<Rightarrow> ('w Shared, gate_mark, js_thrown + (string option \<times> ToolResult option)) proc" where
  "lookup env tool c n = call (\<lambda>s.
     (case (case lt_cacheKey tool of None \<Rightarrow> Inr None | Some f \<Rightarrow> f (tc_input c) (run_context env c n) (sh_world s)) of
        Inl e \<Rightarrow> (Inl e, s)
      | Inr key \<Rightarrow>
          (if te_isRegistered env (lt_name tool) (sh_world s) then (Inr (None, None), s)
           else (case key of
               None \<Rightarrow> (Inr (None, None), s)
             | Some k \<Rightarrow> (case cache_get (lt_name tool) k (sh_cache s) of
                 (hit, cache) \<Rightarrow> (Inr (Some k, hit), s\<lparr>sh_cache := cache\<rparr>))))))"

definition store :: "'w ToolEnv \<Rightarrow> 'w LoopTool \<Rightarrow> string option \<Rightarrow> ToolResult \<Rightarrow> ('w Shared, gate_mark, ToolResult) proc" where
  "store env tool key r = call (\<lambda>s.
     (let r' = redactToolResult r (\<lambda>t. te_redact env t (sh_world s)) in
      (r', case key of Some k \<Rightarrow> s\<lparr>sh_cache := cache_set (lt_name tool) k r' (sh_cache s)\<rparr> | None \<Rightarrow> s)))"

definition execute_call :: "'w ToolEnv \<Rightarrow> 'w LoopTool \<Rightarrow> ToolCall \<Rightarrow> nat \<Rightarrow> 'w tool_proc" where
  "execute_call env tool c n =
     bind_proc (lookup env tool c n) (\<lambda>l. case l of
         Inl e \<Rightarrow> reject e
       | Inr (key, Some r) \<Rightarrow> Say CacheAnswer
           (bind_proc (read_world (\<lambda>w. redactToolResult r (\<lambda>t. te_redact env t w)))
             (\<lambda>r'. present env tool c n True r' None))
       | Inr (key, None) \<Rightarrow> bind_proc (dispatch env tool c n) (\<lambda>out. case out of
             Inl e \<Rightarrow> failed_end env tool c n e
           | Inr (r, mark) \<Rightarrow> bind_proc (store env tool key r)
               (\<lambda>r'. present env tool c n False r' mark)))"

definition executeSingleToolGen :: "'w ToolEnv \<Rightarrow> nat \<Rightarrow> 'w LoopTool \<times> ToolCall \<Rightarrow> 'w tool_proc" where
  "executeSingleToolGen env n tc = (case tc of (tool, c) \<Rightarrow>
     egress_stage env tool c n (pre_hook_stage env c n (permission_gate env tool c n (execute_call env tool c n))))"

section \<open>All calls of a turn\<close>

fun as_call :: "ContentBlock \<Rightarrow> ToolCall" where
  "as_call (ToolUseBlock i n inp cc) = \<lparr>tc_id = i, tc_name = n, tc_input = inp\<rparr>"
| "as_call b = \<lparr>tc_id = [], tc_name = [], tc_input = []\<rparr>"

definition find_tool :: "'w LoopTool list \<Rightarrow> string \<Rightarrow> 'w LoopTool option" where
  "find_tool tools wanted = find (\<lambda>t. lt_name t = wanted) tools"

definition unknown_message :: "ToolCall \<Rightarrow> string" where
  "unknown_message c = ''Unknown tool: '' @ tc_name c"

definition unknown_calls :: "'w LoopTool list \<Rightarrow> ToolCall list \<Rightarrow> ToolCall list" where
  "unknown_calls tools calls = filter (\<lambda>c. find_tool tools (tc_name c) = None) calls"

definition known_calls :: "'w LoopTool list \<Rightarrow> ToolCall list \<Rightarrow> ('w LoopTool \<times> ToolCall) list" where
  "known_calls tools calls = List.map_filter (\<lambda>c. map_option (\<lambda>t. (t, c)) (find_tool tools (tc_name c))) calls"

definition runs_parallel :: "'w LoopTool \<times> ToolCall \<Rightarrow> bool" where
  "runs_parallel tc = (lt_isReadOnly (fst tc) \<and> \<not> lt_requiresPermission (fst tc))"

fun events_of :: "gate_mark list \<Rightarrow> LoomEvent list" where
  "events_of [] = []"
| "events_of (Yielded e # ms) = e # events_of ms"
| "events_of (m # ms) = events_of ms"

text \<open>Beside the result and the events: for every call that was started, its marks.\<close>

type_synonym 'w dispatch_log = "(('w LoopTool \<times> ToolCall) \<times> gate_mark list) list"

fun run_serial :: "'w ToolEnv \<Rightarrow> nat \<Rightarrow> ('w LoopTool \<times> ToolCall) list \<Rightarrow> 'w Shared
    \<Rightarrow> (js_thrown + (ToolCall \<times> ToolResult) list) \<times> LoomEvent list \<times> 'w dispatch_log \<times> 'w Shared" where
  "run_serial env n [] s = (Inr [], [], [], s)"
| "run_serial env n (tc # tcs) s = (case run_proc (executeSingleToolGen env n tc) s of
       (Inl e, ms, s1) \<Rightarrow> (Inl e, events_of ms, [(tc, ms)], s1)
     | (Inr r, ms, s1) \<Rightarrow> (case run_serial env n tcs s1 of
           (Inl e, evs, lg, s2) \<Rightarrow> (Inl e, events_of ms @ evs, (tc, ms) # lg, s2)
         | (Inr rs, evs, lg, s2) \<Rightarrow> (Inr (r # rs), events_of ms @ evs, (tc, ms) # lg, s2)))"

text \<open>\<open>Promise.all\<close>: the events of the batch are passed on only when every call has a result; the
  error is that of the call that rejected first.\<close>

definition failures :: "(gate_mark list \<times> (js_thrown + 'a)) list \<Rightarrow> js_thrown list" where
  "failures rs = List.map_filter (\<lambda>r. case snd r of Inl e \<Rightarrow> Some e | Inr v \<Rightarrow> None) rs"

definition run_batch :: "'w ToolEnv \<Rightarrow> nat \<Rightarrow> nat list \<Rightarrow> ('w LoopTool \<times> ToolCall) list \<Rightarrow> 'w Shared
    \<Rightarrow> (js_thrown + (ToolCall \<times> ToolResult) list) \<times> LoomEvent list \<times> 'w dispatch_log \<times> 'w Shared" where
  "run_batch env n sched tcs s =
     (case run_parallel sched (map (executeSingleToolGen env n) tcs) (s\<lparr>sh_failures := []\<rparr>) of
        (rs, s1) \<Rightarrow>
          (if failures rs \<noteq> [] then (Inl (hd (sh_failures s1 @ failures rs)), [], zip tcs (map fst rs), s1)
           else (Inr (map (projr \<circ> snd) rs), concat (map (events_of \<circ> fst) rs), zip tcs (map fst rs), s1)))"

definition executeTools :: "'w ToolEnv \<Rightarrow> 'w LoopTool list \<Rightarrow> nat \<Rightarrow> nat list \<Rightarrow> ContentBlock list \<Rightarrow> 'w Shared
    \<Rightarrow> (js_thrown + (ToolCall \<times> ToolResult) list) \<times> LoomEvent list \<times> 'w dispatch_log \<times> 'w Shared" where
  "executeTools env tools n sched blocks s =
     (let calls = map as_call blocks; missing = unknown_calls tools calls; known = known_calls tools calls;
          ends = map (\<lambda>c. ToolCallEnd (tc_id c) (tc_name c) (unknown_message c) True None None n) missing;
          unknown = map (\<lambda>c. (c, error_result (unknown_message c))) missing in
      case run_batch env n sched (filter runs_parallel known) s of
        (Inl e, evs, lg, s1) \<Rightarrow> (Inl e, ends @ evs, lg, s1)
      | (Inr rs, evs, lg, s1) \<Rightarrow>
          (case run_serial env n (filter (Not \<circ> runs_parallel) known) s1 of
             (Inl e, evs', lg', s2) \<Rightarrow> (Inl e, ends @ evs @ evs', lg @ lg', s2)
           | (Inr rs', evs', lg', s2) \<Rightarrow> (Inr (unknown @ rs @ rs'), ends @ evs @ evs', lg @ lg', s2)))"

section \<open>What precedes a dispatch\<close>

definition routed :: "'w ToolEnv \<Rightarrow> 'w LoopTool \<Rightarrow> bool" where
  "routed env tool \<longleftrightarrow> te_egress env \<noteq> None \<and> lt_egress tool \<noteq> Some ''none'' \<and> lt_egress tool \<noteq> Some ''brokered''"

definition hooked :: "'w ToolEnv \<Rightarrow> bool" where
  "hooked env \<longleftrightarrow> (\<exists>reg. te_hooks env = Some reg \<and> hook_has reg ''tool.pre'')"

text \<open>The answers a dispatch needs: the route was granted, the hooks let the call pass, and a call
  that needs permission was allowed or approved by the user, and authorized by the host if it asks to.\<close>

definition cleared :: "'w ToolEnv \<Rightarrow> 'w LoopTool \<Rightarrow> gate_mark set \<Rightarrow> bool" where
  "cleared env tool pre \<longleftrightarrow>
     (routed env tool \<longrightarrow> RouteAnswer True \<in> pre) \<and> (hooked env \<longrightarrow> HookAnswer True \<in> pre) \<and>
     (lt_requiresPermission tool \<longrightarrow>
        (Verdict True \<in> pre \<or> Verdict False \<in> pre \<and> Approval True \<in> pre) \<and>
        (te_authorize env \<noteq> None \<longrightarrow> Authorization True \<in> pre))"

lemma cleared_mono: "cleared env tool A \<Longrightarrow> A \<subseteq> B \<Longrightarrow> cleared env tool B"
  unfolding cleared_def by blast

fun is_end :: "gate_mark \<Rightarrow> bool" where
  "is_end (Yielded (ToolCallEnd i t r e d oc n)) = True"
| "is_end m = False"

fun of_turn :: "nat \<Rightarrow> gate_mark \<Rightarrow> bool" where
  "of_turn n (Yielded e) = (content_turn e = Some n)"
| "of_turn n m = True"

definition ends :: "gate_mark list \<Rightarrow> nat" where
  "ends ms = length (filter is_end ms)"

lemma ends_simps [simp]:
  "ends [] = 0" "ends (m # ms) = (if is_end m then Suc (ends ms) else ends ms)" "ends (as @ bs) = ends as + ends bs"
  by (simp_all add: ends_def)

definition dispatch_ok :: "'w ToolEnv \<Rightarrow> 'w LoopTool \<Rightarrow> gate_mark list \<Rightarrow> bool" where
  "dispatch_ok env tool ms = (case dropWhile (\<lambda>m. m \<noteq> Dispatched) ms of
       [] \<Rightarrow> True
     | d # post \<Rightarrow> cleared env tool (set (takeWhile (\<lambda>m. m \<noteq> Dispatched) ms)) \<and> Dispatched \<notin> set post)"

definition call_ok :: "'w ToolEnv \<Rightarrow> nat \<Rightarrow> 'w LoopTool \<times> ToolCall \<Rightarrow> gate_mark list \<Rightarrow> js_thrown + ToolCall \<times> ToolResult \<Rightarrow> bool" where
  "call_ok env n tc ms out \<longleftrightarrow> list_all (of_turn n) ms \<and> dispatch_ok env (fst tc) ms \<and>
     (case out of
        Inl e \<Rightarrow> ends ms = 0 \<and> Dispatched \<notin> set ms
      | Inr (c, r) \<Rightarrow> c = snd tc \<and> ends ms = (if PostHookThrew \<in> set ms then 2 else 1) \<and>
          (Dispatched \<notin> set ms \<and> CacheAnswer \<notin> set ms \<longrightarrow> isError r))"

text \<open>Before the call is dispatched or answered.\<close>

definition clean :: "nat \<Rightarrow> gate_mark list \<Rightarrow> bool" where
  "clean n ms \<longleftrightarrow> list_all (of_turn n) ms \<and> ends ms = 0 \<and> Dispatched \<notin> set ms \<and> CacheAnswer \<notin> set ms \<and> PostHookThrew \<notin> set ms"

lemma clean_Nil [simp]: "clean n []"
  by (simp add: clean_def)

lemma clean_append [simp]: "clean n (as @ bs) \<longleftrightarrow> clean n as \<and> clean n bs"
  by (auto simp: clean_def)

lemma clean_answers [simp]:
  "clean n [RouteAnswer b]" "clean n [HookAnswer b]" "clean n [Verdict b]" "clean n [Approval b]" "clean n [Authorization b]"
  "clean n (m # m' # ms) \<longleftrightarrow> clean n [m] \<and> clean n (m' # ms)"
  by (auto simp: clean_def)

lemma dispatch_ok_none:
  assumes "Dispatched \<notin> set ms"
  shows "dispatch_ok env tool ms"
proof -
  have "dropWhile (\<lambda>m. m \<noteq> Dispatched) ms = []" using assms by (auto simp: dropWhile_eq_Nil_conv)
  then show ?thesis unfolding dispatch_ok_def by (simp only: list.case)
qed

lemma at_dispatch:
  assumes "Dispatched \<notin> set as"
  shows "dropWhile (\<lambda>m. m \<noteq> Dispatched) (as @ Dispatched # bs) = Dispatched # bs"
    and "takeWhile (\<lambda>m. m \<noteq> Dispatched) (as @ Dispatched # bs) = as"
  using assms by (subst dropWhile_append2, auto) (subst takeWhile_append2, auto)

lemma dispatch_ok_here:
  "Dispatched \<notin> set as \<Longrightarrow> dispatch_ok env tool (as @ Dispatched # bs) \<longleftrightarrow> cleared env tool (set as) \<and> Dispatched \<notin> set bs"
  by (simp add: dispatch_ok_def at_dispatch)

lemma rejected_ok: "clean n ms \<Longrightarrow> every (call_ok env n (tool, c)) (reject e) ms"
  by (simp add: reject_def call_ok_def clean_def dispatch_ok_none)

lemma refused_ok: "clean n ms \<Longrightarrow> every (call_ok env n (tool, c)) (refused c n msg) ms"
  by (auto simp: refused_def call_ok_def clean_def error_result_def intro: dispatch_ok_none)

lemma every_on_world [simp]: "every Q (on_world f) es \<longleftrightarrow> (\<forall>s :: 'w Shared. Q es (fst (f (sh_world s))))"
  by (simp add: on_world_def split_beta)

lemma every_read_world [simp]: "(\<And>w. Q es (f w)) \<Longrightarrow> every Q (read_world f) es"
  by (simp add: read_world_def)

lemma egress_stage_ok:
  assumes "clean n es"
    and k: "\<And>es'. clean n es' \<Longrightarrow> set es \<subseteq> set es' \<Longrightarrow> (routed env tool \<longrightarrow> RouteAnswer True \<in> set es') \<Longrightarrow>
              every (call_ok env n (tool, c)) k es'"
  shows "every (call_ok env n (tool, c)) (egress_stage env tool c n k) es"
proof (cases "routed env tool")
  case False
  then show ?thesis using k [of es] assms(1)
    by (auto simp: egress_stage_def routed_def split: option.split)
next
  case True
  then obtain eg where eg: "te_egress env = Some eg" by (auto simp: routed_def)
  have "every (call_ok env n (tool, c)) k (es @ [RouteAnswer True])" using k [of "es @ [RouteAnswer True]"] assms(1) by auto
  moreover have "clean n [Yielded (SecurityBlock t l r n)]" for t l r by (simp add: clean_def)
  ultimately show ?thesis
    using True eg assms(1)
    by (auto simp: egress_stage_def routed_def every_bind split: sum.split intro!: rejected_ok refused_ok)
qed

lemma pre_hook_stage_ok:
  assumes "clean n es"
    and k: "\<And>es'. clean n es' \<Longrightarrow> set es \<subseteq> set es' \<Longrightarrow> (hooked env \<longrightarrow> HookAnswer True \<in> set es') \<Longrightarrow>
              every (call_ok env n (tool, c)) k es'"
  shows "every (call_ok env n (tool, c)) (pre_hook_stage env c n k) es"
proof (cases "hooked env")
  case False
  then show ?thesis using k [of es] assms(1) by (auto simp: pre_hook_stage_def hooked_def split: option.split)
next
  case True
  then obtain reg where "te_hooks env = Some reg" "hook_has reg ''tool.pre''" by (auto simp: hooked_def)
  moreover have "every (call_ok env n (tool, c)) k (es @ [HookAnswer True])" using k [of "es @ [HookAnswer True]"] assms(1) by auto
  ultimately show ?thesis
    using assms(1) by (auto simp: pre_hook_stage_def run_hooks_def every_bind split: sum.split prod.split intro!: rejected_ok refused_ok)
qed

lemma authorize_stage_ok:
  assumes "clean n es"
    and k: "\<And>es'. clean n es' \<Longrightarrow> set es \<subseteq> set es' \<Longrightarrow> (te_authorize env \<noteq> None \<longrightarrow> Authorization True \<in> set es') \<Longrightarrow>
              every (call_ok env n (tool, c)) k es'"
  shows "every (call_ok env n (tool, c)) (authorize_stage env c n asked rv k) es"
proof (cases "te_authorize env")
  case None
  then show ?thesis using k [of es] assms(1) by (simp add: authorize_stage_def)
next
  case (Some f)
  have "every (call_ok env n (tool, c)) k (es @ [Authorization True])" using k [of "es @ [Authorization True]"] assms(1) by auto
  moreover have "clean n [Yielded (SecurityBlock t l r n)]" for t l r by (simp add: clean_def)
  ultimately show ?thesis
    using Some assms(1) by (auto simp: authorize_stage_def every_bind Let_def split: sum.split intro!: refused_ok)
qed

lemma ask_user_ok:
  assumes "clean n es"
    and k: "\<And>es'. clean n es' \<Longrightarrow> set es \<subseteq> set es' \<Longrightarrow> Approval True \<in> set es' \<Longrightarrow> every (call_ok env n (tool, c)) k es'"
  shows "every (call_ok env n (tool, c)) (ask_user env c n meta rv k) es"
proof -
  have "clean n [Yielded (PermissionAnswered i g n r)]" "clean n [Yielded (PermissionRequested i t inp r' n ag pr meta)]"
    for i g r t inp r' ag pr by (simp_all add: clean_def)
  then show ?thesis
    using assms(1) by (auto simp: ask_user_def every_bind Let_def split: sum.split intro!: refused_ok k)
qed

lemma permission_gate_ok:
  assumes "clean n es"
    and k: "\<And>es'. clean n es' \<Longrightarrow> set es \<subseteq> set es' \<Longrightarrow>
              (lt_requiresPermission tool \<longrightarrow>
                 (Verdict True \<in> set es' \<or> Verdict False \<in> set es' \<and> Approval True \<in> set es') \<and>
                 (te_authorize env \<noteq> None \<longrightarrow> Authorization True \<in> set es')) \<Longrightarrow>
              every (call_ok env n (tool, c)) k es'"
  shows "every (call_ok env n (tool, c)) (permission_gate env tool c n k) es"
proof (cases "lt_requiresPermission tool")
  case False
  then show ?thesis using k [of es] assms(1) by (simp add: permission_gate_def)
next
  case True
  have allow: "every (call_ok env n (tool, c)) (authorize_stage env c n False rv k) (es @ [Verdict True])" for rv
    by (rule authorize_stage_ok) (use assms(1) in \<open>auto intro!: k\<close>)
  have ask: "every (call_ok env n (tool, c)) (ask_user env c n meta rv (authorize_stage env c n True rv k)) (es @ [Verdict False])" for meta rv
    by (rule ask_user_ok, (use assms(1) in simp), rule authorize_stage_ok) (auto intro!: k)
  show ?thesis
    using True allow ask by (auto simp: permission_gate_def every_bind Let_def split: sum.split prod.split)
qed


text \<open>While the tool runs it only reports on its turn.\<close>

definition progressing :: "nat \<Rightarrow> gate_mark list \<Rightarrow> bool" where
  "progressing n ms \<longleftrightarrow> list_all (\<lambda>m. \<exists>e. m = Yielded e \<and> content_turn e = Some n \<and> \<not> is_end m) ms"

lemma progressing_simps [simp]:
  "progressing n []" "progressing n (as @ bs) \<longleftrightarrow> progressing n as \<and> progressing n bs"
  "progressing n (Yielded e # ms) \<longleftrightarrow> content_turn e = Some n \<and> \<not> is_end (Yielded e) \<and> progressing n ms"
  by (simp_all add: progressing_def)

lemma progressing_clean: "progressing n ms \<Longrightarrow> clean n ms"
  by (auto simp: progressing_def clean_def list_all_iff ends_def filter_empty_conv)

definition extends :: "nat \<Rightarrow> gate_mark list \<Rightarrow> gate_mark list \<Rightarrow> bool" where
  "extends n es es' \<longleftrightarrow> (\<exists>xs. es' = es @ xs \<and> progressing n xs)"

lemma extends_trans: "extends n es es' \<Longrightarrow> extends n es' es'' \<Longrightarrow> extends n es es''"
  unfolding extends_def by auto

lemma extends_say: "extends n es es' \<Longrightarrow> progressing n xs \<Longrightarrow> extends n es (es' @ xs)"
  unfolding extends_def by auto

lemma extends_refl: "extends n es es"
  by (simp add: extends_def)

lemma serve_credential_progress: "extends n es es' \<Longrightarrow> every (\<lambda>es'' r. extends n es es'') (serve_credential env n q) es'"
  by (simp add: serve_credential_def every_bind Let_def extends_say)

lemma resolve_provision_progress: "extends n es es' \<Longrightarrow> every (\<lambda>es'' r. extends n es es'') (resolve_provision env p) es'"
  by (simp add: resolve_provision_def every_bind split: sensitive_provision.split)

lemma serve_sensitive_progress: "extends n es es' \<Longrightarrow> every (\<lambda>es'' r. extends n es es'') (serve_sensitive env c n q) es'"
proof -
  assume x: "extends n es es'"
  have a: "every (\<lambda>es'' r. every (\<lambda>es3 r. extends n es es3) (Say (Yielded (SensitiveAnswered i t ag ad r n)) (Ret (SensitiveReply r))) es'')
      (resolve_provision env p) (es' @ [Yielded (SensitiveAsked i t q ag ad n)])" for i t ag ad p
    by (rule every_mono [OF resolve_provision_progress [of n es]]) (use x in \<open>simp_all add: extends_say\<close>)
  show ?thesis
    using x a by (auto simp: serve_sensitive_def every_bind split: sensitive_start.split sum.split)
qed

lemma serve_progress: "extends n es es' \<Longrightarrow> every (\<lambda>es'' r. extends n es es'') (serve env c n p) es'"
  by (cases p) (simp_all add: serve_def serve_credential_progress serve_sensitive_progress every_bind read_world_def extends_say)

lemma drain_progress: "extends n es es' \<Longrightarrow> every (\<lambda>es'' r. extends n es es'') (drain_run env c n run) es'"
proof (induction run arbitrary: es')
  case (RunYield p upd resume)
  have "every (\<lambda>es'' reply. \<forall>s :: 'a Shared. every (\<lambda>es3 r. extends n es es3) (drain_run env c n (resume (reply, sh_world s))) es'')
      (serve env c n p) es'"
    by (rule every_mono [OF serve_progress [OF RunYield.prems]]) (auto intro!: RunYield.IH)
  then show ?case by (simp add: every_bind)
qed simp

lemma dispatch_progress:
  "every (\<lambda>es' r. extends n (es @ [Dispatched]) es') (dispatch env tool c n) es"
  using extends_refl [of n "es @ [Dispatched]"] drain_progress [OF extends_refl [of n "es @ [Dispatched]"]]
  by (auto simp: dispatch_def every_bind split: execution.split prod.split)

section \<open>The end of a call\<close>

text \<open>Just before the end is reported: the call was dispatched, or answered from the cache.\<close>

definition answered :: "'w ToolEnv \<Rightarrow> nat \<Rightarrow> 'w LoopTool \<Rightarrow> gate_mark list \<Rightarrow> bool" where
  "answered env n tool ms \<longleftrightarrow> list_all (of_turn n) ms \<and> dispatch_ok env tool ms \<and>
     (Dispatched \<in> set ms \<or> CacheAnswer \<in> set ms)"

lemma dispatch_ok_more: "dispatch_ok env tool ms \<Longrightarrow> Dispatched \<notin> set xs \<Longrightarrow> dispatch_ok env tool (ms @ xs)"
proof (cases "Dispatched \<in> set ms")
  case True
  assume ok: "dispatch_ok env tool ms" "Dispatched \<notin> set xs"
  obtain as bs where m: "ms = as @ Dispatched # bs" "Dispatched \<notin> set as" using split_list_first [OF True] by blast
  from ok show ?thesis unfolding m(1) by (simp add: dispatch_ok_here [OF m(2)])
next
  case False
  assume "Dispatched \<notin> set xs"
  with False show ?thesis by (auto intro: dispatch_ok_none)
qed

lemma answered_more:
  "answered env n tool ms \<Longrightarrow> list_all (of_turn n) xs \<Longrightarrow> Dispatched \<notin> set xs \<Longrightarrow> answered env n tool (ms @ xs)"
  by (auto simp: answered_def intro: dispatch_ok_more)

lemma failed_end_ok:
  assumes "answered env n tool ms" "ends ms = (if PostHookThrew \<in> set ms then 1 else 0)"
  shows "every (call_ok env n (tool, c)) (failed_end env tool c n e) ms"
  using assms answered_more [OF assms(1)]
  by (auto simp: failed_end_def every_bind read_world_def call_ok_def answered_def)

lemma post_hook_stage_ok:
  assumes "answered env n tool ms" "ends ms = 1" "PostHookThrew \<notin> set ms"
  shows "every (call_ok env n (tool, c)) (post_hook_stage env tool c n r) ms"
proof -
  have "every (call_ok env n (tool, c)) (failed_end env tool c n e) (ms @ [PostHookThrew])" for e
    by (rule failed_end_ok) (use assms answered_more [OF assms(1)] in simp_all)
  moreover have "call_ok env n (tool, c) ms (Inr (c, r))" using assms by (auto simp: call_ok_def answered_def)
  ultimately show ?thesis
    by (auto simp: post_hook_stage_def run_hooks_def every_bind split: option.split sum.split prod.split)
qed

lemma present_ok:
  assumes "answered env n tool ms" "ends ms = 0" "PostHookThrew \<notin> set ms"
  shows "every (call_ok env n (tool, c)) (present env tool c n hit r mark) ms"
proof -
  define marks where "marks = (case mark of Some m \<Rightarrow> [Yielded (SkillActivated (tc_id c) m (te_agentId env) n)] | None \<Rightarrow> [])"
  have m: "list_all (of_turn n) marks" "ends marks = 0" "Dispatched \<notin> set marks" "PostHookThrew \<notin> set marks"
    by (simp_all add: marks_def split: option.split)
  have "every (call_ok env n (tool, c)) (post_hook_stage env tool c n r') (ms @ marks @ [Yielded (ToolCallEnd i t x e d oc n)])"
    for r' i t x e d oc
    by (rule post_hook_stage_ok) (use assms m answered_more [OF assms(1), of "marks @ [Yielded (ToolCallEnd i t x e d oc n)]"] in auto)
  then show ?thesis
    by (auto simp: present_def cap_stage_def every_bind Let_def marks_def)
qed

lemma execute_call_ok:
  assumes "clean n es" "cleared env tool (set es)"
  shows "every (call_ok env n (tool, c)) (execute_call env tool c n) es"
proof -
  have cached: "every (call_ok env n (tool, c)) (present env tool c n True r None) (es @ [CacheAnswer])" for r
    by (rule present_ok) (use assms in \<open>auto simp: answered_def clean_def intro: dispatch_ok_none\<close>)
  have ran: "answered env n tool es'" "ends es' = 0" "PostHookThrew \<notin> set es'" if x: "extends n (es @ [Dispatched]) es'" for es'
  proof -
    obtain xs where xs: "es' = es @ Dispatched # xs" "progressing n xs" using x by (auto simp: extends_def)
    note c = progressing_clean [OF xs(2)]
    show "answered env n tool es'" using assms c xs(1) by (auto simp: answered_def clean_def dispatch_ok_here)
    show "ends es' = 0" "PostHookThrew \<notin> set es'" using assms(1) c xs(1) by (auto simp: clean_def)
  qed
  have live: "every (\<lambda>es' out. every (call_ok env n (tool, c)) (case out of
             Inl e \<Rightarrow> failed_end env tool c n e
           | Inr (r, mark) \<Rightarrow> bind_proc (store env tool key r) (\<lambda>r'. present env tool c n False r' mark)) es') (dispatch env tool c n) es" for key
    by (rule every_mono [OF dispatch_progress])
      (auto simp: every_bind store_def Let_def split: sum.split intro!: failed_end_ok present_ok dest: ran)
  show ?thesis
    using cached live rejected_ok [OF assms(1)]
    by (auto simp: execute_call_def lookup_def every_bind read_world_def split: sum.split option.split prod.split)
qed

lemma tool_call_ok: "every (call_ok env n tc) (executeSingleToolGen env n tc) []"
proof (cases tc)
  case (Pair tool c)
  have "every (call_ok env n (tool, c)) (egress_stage env tool c n (pre_hook_stage env c n (permission_gate env tool c n (execute_call env tool c n)))) []"
  proof (rule egress_stage_ok)
    fix es1 assume 1: "clean n es1" "routed env tool \<longrightarrow> RouteAnswer True \<in> set es1"
    show "every (call_ok env n (tool, c)) (pre_hook_stage env c n (permission_gate env tool c n (execute_call env tool c n))) es1"
    proof (rule pre_hook_stage_ok [OF 1(1)])
      fix es2 assume 2: "clean n es2" "set es1 \<subseteq> set es2" "hooked env \<longrightarrow> HookAnswer True \<in> set es2"
      show "every (call_ok env n (tool, c)) (permission_gate env tool c n (execute_call env tool c n)) es2"
      proof (rule permission_gate_ok [OF 2(1)], rule execute_call_ok)
        fix es3 assume 3: "set es2 \<subseteq> set es3" "lt_requiresPermission tool \<longrightarrow>
                 (Verdict True \<in> set es3 \<or> Verdict False \<in> set es3 \<and> Approval True \<in> set es3) \<and>
                 (te_authorize env \<noteq> None \<longrightarrow> Authorization True \<in> set es3)"
        from 1(2) 2(2,3) 3 show "cleared env tool (set es3)" unfolding cleared_def by blast
      qed
    qed
  qed simp
  then show ?thesis by (simp add: executeSingleToolGen_def Pair)
qed

section \<open>All calls of a turn, again\<close>

lemma calls_partition:
  "mset (unknown_calls tools calls @ map snd (filter P (known_calls tools calls)) @ map snd (filter (Not \<circ> P) (known_calls tools calls))) =
   mset calls"
  by (induction calls) (auto simp: unknown_calls_def known_calls_def map_filter_simps split: option.split)

definition log_ok :: "'w ToolEnv \<Rightarrow> nat \<Rightarrow> ('w LoopTool \<times> ToolCall) \<times> gate_mark list \<Rightarrow> bool" where
  "log_ok env n entry \<longleftrightarrow> list_all (of_turn n) (snd entry) \<and> dispatch_ok env (fst (fst entry)) (snd entry)"

definition ended_once :: "('w LoopTool \<times> ToolCall) \<times> gate_mark list \<Rightarrow> bool" where
  "ended_once entry \<longleftrightarrow> ends (snd entry) = (if PostHookThrew \<in> set (snd entry) then 2 else 1)"

definition never_ran :: "('w LoopTool \<times> ToolCall) \<times> gate_mark list \<Rightarrow> bool" where
  "never_ran entry \<longleftrightarrow> ends (snd entry) = 0 \<and> Dispatched \<notin> set (snd entry)"

definition batch_ok :: "'w ToolEnv \<Rightarrow> nat \<Rightarrow> ('w LoopTool \<times> ToolCall) list
    \<Rightarrow> (js_thrown + (ToolCall \<times> ToolResult) list) \<times> LoomEvent list \<times> 'w dispatch_log \<times> 'w Shared \<Rightarrow> bool" where
  "batch_ok env n tcs out = (case out of (res, evs, lg, s) \<Rightarrow>
     list_all (log_ok env n) lg \<and> list_all (\<lambda>e. content_turn e = Some n) evs \<and>
     (case res of
        Inl e \<Rightarrow> list_ex never_ran lg
      | Inr rs \<Rightarrow> map fst rs = map snd tcs \<and> map fst lg = tcs \<and> list_all ended_once lg))"

lemma of_turn_events: "list_all (of_turn n) ms \<Longrightarrow> list_all (\<lambda>e. content_turn e = Some n) (events_of ms)"
  by (induction ms rule: events_of.induct) auto

lemma call_ok_log: "call_ok env n tc ms out \<Longrightarrow> log_ok env n (tc, ms)"
  by (simp add: call_ok_def log_ok_def)

lemma call_ok_Inr: "call_ok env n tc ms (Inr cr) \<Longrightarrow> fst cr = snd tc \<and> ended_once (tc, ms)"
  by (auto simp: call_ok_def ended_once_def split: prod.splits)

lemma call_ok_Inl: "call_ok env n tc ms (Inl e) \<Longrightarrow> never_ran (tc, ms)"
  by (simp add: call_ok_def never_ran_def)

lemma run_serial_ok: "batch_ok env n tcs (run_serial env n tcs s)"
proof (induction tcs arbitrary: s)
  case (Cons tc tcs)
  obtain out ms s1 where r: "run_proc (executeSingleToolGen env n tc) s = (out, ms, s1)" by (metis prod_cases3)
  have ok: "call_ok env n tc ms out" using run_every [OF tool_call_ok r] by simp
  have evs: "list_all (\<lambda>e. content_turn e = Some n) (events_of ms)"
    using ok by (auto simp: call_ok_def intro: of_turn_events)
  show ?case
  proof (cases out)
    case (Inl e)
    with r ok evs show ?thesis by (simp add: batch_ok_def call_ok_log call_ok_Inl)
  next
    case (Inr cr)
    obtain res evs' lg' s2 where rest: "run_serial env n tcs s1 = (res, evs', lg', s2)" by (metis prod_cases4)
    have IH: "batch_ok env n tcs (res, evs', lg', s2)" using Cons.IH [of s1] rest by simp
    show ?thesis
      using r ok evs Inr rest IH call_ok_Inr [of env n tc ms cr] call_ok_log [OF ok]
      by (cases res) (auto simp: batch_ok_def)
  qed
qed (simp add: batch_ok_def)

lemma failures_Nil: "failures rs = [] \<longleftrightarrow> list_all (\<lambda>r. \<exists>v. snd r = Inr v) rs"
  by (induction rs) (auto simp: failures_def map_filter_simps split: sum.splits option.splits)

lemma zip_logs:
  assumes "list_all2 (\<lambda>tc r. call_ok env n tc (fst r) (snd r)) tcs rs"
  shows "list_all (log_ok env n) (zip tcs (map fst rs)) \<and> map fst (zip tcs (map fst rs)) = tcs \<and>
         list_all (\<lambda>e. content_turn e = Some n) (concat (map (events_of \<circ> snd) (zip tcs (map fst rs)))) \<and>
         concat (map (events_of \<circ> fst) rs) = concat (map (events_of \<circ> snd) (zip tcs (map fst rs))) \<and>
         (failures rs = [] \<longrightarrow> map fst (map (projr \<circ> snd) rs) = map snd tcs \<and> list_all ended_once (zip tcs (map fst rs))) \<and>
         (failures rs \<noteq> [] \<longrightarrow> list_ex never_ran (zip tcs (map fst rs)))"
  using assms
proof (induction rule: list_all2_induct)
  case (Cons tc tcs r rs)
  have evs: "list_all (\<lambda>e. content_turn e = Some n) (events_of (fst r))"
    using Cons.hyps(1) by (auto simp: call_ok_def intro: of_turn_events)
  show ?case
  proof (cases "snd r")
    case (Inl e)
    then show ?thesis
      using Cons evs call_ok_log [OF Cons.hyps(1)] call_ok_Inl [of env n tc "fst r" e] by (simp add: failures_Nil)
  next
    case (Inr v)
    then have "failures (r # rs) = failures rs" by (simp add: failures_def map_filter_simps)
    then show ?thesis
      using Cons evs Inr call_ok_log [OF Cons.hyps(1)] call_ok_Inr [of env n tc "fst r" v] by simp
  qed
qed (simp add: failures_def map_filter_simps)

lemma run_batch_ok: "batch_ok env n tcs (run_batch env n sched tcs s)"
proof -
  obtain rs s1 where r: "run_parallel sched (map (executeSingleToolGen env n) tcs) (s\<lparr>sh_failures := []\<rparr>) = (rs, s1)"
    by (metis surj_pair)
  have "list_all2 (\<lambda>Q p. every Q p []) (map (call_ok env n) tcs) (map (executeSingleToolGen env n) tcs)"
    by (simp add: list_all2_map1 list_all2_map2 list_all2_same tool_call_ok)
  from parallel_every [OF this r] have "list_all2 (\<lambda>tc r. call_ok env n tc (fst r) (snd r)) tcs rs"
    by (simp add: list_all2_map1)
  note z = zip_logs [OF this]
  show ?thesis
  proof (cases "failures rs = []")
    case True
    then show ?thesis using z r by (auto simp: run_batch_def batch_ok_def)
  next
    case False
    then show ?thesis using z r by (simp add: run_batch_def batch_ok_def)
  qed
qed

lemma executeTools_ok:
  assumes "executeTools env tools n sched blocks s = (res, evs, lg, s')"
  shows "list_all (\<lambda>entry. dispatch_ok env (fst (fst entry)) (snd entry)) lg \<and>
         list_all (\<lambda>e. content_turn e = Some n) evs \<and>
         (case res of
            Inl e \<Rightarrow> list_ex never_ran lg
          | Inr rs \<Rightarrow> mset (map fst rs) = mset (map as_call blocks) \<and>
              mset (map fst lg) = mset (known_calls tools (map as_call blocks)) \<and> list_all ended_once lg)"
proof -
  define calls where "calls = map as_call blocks"
  define known where "known = known_calls tools calls"
  define ends' where "ends' = map (\<lambda>c. ToolCallEnd (tc_id c) (tc_name c) (unknown_message c) True None None n) (unknown_calls tools calls)"
  have u: "list_all (\<lambda>e. content_turn e = Some n) ends'" by (simp add: ends'_def list_all_iff)
  obtain r1 e1 l1 s1 where b: "run_batch env n sched (filter runs_parallel known) s = (r1, e1, l1, s1)" by (metis prod_cases4)
  have ok1: "batch_ok env n (filter runs_parallel known) (r1, e1, l1, s1)" using run_batch_ok b by metis
  have dr: "list_all (log_ok env n) l \<Longrightarrow> list_all (\<lambda>entry. dispatch_ok env (fst (fst entry)) (snd entry)) l" for l
    by (auto simp: list_all_iff log_ok_def)
  show ?thesis
  proof (cases r1)
    case (Inl e)
    then have "res = Inl e" "evs = ends' @ e1" "lg = l1"
      using assms b by (simp_all add: executeTools_def Let_def calls_def known_def ends'_def)
    then show ?thesis using ok1 Inl u dr by (auto simp: batch_ok_def)
  next
    case (Inr rs1)
    obtain r2 e2 l2 s2 where t: "run_serial env n (filter (Not \<circ> runs_parallel) known) s1 = (r2, e2, l2, s2)" by (metis prod_cases4)
    have ok2: "batch_ok env n (filter (Not \<circ> runs_parallel) known) (r2, e2, l2, s2)" using run_serial_ok t by metis
    have eq: "evs = ends' @ e1 @ e2" "lg = l1 @ l2"
      using assms b Inr t by (auto simp: executeTools_def Let_def calls_def known_def ends'_def split: sum.splits)
    show ?thesis
    proof (cases r2)
      case (Inl e)
      then have "res = Inl e" using assms b Inr t by (simp add: executeTools_def Let_def calls_def known_def)
      then show ?thesis using ok1 ok2 Inr Inl u dr eq by (auto simp: batch_ok_def)
    next
      case in2: (Inr rs2)
      have res: "res = Inr (map (\<lambda>c. (c, error_result (unknown_message c))) (unknown_calls tools calls) @ rs1 @ rs2)"
        using assms b Inr t in2 by (simp add: executeTools_def Let_def calls_def known_def)
      have o1: "list_all (log_ok env n) l1" "list_all (\<lambda>e. content_turn e = Some n) e1" "map fst rs1 = map snd (filter runs_parallel known)"
          "map fst l1 = filter runs_parallel known" "list_all ended_once l1"
        using ok1 Inr by (simp_all add: batch_ok_def)
      have o2: "list_all (log_ok env n) l2" "list_all (\<lambda>e. content_turn e = Some n) e2" "map fst rs2 = map snd (filter (Not \<circ> runs_parallel) known)"
          "map fst l2 = filter (Not \<circ> runs_parallel) known" "list_all ended_once l2"
        using ok2 in2 by (simp_all add: batch_ok_def)
      have "mset (unknown_calls tools calls @ map fst rs1 @ map fst rs2) = mset calls"
        unfolding o1(3) o2(3) known_def by (rule calls_partition)
      then have answers: "mset (map fst (map (\<lambda>c. (c, error_result (unknown_message c))) (unknown_calls tools calls) @ rs1 @ rs2)) = mset calls"
        by (simp add: comp_def)
      have started: "mset (map fst lg) = mset known"
        unfolding eq(2) map_append o1(4) o2(4) mset_append by (simp add: comp_def flip: multiset_partition)
      show ?thesis
        unfolding res sum.case using answers started dr [OF o1(1)] dr [OF o2(1)] o1(2,5) o2(2,5) u eq
        by (simp only: known_def calls_def list_all_append)
    qed
  qed
qed

text \<open>
  C13: the gate in front of every tool of a turn. Whatever the host, the hooks and the tools do, and
  however the read-only calls interleave: no tool is dispatched unless its route was granted, its hooks let it pass and, when
  it needs permission, it was allowed or approved by the user and authorized, all before it; and it is dispatched at most once.
  Every event belongs to the turn. When the batch returns, every call of the message, of a known tool or not,
  is answered exactly once, the known ones were each reported as ended once (twice only if a hook after the call threw). When an
  error leaves it, some call was neither dispatched nor reported as ended.
\<close>

theorem tools_gated:
  assumes "executeTools env tools n sched blocks s = (res, evs, lg, s')"
  shows "list_all (\<lambda>entry. dispatch_ok env (fst (fst entry)) (snd entry)) lg \<and>
         list_all (\<lambda>e. content_turn e = Some n) evs \<and>
         (case res of
            Inl e \<Rightarrow> list_ex never_ran lg
          | Inr rs \<Rightarrow> mset (map fst rs) = mset (map as_call blocks) \<and>
              mset (map fst lg) = mset (known_calls tools (map as_call blocks)) \<and> list_all ended_once lg)"
  using assms by (rule executeTools_ok)

definition sample_env :: "nat ToolEnv" where
  "sample_env = \<lparr>te_sessionId = ''s'', te_rootSessionId = None, te_agentId = None, te_workspacePath = None, te_cwd = ''/w'',
     te_signal = None, te_egress = None, te_hooks = None, te_num = id,
     te_checkPermission = (\<lambda>c w. (Inr (False, None), w)), te_requestApproval = (\<lambda>c w. (Inr (tc_name c = ''put''), w)),
     te_authorize = None, te_policyRevision = None, te_defaultTimeoutMs = 9, te_maxResultSize = 50, te_spillDir = None,
     te_saveFile = (\<lambda>d f t w. (None, w)), te_requestCredential = (\<lambda>q w. (Inr None, w)), te_isRegistered = (\<lambda>t w. False),
     te_sensitiveRequest = (\<lambda>q c w. (Inr StartUnavailable, w)), te_provision = (\<lambda>q c w. (Inr ProvisionUnavailable, w)),
     te_consume = (\<lambda>h w. (Inr Injected, w)), te_redact = (\<lambda>t w. t)\<rparr>"

definition sample_tool :: "string \<Rightarrow> bool \<Rightarrow> nat LoopTool" where
  "sample_tool nm reads = \<lparr>lt_name = nm, lt_description = [], lt_inputSchema = [], lt_category = None, lt_egress = None,
     lt_isReadOnly = reads, lt_requiresPermission = (\<not> reads), lt_timeoutMs = None, lt_disableTimeout = False,
     lt_maxResultSize = None, lt_uiDescriptor = None, lt_cacheKey = None,
     lt_execute = (\<lambda>inp ctx w. (ExecPromise (\<lambda>w. ((False, Inr (\<lparr>content = ''done'', isError = False, metadata = None\<rparr>, None)), w + 1)), w))\<rparr>"

definition sample_shared :: "nat Shared" where
  "sample_shared = \<lparr>sh_world = 0, sh_cache = cache_new (Some 4) (Some 9), sh_reminders = None, sh_failures = []\<rparr>"

definition sample_blocks :: "ContentBlock list" where
  "sample_blocks = [ToolUseBlock ''a'' ''get'' [] None, ToolUseBlock ''b'' ''put'' [] None, ToolUseBlock ''c'' ''del'' [] None,
     ToolUseBlock ''d'' ''get'' [] None, ToolUseBlock ''e'' ''what'' [] None]"

definition sample_tools :: "nat LoopTool list" where
  "sample_tools = [sample_tool ''get'' True, sample_tool ''put'' False, sample_tool ''del'' False]"

definition was_run :: "gate_mark list \<Rightarrow> bool" where
  "was_run ms = list_ex (\<lambda>m. case m of Dispatched \<Rightarrow> True | _ \<Rightarrow> False) ms"

definition sample_batch :: "(js_thrown + (ToolCall \<times> ToolResult) list) \<times> LoomEvent list \<times> nat dispatch_log \<times> nat Shared" where
  "sample_batch = executeTools sample_env sample_tools 7 [1, 0, 1, 1] sample_blocks sample_shared"

text \<open>Of five calls one is unknown, two reads run interleaved, one write is approved and one denied: the
  answers come in that order, and the denied tool is never dispatched.\<close>

theorem tools_gated_witness:
  "\<exists>rs evs lg s'. sample_batch = (Inr rs, evs, lg, s') \<and> list_all (\<lambda>entry. dispatch_ok sample_env (fst (fst entry)) (snd entry)) lg \<and>
     mset (map fst rs) = mset (map as_call sample_blocks) \<and>
     map (\<lambda>r. (tc_id (fst r), isError (snd r))) rs = [(''e'', True), (''a'', False), (''d'', False), (''b'', False), (''c'', True)] \<and>
     map (\<lambda>entry. (tc_id (snd (fst entry)), was_run (snd entry))) lg = [(''a'', True), (''d'', True), (''b'', True), (''c'', False)]"
proof -
  have c: "(case fst sample_batch of Inr rs \<Rightarrow> map (\<lambda>r. (tc_id (fst r), isError (snd r))) rs | Inl e \<Rightarrow> []) =
      [(''e'', True), (''a'', False), (''d'', False), (''b'', False), (''c'', True)]"
    by code_simp
  have d: "map (\<lambda>entry. (tc_id (snd (fst entry)), was_run (snd entry))) (fst (snd (snd sample_batch))) =
      [(''a'', True), (''d'', True), (''b'', True), (''c'', False)]"
    by code_simp
  obtain res evs lg s' where o: "sample_batch = (res, evs, lg, s')" by (metis prod_cases4)
  note cd = c [unfolded o] d [unfolded o]
  obtain rs where r: "res = Inr rs" using cd(1) by (cases res) auto
  show ?thesis
    using tools_gated [OF o [unfolded sample_batch_def]] cd unfolding o r by simp
qed

end
