(* ===== verification/AgentLoop.thy ===== *)
theory AgentLoop
  imports LoopTools CompactionManager ToolResultDrop
begin

text \<open>
  The agent loop (\<open>loop\<close> in \<open>core/loop.ts\<close>): limits, the passes that shrink the history, the
  turn, the request, the model call, error recovery, tools, checkpoint, and the end of the session. One
  definition per segment of the loop body, in its order; the state carries the mutable variables of
  the loop, the state the tools share, the log of yielded events, and the log of started tool calls.
  An exception that no handler of the loop catches ends it as \<open>Escaped\<close>.

  The behaviour of the compaction manager's own adapter and of its timer is a function of the
  world. Numbers are printed by parameters, and the totals of cached tokens, which the loop only adds up, are left out.
  The long dash of the message that asks the model to resume is written as a hyphen, since characters are below 256.
\<close>

section \<open>Parameters and state\<close>

record SnapshotCompactionConfig =
  bc_enabled :: bool
  bc_triggerFraction :: "rat option"
  bc_keepLatestPerTarget :: "int option"
  bc_keepRecentTurns :: "int option"
  bc_minBytesToDrop :: "int option"

record ToolResultDropConfig =
  dc_enabled :: bool
  dc_triggerFraction :: "rat option"
  dc_keepRecentTurns :: "int option"
  dc_minBytesToDrop :: "int option"
  dc_previewBytes :: "int option"

record 'w Compactor =
  cp_config :: CompactionConfig
  cp_prompts :: Prompts
  cp_window :: int
  cp_adapter :: "'w \<Rightarrow> ProviderAdapter \<times> bool \<times> 'w"

record MutableUsage =
  mu_inputTokens :: nat
  mu_outputTokens :: nat
  mu_cacheReadTokens :: nat
  mu_cacheCreationTokens :: nat
  mu_costUsd :: rat
  mu_costBasis :: "CostBasis option"
  mu_isFallbackPricing :: bool

record 'w LoopParams =
  ap_env :: "'w ToolEnv"
  ap_provider :: "'w LoopProvider"
  ap_tools :: "'w LoopTool list"
  ap_systemPrompt :: SystemPrompt
  ap_cacheProfile :: "CacheProfile option"
  ap_model :: string
  ap_maxTurns :: nat
  ap_maxBudgetUsd :: rat
  ap_maxTokens :: nat
  ap_temperature :: "rat option"
  ap_thinking :: "json option"
  ap_fallbackModel :: "string option"
  ap_resolveProvider :: "string \<Rightarrow> js_thrown + 'w LoopProvider"
  ap_baseDelayMs :: rat
  ap_sleep :: "rat \<Rightarrow> 'w \<Rightarrow> 'w"
  ap_catalog :: catalog
  ap_windows :: "string \<Rightarrow> string \<Rightarrow> int option"
  ap_browserSnapshotCompaction :: "SnapshotCompactionConfig option"
  ap_toolResultDrop :: "ToolResultDropConfig option"
  ap_compaction :: "'w Compactor option"
  ap_checkpoint :: "(Message list \<Rightarrow> nat \<Rightarrow> MutableUsage \<Rightarrow> 'w \<Rightarrow> (js_thrown + string) \<times> 'w) option"
  ap_persistentReminder :: "string option"
  ap_schedule :: "'w \<Rightarrow> nat list"
  ap_showNumber :: "rat \<Rightarrow> string"
  ap_toFixed4 :: "rat \<Rightarrow> string"

record 'w LoopState =
  ls_messages :: "Message list"
  ls_turnIndex :: nat
  ls_totalUsage :: MutableUsage
  ls_lastUsage :: "UsageBaseline option"
  ls_maxOutputTokensRecoveryCount :: nat
  ls_rateLimitRetryCount :: nat
  ls_compactionRecoveryCount :: nat
  ls_hasAttemptedCompaction :: bool
  ls_hasAttemptedFallback :: bool
  ls_activeProvider :: "'w LoopProvider"
  ls_activeModel :: string
  ls_turnStartEmitted :: bool
  ls_cumulativeSavingsUsd :: rat
  ls_lastPressureEmitted :: rat
  ls_lastCompactionTurnIndex :: int
  ls_breaker :: nat
  ls_shared :: "'w Shared"
  ls_events :: "LoomEvent list"
  ls_log :: "'w dispatch_log"

record LoopResult =
  lr_reason :: StopReason
  lr_messages :: "Message list"
  lr_totalUsage :: TurnUsage
  lr_turnCount :: nat
  lr_lastUsage :: "UsageBaseline option"

datatype control = Again | Finished LoopResult | Escaped js_thrown

definition MAX_OUTPUT_TOKENS_RECOVERY_LIMIT :: nat where "MAX_OUTPUT_TOKENS_RECOVERY_LIMIT = 3"

definition MAX_COMPACTION_RECOVERY :: nat where "MAX_COMPACTION_RECOVERY = 2"

section \<open>Small steps\<close>

definition emit :: "LoomEvent list \<Rightarrow> 'w LoopState \<Rightarrow> 'w LoopState" where
  "emit evs s = s\<lparr>ls_events := ls_events s @ evs\<rparr>"

definition world_of :: "'w LoopState \<Rightarrow> 'w" where
  "world_of s = sh_world (ls_shared s)"

definition set_world :: "'w \<Rightarrow> 'w LoopState \<Rightarrow> 'w LoopState" where
  "set_world w s = s\<lparr>ls_shared := (ls_shared s)\<lparr>sh_world := w\<rparr>\<rparr>"

definition remind_loop :: "ReminderEvent list \<Rightarrow> 'w LoopState \<Rightarrow> 'w LoopState" where
  "remind_loop told s = s\<lparr>ls_shared := remind told (ls_shared s)\<rparr>"

definition aborted_now :: "'w LoopParams \<Rightarrow> 'w \<Rightarrow> bool" where
  "aborted_now P w = (case te_signal (ap_env P) of Some f \<Rightarrow> f w | None \<Rightarrow> False)"

text \<open>The hooks of an event, if there are any.\<close>

definition lifecycle_hooks :: "'w LoopParams \<Rightarrow> bool \<Rightarrow> HookContext \<Rightarrow> 'w LoopState \<Rightarrow> (js_thrown + unit) \<times> 'w LoopState" where
  "lifecycle_hooks P withSignal ctx s = (case te_hooks (ap_env P) of
       None \<Rightarrow> (Inr (), s)
     | Some reg \<Rightarrow>
         (if \<not> hook_has reg (hook_event ctx) then (Inr (), s)
          else (case hooks_run (te_num (ap_env P)) reg (te_egress (ap_env P))
                       (if withSignal then te_signal (ap_env P) else None) ctx (world_of s) of
              (r, told, w) \<Rightarrow> (map_sum id (\<lambda>x. ()) r, remind_loop told (set_world w s)))))"

definition context_usage :: "'w LoopParams \<Rightarrow> 'w LoopState \<Rightarrow> ContextUsage" where
  "context_usage P s = getEffectiveContextUsage (ap_windows P) (ls_messages s) (ls_lastUsage s) (ls_activeModel s)"

definition usage_fraction :: "ContextUsage \<Rightarrow> rat" where
  "usage_fraction u = of_nat (usage_tokens u) / of_nat (usage_window u)"

section \<open>The end of the session\<close>

definition finalize :: "'w LoopState \<Rightarrow> StopReason \<Rightarrow> LoopResult" where
  "finalize s reason =
     (let u = ls_totalUsage s in
      \<lparr>lr_reason = reason, lr_messages = ls_messages s,
       lr_totalUsage = (zero_usage (ls_activeModel s))
         \<lparr>tu_inputTokens := mu_inputTokens u, tu_outputTokens := mu_outputTokens u,
          tu_cacheReadTokens := mu_cacheReadTokens u, tu_cacheCreationTokens := mu_cacheCreationTokens u,
          tu_costUsd := mu_costUsd u,
          tu_costBasis := (case mu_costBasis u of Some b \<Rightarrow> if b \<noteq> Metered then Some b else None | None \<Rightarrow> None),
          tu_isFallbackPricing := mu_isFallbackPricing u\<rparr>,
       lr_turnCount = ls_turnIndex s + 1, lr_lastUsage = ls_lastUsage s\<rparr>)"

definition endSession :: "'w LoopParams \<Rightarrow> StopReason \<Rightarrow> 'w LoopState \<Rightarrow> control \<times> 'w LoopState" where
  "endSession P reason s =
     (let result = finalize s reason; sessionId = te_sessionId (ap_env P) in
      case lifecycle_hooks P False (SessionEndHook (lr_turnCount result - 1) sessionId (stop_text reason)) s of
        (Inl e, s1) \<Rightarrow> (Escaped e, s1)
      | (Inr u, s1) \<Rightarrow>
          (Finished result, emit [SessionEnd sessionId reason (lr_totalUsage result) (lr_turnCount result)] s1))"

text \<open>The end of a turn that has started.\<close>

definition close_turn :: "StopReason \<Rightarrow> TurnUsage \<Rightarrow> 'w LoopState \<Rightarrow> 'w LoopState" where
  "close_turn reason usage s =
     (if ls_turnStartEmitted s then (emit [TurnEnd (ls_turnIndex s) reason usage] s)\<lparr>ls_turnStartEmitted := False\<rparr> else s)"

section \<open>Limits\<close>

definition stop_now :: "'w LoopParams \<Rightarrow> StopReason \<Rightarrow> 'w LoopState \<Rightarrow> control \<times> 'w LoopState" where
  "stop_now P reason s = endSession P reason (close_turn reason (zero_usage (ls_activeModel s)) s)"

definition check_limits :: "'w LoopParams \<Rightarrow> 'w LoopState \<Rightarrow> (control \<times> 'w LoopState) option" where
  "check_limits P s =
     (if aborted_now P (world_of s) then Some (stop_now P Aborted s)
      else if ap_maxTurns P > 0 \<and> ls_turnIndex s \<ge> ap_maxTurns P
      then Some (stop_now P MaxTurns (emit [LoopError ''MAX_TURNS''
             (''Reached maximum turn limit ('' @ show_nat (ap_maxTurns P) @ '')'') False (ls_turnIndex s)] s))
      else if ap_maxBudgetUsd P > 0 \<and> mu_costUsd (ls_totalUsage s) \<ge> ap_maxBudgetUsd P
      then Some (stop_now P BudgetExceeded (emit [LoopError ''BUDGET_EXCEEDED''
             (''Budget exceeded ($'' @ ap_toFixed4 P (mu_costUsd (ls_totalUsage s)) @ '' / $'' @
              ap_showNumber P (ap_maxBudgetUsd P) @ '')'') False (ls_turnIndex s)] s))
      else None)"

section \<open>Shrinking the history\<close>

definition use_report :: "DropReport \<Rightarrow> 'w LoopState \<Rightarrow> 'w LoopState" where
  "use_report r s =
     (if droppedCount r > 0
      then emit [ToolResultDropped (droppedCount r) (bytesReclaimed r) (ls_turnIndex s)] (s\<lparr>ls_messages := report_messages r\<rparr>)
      else s)"

definition snapshot_pass :: "'w LoopParams \<Rightarrow> 'w LoopState \<Rightarrow> 'w LoopState" where
  "snapshot_pass P s = (case ap_browserSnapshotCompaction P of
       None \<Rightarrow> s
     | Some c \<Rightarrow>
         (if bc_enabled c \<and> \<not> ls_hasAttemptedCompaction s \<and>
             usage_fraction (context_usage P s) \<ge> (case bc_triggerFraction c of Some f \<Rightarrow> f | None \<Rightarrow> 1 / 2)
          then use_report (compactSupersededBrowserSnapshots (ls_messages s)
                 \<lparr>snap_keepLatestPerTarget = Some (case bc_keepLatestPerTarget c of Some k \<Rightarrow> k | None \<Rightarrow> 1),
                  snap_keepRecentTurns = Some (case bc_keepRecentTurns c of Some k \<Rightarrow> k | None \<Rightarrow> 1),
                  snap_minBytesToDrop = Some (case bc_minBytesToDrop c of Some k \<Rightarrow> k | None \<Rightarrow> 500)\<rparr>) s
          else s))"

definition drop_pass :: "'w LoopParams \<Rightarrow> 'w LoopState \<Rightarrow> 'w LoopState" where
  "drop_pass P s = (case ap_toolResultDrop P of
       None \<Rightarrow> s
     | Some c \<Rightarrow>
         (if dc_enabled c \<and> \<not> ls_hasAttemptedCompaction s \<and>
             usage_fraction (context_usage P s) \<ge> (case dc_triggerFraction c of Some f \<Rightarrow> f | None \<Rightarrow> 6 / 10)
          then use_report (dropStaleToolResults (ls_messages s)
                 \<lparr>opt_keepRecentTurns = (case dc_keepRecentTurns c of Some k \<Rightarrow> k | None \<Rightarrow> 3),
                  opt_minBytesToDrop = Some (case dc_minBytesToDrop c of Some k \<Rightarrow> k | None \<Rightarrow> 500),
                  opt_previewBytes = Some (case dc_previewBytes c of Some k \<Rightarrow> k | None \<Rightarrow> 150)\<rparr>) s
          else s))"

text \<open>The host's egress control as the manager sees it, in one state of the world.\<close>

definition compaction_egress :: "'w LoopParams \<Rightarrow> ProviderAdapter \<Rightarrow> 'w \<Rightarrow> EgressControl option" where
  "compaction_egress P adapter w = (case te_egress (ap_env P) of
       None \<Rightarrow> None
     | Some eg \<Rightarrow> Some (\<lambda>uncontained. map_sum thrown_message id (fst (eg_routeUnavailable eg
         \<lparr>ru_sourceKind = ''provider'', ru_sourceRef = provider_name adapter,
          ru_mediation = (if uncontained then ''uncontained'' else ''unknown'')\<rparr> w))))"

definition saved_percent :: "CompactionResult \<Rightarrow> int" where
  "saved_percent r = (if preTokenCount r > 0
     then \<lfloor>of_int (preTokenCount r - postTokenCount r) / of_int (preTokenCount r) * 100 + (1 / 2 :: rat)\<rfloor> else 0)"

definition use_compaction :: "CompactionResult \<Rightarrow> 'w LoopState \<Rightarrow> 'w LoopState" where
  "use_compaction r s =
     (let activeSkills = extractActiveSkillNames (ls_messages s); n = ls_turnIndex s; label = strategy_name (result_strategy r) in
      remind_loop ([CompactionDone (preTokenCount r) (postTokenCount r)] @
          (if activeSkills \<noteq> [] then [SkillsPreviouslyInvoked activeSkills] else []))
       (emit [CompactionStarted label (preTokenCount r) n,
              CompactionEnded label (preTokenCount r) (postTokenCount r) (saved_percent r) n activeSkills]
         (s\<lparr>ls_messages := result_messages r, ls_hasAttemptedCompaction := True,
            ls_lastPressureEmitted := 0, ls_lastCompactionTurnIndex := int n\<rparr>)))"

definition compaction_pass :: "'w LoopParams \<Rightarrow> 'w LoopState \<Rightarrow> 'w LoopState" where
  "compaction_pass P s = (case ap_compaction P of
       None \<Rightarrow> s
     | Some cp \<Rightarrow> (case cp_adapter cp (world_of s) of (adapter, late, w) \<Rightarrow>
         (case compactIfNeeded (cp_prompts cp) (cp_config cp) adapter (cp_window cp) late (ls_messages s)
                 (systemPromptToText (ap_systemPrompt P)) (Some (int (usage_tokens (context_usage P s))))
                 (compaction_egress P adapter (world_of s)) (ls_breaker s) of
            (res, failed) \<Rightarrow>
              (let s1 = set_world w (s\<lparr>ls_breaker := failed\<rparr>) in
               case res of
                 Inl msg \<Rightarrow> emit [LoopError ''COMPACTION_FAILED''
                     (''Proactive compaction failed ('' @ msg @ ''); continuing without it'') True (ls_turnIndex s)] s1
               | Inr None \<Rightarrow> s1
               | Inr (Some r) \<Rightarrow> use_compaction r s1))))"

definition force_compaction :: "'w LoopParams \<Rightarrow> 'w LoopState \<Rightarrow> CompactionResult option \<times> 'w LoopState" where
  "force_compaction P s = (case ap_compaction P of
       None \<Rightarrow> (None, s)
     | Some cp \<Rightarrow> (case cp_adapter cp (world_of s) of (adapter, late, w) \<Rightarrow>
         (case forceCompact (cp_prompts cp) (cp_config cp) adapter late (ls_messages s)
                 (systemPromptToText (ap_systemPrompt P)) (compaction_egress P adapter (world_of s)) (ls_breaker s) of
            (res, failed) \<Rightarrow>
              ((case res of Inr (Some r) \<Rightarrow> Some r | _ \<Rightarrow> None), set_world w (s\<lparr>ls_breaker := failed\<rparr>)))))"

section \<open>The turn and its request\<close>

definition start_turn :: "'w LoopState \<Rightarrow> 'w LoopState" where
  "start_turn s =
     (if \<not> ls_turnStartEmitted s then (emit [TurnStart (ls_turnIndex s)] s)\<lparr>ls_turnStartEmitted := True\<rparr> else s)"

definition pressure_step :: "ContextUsage \<Rightarrow> rat \<Rightarrow> 'w LoopState \<Rightarrow> 'w LoopState" where
  "pressure_step u threshold s =
     (if usage_fraction u \<ge> threshold \<and> ls_lastPressureEmitted s < threshold
      then remind_loop [BudgetWarn (int (usage_tokens u)) (int (usage_window u)) ''tokens'']
             (emit [ContextPressure (usage_fraction u) (usage_tokens u) (usage_window u) (ls_turnIndex s)]
               (s\<lparr>ls_lastPressureEmitted := threshold\<rparr>))
      else s)"

definition pressure :: "'w LoopParams \<Rightarrow> 'w LoopState \<Rightarrow> 'w LoopState" where
  "pressure P s =
     (let u = context_usage P s;
          inCooldown = (ls_lastCompactionTurnIndex s \<ge> 0 \<and> int (ls_turnIndex s) - ls_lastCompactionTurnIndex s \<le> 2) in
      if inCooldown then s else fold (pressure_step u) [6 / 10, 7 / 10, 8 / 10] s)"

definition bare_model :: "string \<Rightarrow> string" where
  "bare_model m = (if CHR '':'' \<in> set m then tl (dropWhile (\<lambda>ch. ch \<noteq> CHR '':'') m) else m)"

definition persistent_fragments :: "'w LoopParams \<Rightarrow> string list" where
  "persistent_fragments P = (case truthy (ap_persistentReminder P) of
       Some t \<Rightarrow> if js_trim t \<noteq> [] then [wrap_reminder (js_trim t)] else []
     | None \<Rightarrow> [])"

definition drain_reminders :: "'w LoopState \<Rightarrow> (js_thrown + string list) \<times> 'w LoopState" where
  "drain_reminders s = (case sh_reminders (ls_shared s) of
       None \<Rightarrow> (Inr [], s)
     | Some q \<Rightarrow> (case reminder_drain (ls_turnIndex s) q of
         (r, q') \<Rightarrow> (r, s\<lparr>ls_shared := (ls_shared s)\<lparr>sh_reminders := Some q'\<rparr>\<rparr>)))"

definition make_request :: "'w LoopParams \<Rightarrow> RequestSystem \<Rightarrow> string list \<Rightarrow> 'w LoopState \<Rightarrow> LoopRequest" where
  "make_request P system drained s =
     (let reminders = persistent_fragments P @ drained in
      \<lparr>lq_model = bare_model (ls_activeModel s), lq_system = system,
       lq_messages = applyMessageCacheMarkers (attachRemindersToMessages (ls_messages s) reminders)
                       (countSystemBlockMarkers system) (ap_cacheProfile P),
       lq_tools = map (\<lambda>t. \<lparr>td_name = lt_name t, td_description = lt_description t, td_inputSchema = lt_inputSchema t\<rparr>) (ap_tools P),
       lq_maxTokens = ap_maxTokens P, lq_temperature = ap_temperature P, lq_thinking = ap_thinking P\<rparr>)"

definition build_request :: "'w LoopParams \<Rightarrow> 'w LoopState \<Rightarrow> (js_thrown + LoopRequest) \<times> 'w LoopState" where
  "build_request P s = (case buildSystemRequestBlocks (ap_systemPrompt P)
          (max 0 (int CACHE_CONTROL_MARKER_LIMIT - 1)) (ap_cacheProfile P) of
       Inl e \<Rightarrow> (Inl e, s)
     | Inr system \<Rightarrow>
         (case lifecycle_hooks P True (ModelPreHook (ls_turnIndex s) (ls_activeModel s) (length (ls_messages s))) s of
            (Inl e, s1) \<Rightarrow> (Inl e, s1)
          | (Inr u, s1) \<Rightarrow> (case drain_reminders s1 of
                (Inl e, s2) \<Rightarrow> (Inl e, s2)
              | (Inr drained, s2) \<Rightarrow> (Inr (make_request P system drained s2), s2))))"

section \<open>After a failed call\<close>

fun error_code :: "js_thrown \<Rightarrow> string" where
  "error_code (ThrownProvider e) = ''PROVIDER_ERROR''"
| "error_code e = ''UNKNOWN''"

definition unrecoverable :: "'w LoopParams \<Rightarrow> js_thrown \<Rightarrow> 'w LoopState \<Rightarrow> control \<times> 'w LoopState" where
  "unrecoverable P err s =
     (let s1 = close_turn ErrorStop (zero_usage (ls_activeModel s))
                 (emit [LoopError (error_code err) (thrown_message err) False (ls_turnIndex s)] s) in
      case lifecycle_hooks P False (ErrorHook (ls_turnIndex s) (error_code err) (thrown_message err)) s1 of
        (Inl e, s2) \<Rightarrow> (Escaped e, s2)
      | (Inr u, s2) \<Rightarrow> endSession P ErrorStop s2)"

definition try_fallback :: "'w LoopParams \<Rightarrow> js_thrown \<Rightarrow> 'w LoopState \<Rightarrow> control \<times> 'w LoopState" where
  "try_fallback P err s = (case truthy (ap_fallbackModel P) of
       None \<Rightarrow> unrecoverable P err s
     | Some m \<Rightarrow>
         (if ls_hasAttemptedFallback s then unrecoverable P err s
          else (let s1 = s\<lparr>ls_hasAttemptedFallback := True, ls_rateLimitRetryCount := 0\<rparr>;
                    s2 = (case ap_resolveProvider P m of
                        Inr p \<Rightarrow> s1\<lparr>ls_activeProvider := p, ls_activeModel := m\<rparr> | Inl e \<Rightarrow> s1) in
                if ls_activeModel s2 = m
                then (Again, emit [Recovery ''model_fallback'' 1
                        (''Switching from '' @ ap_model P @ '' to '' @ m) (ls_turnIndex s2)] s2)
                else unrecoverable P err s2)))"

definition retry_delay :: "'w LoopParams \<Rightarrow> ProviderError \<Rightarrow> rat" where
  "retry_delay P e = (case pe_retryAfterMs e of Some d \<Rightarrow> d | None \<Rightarrow> ap_baseDelayMs P)"

definition rate_limited :: "'w LoopParams \<Rightarrow> ProviderError \<Rightarrow> 'w LoopState \<Rightarrow> control \<times> 'w LoopState" where
  "rate_limited P e s =
     (if isRateLimit e \<or> isOverloaded e
      then (let s1 = s\<lparr>ls_rateLimitRetryCount := ls_rateLimitRetryCount s + 1\<rparr>; k = ls_rateLimitRetryCount s1; d = retry_delay P e in
            if k \<le> 10
            then (let s2 = emit [Recovery ''rate_limit'' k (''Rate limited, retrying in '' @ ap_showNumber P d @ ''ms (attempt '' @
                         show_nat k @ ''/10)'') (ls_turnIndex s1)] s1
                  in (Again, set_world (ap_sleep P d (world_of s2)) s2))
            else try_fallback P (ThrownProvider e) s1)
      else unrecoverable P (ThrownProvider e) s)"

definition recover :: "'w LoopParams \<Rightarrow> js_thrown \<Rightarrow> 'w LoopState \<Rightarrow> control \<times> 'w LoopState" where
  "recover P err s = (case err of
       ThrownProvider e \<Rightarrow>
         (if (pe_class e = ContextWindowExceededError \<or> isPromptTooLong e) \<and> ap_compaction P \<noteq> None \<and>
             ls_compactionRecoveryCount s < MAX_COMPACTION_RECOVERY
          then (case force_compaction P (emit [Recovery ''prompt_too_long'' (ls_compactionRecoveryCount s + 1)
                       ''Attempting reactive compaction'' (ls_turnIndex s)] s) of
              (Some r, s1) \<Rightarrow> (Again, s1\<lparr>ls_messages := result_messages r, ls_hasAttemptedCompaction := True,
                                       ls_compactionRecoveryCount := ls_compactionRecoveryCount s1 + 1\<rparr>)
            | (None, s1) \<Rightarrow> rate_limited P e s1)
          else rate_limited P e s)
     | _ \<Rightarrow> unrecoverable P err s)"

section \<open>After a successful call\<close>

definition add_usage :: "MutableUsage \<Rightarrow> TurnUsage \<Rightarrow> MutableUsage" where
  "add_usage m u = \<lparr>mu_inputTokens = mu_inputTokens m + tu_inputTokens u,
     mu_outputTokens = mu_outputTokens m + tu_outputTokens u,
     mu_cacheReadTokens = mu_cacheReadTokens m + tu_cacheReadTokens u,
     mu_cacheCreationTokens = mu_cacheCreationTokens m + tu_cacheCreationTokens u,
     mu_costUsd = mu_costUsd m + tu_costUsd u,
     mu_costBasis = Some (mergeCostBasis (mu_costBasis m) (case tu_costBasis u of Some b \<Rightarrow> b | None \<Rightarrow> Metered)),
     mu_isFallbackPricing = (mu_isFallbackPricing m \<or> tu_isFallbackPricing u)\<rparr>"

definition usage_baseline :: "TurnUsage \<Rightarrow> nat \<Rightarrow> UsageBaseline" where
  "usage_baseline u len = \<lparr>inputTokens = tu_inputTokens u, cacheReadTokens = tu_cacheReadTokens u,
     cacheCreationTokens = tu_cacheCreationTokens u, outputTokens = tu_outputTokens u, messageCountAtCapture = int len\<rparr>"

definition input_rate :: "ModelPricing option \<Rightarrow> rat" where
  "input_rate pricing = (case pricing of Some p \<Rightarrow> mp_input p | None \<Rightarrow> 0)"

definition cache_read_rate :: "ModelPricing option \<Rightarrow> rat" where
  "cache_read_rate pricing = (case pricing of
       Some p \<Rightarrow> (case mp_cacheRead p of Some r \<Rightarrow> r | None \<Rightarrow> mp_input p * (1 / 10))
     | None \<Rightarrow> 0)"

definition turn_savings :: "ModelPricing option \<Rightarrow> TurnUsage \<Rightarrow> rat" where
  "turn_savings pricing u =
     (if input_rate pricing > 0
      then of_nat (tu_cacheReadTokens u) * (input_rate pricing - cache_read_rate pricing) / 1000000 else 0)"

definition savings_percent :: "ModelPricing option \<Rightarrow> TurnUsage \<Rightarrow> int" where
  "savings_percent pricing u =
     (let discount = (if input_rate pricing > 0
              then max 0 (input_rate pricing - cache_read_rate pricing) / input_rate pricing else 9 / 10);
          totalInput = tu_inputTokens u + tu_cacheReadTokens u + tu_cacheCreationTokens u in
      if totalInput > 0
      then \<lfloor>of_nat (tu_cacheReadTokens u) / of_nat totalInput * discount * 100 + (1 / 2 :: rat)\<rfloor> else 0)"

definition account_call :: "'w LoopParams \<Rightarrow> TurnUsage \<Rightarrow> 'w LoopState \<Rightarrow> 'w LoopState" where
  "account_call P u s =
     (let s1 = s\<lparr>ls_totalUsage := add_usage (ls_totalUsage s) u,
                 ls_lastUsage := Some (usage_baseline u (length (ls_messages s)))\<rparr> in
      if tu_cacheReadTokens u > 0
      then (let pricing = lp_pricing (ls_activeProvider s) (bare_model (ls_activeModel s));
                saved = ls_cumulativeSavingsUsd s1 + turn_savings pricing u in
            emit [CacheStatus (tu_cacheReadTokens u) (tu_cacheCreationTokens u) (tu_inputTokens u)
                    (savings_percent pricing u) saved (ls_turnIndex s1)]
              (s1\<lparr>ls_cumulativeSavingsUsd := saved\<rparr>))
      else s1)"

definition resume_message :: Message where
  "resume_message = UserMessage (Inl (''Output token limit hit. Resume directly - no apology, no recap. '' @
     ''Pick up mid-thought. Break remaining work into smaller pieces.''))"

definition final_reason :: "StopReason \<Rightarrow> StopReason" where
  "final_reason r = (if r \<in> {MaxTokens, Refusal, PauseTurn, StopSequence} then r else EndTurn)"

definition without_tools :: "'w LoopParams \<Rightarrow> StreamResult \<Rightarrow> 'w LoopState \<Rightarrow> control \<times> 'w LoopState" where
  "without_tools P r s =
     (if sr_stopReason r = MaxTokens \<and> ls_maxOutputTokensRecoveryCount s < MAX_OUTPUT_TOKENS_RECOVERY_LIMIT
      then (let k = ls_maxOutputTokensRecoveryCount s + 1; n = ls_turnIndex s in
            (Again, (emit [Recovery ''max_output_tokens'' k
                       (''Output limit hit, recovery attempt '' @ show_nat k @ ''/'' @ show_nat MAX_OUTPUT_TOKENS_RECOVERY_LIMIT) n,
                     TurnEnd n MaxTokens (sr_usage r)] s)
               \<lparr>ls_maxOutputTokensRecoveryCount := k, ls_turnStartEmitted := False,
                ls_messages := ls_messages s @ [resume_message], ls_turnIndex := n + 1\<rparr>))
      else endSession P (final_reason (sr_stopReason r))
             ((emit [TurnEnd (ls_turnIndex s) (final_reason (sr_stopReason r)) (sr_usage r)] s)\<lparr>ls_turnStartEmitted := False\<rparr>))"

definition save_checkpoint :: "'w LoopParams \<Rightarrow> 'w LoopState \<Rightarrow> 'w LoopState" where
  "save_checkpoint P s = (case ap_checkpoint P of
       None \<Rightarrow> s
     | Some save \<Rightarrow> (case save (ls_messages s) (ls_turnIndex s) (ls_totalUsage s) (world_of s) of
           (Inr i, w) \<Rightarrow> emit [CheckpointSaved i (ls_turnIndex s)] (set_world w s)
         | (Inl e, w) \<Rightarrow> emit [LoopError ''CHECKPOINT_FAILED''
               (''Checkpoint save failed ('' @ thrown_message e @ ''); session continues'') True (ls_turnIndex s)] (set_world w s)))"

definition next_turn :: "'w LoopState \<Rightarrow> 'w LoopState" where
  "next_turn s = s\<lparr>ls_maxOutputTokensRecoveryCount := 0, ls_rateLimitRetryCount := 0, ls_compactionRecoveryCount := 0,
     ls_hasAttemptedCompaction := False, ls_turnIndex := ls_turnIndex s + 1\<rparr>"

definition result_message :: "ToolCall \<times> ToolResult \<Rightarrow> Message" where
  "result_message cr = createToolResultMessage (tc_id (fst cr)) (content (snd cr)) (isError (snd cr)) (metadata (snd cr))"

definition with_tools :: "'w LoopParams \<Rightarrow> StreamResult \<Rightarrow> ContentBlock list \<Rightarrow> 'w LoopState \<Rightarrow> control \<times> 'w LoopState" where
  "with_tools P r toolCalls s =
     (case executeTools (ap_env P) (ap_tools P) (ls_turnIndex s) (ap_schedule P (world_of s)) toolCalls (ls_shared s) of
        (res, evs, lg, sh) \<Rightarrow>
          (let s1 = (emit evs s)\<lparr>ls_shared := sh, ls_log := ls_log s @ lg\<rparr> in
           case res of
             Inl e \<Rightarrow> (Escaped e, s1)
           | Inr rs \<Rightarrow>
               (let s2 = s1\<lparr>ls_messages := ls_messages s1 @ map result_message rs\<rparr>;
                    s3 = (emit [TurnEnd (ls_turnIndex s2) ToolUseStop (sr_usage r)] s2)\<lparr>ls_turnStartEmitted := False\<rparr> in
                (Again, next_turn (save_checkpoint P s3)))))"

definition after_call :: "'w LoopParams \<Rightarrow> StreamResult \<Rightarrow> 'w LoopState \<Rightarrow> control \<times> 'w LoopState" where
  "after_call P r s =
     (let s1 = s\<lparr>ls_messages := ls_messages s @ [AssistantMessage (sr_content r)]\<rparr>;
          toolCalls = extractToolCalls (sr_content r); u = sr_usage r in
      case lifecycle_hooks P True (ModelPostHook (ls_turnIndex s1) (ls_activeModel s1) (stop_text (sr_stopReason r))
              (tu_inputTokens u) (tu_outputTokens u) (tu_costUsd u) (length toolCalls)) s1 of
        (Inl e, s2) \<Rightarrow> (Escaped e, s2)
      | (Inr x, s2) \<Rightarrow> (if toolCalls = [] then without_tools P r s2 else with_tools P r toolCalls s2))"

section \<open>The loop\<close>

definition tool_ui :: "'w LoopParams \<Rightarrow> string \<Rightarrow> ToolUIDescriptor option" where
  "tool_ui P wanted = (case find_tool (ap_tools P) wanted of Some t \<Rightarrow> lt_uiDescriptor t | None \<Rightarrow> None)"

definition call_model :: "'w LoopParams \<Rightarrow> LoopRequest \<Rightarrow> 'w LoopState \<Rightarrow> control \<times> 'w LoopState" where
  "call_model P request s =
     (case streamModelResponse (ap_catalog P) (ls_activeProvider s) request (tool_ui P) (ls_turnIndex s)
             (te_egress (ap_env P)) (aborted_now P) (ls_activeModel s) (world_of s) of
        (res, evs, w) \<Rightarrow>
          (let s1 = emit evs (set_world w s) in
           case res of Inl e \<Rightarrow> recover P e s1 | Inr r \<Rightarrow> after_call P r (account_call P (sr_usage r) s1)))"

definition prepare :: "'w LoopParams \<Rightarrow> 'w LoopState \<Rightarrow> 'w LoopState" where
  "prepare P s = pressure P (start_turn (compaction_pass P (drop_pass P (snapshot_pass P s))))"

text \<open>One pass through the body of \<open>while (true)\<close>.\<close>

definition iteration :: "'w LoopParams \<Rightarrow> 'w LoopState \<Rightarrow> control \<times> 'w LoopState" where
  "iteration P s = (case check_limits P s of
       Some out \<Rightarrow> out
     | None \<Rightarrow> (case build_request P (prepare P s) of
           (Inl e, s1) \<Rightarrow> (Escaped e, s1)
         | (Inr request, s1) \<Rightarrow> call_model P request s1))"

partial_function (option) run_loop :: "'w LoopParams \<Rightarrow> 'w LoopState \<Rightarrow> (control \<times> 'w LoopState) option" where
  "run_loop P s = (case iteration P s of (c, s1) \<Rightarrow> (if c = Again then run_loop P s1 else Some (c, s1)))"

definition initial_state :: "'w LoopParams \<Rightarrow> Message list \<Rightarrow> 'w Shared \<Rightarrow> nat \<Rightarrow> 'w LoopState" where
  "initial_state P messages shared failed = \<lparr>ls_messages = messages, ls_turnIndex = 0,
     ls_totalUsage = \<lparr>mu_inputTokens = 0, mu_outputTokens = 0, mu_cacheReadTokens = 0, mu_cacheCreationTokens = 0,
       mu_costUsd = 0, mu_costBasis = None, mu_isFallbackPricing = False\<rparr>,
     ls_lastUsage = None, ls_maxOutputTokensRecoveryCount = 0, ls_rateLimitRetryCount = 0, ls_compactionRecoveryCount = 0,
     ls_hasAttemptedCompaction = False, ls_hasAttemptedFallback = False, ls_activeProvider = ap_provider P,
     ls_activeModel = ap_model P, ls_turnStartEmitted = False, ls_cumulativeSavingsUsd = 0, ls_lastPressureEmitted = 0,
     ls_lastCompactionTurnIndex = - 1, ls_breaker = failed, ls_shared = shared, ls_events = [], ls_log = []\<rparr>"

definition start_session :: "'w LoopParams \<Rightarrow> 'w LoopState \<Rightarrow> (js_thrown + unit) \<times> 'w LoopState" where
  "start_session P s = lifecycle_hooks P True (SessionStartHook 0 (te_sessionId (ap_env P)) (ls_activeModel s))
     (emit [SessionStart (te_sessionId (ap_env P)) (ap_model P)] s)"

definition loop :: "'w LoopParams \<Rightarrow> Message list \<Rightarrow> 'w Shared \<Rightarrow> nat \<Rightarrow> (control \<times> 'w LoopState) option" where
  "loop P messages shared failed = (case start_session P (initial_state P messages shared failed) of
       (Inl e, s) \<Rightarrow> Some (Escaped e, s)
     | (Inr u, s) \<Rightarrow> run_loop P s)"

end
