(* ===== verification/LoopLife.thy ===== *)
theory LoopLife
  imports AgentLoop
begin

text \<open>
  The life of a session as an automaton over the event log. Each segment of the body of the loop has a
  lemma that it moves the automaton as the code means it; the rules of induction over the passes of a run collect them.
\<close>

section \<open>The life of a session\<close>

datatype life_kind =
    KStart | KEnd | KTurnStart nat | KTurnEnd nat | KOutput nat | KNote | KCheckpoint

fun event_kind :: "LoomEvent \<Rightarrow> life_kind" where
  "event_kind (SessionStart i m) = KStart"
| "event_kind (SessionEnd i r u n) = KEnd"
| "event_kind (TurnStart n) = KTurnStart n"
| "event_kind (TurnEnd n r u) = KTurnEnd n"
| "event_kind (LoopError c m b n) = KNote"
| "event_kind (ToolResultDropped d b n) = KNote"
| "event_kind (CompactionStarted t p n) = KNote"
| "event_kind (CompactionEnded t p q v n sk) = KNote"
| "event_kind (CheckpointSaved i n) = KCheckpoint"
| "event_kind (Recovery r a d n) = KOutput n"
| "event_kind (ContextPressure l t w n) = KOutput n"
| "event_kind (CacheStatus a b c d e n) = KOutput n"
| "event_kind e = (case content_turn e of Some n \<Rightarrow> KOutput n | None \<Rightarrow> KNote)"

text \<open>Outside a turn, with the number of the next one; in a turn; after the end.\<close>

datatype life = Fresh | Idle nat | InTurn nat | Over

text \<open>Which event may follow; \<open>limit\<close> is the number of turns allowed, 0 for any.\<close>

fun life_step :: "nat \<Rightarrow> life \<Rightarrow> life_kind \<Rightarrow> life option" where
  "life_step limit Fresh k = (if k = KStart then Some (Idle 0) else None)"
| "life_step limit Over k = None"
| "life_step limit (Idle n) k = (case k of
       KTurnStart m \<Rightarrow> (if m = n \<and> (limit > 0 \<longrightarrow> n < limit) then Some (InTurn n) else None)
     | KEnd \<Rightarrow> Some Over
     | KNote \<Rightarrow> Some (Idle n)
     | KCheckpoint \<Rightarrow> Some (Idle n)
     | _ \<Rightarrow> None)"
| "life_step limit (InTurn n) k = (case k of
       KTurnEnd m \<Rightarrow> (if m = n then Some (Idle (Suc n)) else None)
     | KOutput m \<Rightarrow> (if m = n then Some (InTurn n) else None)
     | KNote \<Rightarrow> Some (InTurn n)
     | _ \<Rightarrow> None)"

fun life_run :: "nat \<Rightarrow> life \<Rightarrow> LoomEvent list \<Rightarrow> life option" where
  "life_run limit l [] = Some l"
| "life_run limit l (e # es) = (case life_step limit l (event_kind e) of None \<Rightarrow> None | Some l' \<Rightarrow> life_run limit l' es)"

lemma life_run_append:
  "life_run limit l (as @ bs) = (case life_run limit l as of None \<Rightarrow> None | Some l' \<Rightarrow> life_run limit l' bs)"
  by (induction limit l as rule: life_run.induct) (auto split: option.split)

lemma life_run_notes: "list_all (\<lambda>e. event_kind e = KNote) es \<Longrightarrow> l = Idle n \<or> l = InTurn n \<Longrightarrow> life_run limit l es = Some l"
  by (induction es) auto

lemma life_run_output:
  "list_all (\<lambda>e. event_kind e = KOutput n \<or> event_kind e = KNote) es \<Longrightarrow> life_run limit (InTurn n) es = Some (InTurn n)"
  by (induction es) auto

lemma content_kind: "content_turn e = Some n \<Longrightarrow> event_kind e = KOutput n"
  by (cases e) simp_all

text \<open>What an accepted log says about the turns.\<close>

definition turn_starts :: "LoomEvent list \<Rightarrow> nat list" where
  "turn_starts es = List.map_filter (\<lambda>e. case e of TurnStart n \<Rightarrow> Some n | _ \<Rightarrow> None) es"

definition turn_ends :: "LoomEvent list \<Rightarrow> nat list" where
  "turn_ends es = List.map_filter (\<lambda>e. case e of TurnEnd n r u \<Rightarrow> Some n | _ \<Rightarrow> None) es"

fun turns_at :: "life \<Rightarrow> nat list \<times> nat list" where
  "turns_at (Idle n) = ([0..<n], [0..<n])"
| "turns_at (InTurn n) = ([0..<Suc n], [0..<n])"
| "turns_at l = ([], [])"

lemma life_step_turns:
  assumes "life_step limit l (event_kind e) = Some l'" "l' \<noteq> Over"
  shows "turns_at l' = (fst (turns_at l) @ turn_starts [e], snd (turns_at l) @ turn_ends [e])"
  using assms by (cases e; cases l)
    (auto simp: turn_starts_def turn_ends_def map_filter_simps split: if_splits option.splits)

lemma turns_append [simp]:
  "turn_starts (as @ bs) = turn_starts as @ turn_starts bs" "turn_ends (as @ bs) = turn_ends as @ turn_ends bs"
  by (simp_all add: turn_starts_def turn_ends_def List.map_filter_def)

lemma life_run_turns:
  "life_run limit Fresh es = Some l \<Longrightarrow> l \<noteq> Over \<Longrightarrow> (turn_starts es, turn_ends es) = turns_at l"
proof (induction es arbitrary: l rule: rev_induct)
  case (snoc e es)
  obtain l0 where l0: "life_run limit Fresh es = Some l0" "life_step limit l0 (event_kind e) = Some l"
    using snoc.prems(1) by (auto simp: life_run_append split: option.splits)
  have "l0 \<noteq> Over" using l0(2) by auto
  with snoc.IH [OF l0(1)] life_step_turns [OF l0(2) snoc.prems(2)] show ?case by (simp add: prod_eq_iff)
qed (simp add: turn_starts_def turn_ends_def map_filter_simps)

text \<open>At the top of the loop.\<close>

definition alive :: "'w LoopParams \<Rightarrow> 'w LoopState \<Rightarrow> bool" where
  "alive P s \<longleftrightarrow> life_run (ap_maxTurns P) Fresh (ls_events s) =
     Some (if ls_turnStartEmitted s then InTurn (ls_turnIndex s) else Idle (ls_turnIndex s))"

definition ended :: "'w LoopParams \<Rightarrow> control \<times> 'w LoopState \<Rightarrow> bool" where
  "ended P out = (case out of (c, s) \<Rightarrow> (case c of
       Again \<Rightarrow> alive P s
     | Finished r \<Rightarrow> (\<exists>es n. ls_events s = es @ [SessionEnd (te_sessionId (ap_env P)) (lr_reason r) (lr_totalUsage r) (lr_turnCount r)] \<and>
         life_run (ap_maxTurns P) Fresh es = Some (Idle n)) \<and> lr_messages r = ls_messages s
     | Escaped e \<Rightarrow> (\<exists>l. life_run (ap_maxTurns P) Fresh (ls_events s) = Some l \<and> l \<noteq> Over)))"

text \<open>A step that changes neither the log of calls nor a counter, and yields \<open>es\<close>.\<close>

definition frame :: "LoomEvent list \<Rightarrow> 'w LoopState \<Rightarrow> 'w LoopState \<Rightarrow> bool" where
  "frame es s s' \<longleftrightarrow> ls_events s' = ls_events s @ es \<and> ls_turnIndex s' = ls_turnIndex s \<and>
     ls_turnStartEmitted s' = ls_turnStartEmitted s \<and> ls_log s' = ls_log s \<and>
     ls_compactionRecoveryCount s' = ls_compactionRecoveryCount s \<and> ls_rateLimitRetryCount s' = ls_rateLimitRetryCount s \<and>
     ls_hasAttemptedFallback s' = ls_hasAttemptedFallback s"

lemma frame_trans: "frame as s1 s2 \<Longrightarrow> frame bs s2 s3 \<Longrightarrow> frame (as @ bs) s1 s3"
  by (simp add: frame_def)

lemma frame_refl: "frame [] s s"
  by (simp add: frame_def)

lemma hooks_shared:
  assumes "lifecycle_hooks P b ctx s = (r, s')"
  obtains sh where "s' = s\<lparr>ls_shared := sh\<rparr>"
proof (cases "te_hooks (ap_env P)")
  case None
  then show ?thesis using assms that [of "ls_shared s"] by (simp add: lifecycle_hooks_def)
next
  case (Some reg)
  show ?thesis
  proof (cases "hook_has reg (hook_event ctx)")
    case True
    obtain r1 told w where "hooks_run (te_num (ap_env P)) reg (te_egress (ap_env P))
        (if b then te_signal (ap_env P) else None) ctx (world_of s) = (r1, told, w)" by (metis prod_cases3)
    with Some True assms have "s' = remind_loop told (set_world w s)" by (simp add: lifecycle_hooks_def)
    then show ?thesis using that by (simp add: remind_loop_def set_world_def)
  next
    case False
    then show ?thesis using assms Some that [of "ls_shared s"] by (simp add: lifecycle_hooks_def)
  qed
qed

lemma hooks_frame: "lifecycle_hooks P b ctx s = (r, s') \<Longrightarrow> frame [] s s' \<and> ls_messages s' = ls_messages s"
  by (erule hooks_shared) (simp add: frame_def)

section \<open>Each segment keeps the life of the session\<close>

definition quiet :: "'w LoopState \<Rightarrow> 'w LoopState \<Rightarrow> bool" where
  "quiet s s' \<longleftrightarrow> (\<exists>es. frame es s s' \<and> list_all (\<lambda>e. event_kind e = KNote) es)"

lemma quiet_refl: "quiet s s"
  unfolding quiet_def using frame_refl by fastforce

lemma quiet_trans: "quiet a b \<Longrightarrow> quiet b c \<Longrightarrow> quiet a c"
  unfolding quiet_def using frame_trans by fastforce

lemma use_report_quiet: "quiet s (use_report r s)"
  by (simp add: use_report_def quiet_refl)
    (auto simp: quiet_def frame_def emit_def)

lemma snapshot_pass_quiet: "quiet s (snapshot_pass P s)"
  by (simp add: snapshot_pass_def quiet_refl use_report_quiet split: option.split)

lemma drop_pass_quiet: "quiet s (drop_pass P s)"
  by (simp add: drop_pass_def quiet_refl use_report_quiet split: option.split)

lemma use_compaction_quiet: "quiet s (use_compaction r s)"
  by (auto simp: use_compaction_def quiet_def frame_def emit_def remind_loop_def Let_def)

lemma compaction_pass_quiet: "quiet s (compaction_pass P s)"
proof (cases "ap_compaction P")
  case None
  then show ?thesis by (simp add: compaction_pass_def quiet_refl)
next
  case (Some cp)
  have w: "quiet s (set_world w (s\<lparr>ls_breaker := n\<rparr>))" for w n
    by (auto simp: quiet_def frame_def set_world_def)
  have e: "quiet s (emit [LoopError a b c d] (set_world w (s\<lparr>ls_breaker := n\<rparr>)))" for a b c d w n
    by (auto simp: quiet_def frame_def set_world_def emit_def)
  show ?thesis
    using Some w e quiet_trans [OF w use_compaction_quiet]
    by (simp add: compaction_pass_def Let_def split: prod.split sum.split option.split)
qed

lemma alive_quiet: "alive P s \<Longrightarrow> quiet s s' \<Longrightarrow> alive P s'"
  by (auto simp: alive_def quiet_def frame_def life_run_append life_run_notes)

lemma pressure_frame: "\<exists>es. frame es s (pressure P s) \<and> list_all (\<lambda>e. event_kind e = KOutput (ls_turnIndex s)) es"
proof -
  have step: "\<exists>es. frame es s (pressure_step u t s) \<and> list_all (\<lambda>e. event_kind e = KOutput (ls_turnIndex s)) es" for u t and s :: "'a LoopState"
    by (auto simp: pressure_step_def frame_def emit_def remind_loop_def)
  have "\<exists>es. frame es s (fold (pressure_step u) ts s) \<and> list_all (\<lambda>e. event_kind e = KOutput (ls_turnIndex s)) es" for u ts
  proof (induction ts arbitrary: s)
    case Nil
    then show ?case using frame_refl by fastforce
  next
    case (Cons t ts)
    obtain es where es: "frame es s (pressure_step u t s)" "list_all (\<lambda>e. event_kind e = KOutput (ls_turnIndex s)) es"
      using step by blast
    have i: "ls_turnIndex (pressure_step u t s) = ls_turnIndex s" using es(1) by (simp add: frame_def)
    obtain es' where es': "frame es' (pressure_step u t s) (fold (pressure_step u) ts (pressure_step u t s))"
        "list_all (\<lambda>e. event_kind e = KOutput (ls_turnIndex s)) es'"
      using Cons.IH [of "pressure_step u t s"] i by auto
    show ?case using frame_trans [OF es(1) es'(1)] es(2) es'(2) by fastforce
  qed
  note all = this
  show ?thesis
  proof (cases "ls_lastCompactionTurnIndex s \<ge> 0 \<and> int (ls_turnIndex s) - ls_lastCompactionTurnIndex s \<le> 2")
    case True
    have "pressure P s = s" unfolding pressure_def Let_def by (rule if_P [OF True])
    then show ?thesis using frame_refl [of s] by (intro exI [of _ "[]"]) simp
  next
    case False
    have "pressure P s = fold (pressure_step (context_usage P s)) [6 / 10, 7 / 10, 8 / 10] s"
      unfolding pressure_def Let_def by (rule if_not_P [OF False])
    then show ?thesis using all by metis
  qed
qed

text \<open>In a turn, as after \<open>prepare\<close>.\<close>

definition in_turn :: "'w LoopParams \<Rightarrow> 'w LoopState \<Rightarrow> bool" where
  "in_turn P s \<longleftrightarrow> life_run (ap_maxTurns P) Fresh (ls_events s) = Some (InTurn (ls_turnIndex s)) \<and> ls_turnStartEmitted s"

definition between :: "'w LoopParams \<Rightarrow> 'w LoopState \<Rightarrow> bool" where
  "between P s \<longleftrightarrow> (\<exists>n. life_run (ap_maxTurns P) Fresh (ls_events s) = Some (Idle n))"

lemma in_turn_alive: "in_turn P s \<Longrightarrow> alive P s"
  by (simp add: in_turn_def alive_def)

lemma in_turn_frame:
  "in_turn P s \<Longrightarrow> frame es s s' \<Longrightarrow> list_all (\<lambda>e. event_kind e = KOutput (ls_turnIndex s) \<or> event_kind e = KNote) es \<Longrightarrow> in_turn P s'"
  by (simp add: in_turn_def frame_def life_run_append life_run_output)

lemma in_turn_escaped: "in_turn P s \<Longrightarrow> ended P (Escaped e, s)"
  by (simp add: in_turn_def ended_def)

lemma endSession_ended:
  assumes "between P s"
  shows "ended P (endSession P reason s)"
proof -
  obtain r s1 where h: "lifecycle_hooks P False (SessionEndHook (lr_turnCount (finalize s reason) - 1)
      (te_sessionId (ap_env P)) (stop_text reason)) s = (r, s1)" by (metis surj_pair)
  note f = hooks_frame [OF h]
  have ev: "ls_events s1 = ls_events s" using f by (simp add: frame_def)
  obtain n where n: "life_run (ap_maxTurns P) Fresh (ls_events s) = Some (Idle n)" using assms by (auto simp: between_def)
  show ?thesis
  proof (cases r)
    case (Inl e)
    then show ?thesis using h ev n by (simp add: endSession_def Let_def ended_def)
  next
    case (Inr u)
    have "lr_reason (finalize s reason) = reason" by (simp add: finalize_def Let_def)
    moreover have "lr_messages (finalize s reason) = ls_messages s" by (simp add: finalize_def Let_def)
    ultimately show ?thesis using h ev n Inr f by (simp add: endSession_def Let_def ended_def emit_def)
  qed
qed

lemma close_turn_between: "alive P s \<Longrightarrow> between P (close_turn reason u s)"
  by (auto simp: alive_def between_def close_turn_def emit_def life_run_append)

lemma note_alive: "alive P s \<Longrightarrow> event_kind e = KNote \<Longrightarrow> alive P (emit [e] s)"
  by (simp add: alive_def emit_def life_run_append)

lemma stop_now_ended: "alive P s \<Longrightarrow> ended P (stop_now P reason s)"
  unfolding stop_now_def by (intro endSession_ended close_turn_between)

lemma limits_ended: "alive P s \<Longrightarrow> check_limits P s = Some out \<Longrightarrow> ended P out"
  by (auto simp: check_limits_def split: if_splits intro!: stop_now_ended note_alive)

lemma unrecoverable_ended:
  assumes "alive P s"
  shows "ended P (unrecoverable P err s)"
proof -
  let ?s1 = "close_turn ErrorStop (zero_usage (ls_activeModel s)) (emit [LoopError (error_code err) (thrown_message err) False (ls_turnIndex s)] s)"
  have b: "between P ?s1" by (intro close_turn_between note_alive assms) simp
  obtain r s2 where h: "lifecycle_hooks P False (ErrorHook (ls_turnIndex s) (error_code err) (thrown_message err)) ?s1 = (r, s2)"
    by (metis surj_pair)
  have b2: "between P s2" using b hooks_frame [OF h] by (simp add: between_def frame_def)
  show ?thesis
  proof (cases r)
    case (Inl e)
    then show ?thesis using b2 h by (auto simp: unrecoverable_def Let_def ended_def between_def)
  next
    case (Inr u)
    then show ?thesis using endSession_ended [OF b2] h by (simp add: unrecoverable_def Let_def)
  qed
qed

lemma again_ended: "in_turn P s \<Longrightarrow> ended P (Again, s)"
  by (simp add: ended_def in_turn_alive)

lemma try_fallback_ended:
  assumes "in_turn P s"
  shows "ended P (try_fallback P err s)"
proof (cases "truthy (ap_fallbackModel P)")
  case None
  then show ?thesis using unrecoverable_ended [OF in_turn_alive [OF assms]] by (simp add: try_fallback_def)
next
  case (Some m)
  define s2 where "s2 = (case ap_resolveProvider P m of
      Inr p \<Rightarrow> (s\<lparr>ls_hasAttemptedFallback := True, ls_rateLimitRetryCount := 0\<rparr>)\<lparr>ls_activeProvider := p, ls_activeModel := m\<rparr>
    | Inl e \<Rightarrow> s\<lparr>ls_hasAttemptedFallback := True, ls_rateLimitRetryCount := 0\<rparr>)"
  have t: "in_turn P s2" using assms by (simp add: s2_def in_turn_def split: sum.split)
  have "in_turn P (emit [Recovery a b c (ls_turnIndex s2)] s2)" for a b c
    using t by (simp add: in_turn_def emit_def life_run_append)
  from again_ended [OF this] show ?thesis
    using Some unrecoverable_ended [OF in_turn_alive [OF t]] unrecoverable_ended [OF in_turn_alive [OF assms]]
    by (simp add: try_fallback_def Let_def s2_def [symmetric])
qed

lemma rate_limited_ended:
  assumes "in_turn P s"
  shows "ended P (rate_limited P e s)"
proof -
  let ?s1 = "s\<lparr>ls_rateLimitRetryCount := ls_rateLimitRetryCount s + 1\<rparr>"
  have t: "in_turn P ?s1" using assms by (simp add: in_turn_def)
  have "in_turn P (set_world w (emit [Recovery a k d (ls_turnIndex ?s1)] ?s1))" for w a k d
    using t by (simp add: in_turn_def emit_def set_world_def life_run_append)
  from again_ended [OF this] show ?thesis
    using try_fallback_ended [OF t] unrecoverable_ended [OF in_turn_alive [OF assms]]
    by (auto simp: rate_limited_def Let_def)
qed

lemma force_compaction_frame: "force_compaction P s = (r, s') \<Longrightarrow> frame [] s s'"
  by (auto simp: force_compaction_def frame_def set_world_def split: option.splits prod.splits)

lemma recover_ended:
  assumes "in_turn P s"
  shows "ended P (recover P err s)"
proof (cases err)
  case (ThrownProvider e)
  let ?s0 = "emit [Recovery ''prompt_too_long'' (ls_compactionRecoveryCount s + 1) ''Attempting reactive compaction'' (ls_turnIndex s)] s"
  have t0: "in_turn P ?s0" using assms by (simp add: in_turn_def emit_def life_run_append)
  obtain r s1 where fc: "force_compaction P ?s0 = (r, s1)" by (metis surj_pair)
  have t1: "in_turn P s1" by (rule in_turn_frame [OF t0 force_compaction_frame [OF fc]]) simp
  have "in_turn P (s1\<lparr>ls_messages := ms, ls_hasAttemptedCompaction := True, ls_compactionRecoveryCount := k\<rparr>)" for ms k
    using t1 by (simp add: in_turn_def)
  from again_ended [OF this] show ?thesis
    using ThrownProvider fc rate_limited_ended [OF t1] rate_limited_ended [OF assms]
    by (auto simp: recover_def split: option.split)
qed (use unrecoverable_ended [OF in_turn_alive [OF assms]] in \<open>simp_all add: recover_def\<close>)

lemma without_tools_ended:
  assumes "in_turn P s"
  shows "ended P (without_tools P r s)"
proof -
  have "between P ((emit [TurnEnd (ls_turnIndex s) x u] s)\<lparr>ls_turnStartEmitted := False\<rparr>)" for x u
    using assms by (simp add: in_turn_def between_def emit_def life_run_append)
  from endSession_ended [OF this] show ?thesis
    using assms by (auto simp: without_tools_def Let_def ended_def alive_def in_turn_def emit_def life_run_append)
qed

lemma save_checkpoint_between: "between P s \<Longrightarrow> life_run (ap_maxTurns P) Fresh (ls_events (save_checkpoint P s)) =
    life_run (ap_maxTurns P) Fresh (ls_events s)"
  by (auto simp: save_checkpoint_def between_def emit_def set_world_def life_run_append split: option.split prod.split sum.split)

lemma with_tools_ended:
  assumes "in_turn P s"
  shows "ended P (with_tools P r calls s)"
proof -
  obtain res evs lg sh where x: "executeTools (ap_env P) (ap_tools P) (ls_turnIndex s) (ap_schedule P (world_of s)) calls (ls_shared s) = (res, evs, lg, sh)"
    by (metis prod_cases4)
  have "list_all (\<lambda>e. content_turn e = Some (ls_turnIndex s)) evs" using executeTools_ok [OF x] by simp
  then have evs: "list_all (\<lambda>e. event_kind e = KOutput (ls_turnIndex s) \<or> event_kind e = KNote) evs"
    by (auto simp: list_all_iff content_kind)
  define s1 where "s1 = (emit evs s)\<lparr>ls_shared := sh, ls_log := ls_log s @ lg\<rparr>"
  have t1: "in_turn P s1" using assms evs by (simp add: in_turn_def s1_def emit_def life_run_append life_run_output)
  show ?thesis
  proof (cases res)
    case (Inl e)
    then show ?thesis using x in_turn_escaped [OF t1] by (simp add: with_tools_def s1_def [symmetric])
  next
    case (Inr rs)
    define s3 where "s3 = (emit [TurnEnd (ls_turnIndex (s1\<lparr>ls_messages := ls_messages s1 @ map result_message rs\<rparr>)) ToolUseStop (sr_usage r)] (s1\<lparr>ls_messages := ls_messages s1 @ map result_message rs\<rparr>))
       \<lparr>ls_turnStartEmitted := False\<rparr>"
    have i3: "life_run (ap_maxTurns P) Fresh (ls_events s3) = Some (Idle (Suc (ls_turnIndex s3)))"
        "ls_turnStartEmitted s3 = False"
      using t1 by (simp_all add: s3_def in_turn_def emit_def life_run_append)
    have b3: "between P s3" using i3 by (auto simp: between_def)
    have same: "ls_turnIndex (save_checkpoint P s3) = ls_turnIndex s3" "\<not> ls_turnStartEmitted (save_checkpoint P s3)"
      using i3(2) by (auto simp: save_checkpoint_def emit_def set_world_def split: option.split prod.split sum.split)
    have "alive P (next_turn (save_checkpoint P s3))"
      using save_checkpoint_between [OF b3] i3(1) same by (simp add: alive_def next_turn_def)
    then show ?thesis
      by (simp only: with_tools_def x Inr prod.case sum.case Let_def s1_def [symmetric] s3_def [symmetric] ended_def control.case)
  qed
qed

lemma after_call_ended:
  assumes "in_turn P s"
  shows "ended P (after_call P r s)"
proof -
  let ?s1 = "s\<lparr>ls_messages := ls_messages s @ [AssistantMessage (sr_content r)]\<rparr>"
  have t1: "in_turn P ?s1" using assms by (simp add: in_turn_def)
  obtain h s2 where h: "lifecycle_hooks P True (ModelPostHook (ls_turnIndex ?s1) (ls_activeModel ?s1) (stop_text (sr_stopReason r))
      (tu_inputTokens (sr_usage r)) (tu_outputTokens (sr_usage r)) (tu_costUsd (sr_usage r))
      (length (extractToolCalls (sr_content r)))) ?s1 = (h, s2)" by (metis surj_pair)
  have t2: "in_turn P s2" by (rule in_turn_frame [OF t1]) (use hooks_frame [OF h] in auto)
  show ?thesis
    using h in_turn_escaped [OF t2] without_tools_ended [OF t2] with_tools_ended [OF t2]
    by (auto simp: after_call_def Let_def split: sum.split)
qed

lemma account_call_turn: "in_turn P s \<Longrightarrow> in_turn P (account_call P u s)"
  by (simp add: account_call_def Let_def in_turn_def emit_def life_run_append)

lemma call_model_ended:
  assumes "in_turn P s"
  shows "ended P (call_model P request s)"
proof -
  obtain res evs w where x: "streamModelResponse (ap_catalog P) (ls_activeProvider s) request (tool_ui P) (ls_turnIndex s)
             (te_egress (ap_env P)) (aborted_now P) (ls_activeModel s) (world_of s) = (res, evs, w)" by (metis prod_cases3)
  have "list_all (\<lambda>e. content_turn e = Some (ls_turnIndex s)) evs" using stream_ok [OF x] by simp
  then have evs: "list_all (\<lambda>e. event_kind e = KOutput (ls_turnIndex s) \<or> event_kind e = KNote) evs"
    by (auto simp: list_all_iff content_kind)
  have t1: "in_turn P (emit evs (set_world w s))"
    using assms evs by (simp add: in_turn_def emit_def set_world_def life_run_append life_run_output)
  show ?thesis
    using x recover_ended [OF t1] after_call_ended [OF account_call_turn [OF t1]]
    by (simp add: call_model_def Let_def split: sum.split)
qed

lemma start_turn_in_turn:
  assumes "alive P s" "ap_maxTurns P > 0 \<longrightarrow> ls_turnIndex s < ap_maxTurns P"
  shows "in_turn P (start_turn s)"
  using assms by (auto simp: start_turn_def in_turn_def alive_def emit_def life_run_append split: if_splits)

lemma prepare_in_turn:
  assumes "alive P s" "check_limits P s = None"
  shows "in_turn P (prepare P s)"
proof -
  let ?s1 = "compaction_pass P (drop_pass P (snapshot_pass P s))"
  have q: "quiet s ?s1"
    by (rule quiet_trans [OF quiet_trans [OF snapshot_pass_quiet drop_pass_quiet] compaction_pass_quiet])
  have i: "ls_turnIndex ?s1 = ls_turnIndex s" using q by (auto simp: quiet_def frame_def)
  have "ap_maxTurns P > 0 \<longrightarrow> ls_turnIndex s < ap_maxTurns P"
    using assms(2) by (auto simp: check_limits_def split: if_splits)
  then have t: "in_turn P (start_turn ?s1)" using start_turn_in_turn [OF alive_quiet [OF assms(1) q]] i by simp
  obtain es where "frame es (start_turn ?s1) (pressure P (start_turn ?s1))"
      "list_all (\<lambda>e. event_kind e = KOutput (ls_turnIndex (start_turn ?s1))) es" using pressure_frame by blast
  then show ?thesis unfolding prepare_def by (intro in_turn_frame [OF t]) (auto simp: list_all_iff)
qed

lemma drain_reminders_frame: "drain_reminders s = (r, s') \<Longrightarrow> frame [] s s' \<and> ls_messages s' = ls_messages s"
  by (auto simp: drain_reminders_def frame_def split: option.splits prod.splits)

lemma build_request_frame:
  assumes "build_request P s = (r, s')"
  shows "frame [] s s' \<and> ls_messages s' = ls_messages s"
proof (cases "buildSystemRequestBlocks (ap_systemPrompt P) (max 0 (int CACHE_CONTROL_MARKER_LIMIT - 1)) (ap_cacheProfile P)")
  case (Inl e)
  then show ?thesis using assms by (simp add: build_request_def frame_refl)
next
  case (Inr system)
  obtain h s1 where h: "lifecycle_hooks P True (ModelPreHook (ls_turnIndex s) (ls_activeModel s) (length (ls_messages s))) s = (h, s1)"
    by (metis surj_pair)
  obtain d s2 where d: "drain_reminders s1 = (d, s2)" by (metis surj_pair)
  have "s' = s1 \<or> s' = s2" using assms Inr h d by (auto simp: build_request_def split: sum.splits)
  then show ?thesis using hooks_frame [OF h] drain_reminders_frame [OF d] frame_trans [of "[]" s s1 "[]" s2] by auto
qed

lemma iteration_ended:
  assumes "alive P s"
  shows "ended P (iteration P s)"
proof (cases "check_limits P s")
  case None
  obtain r s1 where b: "build_request P (prepare P s) = (r, s1)" by (metis surj_pair)
  have t: "in_turn P s1" by (rule in_turn_frame [OF prepare_in_turn [OF assms None]]) (use build_request_frame [OF b] in auto)
  show ?thesis using None b in_turn_escaped [OF t] call_model_ended [OF t] by (simp add: iteration_def split: sum.split)
qed (use limits_ended [OF assms] in \<open>simp add: iteration_def\<close>)

section \<open>Runs\<close>

text \<open>Induction over the passes of a run that ends.\<close>

lemma run_loop_induct:
  assumes run: "run_loop P s = Some out"
    and last: "\<And>s c s1. iteration P s = (c, s1) \<Longrightarrow> c \<noteq> Again \<Longrightarrow> Z s (c, s1)"
    and more: "\<And>s s1 out. iteration P s = (Again, s1) \<Longrightarrow> Z s1 out \<Longrightarrow> Z s out"
  shows "Z s out"
proof -
  let ?Z = "\<lambda>(Q, t) out. Q = P \<longrightarrow> Z t out"
  have "?Z (P, s) out"
  proof (rule run_loop.raw_induct [of ?Z, OF _ run])
    fix rl :: "'a LoopParams \<Rightarrow> 'a LoopState \<Rightarrow> (control \<times> 'a LoopState) option" and Q t out
    assume IH: "\<And>Q t out. rl Q t = Some out \<Longrightarrow> ?Z (Q, t) out"
      and body: "(case iteration Q t of (c, s1) \<Rightarrow> if c = Again then rl Q s1 else Some (c, s1)) = Some out"
    obtain c s1 where it: "iteration Q t = (c, s1)" by (metis surj_pair)
    show "?Z (Q, t) out"
      using body it IH [of Q s1 out] last [of t c s1] more [of t s1 out] by (auto split: if_splits)
  qed
  then show ?thesis by simp
qed

lemma run_loop_invariant:
  assumes "\<And>s. I s \<Longrightarrow> J (iteration P s)" "\<And>s. J (Again, s) \<Longrightarrow> I s" and "run_loop P s = Some out" "I s"
  shows "J out"
proof -
  have "I s \<longrightarrow> J out"
    by (rule run_loop_induct [OF assms(3), of "\<lambda>s out. I s \<longrightarrow> J out"]) (use assms(1,2) in metis)+
  then show ?thesis using assms(4) by simp
qed

lemma run_loop_ends: "run_loop P s = Some out \<Longrightarrow> fst out \<noteq> Again"
  by (rule run_loop_induct [of P s out "\<lambda>s out. fst out \<noteq> Again"]) auto

lemma start_session_alive: "start_session P (initial_state P ms sh b) = (r, s) \<Longrightarrow>
    life_run (ap_maxTurns P) Fresh (ls_events s) = Some (Idle 0) \<and> alive P s \<and> ls_messages s = ms \<and> ls_log s = [] \<and>
    ls_turnIndex s = 0 \<and> ls_hasAttemptedFallback s = False \<and> ls_compactionRecoveryCount s = 0 \<and> ls_rateLimitRetryCount s = 0"
  unfolding start_session_def
  by (drule hooks_frame) (simp add: frame_def emit_def initial_state_def alive_def)

lemma loop_invariant:
  assumes "\<And>s. I s \<Longrightarrow> J (iteration P s)" "\<And>s. J (Again, s) \<Longrightarrow> I s"
    and "\<And>e s r. start_session P (initial_state P ms sh b) = (r, s) \<Longrightarrow> I s \<and> J (Escaped e, s)"
    and "loop P ms sh b = Some out"
  shows "J out"
proof -
  obtain r s where st: "start_session P (initial_state P ms sh b) = (r, s)" by (metis surj_pair)
  show ?thesis
  proof (cases r)
    case (Inl e)
    then show ?thesis using assms(3) [OF st, of e] assms(4) st by (simp add: loop_def)
  next
    case (Inr u)
    then have "run_loop P s = Some out" using assms(4) st by (simp add: loop_def)
    from run_loop_invariant [of I J, OF assms(1,2) this] show ?thesis using assms(3) [OF st] by blast
  qed
qed

lemma loop_not_again: "loop P ms sh b = Some (c, s) \<Longrightarrow> c \<noteq> Again"
  by (auto simp: loop_def split: prod.splits sum.splits dest!: run_loop_ends)

end
