(* ===== verification/LoopEnd.thy ===== *)
theory LoopEnd
  imports LoopLife
begin

text \<open>
  Why the agent loop ends when turns are limited: a measure on the counters of its state that every pass which
  goes on decreases, and the loop cut off after a number of passes as a function to compare with.
\<close>

section \<open>The measure\<close>

text \<open>How many more passes the counters of a state allow.\<close>

definition passes_left :: "'w LoopParams \<Rightarrow> 'w LoopState \<Rightarrow> nat" where
  "passes_left P s = (ap_maxTurns P - ls_turnIndex s) * 14 + (if ls_hasAttemptedFallback s then 0 else 12) +
     (MAX_COMPACTION_RECOVERY - ls_compactionRecoveryCount s) + (11 - ls_rateLimitRetryCount s)"

definition same_counters :: "'w LoopState \<Rightarrow> 'w LoopState \<Rightarrow> bool" where
  "same_counters s s' \<longleftrightarrow> ls_turnIndex s' = ls_turnIndex s \<and> ls_hasAttemptedFallback s' = ls_hasAttemptedFallback s \<and>
     ls_compactionRecoveryCount s' = ls_compactionRecoveryCount s \<and> ls_rateLimitRetryCount s' = ls_rateLimitRetryCount s"

lemma same_counters_left: "same_counters s s' \<Longrightarrow> passes_left P s' = passes_left P s"
  by (simp add: same_counters_def passes_left_def)

lemma same_counters_turn: "same_counters s s' \<Longrightarrow> ls_turnIndex s' = ls_turnIndex s"
  by (simp add: same_counters_def)

lemma same_counters_trans: "same_counters a b \<Longrightarrow> same_counters b c \<Longrightarrow> same_counters a c"
  by (simp add: same_counters_def)

lemma frame_counters: "frame es s s' \<Longrightarrow> same_counters s s'"
  by (simp add: frame_def same_counters_def)

lemma prepare_counters: "same_counters s (prepare P s)"
proof -
  let ?s1 = "compaction_pass P (drop_pass P (snapshot_pass P s))"
  have "quiet s ?s1"
    by (rule quiet_trans [OF quiet_trans [OF snapshot_pass_quiet drop_pass_quiet] compaction_pass_quiet])
  then have "same_counters s ?s1" by (auto simp: quiet_def dest: frame_counters)
  moreover have "same_counters ?s1 (start_turn ?s1)" by (simp add: same_counters_def start_turn_def emit_def)
  moreover have "same_counters (start_turn ?s1) (pressure P (start_turn ?s1))"
    using pressure_frame frame_counters by metis
  ultimately show ?thesis unfolding prepare_def by (blast intro: same_counters_trans)
qed

lemma endSession_last: "endSession P r s \<noteq> (Again, s')"
  by (auto simp: endSession_def Let_def split: prod.split sum.split)

lemma unrecoverable_last: "unrecoverable P e s \<noteq> (Again, s')"
  by (auto simp: unrecoverable_def Let_def endSession_last split: prod.split sum.split)

lemma limits_last: "check_limits P s = Some out \<Longrightarrow> out \<noteq> (Again, s')"
  by (auto simp: check_limits_def stop_now_def endSession_last split: if_splits)

lemma try_fallback_left: "try_fallback P e s = (Again, s') \<Longrightarrow> passes_left P s' < passes_left P (s\<lparr>ls_rateLimitRetryCount := k\<rparr>)"
  by (auto simp: try_fallback_def Let_def unrecoverable_last passes_left_def emit_def split: option.splits if_splits sum.splits)

lemma rate_limited_left: "rate_limited P e s = (Again, s') \<Longrightarrow> passes_left P s' < passes_left P s"
proof -
  assume r: "rate_limited P e s = (Again, s')"
  let ?s1 = "s\<lparr>ls_rateLimitRetryCount := ls_rateLimitRetryCount s + 1\<rparr>"
  show ?thesis
  proof (cases "ls_rateLimitRetryCount s + 1 \<le> 10")
    case True
    then show ?thesis using r by (auto simp: rate_limited_def Let_def unrecoverable_last passes_left_def emit_def set_world_def split: if_splits)
  next
    case False
    then have "try_fallback P (ThrownProvider e) ?s1 = (Again, s')"
      using r by (auto simp: rate_limited_def Let_def unrecoverable_last split: if_splits)
    from try_fallback_left [OF this, of "ls_rateLimitRetryCount s"] show ?thesis by simp
  qed
qed

lemma recover_left:
  assumes "recover P err s = (Again, s')"
  shows "passes_left P s' < passes_left P s"
proof (cases err)
  case (ThrownProvider e)
  let ?s0 = "emit [Recovery ''prompt_too_long'' (ls_compactionRecoveryCount s + 1) ''Attempting reactive compaction'' (ls_turnIndex s)] s"
  obtain r s1 where fc: "force_compaction P ?s0 = (r, s1)" by (metis surj_pair)
  have "same_counters ?s0 s1" using force_compaction_frame [OF fc] by (rule frame_counters)
  then have c: "same_counters s s1" by (simp add: same_counters_def emit_def)
  have rl: "rate_limited P e t = (Again, s') \<Longrightarrow> same_counters s t \<Longrightarrow> passes_left P s' < passes_left P s" for t
    using rate_limited_left [of P e t s'] same_counters_left [of s t P] by simp
  have again: "ls_compactionRecoveryCount s < MAX_COMPACTION_RECOVERY \<Longrightarrow>
      passes_left P (s1\<lparr>ls_messages := ms, ls_hasAttemptedCompaction := True,
        ls_compactionRecoveryCount := ls_compactionRecoveryCount s1 + 1\<rparr>) < passes_left P s" for ms
    using c by (simp add: passes_left_def same_counters_def)
  show ?thesis
    using assms ThrownProvider fc rl [OF _ c] rate_limited_left [of P e s s'] again
    by (auto simp: recover_def split: if_splits option.splits)
qed (use assms in \<open>simp_all add: recover_def unrecoverable_last\<close>)

lemma without_tools_left:
  "without_tools P r s = (Again, s') \<Longrightarrow> ls_turnIndex s < ap_maxTurns P \<Longrightarrow> passes_left P s' < passes_left P s"
  by (auto simp: without_tools_def Let_def endSession_last passes_left_def emit_def split: if_splits)

lemma save_checkpoint_counters: "same_counters s (save_checkpoint P s)"
  by (auto simp: save_checkpoint_def same_counters_def emit_def set_world_def split: option.split prod.split sum.split)

lemma next_turn_left: "ls_turnIndex s < ap_maxTurns P \<Longrightarrow> passes_left P (next_turn s) < passes_left P s"
proof -
  assume "ls_turnIndex s < ap_maxTurns P"
  then have "(ap_maxTurns P - ls_turnIndex s) * 14 = 14 + (ap_maxTurns P - Suc (ls_turnIndex s)) * 14"
    by (simp add: Suc_diff_Suc [symmetric] del: Suc_diff_Suc)
  then show ?thesis by (simp add: next_turn_def passes_left_def MAX_COMPACTION_RECOVERY_def)
qed

lemma with_tools_left:
  assumes "with_tools P r calls s = (Again, s')" "ls_turnIndex s < ap_maxTurns P"
  shows "passes_left P s' < passes_left P s"
proof -
  obtain t where t: "s' = next_turn (save_checkpoint P t)" "same_counters s t"
    using assms(1) by (auto simp: with_tools_def Let_def same_counters_def emit_def split: prod.splits sum.splits)
  have c: "same_counters s (save_checkpoint P t)" by (rule same_counters_trans [OF t(2) save_checkpoint_counters])
  show ?thesis
    unfolding t(1) using next_turn_left [of "save_checkpoint P t" P] same_counters_left [OF c, of P]
      same_counters_turn [OF c] assms(2) by simp
qed

lemma after_call_left:
  assumes "after_call P r s = (Again, s')" "ls_turnIndex s < ap_maxTurns P"
  shows "passes_left P s' < passes_left P s"
proof -
  let ?s1 = "s\<lparr>ls_messages := ls_messages s @ [AssistantMessage (sr_content r)]\<rparr>"
  obtain h s2 where h: "lifecycle_hooks P True (ModelPostHook (ls_turnIndex ?s1) (ls_activeModel ?s1) (stop_text (sr_stopReason r))
      (tu_inputTokens (sr_usage r)) (tu_outputTokens (sr_usage r)) (tu_costUsd (sr_usage r))
      (length (extractToolCalls (sr_content r)))) ?s1 = (h, s2)" by (metis surj_pair)
  have "same_counters ?s1 s2" using hooks_frame [OF h] frame_counters by blast
  then have c: "same_counters s s2" by (simp add: same_counters_def)
  have lt: "ls_turnIndex s2 < ap_maxTurns P" using c assms(2) by (simp add: same_counters_def)
  have "passes_left P s' < passes_left P s2"
    using assms(1) h without_tools_left [OF _ lt] with_tools_left [OF _ lt]
    by (auto simp: after_call_def Let_def split: sum.splits if_splits)
  then show ?thesis using same_counters_left [OF c, of P] by simp
qed

lemma call_model_left:
  assumes "call_model P request s = (Again, s')" "ls_turnIndex s < ap_maxTurns P"
  shows "passes_left P s' < passes_left P s"
proof -
  obtain res evs w where x: "streamModelResponse (ap_catalog P) (ls_activeProvider s) request (tool_ui P) (ls_turnIndex s)
             (te_egress (ap_env P)) (aborted_now P) (ls_activeModel s) (world_of s) = (res, evs, w)" by (metis prod_cases3)
  let ?s1 = "emit evs (set_world w s)"
  have c: "same_counters s ?s1" by (simp add: same_counters_def emit_def set_world_def)
  have c2: "same_counters s (account_call P u ?s1)" for u
    by (simp add: account_call_def Let_def same_counters_def emit_def set_world_def)
  have after: "after_call P r (account_call P u ?s1) = (Again, s') \<Longrightarrow> passes_left P s' < passes_left P s" for r u
    using after_call_left [of P r "account_call P u ?s1" s'] same_counters_left [OF c2, of P u] same_counters_turn [OF c2, of u] assms(2)
    by simp
  show ?thesis
    using assms(1) x recover_left [of P _ ?s1 s'] same_counters_left [OF c, of P] after
    by (auto simp: call_model_def Let_def split: sum.splits)
qed

lemma iteration_left:
  assumes "iteration P s = (Again, s')" "ap_maxTurns P > 0"
  shows "passes_left P s' < passes_left P s"
proof (cases "check_limits P s")
  case None
  obtain r s1 where b: "build_request P (prepare P s) = (r, s1)" by (metis surj_pair)
  have "same_counters (prepare P s) s1" using build_request_frame [OF b] frame_counters by blast
  then have c: "same_counters s s1" by (rule same_counters_trans [OF prepare_counters])
  have "ls_turnIndex s < ap_maxTurns P" using None assms(2) by (auto simp: check_limits_def split: if_splits)
  then have lt: "ls_turnIndex s1 < ap_maxTurns P" using same_counters_turn [OF c] by simp
  have "passes_left P s' < passes_left P s1"
    using assms(1) None b call_model_left [OF _ lt] by (auto simp: iteration_def split: sum.splits)
  then show ?thesis using same_counters_left [OF c, of P] by simp
next
  case (Some out)
  then show ?thesis using assms(1) limits_last [OF Some, of s'] by (simp add: iteration_def)
qed

text \<open>The loop cut off after a number of passes.\<close>

fun passes :: "'w LoopParams \<Rightarrow> nat \<Rightarrow> 'w LoopState \<Rightarrow> control \<times> 'w LoopState" where
  "passes P 0 s = (Again, s)"
| "passes P (Suc n) s = (case iteration P s of (c, s1) \<Rightarrow> (if c = Again then passes P n s1 else (c, s1)))"

lemma passes_run_loop: "fst (passes P n s) \<noteq> Again \<Longrightarrow> run_loop P s = Some (passes P n s)"
proof (induction n arbitrary: s)
  case (Suc n)
  obtain c s1 where it: "iteration P s = (c, s1)" by (metis surj_pair)
  show ?case using Suc.IH [of s1] Suc.prems it by (subst run_loop.simps) (auto split: if_splits)
qed simp

lemma passes_enough:
  assumes "ap_maxTurns P > 0"
  shows "passes_left P s < n \<Longrightarrow> fst (passes P n s) \<noteq> Again"
proof (induction n arbitrary: s)
  case (Suc n)
  obtain c s1 where it: "iteration P s = (c, s1)" by (metis surj_pair)
  show ?case
  proof (cases "c = Again")
    case True
    have "passes_left P s1 < n" using iteration_left [of P s s1] it True assms Suc.prems by simp
    then show ?thesis using Suc.IH [of s1] it True by simp
  qed (use it in simp)
qed simp

lemma loop_ends:
  assumes "ap_maxTurns P > 0"
  shows "\<exists>c s. loop P ms sh b = Some (c, s) \<and> c \<noteq> Again \<and>
    (case start_session P (initial_state P ms sh b) of
       (Inl e, s0) \<Rightarrow> (c, s) = (Escaped e, s0)
     | (Inr u, s0) \<Rightarrow> (c, s) = passes P (14 * ap_maxTurns P + 26) s0)"
proof -
  obtain r s0 where st: "start_session P (initial_state P ms sh b) = (r, s0)" by (metis surj_pair)
  have "passes_left P s0 < 14 * ap_maxTurns P + 26"
    using start_session_alive [OF st] by (simp add: passes_left_def MAX_COMPACTION_RECOVERY_def)
  note run = passes_enough [OF assms this] passes_run_loop [OF passes_enough [OF assms this]]
  obtain c s where cs: "passes P (14 * ap_maxTurns P + 26) s0 = (c, s)" by (metis surj_pair)
  show ?thesis using st run cs by (cases r) (simp_all add: loop_def)
qed

end
