(* ===== verification/LoopHistory.thy ===== *)
theory LoopHistory
  imports LoopEnd
begin

text \<open>
  What the agent loop keeps of the history, and the gate in front of the tools over a whole run. The order
  that providers require is preserved by the rewriting passes, by dropping rounds, by a summary in front of them, and by the
  messages a turn adds.
\<close>

section \<open>The history\<close>

text \<open>Every call is answered before the next assistant or real user message, and none is open at the end.\<close>

definition opens :: "Message \<Rightarrow> bool" where
  "opens m \<longleftrightarrow> isRealUserMessage m \<or> role m = Assistant"

fun calls_answered :: "string set \<Rightarrow> Message list \<Rightarrow> bool" where
  "calls_answered owed [] = (owed = {})"
| "calls_answered owed (m # ms) =
     (if opens m then owed = {} \<and> calls_answered (set (uses m)) ms else calls_answered (owed - set (results m)) ms)"

definition well_ordered :: "Message list \<Rightarrow> bool" where
  "well_ordered ms \<longleftrightarrow> api_order {} ms \<and> calls_answered {} ms"

lemma opens_simps [simp]:
  "opens (AssistantMessage bs)" "opens (UserMessage (Inl t))"
  "isRealUserMessage (AssistantMessage bs) = False" "isRealUserMessage (UserMessage (Inl t)) = True"
  by (simp_all add: opens_def isRealUserMessage_def)

lemma api_order_snoc:
  "opens m \<Longrightarrow> results m = [] \<Longrightarrow> api_order S (xs @ m # ys) \<longleftrightarrow> api_order S xs \<and> api_order (set (uses m)) ys"
proof (induction xs arbitrary: S)
  case Nil
  then show ?case using real_no_uses [of m] by (auto simp: opens_def)
qed auto

lemma answered_snoc: "opens m \<Longrightarrow> calls_answered S (xs @ m # ys) \<longleftrightarrow> calls_answered S xs \<and> calls_answered (set (uses m)) ys"
  by (induction xs arbitrary: S) auto

lemma well_ordered_snoc:
  "well_ordered ms \<Longrightarrow> opens m \<Longrightarrow> results m = [] \<Longrightarrow> uses m = [] \<Longrightarrow> well_ordered (ms @ [m])"
  by (simp add: well_ordered_def api_order_snoc answered_snoc)

lemma result_message_shape [simp]:
  "opens (result_message cr) = False" "results (result_message cr) = [tc_id (fst cr)]"
  "isRealUserMessage (result_message cr) = False" "role (result_message cr) \<noteq> Assistant"
  by (simp_all add: result_message_def createToolResultMessage_def opens_def isRealUserMessage_def block_results_def map_filter_simps)

lemma api_order_results: "api_order S (map result_message rs) \<longleftrightarrow> (\<lambda>cr. tc_id (fst cr)) ` set rs \<subseteq> S"
  by (induction rs) auto

lemma answered_results: "calls_answered S (map result_message rs) \<longleftrightarrow> S \<subseteq> (\<lambda>cr. tc_id (fst cr)) ` set rs"
  by (induction rs arbitrary: S) auto

lemma call_ids: "(\<lambda>c. tc_id c) ` set (map as_call (extractToolCalls bs)) = set (block_uses bs)"
proof (induction bs)
  case (Cons b bs)
  then show ?case by (cases b) (simp_all add: extractToolCalls_def block_uses_def map_filter_simps)
qed (simp add: extractToolCalls_def block_uses_def map_filter_simps)

lemma with_results:
  assumes "well_ordered ms" and "mset (map fst rs) = mset (map as_call (extractToolCalls bs))"
  shows "well_ordered (ms @ AssistantMessage bs # map result_message rs)"
proof -
  have "set (map fst rs) = set (map as_call (extractToolCalls bs))" using assms(2) by (metis set_mset_mset)
  then have "(\<lambda>cr. tc_id (fst cr)) ` set rs = set (block_uses bs)" using call_ids [of bs] by (metis image_image set_map)
  then show ?thesis using assms(1) by (simp add: well_ordered_def api_order_snoc answered_snoc api_order_results answered_results)
qed

lemma no_calls_uses: "extractToolCalls bs = [] \<Longrightarrow> uses (AssistantMessage bs) = []"
  using call_ids [of bs] by simp

text \<open>The rewriting passes keep the order.\<close>

lemma kept_result: "block_kept b b' \<Longrightarrow> is_tool_result b' = is_tool_result b"
  by (induction rule: block_kept.induct) simp_all

lemma kept_real_blocks: "list_all2 block_kept bs bs' \<Longrightarrow> list_ex (\<lambda>b. \<not> is_tool_result b) bs' = list_ex (\<lambda>b. \<not> is_tool_result b) bs"
  by (induction rule: list_all2_induct) (simp_all add: kept_result)

lemma kept_shape: "message_kept m m' \<Longrightarrow> isRealUserMessage m' = isRealUserMessage m \<and> role m' = role m"
  by (induction rule: message_kept.induct) (simp_all add: isRealUserMessage_def kept_real_blocks)

lemma kept_order:
  "list_all2 message_kept ms ms' \<Longrightarrow> api_order S ms' = api_order S ms \<and> calls_answered T ms' = calls_answered T ms"
  by (induction arbitrary: S T rule: list_all2_induct) (simp_all add: kept_shape message_kept_ids opens_def)

lemma clean_report_order: "clean_report ms n r \<Longrightarrow> well_ordered (report_messages r) = well_ordered ms"
  using kept_order [of ms "report_messages r"] by (auto simp: clean_report_def well_ordered_def)

text \<open>Rounds dropped from the front keep the order.\<close>

lemma answered_after: "calls_answered S ms \<Longrightarrow> calls_answered {} (after_round ms)"
  by (induction ms arbitrary: S) (auto simp: opens_def real_no_uses split: if_splits)

lemma rounds_order:
  "well_ordered ms \<Longrightarrow> well_ordered (concat (drop k (split_rounds ms)))"
proof (induction ms arbitrary: k rule: split_rounds.induct)
  case (2 m ms)
  have "well_ordered (after_round ms)"
    using "2.prems" api_order_round [of _ ms UNIV] answered_after [of _ ms]
    by (auto simp: well_ordered_def split: if_splits)
  from "2.IH" [OF this] "2.prems" show ?case
    by (cases k) (simp_all del: split_rounds.simps add: split_rounds.simps(2) [of m ms])
qed simp

lemma well_ordered_system:
  assumes "list_all is_system sys"
  shows "well_ordered (sys @ ms) = well_ordered ms"
proof -
  have "calls_answered S (sys @ ms) = calls_answered S ms" for S
    using assms
  proof (induction sys)
    case (Cons m sys)
    then have "results m = [] \<and> \<not> opens m" by (cases m) (simp_all add: is_system_def isRealUserMessage_def opens_def)
    with Cons show ?case by simp
  qed simp
  then show ?thesis using api_order_system [OF assms] by (simp add: well_ordered_def)
qed

lemma well_ordered_rest:
  assumes "well_ordered ms"
  shows "well_ordered (concat (drop k (conv_rounds ms)))"
proof -
  have "well_ordered (takeWhile is_system ms @ dropWhile is_system ms)" using assms by simp
  then have "well_ordered (dropWhile is_system ms)" using well_ordered_system [OF takeWhile_system] by blast
  from rounds_order [OF this] show ?thesis by (simp add: conv_rounds_def)
qed

lemma truncated_order:
  assumes "truncate_strategy p ms sp ret = Inr r" "well_ordered ms"
  shows "well_ordered (result_messages r)"
proof -
  obtain k where "selectRetainedByRound ms ret = takeWhile is_system ms @ concat (drop k (conv_rounds ms))"
    by (rule selectRetained_rounds)
  moreover have "result_messages r = selectRetainedByRound ms ret"
    using assms(1) by (auto simp: truncate_strategy_def bind_err_Inr_iff Let_def)
  ultimately show ?thesis using well_ordered_rest [OF assms(2)] well_ordered_system [OF takeWhile_system] by simp
qed

lemma summarized_order:
  assumes "summarize st p ms sp ret model = Inr r" "well_ordered ms"
  shows "well_ordered (result_messages r)"
proof -
  obtain k where k: "summarize_split ms ret =
      (takeWhile is_system ms, concat (take k (conv_rounds ms)), concat (drop k (conv_rounds ms)))"
    by (rule summarize_split_rounds)
  have "well_ordered (takeWhile is_system ms @ UserMessage (Inl t) # concat (drop k (conv_rounds ms)))" for t
    using well_ordered_rest [OF assms(2), of k] well_ordered_system [OF takeWhile_system]
      api_order_snoc [of "UserMessage (Inl t)" "{}" "[]"] answered_snoc [of "UserMessage (Inl t)" "{}" "[]"]
    by (simp add: well_ordered_def)
  then show ?thesis
    using assms by (auto simp: summarize_def bind_err_Inr_iff k Let_def split: if_splits)
qed

definition keeps_rounds :: "'w LoopParams \<Rightarrow> bool" where
  "keeps_rounds P \<longleftrightarrow> (case ap_compaction P of None \<Rightarrow> True | Some cp \<Rightarrow> strategy (cp_config cp) \<in> {Truncate, Summarize})"

lemma execute_order:
  assumes "strategy config \<in> {Truncate, Summarize}" and "well_ordered ms"
    and "executeCompaction pr config p late ms sp eg n = (Inr (Some r), n')"
  shows "well_ordered (result_messages r)"
  using assms truncated_order summarized_order
  by (auto simp: executeCompaction_def withSafetyTimeout_def runStrategy_def bind_err_Inr_iff Let_def split: sum.splits if_splits)

section \<open>The history along the loop\<close>

lemma use_report_order:
  "well_ordered (ls_messages s) \<Longrightarrow> clean_report (ls_messages s) n r \<Longrightarrow> well_ordered (ls_messages (use_report r s))"
  by (simp add: use_report_def emit_def clean_report_order)

lemma passes_order:
  "well_ordered (ls_messages s) \<Longrightarrow> well_ordered (ls_messages (snapshot_pass P s))"
  "well_ordered (ls_messages s) \<Longrightarrow> well_ordered (ls_messages (drop_pass P s))"
  by (auto simp: snapshot_pass_def drop_pass_def intro: use_report_order [OF _ supersede_clean] use_report_order [OF _ drop_clean]
      split: option.split)

lemma use_compaction_messages: "ls_messages (use_compaction r s) = result_messages r"
  by (simp add: use_compaction_def Let_def remind_loop_def emit_def)

lemma compaction_pass_order:
  assumes "keeps_rounds P" "well_ordered (ls_messages s)"
  shows "well_ordered (ls_messages (compaction_pass P s))"
proof (cases "ap_compaction P")
  case (Some cp)
  have st: "strategy (cp_config cp) \<in> {Truncate, Summarize}" using assms(1) Some by (simp add: keeps_rounds_def)
  obtain adapter late w where a: "cp_adapter cp (world_of s) = (adapter, late, w)" by (metis prod_cases3)
  obtain res failed where c: "compactIfNeeded (cp_prompts cp) (cp_config cp) adapter (cp_window cp) late (ls_messages s)
      (systemPromptToText (ap_systemPrompt P)) (Some (int (usage_tokens (context_usage P s))))
      (compaction_egress P adapter (world_of s)) (ls_breaker s) = (res, failed)" by (metis surj_pair)
  have "well_ordered (result_messages r)" if "res = Inr (Some r)" for r
    using c execute_order [OF st assms(2)] that by (auto simp: compactIfNeeded_def split: if_splits sum.splits)
  then show ?thesis
    using assms(2) by (auto simp: compaction_pass_def Some a c Let_def use_compaction_messages set_world_def emit_def split: sum.split option.split)
qed (use assms in \<open>simp add: compaction_pass_def\<close>)

lemma pressure_messages: "ls_messages (pressure P s) = ls_messages s"
proof -
  have "ls_messages (fold (pressure_step u) ts s) = ls_messages s" for u ts
    by (induction ts arbitrary: s) (simp_all add: pressure_step_def remind_loop_def emit_def)
  then show ?thesis unfolding pressure_def Let_def by presburger
qed

lemma prepare_order: "keeps_rounds P \<Longrightarrow> well_ordered (ls_messages s) \<Longrightarrow> well_ordered (ls_messages (prepare P s))"
  by (simp add: prepare_def pressure_messages start_turn_def emit_def compaction_pass_order passes_order)

text \<open>What a pass leaves behind.\<close>

definition kept_order_by :: "control \<times> 'w LoopState \<Rightarrow> bool" where
  "kept_order_by out = (case out of (c, s) \<Rightarrow>
     (case c of Escaped e \<Rightarrow> api_order {} (ls_messages s) | Again \<Rightarrow> well_ordered (ls_messages s)
      | Finished r \<Rightarrow> well_ordered (ls_messages s) \<and> lr_messages r = ls_messages s))"

lemma escaped_order: "well_ordered (ls_messages s) \<Longrightarrow> kept_order_by (Escaped e, s)"
  by (simp add: kept_order_by_def well_ordered_def)

lemma again_order: "well_ordered (ls_messages s) \<Longrightarrow> kept_order_by (Again, s)"
  by (simp add: kept_order_by_def)

lemma endSession_order:
  assumes "well_ordered (ls_messages s)"
  shows "kept_order_by (endSession P reason s)"
proof -
  obtain r s1 where h: "lifecycle_hooks P False (SessionEndHook (lr_turnCount (finalize s reason) - 1)
      (te_sessionId (ap_env P)) (stop_text reason)) s = (r, s1)" by (metis surj_pair)
  have m: "ls_messages s1 = ls_messages s" using hooks_frame [OF h] by simp
  have "lr_messages (finalize s reason) = ls_messages s" by (simp add: finalize_def Let_def)
  with m assms h show ?thesis by (auto simp: endSession_def Let_def kept_order_by_def well_ordered_def emit_def split: sum.split)
qed

lemma close_turn_messages [simp]: "ls_messages (close_turn r u s) = ls_messages s"
  by (simp add: close_turn_def emit_def)

lemma emit_messages [simp]: "ls_messages (emit es s) = ls_messages s" "ls_messages (set_world w s) = ls_messages s"
  by (simp_all add: emit_def set_world_def)

lemma stop_now_order: "well_ordered (ls_messages s) \<Longrightarrow> kept_order_by (stop_now P reason s)"
  by (simp add: stop_now_def endSession_order)

lemma limits_order: "well_ordered (ls_messages s) \<Longrightarrow> check_limits P s = Some out \<Longrightarrow> kept_order_by out"
  by (auto simp: check_limits_def split: if_splits intro: stop_now_order)

lemma unrecoverable_order:
  assumes "well_ordered (ls_messages s)"
  shows "kept_order_by (unrecoverable P err s)"
proof -
  let ?s1 = "close_turn ErrorStop (zero_usage (ls_activeModel s)) (emit [LoopError (error_code err) (thrown_message err) False (ls_turnIndex s)] s)"
  obtain r s2 where h: "lifecycle_hooks P False (ErrorHook (ls_turnIndex s) (error_code err) (thrown_message err)) ?s1 = (r, s2)"
    by (metis surj_pair)
  have w: "well_ordered (ls_messages s2)" using hooks_frame [OF h] assms by simp
  show ?thesis using h endSession_order [OF w] escaped_order [OF w] by (auto simp: unrecoverable_def Let_def split: sum.split)
qed

lemma try_fallback_order: "well_ordered (ls_messages s) \<Longrightarrow> kept_order_by (try_fallback P err s)"
  by (auto simp: try_fallback_def Let_def intro!: unrecoverable_order again_order split: option.split sum.split)

lemma rate_limited_order: "well_ordered (ls_messages s) \<Longrightarrow> kept_order_by (rate_limited P e s)"
  by (auto simp: rate_limited_def Let_def intro!: unrecoverable_order again_order try_fallback_order)

lemma force_compaction_order:
  assumes "keeps_rounds P" "well_ordered (ls_messages s)" "force_compaction P s = (r, s')"
  shows "ls_messages s' = ls_messages s \<and> (case r of Some x \<Rightarrow> well_ordered (result_messages x) | None \<Rightarrow> True)"
proof (cases "ap_compaction P")
  case (Some cp)
  have st: "strategy (cp_config cp) \<in> {Truncate, Summarize}" using assms(1) Some by (simp add: keeps_rounds_def)
  obtain adapter late w where a: "cp_adapter cp (world_of s) = (adapter, late, w)" by (metis prod_cases3)
  obtain res failed where c: "forceCompact (cp_prompts cp) (cp_config cp) adapter late (ls_messages s)
      (systemPromptToText (ap_systemPrompt P)) (compaction_egress P adapter (world_of s)) (ls_breaker s) = (res, failed)" by (metis surj_pair)
  have "well_ordered (result_messages x)" if "res = Inr (Some x)" for x
    using c execute_order [OF st assms(2)] that by (auto simp: forceCompact_def split: if_splits)
  then show ?thesis
    using assms(3) by (auto simp: force_compaction_def Some a c split: sum.splits option.splits)
qed (use assms in \<open>auto simp: force_compaction_def\<close>)

lemma recover_order:
  assumes "keeps_rounds P" "well_ordered (ls_messages s)"
  shows "kept_order_by (recover P err s)"
proof (cases err)
  case (ThrownProvider e)
  let ?s0 = "emit [Recovery ''prompt_too_long'' (ls_compactionRecoveryCount s + 1) ''Attempting reactive compaction'' (ls_turnIndex s)] s"
  obtain r s1 where fc: "force_compaction P ?s0 = (r, s1)" by (metis surj_pair)
  have f: "ls_messages s1 = ls_messages s \<and> (case r of Some x \<Rightarrow> well_ordered (result_messages x) | None \<Rightarrow> True)"
    using force_compaction_order [OF assms(1) _ fc] assms(2) by simp
  show ?thesis
    using f fc ThrownProvider rate_limited_order [of s P e] rate_limited_order [of s1 P e] assms(2)
    by (auto simp: recover_def intro!: again_order split: option.splits)
qed (use unrecoverable_order [OF assms(2)] in \<open>simp_all add: recover_def\<close>)

lemma without_tools_order:
  assumes "well_ordered (ls_messages s)"
  shows "kept_order_by (without_tools P r s)"
proof -
  have "well_ordered (ls_messages s @ [resume_message])"
    by (rule well_ordered_snoc [OF assms]) (simp_all add: resume_message_def)
  then show ?thesis using assms by (auto simp: without_tools_def Let_def intro!: again_order endSession_order)
qed

lemma save_checkpoint_messages [simp]: "ls_messages (save_checkpoint P s) = ls_messages s"
  by (auto simp: save_checkpoint_def split: option.split prod.split sum.split)

lemma with_tools_order:
  assumes "ls_messages s = ms @ [AssistantMessage bs]" "well_ordered ms"
  shows "kept_order_by (with_tools P r (extractToolCalls bs) s)"
proof -
  obtain res evs lg sh where x: "executeTools (ap_env P) (ap_tools P) (ls_turnIndex s) (ap_schedule P (world_of s)) (extractToolCalls bs) (ls_shared s) = (res, evs, lg, sh)"
    by (metis prod_cases4)
  show ?thesis
  proof (cases res)
    case (Inl e)
    then show ?thesis using x assms by (simp add: with_tools_def kept_order_by_def well_ordered_def api_order_snoc)
  next
    case (Inr rs)
    have "mset (map fst rs) = mset (map as_call (extractToolCalls bs))" using executeTools_ok [OF x] Inr by simp
    from with_results [OF assms(2) this] show ?thesis
      using x Inr assms(1) by (simp add: with_tools_def Let_def kept_order_by_def next_turn_def)
  qed
qed

lemma after_call_order:
  assumes "well_ordered (ls_messages s)"
  shows "kept_order_by (after_call P r s)"
proof -
  let ?s1 = "s\<lparr>ls_messages := ls_messages s @ [AssistantMessage (sr_content r)]\<rparr>"
  obtain h s2 where h: "lifecycle_hooks P True (ModelPostHook (ls_turnIndex ?s1) (ls_activeModel ?s1) (stop_text (sr_stopReason r))
      (tu_inputTokens (sr_usage r)) (tu_outputTokens (sr_usage r)) (tu_costUsd (sr_usage r))
      (length (extractToolCalls (sr_content r)))) ?s1 = (h, s2)" by (metis surj_pair)
  have m: "ls_messages s2 = ls_messages s @ [AssistantMessage (sr_content r)]" using hooks_frame [OF h] by simp
  have esc: "kept_order_by (Escaped e, s2)" for e
    using m assms by (simp add: kept_order_by_def well_ordered_def api_order_snoc)
  have plain: "well_ordered (ls_messages s2)" if "extractToolCalls (sr_content r) = []"
    unfolding m by (rule well_ordered_snoc [OF assms]) (use no_calls_uses [OF that] in simp_all)
  show ?thesis
    using h esc without_tools_order [OF plain] with_tools_order [OF m assms]
    by (auto simp: after_call_def Let_def split: sum.split)
qed

lemma account_call_messages [simp]: "ls_messages (account_call P u s) = ls_messages s"
  by (simp add: account_call_def Let_def)

lemma call_model_order:
  assumes "keeps_rounds P" "well_ordered (ls_messages s)"
  shows "kept_order_by (call_model P request s)"
proof -
  obtain res evs w where x: "streamModelResponse (ap_catalog P) (ls_activeProvider s) request (tool_ui P) (ls_turnIndex s)
             (te_egress (ap_env P)) (aborted_now P) (ls_activeModel s) (world_of s) = (res, evs, w)" by (metis prod_cases3)
  show ?thesis
  proof (cases res)
    case (Inl e)
    then show ?thesis using x recover_order [OF assms(1), of "emit evs (set_world w s)" e] assms(2) by (simp add: call_model_def)
  next
    case (Inr r)
    then show ?thesis using x after_call_order [of "account_call P (sr_usage r) (emit evs (set_world w s))" P r] assms(2)
      by (simp add: call_model_def)
  qed
qed

lemma iteration_order:
  assumes "keeps_rounds P" "well_ordered (ls_messages s)"
  shows "kept_order_by (iteration P s)"
proof (cases "check_limits P s")
  case None
  obtain r s1 where b: "build_request P (prepare P s) = (r, s1)" by (metis surj_pair)
  have w: "well_ordered (ls_messages s1)" using build_request_frame [OF b] prepare_order [OF assms] by simp
  show ?thesis using None b escaped_order [OF w] call_model_order [OF assms(1) w] by (simp add: iteration_def split: sum.split)
qed (use limits_order [OF assms(2)] in \<open>simp add: iteration_def\<close>)

section \<open>The gate in front of the tools, over the whole run\<close>

definition all_gated :: "'w LoopParams \<Rightarrow> 'w LoopState \<Rightarrow> bool" where
  "all_gated P s \<longleftrightarrow> list_all (\<lambda>entry. dispatch_ok (ap_env P) (fst (fst entry)) (snd entry)) (ls_log s)"

lemma frame_log: "frame es s s' \<Longrightarrow> ls_log s' = ls_log s"
  by (simp add: frame_def)

lemma hooks_log: "lifecycle_hooks P b ctx s = (r, s') \<Longrightarrow> ls_log s' = ls_log s"
  using hooks_frame frame_log by blast

lemma log_simps [simp]:
  "ls_log (emit es s) = ls_log s" "ls_log (set_world w s) = ls_log s" "ls_log (close_turn r u s) = ls_log s"
  "ls_log (account_call P x s) = ls_log s" "ls_log (next_turn s) = ls_log s"
  by (simp_all add: emit_def set_world_def close_turn_def account_call_def next_turn_def Let_def)

lemma endSession_log: "endSession P reason s = (c, s') \<Longrightarrow> ls_log s' = ls_log s"
  by (auto simp: endSession_def Let_def split: prod.splits sum.splits dest: hooks_log)

lemma unrecoverable_log: "unrecoverable P err s = (c, s') \<Longrightarrow> ls_log s' = ls_log s"
  by (auto simp: unrecoverable_def Let_def split: prod.splits sum.splits dest!: hooks_log endSession_log)

lemma limits_log: "check_limits P s = Some (c, s') \<Longrightarrow> ls_log s' = ls_log s"
  by (auto simp: check_limits_def stop_now_def split: if_splits dest!: endSession_log)

lemma try_fallback_log: "try_fallback P err s = (c, s') \<Longrightarrow> ls_log s' = ls_log s"
  by (auto simp: try_fallback_def Let_def split: option.splits sum.splits if_splits dest!: unrecoverable_log)

lemma rate_limited_log: "rate_limited P e s = (c, s') \<Longrightarrow> ls_log s' = ls_log s"
  by (auto simp: rate_limited_def Let_def split: if_splits dest!: unrecoverable_log try_fallback_log)

lemma recover_log:
  assumes "recover P err s = (c, s')"
  shows "ls_log s' = ls_log s"
proof (cases err)
  case (ThrownProvider e)
  then show ?thesis
    using assms by (auto simp: recover_def split: if_splits prod.splits option.splits
      dest!: rate_limited_log force_compaction_frame [THEN frame_log])
qed (use assms in \<open>auto simp: recover_def dest!: unrecoverable_log\<close>)

lemma without_tools_log: "without_tools P r s = (c, s') \<Longrightarrow> ls_log s' = ls_log s"
  by (auto simp: without_tools_def Let_def split: if_splits dest!: endSession_log)

lemma save_checkpoint_log [simp]: "ls_log (save_checkpoint P s) = ls_log s"
  by (auto simp: save_checkpoint_def split: option.split prod.split sum.split)

lemma with_tools_gated:
  assumes "all_gated P s" "with_tools P r calls s = (c, s')"
  shows "all_gated P s'"
proof -
  obtain res evs lg sh where x: "executeTools (ap_env P) (ap_tools P) (ls_turnIndex s) (ap_schedule P (world_of s)) calls (ls_shared s) = (res, evs, lg, sh)"
    by (metis prod_cases4)
  have "list_all (\<lambda>entry. dispatch_ok (ap_env P) (fst (fst entry)) (snd entry)) lg" using executeTools_ok [OF x] by simp
  moreover have "ls_log s' = ls_log s @ lg" using assms(2) x by (auto simp: with_tools_def Let_def split: sum.splits)
  ultimately show ?thesis using assms(1) by (simp add: all_gated_def)
qed

lemma all_gated_log: "all_gated P s \<Longrightarrow> ls_log t = ls_log s \<Longrightarrow> all_gated P t"
  by (simp add: all_gated_def)

lemma after_call_gated:
  assumes "all_gated P s" "after_call P r s = (c, s')"
  shows "all_gated P s'"
proof -
  let ?s1 = "s\<lparr>ls_messages := ls_messages s @ [AssistantMessage (sr_content r)]\<rparr>"
  obtain h s2 where h: "lifecycle_hooks P True (ModelPostHook (ls_turnIndex ?s1) (ls_activeModel ?s1) (stop_text (sr_stopReason r))
      (tu_inputTokens (sr_usage r)) (tu_outputTokens (sr_usage r)) (tu_costUsd (sr_usage r))
      (length (extractToolCalls (sr_content r)))) ?s1 = (h, s2)" by (metis surj_pair)
  have g: "all_gated P s2" by (rule all_gated_log [OF assms(1)]) (simp add: hooks_log [OF h])
  show ?thesis
    using assms(2) h g with_tools_gated [OF g] without_tools_log [of P r s2 c s'] all_gated_log [OF g]
    by (auto simp: after_call_def Let_def split: sum.splits if_splits)
qed

lemma call_model_gated:
  assumes "all_gated P s" "call_model P q s = (c, s')"
  shows "all_gated P s'"
proof -
  obtain res evs w where x: "streamModelResponse (ap_catalog P) (ls_activeProvider s) q (tool_ui P) (ls_turnIndex s)
             (te_egress (ap_env P)) (aborted_now P) (ls_activeModel s) (world_of s) = (res, evs, w)" by (metis prod_cases3)
  have g: "all_gated P t" if "ls_log t = ls_log s" for t by (rule all_gated_log [OF assms(1) that])
  show ?thesis
  proof (cases res)
    case (Inl e)
    then show ?thesis using assms(2) x recover_log by (intro g) (fastforce simp: call_model_def)
  next
    case (Inr r)
    show ?thesis
      by (rule after_call_gated [of P "account_call P (sr_usage r) (emit evs (set_world w s))" r c])
        (use assms(2) x Inr in \<open>simp_all add: call_model_def g\<close>)
  qed
qed

lemma prepare_log: "ls_log (prepare P s) = ls_log s"
proof -
  let ?s1 = "compaction_pass P (drop_pass P (snapshot_pass P s))"
  have "quiet s ?s1"
    by (rule quiet_trans [OF quiet_trans [OF snapshot_pass_quiet drop_pass_quiet] compaction_pass_quiet])
  then have "ls_log (start_turn ?s1) = ls_log s" by (auto simp: quiet_def frame_def start_turn_def)
  moreover have "ls_log (pressure P (start_turn ?s1)) = ls_log (start_turn ?s1)" using pressure_frame frame_log by metis
  ultimately show ?thesis by (simp add: prepare_def)
qed

lemma iteration_gated: "all_gated P s \<Longrightarrow> iteration P s = (c, s') \<Longrightarrow> all_gated P s'"
proof (cases "check_limits P s")
  case None
  assume g: "all_gated P s" and it: "iteration P s = (c, s')"
  obtain r s1 where b: "build_request P (prepare P s) = (r, s1)" by (metis surj_pair)
  have "ls_log s1 = ls_log s" using build_request_frame [OF b] prepare_log [of P s] by (simp add: frame_def)
  then have g1: "all_gated P s1" using g by (simp add: all_gated_def)
  show ?thesis using it None b g1 call_model_gated [OF g1] by (auto simp: iteration_def split: sum.splits)
qed (auto simp: iteration_def all_gated_def dest: limits_log)

end
