(* ===== verification/LoopRuns.thy ===== *)
theory LoopRuns
  imports LoopHistory
begin

text \<open>
  The properties of whole runs of the agent loop, and a run of two turns with tools on which they are applied.
\<close>

section \<open>A run\<close>

text \<open>A provider that first calls two tools and then, once they ran, speaks.\<close>

definition agent_provider :: "nat LoopProvider" where
  "agent_provider = saying_provider\<lparr>lp_stream := (\<lambda>rq w. if w = 0
     then [(PullChunk (MessageCompleteChunk [ToolUseBlock ''a'' ''get'' [] None, ToolUseBlock ''c'' ''del'' [] None] ToolUseStop sample_usage), 0)]
     else [(PullChunk (TextDeltaChunk ''ok''), w), (PullChunk (MessageCompleteChunk [TextBlock ''ok'' None] EndTurn sample_usage), w)])\<rparr>"

definition agent_params :: "nat LoopParams" where
  "agent_params = \<lparr>ap_env = sample_env, ap_provider = agent_provider, ap_tools = sample_tools, ap_systemPrompt = PromptText ''be brief'',
     ap_cacheProfile = None, ap_model = ''p:m'', ap_maxTurns = 3, ap_maxBudgetUsd = 0, ap_maxTokens = 9, ap_temperature = None,
     ap_thinking = None, ap_fallbackModel = None, ap_resolveProvider = (\<lambda>m. Inr agent_provider), ap_baseDelayMs = 1,
     ap_sleep = (\<lambda>d w. w), ap_catalog = [], ap_windows = (\<lambda>a b. Some 100), ap_browserSnapshotCompaction = None,
     ap_toolResultDrop = None, ap_compaction = None, ap_checkpoint = None, ap_persistentReminder = None,
     ap_schedule = (\<lambda>w. []), ap_showNumber = (\<lambda>r. []), ap_toFixed4 = (\<lambda>r. [])\<rparr>"

definition agent_run :: "control \<times> nat LoopState" where
  "agent_run = passes agent_params 3 (snd (start_session agent_params (initial_state agent_params [UserMessage (Inl ''hi'')] sample_shared 0)))"

text \<open>Equations of parts that the run does not reach stay out of its evaluation.\<close>

declare hooks_run_def [code del] compactIfNeeded_def [code del] forceCompact_def [code del] dropStaleToolResults_def [code del]
  compactSupersededBrowserSnapshots_def [code del] recover_def [code del] make_request_def [code del] spillToolResult_def [code del]

lemma agent_run_values:
  "(case agent_run of (c, s) \<Rightarrow> ((case c of Finished r \<Rightarrow> Some (lr_reason r) | _ \<Rightarrow> None), turn_ends (ls_events s),
      map (\<lambda>entry. (tc_id (snd (fst entry)), was_run (snd entry))) (ls_log s), length (ls_messages s))) =
   (Some EndTurn, [0, 1], [(''a'', True), (''c'', False)], 5)"
  by code_simp

definition agent_loop :: "(control \<times> nat LoopState) option" where
  "agent_loop = loop agent_params [UserMessage (Inl ''hi'')] sample_shared 0"

lemma agent_loop_values:
  obtains r s where "agent_loop = Some (Finished r, s)" "lr_reason r = EndTurn" "turn_ends (ls_events s) = [0, 1]"
    "map (\<lambda>entry. (tc_id (snd (fst entry)), was_run (snd entry))) (ls_log s) = [(''a'', True), (''c'', False)]"
    "length (ls_messages s) = 5"
proof -
  obtain c s where cs: "agent_run = (c, s)" by (metis surj_pair)
  note v = agent_run_values [unfolded cs prod.case]
  obtain r where r: "c = Finished r" using v by (cases c) simp_all
  have "fst agent_run \<noteq> Again" unfolding cs r fst_conv by (rule control.distinct)
  then have "run_loop agent_params (snd (start_session agent_params (initial_state agent_params [UserMessage (Inl ''hi'')] sample_shared 0))) = Some agent_run"
    unfolding agent_run_def by (rule passes_run_loop)
  moreover have "fst (start_session agent_params (initial_state agent_params [UserMessage (Inl ''hi'')] sample_shared 0)) = Inr ()"
    by (simp add: start_session_def lifecycle_hooks_def agent_params_def sample_env_def)
  ultimately have "agent_loop = Some (c, s)" unfolding agent_loop_def loop_def cs by (simp add: split_beta)
  then show ?thesis using that v r by simp
qed

section \<open>Properties of runs\<close>

text \<open>
  C4: the loop ends. With a limit on turns, whatever provider, tools, hooks, compaction and host do (they
  answer or fail; none of them is assumed to make progress), the loop returns or throws after at most 14 passes per turn and 26 more: every pass that goes
  on uses up a turn, a rate-limit retry, a reactive compaction, or the one fallback.
\<close>

theorem loop_terminates:
  assumes "ap_maxTurns P > 0"
  shows "\<exists>c s. loop P ms sh b = Some (c, s) \<and> c \<noteq> Again \<and>
    (case start_session P (initial_state P ms sh b) of
       (Inl e, s0) \<Rightarrow> (c, s) = (Escaped e, s0)
     | (Inr u, s0) \<Rightarrow> (c, s) = passes P (14 * ap_maxTurns P + 26) s0)"
  using assms by (rule loop_ends)

theorem loop_terminates_witness: "\<exists>c s. agent_loop = Some (c, s) \<and> c \<noteq> Again"
  using loop_terminates [of agent_params "[UserMessage (Inl ''hi'')]" sample_shared 0]
  unfolding agent_loop_def by (auto simp: agent_params_def)





text \<open>
  C3: the life of a session. Whatever provider, tools, hooks and host do: the turns of the event log
  are numbered 0, 1, 2, ... without gaps, output belongs to the turn that is open, a retry does not start a turn twice, and with a
  limit on turns no turn beyond it starts. If the loop returns, every turn that started has ended, and \<open>session.end\<close> is the last event, the only one of its kind, and carries
  the reason, usage and count of the result. If an exception leaves the loop, no \<open>session.end\<close> was
  yielded, and at most the last turn is open.
\<close>

theorem loop_lifecycle:
  assumes "loop P ms sh b = Some (c, s)"
  shows "(case c of
      Again \<Rightarrow> False
    | Finished r \<Rightarrow> life_run (ap_maxTurns P) Fresh (ls_events s) = Some Over \<and>
        last (ls_events s) = SessionEnd (te_sessionId (ap_env P)) (lr_reason r) (lr_totalUsage r) (lr_turnCount r) \<and>
        (\<exists>n. turn_starts (ls_events s) = [0..<n] \<and> turn_ends (ls_events s) = [0..<n])
    | Escaped e \<Rightarrow> (\<exists>l n. life_run (ap_maxTurns P) Fresh (ls_events s) = Some l \<and> l \<noteq> Over \<and>
        turn_ends (ls_events s) = [0..<n] \<and> turn_starts (ls_events s) \<in> {[0..<n], [0..<Suc n]}))"
proof -
  have e: "ended P (c, s)"
    by (rule loop_invariant [of "alive P" "ended P" P ms sh b, OF _ _ _ assms])
      (auto simp: iteration_ended dest: start_session_alive, simp_all add: ended_def start_session_alive)
  show ?thesis
  proof (cases c)
    case Again
    then show ?thesis using loop_not_again [OF assms] by simp
  next
    case (Finished r)
    then obtain es n where es: "ls_events s = es @ [SessionEnd (te_sessionId (ap_env P)) (lr_reason r) (lr_totalUsage r) (lr_turnCount r)]"
      "life_run (ap_maxTurns P) Fresh es = Some (Idle n)" using e by (auto simp: ended_def)
    have "turn_starts es = [0..<n]" "turn_ends es = [0..<n]" using life_run_turns [OF es(2)] by simp_all
    moreover have "turn_starts [SessionEnd a b' c' d] = []" "turn_ends [SessionEnd a b' c' d] = []" for a b' c' d
      by (simp_all add: turn_starts_def turn_ends_def map_filter_simps)
    ultimately have "turn_starts (ls_events s) = [0..<n] \<and> turn_ends (ls_events s) = [0..<n]" using es(1) by simp
    then show ?thesis using Finished es by (auto simp: life_run_append)
  next
    case (Escaped x)
    then obtain l where l: "life_run (ap_maxTurns P) Fresh (ls_events s) = Some l" "l \<noteq> Over" using e by (auto simp: ended_def)
    have t: "(turn_starts (ls_events s), turn_ends (ls_events s)) = turns_at l" by (rule life_run_turns [OF l])
    have "\<exists>n. turn_ends (ls_events s) = [0..<n] \<and> turn_starts (ls_events s) \<in> {[0..<n], [0..<Suc n]}"
      using t l(2) by (cases l) (auto intro: exI [of _ 0])
    with Escaped l show ?thesis by auto
  qed
qed

theorem loop_lifecycle_witness:
  "\<exists>r s. agent_loop = Some (Finished r, s) \<and> lr_reason r = EndTurn \<and> turn_starts (ls_events s) = [0, 1] \<and>
     life_run 3 Fresh (ls_events s) = Some Over \<and> last (ls_events s) = SessionEnd ''s'' EndTurn (lr_totalUsage r) (lr_turnCount r)"
proof -
  obtain r s where rs: "agent_loop = Some (Finished r, s)" "lr_reason r = EndTurn" "turn_ends (ls_events s) = [0, 1]"
    by (rule agent_loop_values)
  have "ap_maxTurns agent_params = 3" "te_sessionId (ap_env agent_params) = ''s''" by (simp_all add: agent_params_def sample_env_def)
  note l = loop_lifecycle [OF rs(1) [unfolded agent_loop_def], unfolded this control.case rs(2)]
  then have "turn_starts (ls_events s) = turn_ends (ls_events s)" by auto
  with l rs show ?thesis by (intro exI [of _ r] exI [of _ s]) simp
qed

end
