(* ===== verification/RateLimit.thy ===== *)
theory RateLimit
  imports Errors JsMap JsValue
begin

text \<open>
  The gateway's rate limiter (\<open>gateway/middleware/rate-limit.ts\<close> of packages/cortex): a token bucket per address and
  tier. The clock is read twice in a check, when a bucket is created and when it is refilled; both times are
  arguments. The platform's URL parser is a parameter that may throw. A disabled limiter has no buckets.
\<close>

section \<open>Limits\<close>

definition GENERAL_LIMIT :: rat where "GENERAL_LIMIT = 600"

definition RUN_LIMIT :: rat where "RUN_LIMIT = 10"

definition REFILL_INTERVAL_MS :: int where "REFILL_INTERVAL_MS = 60000"

definition BUCKET_EXPIRY_MS :: int where "BUCKET_EXPIRY_MS = 600000"

definition RUN_PATHS :: "string list" where "RUN_PATHS = [''/api/v1/run'']"

definition envInt :: "string option \<Rightarrow> int option" where
  "envInt raw = (case raw of
       None \<Rightarrow> None
     | Some t \<Rightarrow> (if t = [] then None
         else (case parseInt t 10 of Some n \<Rightarrow> if n > 0 then Some n else None | None \<Rightarrow> None)))"

record LimiterOptions =
  lo_disabled :: "bool option"
  lo_generalLimit :: "rat option"
  lo_runLimit :: "rat option"

record LimiterEnv =
  le_disable :: "string option"
  le_general :: "string option"
  le_run :: "string option"

section \<open>Buckets\<close>

record Bucket =
  bk_tokens :: rat
  bk_lastRefill :: int
  bk_maxTokens :: rat

record RateLimiter =
  rl_enabled :: bool
  rl_generalLimit :: rat
  rl_runLimit :: rat
  rl_generalBuckets :: "(string, Bucket) js_map"
  rl_runBuckets :: "(string, Bucket) js_map"

definition limit_for :: "rat option \<Rightarrow> string option \<Rightarrow> rat \<Rightarrow> rat" where
  "limit_for given env standard = (case given of Some n \<Rightarrow> n
     | None \<Rightarrow> (case envInt env of Some n \<Rightarrow> of_int n | None \<Rightarrow> standard))"

definition createRateLimiter :: "LimiterEnv \<Rightarrow> LimiterOptions \<Rightarrow> RateLimiter" where
  "createRateLimiter env opts =
     (if lo_disabled opts = Some True \<or> le_disable env = Some ''1''
      then \<lparr>rl_enabled = False, rl_generalLimit = 0, rl_runLimit = 0, rl_generalBuckets = [], rl_runBuckets = []\<rparr>
      else \<lparr>rl_enabled = True,
            rl_generalLimit = limit_for (lo_generalLimit opts) (le_general env) GENERAL_LIMIT,
            rl_runLimit = limit_for (lo_runLimit opts) (le_run env) RUN_LIMIT,
            rl_generalBuckets = [], rl_runBuckets = []\<rparr>)"

definition cleanupMap :: "(string, Bucket) js_map \<Rightarrow> int \<Rightarrow> (string, Bucket) js_map" where
  "cleanupMap m now = filter (\<lambda>(k, b). \<not> now - bk_lastRefill b > BUCKET_EXPIRY_MS) m"

definition getOrCreate :: "(string, Bucket) js_map \<Rightarrow> string \<Rightarrow> rat \<Rightarrow> int \<Rightarrow> Bucket" where
  "getOrCreate m ip maxTokens now = (case map_get m ip of
       Some b \<Rightarrow> b
     | None \<Rightarrow> \<lparr>bk_tokens = maxTokens, bk_lastRefill = now, bk_maxTokens = maxTokens\<rparr>)"

definition refill :: "int \<Rightarrow> Bucket \<Rightarrow> Bucket" where
  "refill now b =
     (let elapsed = now - bk_lastRefill b;
          tokensToAdd = of_int elapsed / of_int REFILL_INTERVAL_MS * bk_maxTokens b in
      b\<lparr>bk_tokens := min (bk_maxTokens b) (bk_tokens b + tokensToAdd), bk_lastRefill := now\<rparr>)"

section \<open>The check\<close>

record HttpRequest =
  rq_remoteAddress :: "string option"
  rq_url :: "string option"
  rq_host :: "string option"

text \<open>The path of the first address relative to the second, or the error the constructor throws.\<close>

type_synonym url_path = "string \<Rightarrow> string \<Rightarrow> js_thrown + string"

text \<open>\<open>Limited r\<close>: the answer 429 with \<open>Retry-After\<close> r; no number stands for infinity (limit 0).\<close>

datatype rate_answer = Pass | Limited "int option" | CheckThrew js_thrown

definition remote_ip :: "HttpRequest \<Rightarrow> string" where
  "remote_ip r = (case rq_remoteAddress r of Some ip \<Rightarrow> ip | None \<Rightarrow> ''127.0.0.1'')"

definition pathname :: "url_path \<Rightarrow> HttpRequest \<Rightarrow> js_thrown + string" where
  "pathname url r = url (case rq_url r of Some u \<Rightarrow> u | None \<Rightarrow> ''/'')
     (''http://'' @ (case rq_host r of Some h \<Rightarrow> h | None \<Rightarrow> ''localhost''))"

definition retryAfterSec :: "Bucket \<Rightarrow> int option" where
  "retryAfterSec b = (if bk_maxTokens b = 0 then None
     else Some \<lceil>(1 - bk_tokens b) / bk_maxTokens b * (of_int REFILL_INTERVAL_MS / 1000)\<rceil>)"

definition tier_limit :: "bool \<Rightarrow> RateLimiter \<Rightarrow> rat" where
  "tier_limit isRunPath l = (if isRunPath then rl_runLimit l else rl_generalLimit l)"

definition tier_buckets :: "bool \<Rightarrow> RateLimiter \<Rightarrow> (string, Bucket) js_map" where
  "tier_buckets isRunPath l = (if isRunPath then rl_runBuckets l else rl_generalBuckets l)"

definition put_bucket :: "bool \<Rightarrow> string \<Rightarrow> Bucket \<Rightarrow> RateLimiter \<Rightarrow> RateLimiter" where
  "put_bucket isRunPath ip b l =
     (if isRunPath then l\<lparr>rl_runBuckets := map_set ip b (rl_runBuckets l)\<rparr>
      else l\<lparr>rl_generalBuckets := map_set ip b (rl_generalBuckets l)\<rparr>)"

definition rate_check :: "url_path \<Rightarrow> HttpRequest \<Rightarrow> int \<Rightarrow> int \<Rightarrow> RateLimiter \<Rightarrow> rate_answer \<times> RateLimiter" where
  "rate_check url r created now l =
     (if \<not> rl_enabled l then (Pass, l)
      else (case pathname url r of
          Inl e \<Rightarrow> (CheckThrew e, l)
        | Inr path \<Rightarrow>
            (let isRunPath = (path \<in> set RUN_PATHS); ip = remote_ip r;
                 b = refill now (getOrCreate (tier_buckets isRunPath l) ip (tier_limit isRunPath l) created) in
             if bk_tokens b < 1 then (Limited (retryAfterSec b), put_bucket isRunPath ip b l)
             else (Pass, put_bucket isRunPath ip (b\<lparr>bk_tokens := bk_tokens b - 1\<rparr>) l))))"

definition rate_cleanup :: "int \<Rightarrow> RateLimiter \<Rightarrow> RateLimiter" where
  "rate_cleanup now l = l\<lparr>rl_generalBuckets := cleanupMap (rl_generalBuckets l) now,
     rl_runBuckets := cleanupMap (rl_runBuckets l) now\<rparr>"

section \<open>Sequences of checks and clean-ups\<close>

datatype rate_step = Hit HttpRequest int int | Sweep int

fun step_start :: "rate_step \<Rightarrow> int" where
  "step_start (Hit r t1 t2) = t1"
| "step_start (Sweep t) = t"

fun step_end :: "rate_step \<Rightarrow> int" where
  "step_end (Hit r t1 t2) = t2"
| "step_end (Sweep t) = t"

text \<open>The clock does not go back.\<close>

fun clocked :: "int \<Rightarrow> rate_step list \<Rightarrow> bool" where
  "clocked a [] = True"
| "clocked a (x # xs) = (a \<le> step_start x \<and> step_start x \<le> step_end x \<and> clocked (step_end x) xs)"

fun end_time :: "int \<Rightarrow> rate_step list \<Rightarrow> int" where
  "end_time a [] = a"
| "end_time a (x # xs) = end_time (step_end x) xs"

fun rate_do :: "url_path \<Rightarrow> rate_step \<Rightarrow> RateLimiter \<Rightarrow> rate_answer option \<times> RateLimiter" where
  "rate_do url (Hit r t1 t2) l = (case rate_check url r t1 t2 l of (a, l') \<Rightarrow> (Some a, l'))"
| "rate_do url (Sweep t) l = (None, rate_cleanup t l)"

fun rate_run :: "url_path \<Rightarrow> rate_step list \<Rightarrow> RateLimiter \<Rightarrow> RateLimiter" where
  "rate_run url [] l = l"
| "rate_run url (x # xs) l = rate_run url xs (snd (rate_do url x l))"

text \<open>Does the step belong to a tier and an address?\<close>

fun touches :: "url_path \<Rightarrow> bool \<Rightarrow> string \<Rightarrow> rate_step \<Rightarrow> bool" where
  "touches url run ip (Sweep t) = False"
| "touches url run ip (Hit r t1 t2) = (case pathname url r of
     Inl e \<Rightarrow> False | Inr p \<Rightarrow> (p \<in> set RUN_PATHS) = run \<and> remote_ip r = ip)"

fun passed :: "url_path \<Rightarrow> bool \<Rightarrow> string \<Rightarrow> rate_step list \<Rightarrow> RateLimiter \<Rightarrow> nat" where
  "passed url run ip [] l = 0"
| "passed url run ip (x # xs) l = (case rate_do url x l of
     (a, l') \<Rightarrow> (if touches url run ip x \<and> a = Some Pass then 1 else 0) + passed url run ip xs l')"

section \<open>The level of a bucket\<close>

text \<open>What a bucket would hold after a refill at a time; a missing one is full.\<close>

definition level :: "bool \<Rightarrow> string \<Rightarrow> RateLimiter \<Rightarrow> int \<Rightarrow> rat" where
  "level run ip l t = bk_tokens (refill t (getOrCreate (tier_buckets run l) ip (tier_limit run l) t))"

definition bucket_ok :: "int \<Rightarrow> rat \<Rightarrow> Bucket \<Rightarrow> bool" where
  "bucket_ok t cap b \<longleftrightarrow> bk_maxTokens b = cap \<and> 0 \<le> bk_tokens b \<and> bk_tokens b \<le> cap \<and> bk_lastRefill b \<le> t"

definition rate_inv :: "int \<Rightarrow> RateLimiter \<Rightarrow> bool" where
  "rate_inv t l \<longleftrightarrow> rl_enabled l \<and>
     (\<forall>run ip b. map_get (tier_buckets run l) ip = Some b \<longrightarrow> bucket_ok t (tier_limit run l) b) \<and>
     map_ok (rl_generalBuckets l) \<and> map_ok (rl_runBuckets l) \<and> 0 \<le> rl_generalLimit l \<and> 0 \<le> rl_runLimit l"

lemma bucket_ok_mono: "bucket_ok t cap b \<Longrightarrow> t \<le> u \<Longrightarrow> bucket_ok u cap b"
  by (simp add: bucket_ok_def)

lemma rate_invD: "rate_inv t l \<Longrightarrow> t \<le> u \<Longrightarrow> map_get (tier_buckets run l) ip = Some b \<Longrightarrow> bucket_ok u (tier_limit run l) b"
  by (auto simp: rate_inv_def intro: bucket_ok_mono)

lemma rate_inv_mono: "rate_inv t l \<Longrightarrow> t \<le> u \<Longrightarrow> rate_inv u l"
  by (auto simp: rate_inv_def intro: bucket_ok_mono)

definition grow :: "rat \<Rightarrow> rat \<Rightarrow> int \<Rightarrow> rat" where
  "grow cap x d = min cap (x + of_int d / of_int REFILL_INTERVAL_MS * cap)"

lemma grow_grow: "0 \<le> cap \<Longrightarrow> 0 \<le> d \<Longrightarrow> 0 \<le> e \<Longrightarrow> grow cap (grow cap x d) e = grow cap x (d + e)"
proof -
  assume a: "0 \<le> cap" "0 \<le> d" "0 \<le> e"
  have "0 \<le> of_int e / of_int REFILL_INTERVAL_MS * cap" using a by (simp add: REFILL_INTERVAL_MS_def)
  moreover have "of_int (d + e) / of_int REFILL_INTERVAL_MS * cap =
      of_int d / of_int REFILL_INTERVAL_MS * cap + of_int e / of_int REFILL_INTERVAL_MS * (cap :: rat)"
    by (simp add: add_divide_distrib distrib_right)
  ultimately show ?thesis unfolding grow_def by (simp add: min_def)
qed

lemma grow_bounds: "0 \<le> cap \<Longrightarrow> 0 \<le> d \<Longrightarrow> x \<le> cap \<Longrightarrow>
    x \<le> grow cap x d \<and> grow cap x d \<le> cap \<and> grow cap x d \<le> x + of_int d / of_int REFILL_INTERVAL_MS * cap"
  by (simp add: grow_def REFILL_INTERVAL_MS_def)

lemma level_Some: "map_get (tier_buckets run l) ip = Some b \<Longrightarrow> bk_maxTokens b = tier_limit run l \<Longrightarrow>
    level run ip l t = grow (tier_limit run l) (bk_tokens b) (t - bk_lastRefill b)"
  by (simp add: level_def getOrCreate_def refill_def Let_def grow_def)

lemma level_None: "map_get (tier_buckets run l) ip = None \<Longrightarrow> level run ip l t = tier_limit run l"
  by (simp add: level_def getOrCreate_def refill_def Let_def)

lemma tier_limit_nonneg: "rate_inv t l \<Longrightarrow> 0 \<le> tier_limit run l"
  by (simp add: rate_inv_def tier_limit_def)

lemma level_bounds: "rate_inv t l \<Longrightarrow> t \<le> u \<Longrightarrow> 0 \<le> level run ip l u \<and> level run ip l u \<le> tier_limit run l"
proof (cases "map_get (tier_buckets run l) ip")
  case (Some b)
  assume a: "rate_inv t l" "t \<le> u"
  from rate_invD [OF a Some] have "bk_maxTokens b = tier_limit run l" "0 \<le> bk_tokens b" "bk_tokens b \<le> tier_limit run l" "bk_lastRefill b \<le> u"
    by (simp_all add: bucket_ok_def)
  then show ?thesis
    using level_Some [OF Some] grow_bounds [of "tier_limit run l" "u - bk_lastRefill b" "bk_tokens b"] tier_limit_nonneg [OF a(1), of run]
    by fastforce
qed (simp add: level_None tier_limit_nonneg)

text \<open>Time alone moves the level by \<open>grow\<close>.\<close>

lemma level_later: "rate_inv t l \<Longrightarrow> t \<le> u \<Longrightarrow> u \<le> v \<Longrightarrow> level run ip l v = grow (tier_limit run l) (level run ip l u) (v - u)"
proof (cases "map_get (tier_buckets run l) ip")
  case (Some b)
  assume a: "rate_inv t l" "t \<le> u" "u \<le> v"
  from rate_invD [OF a(1,2) Some] have "bk_maxTokens b = tier_limit run l" "bk_lastRefill b \<le> u" by (simp_all add: bucket_ok_def)
  then show ?thesis
    using level_Some [OF Some] grow_grow [OF tier_limit_nonneg [OF a(1), of run], of "u - bk_lastRefill b" "v - u"] a(3) by simp
next
  case None
  assume "rate_inv t l" "t \<le> u" "u \<le> v"
  then show ?thesis using None tier_limit_nonneg [of t l run] by (simp add: level_None grow_def REFILL_INTERVAL_MS_def)
qed

section \<open>Steps\<close>

lemma put_bucket_simps [simp]:
  "tier_limit run (put_bucket run' ip b l) = tier_limit run l"
  "map_get (tier_buckets run (put_bucket run' ip b l)) ip' =
     (if run = run' \<and> ip' = ip then Some b else map_get (tier_buckets run l) ip')"
  "rl_enabled (put_bucket run' ip b l) = rl_enabled l"
  "rl_generalLimit (put_bucket run' ip b l) = rl_generalLimit l" "rl_runLimit (put_bucket run' ip b l) = rl_runLimit l"
  by (auto simp: put_bucket_def tier_limit_def tier_buckets_def map_get_def map_set_def update_conv)

lemma put_bucket_inv:
  assumes "rate_inv t l" "t \<le> u" "bucket_ok u (tier_limit run l) b"
  shows "rate_inv u (put_bucket run ip b l)"
proof -
  have "map_ok (rl_generalBuckets (put_bucket run ip b l)) \<and> map_ok (rl_runBuckets (put_bucket run ip b l))"
    using assms(1) by (simp add: put_bucket_def rate_inv_def jm.ok_update)
  moreover have "bucket_ok u (tier_limit run' l) b'" if "map_get (tier_buckets run' (put_bucket run ip b l)) ip' = Some b'" for run' ip' b'
    using that assms rate_invD [OF assms(1,2)] by (auto split: if_splits)
  ultimately show ?thesis using assms(1) by (simp add: rate_inv_def)
qed

lemma filter_get: "map_ok m \<Longrightarrow> map_get (filter (\<lambda>(k, b). P b) m) ip = (case map_get m ip of Some b \<Rightarrow> if P b then Some b else None | None \<Rightarrow> None)"
  by (induction m) (auto simp: map_ok_def map_get_def map_of_eq_None_iff split: option.splits if_splits intro: rev_image_eqI)

lemma sweep_get:
  assumes "rate_inv t l"
  shows "map_get (tier_buckets run (rate_cleanup now l)) ip = (case map_get (tier_buckets run l) ip of
     Some b \<Rightarrow> if now - bk_lastRefill b > BUCKET_EXPIRY_MS then None else Some b | None \<Rightarrow> None)"
  using assms filter_get [of "tier_buckets run l" "\<lambda>b. \<not> now - bk_lastRefill b > BUCKET_EXPIRY_MS" ip]
  by (auto simp: rate_inv_def tier_buckets_def rate_cleanup_def cleanupMap_def split: option.split)

lemma sweep_limit [simp]: "tier_limit run (rate_cleanup now l) = tier_limit run l"
  by (simp add: tier_limit_def rate_cleanup_def)

lemma filter_ok: "map_ok m \<Longrightarrow> map_ok (filter P m)"
  by (simp add: map_ok_def distinct_map_filter)

lemma sweep_inv: "rate_inv t l \<Longrightarrow> t \<le> u \<Longrightarrow> rate_inv u (rate_cleanup now l)"
proof -
  assume a: "rate_inv t l" "t \<le> u"
  have "bucket_ok u (tier_limit run l) b" if "map_get (tier_buckets run (rate_cleanup now l)) ip = Some b" for run ip b
    using that rate_invD [OF a] by (auto simp: sweep_get [OF a(1)] split: option.splits if_splits)
  moreover have "map_ok (rl_generalBuckets (rate_cleanup now l)) \<and> map_ok (rl_runBuckets (rate_cleanup now l))"
    using a(1) by (simp add: rate_inv_def rate_cleanup_def cleanupMap_def filter_ok)
  moreover have "rl_enabled (rate_cleanup now l) = rl_enabled l" "rl_generalLimit (rate_cleanup now l) = rl_generalLimit l"
      "rl_runLimit (rate_cleanup now l) = rl_runLimit l"
    by (simp_all add: rate_cleanup_def)
  ultimately show ?thesis using a(1) unfolding rate_inv_def by simp
qed

text \<open>A bucket that a clean-up removes is full by then.\<close>

lemma sweep_level: "rate_inv t l \<Longrightarrow> t \<le> now \<Longrightarrow> level run ip (rate_cleanup now l) now = level run ip l now"
proof (cases "map_get (tier_buckets run l) ip")
  case (Some b)
  assume a: "rate_inv t l" "t \<le> now"
  from rate_invD [OF a Some] have b: "bk_maxTokens b = tier_limit run l" "0 \<le> bk_tokens b" by (simp_all add: bucket_ok_def)
  show ?thesis
  proof (cases "now - bk_lastRefill b > BUCKET_EXPIRY_MS")
    case True
    have "1 * tier_limit run l \<le> of_int (now - bk_lastRefill b) / of_int REFILL_INTERVAL_MS * tier_limit run l"
      using True tier_limit_nonneg [OF a(1), of run]
      by (intro mult_right_mono) (simp_all add: BUCKET_EXPIRY_MS_def REFILL_INTERVAL_MS_def)
    then have "level run ip l now = tier_limit run l" using level_Some [OF Some b(1)] b(2) by (simp add: grow_def)
    moreover have "level run ip (rate_cleanup now l) now = tier_limit run l"
      using level_None [of run "rate_cleanup now l" ip now] True Some by (simp add: sweep_get [OF a(1)])
    ultimately show ?thesis by simp
  next
    case False
    then show ?thesis using Some b(1) level_Some [of run "rate_cleanup now l" ip b now] level_Some [OF Some b(1)]
      by (simp add: sweep_get [OF a(1)])
  qed
next
  case None
  assume "rate_inv t l"
  then show ?thesis using None by (simp add: level_None sweep_get)
qed

text \<open>What a check does to the level of its own key and of the others.\<close>

lemma check_level:
  assumes inv: "rate_inv t l" "t \<le> t1" "t1 \<le> t2" and p: "pathname url r = Inr p"
    and c: "rate_check url r t1 t2 l = (a, l')"
  defines "run \<equiv> p \<in> set RUN_PATHS" and "ip \<equiv> remote_ip r"
  shows "rate_inv t2 l' \<and> tier_limit run' l' = tier_limit run' l \<and>
    (a = Pass \<longleftrightarrow> 1 \<le> level run ip l t2) \<and>
    (\<forall>k. a = Limited (Some k) \<longrightarrow> k = \<lceil>(1 - level run ip l t2) / tier_limit run l * 60\<rceil>) \<and>
    level run' ip' l' t2 = level run' ip' l t2 - (if run' = run \<and> ip' = ip \<and> a = Pass then 1 else 0)"
proof -
  define b where "b = refill t2 (getOrCreate (tier_buckets run l) ip (tier_limit run l) t1)"
  have cap: "0 \<le> tier_limit run l" by (rule tier_limit_nonneg [OF inv(1)])
  have tok: "bk_tokens b = level run ip l t2"
  proof (cases "map_get (tier_buckets run l) ip")
    case None
    then show ?thesis using cap inv(3) by (simp add: b_def level_None getOrCreate_def refill_def Let_def REFILL_INTERVAL_MS_def)
  qed (simp add: b_def level_def getOrCreate_def)
  have shape: "bk_maxTokens b = tier_limit run l" "bk_lastRefill b = t2"
    using rate_invD [OF inv(1) order_refl, of run ip] by (auto simp: b_def refill_def Let_def getOrCreate_def bucket_ok_def split: option.split)
  have bd: "0 \<le> bk_tokens b" "bk_tokens b \<le> tier_limit run l" using level_bounds [OF inv(1), of t2 run ip] inv(2,3) tok by auto
  have out: "(a, l') = (if bk_tokens b < 1 then (Limited (retryAfterSec b), put_bucket run ip b l)
      else (Pass, put_bucket run ip (b\<lparr>bk_tokens := bk_tokens b - 1\<rparr>) l))"
    using c p inv(1) by (auto simp: rate_check_def rate_inv_def run_def ip_def b_def Let_def split: if_splits)
  define b' where "b' = (if bk_tokens b < 1 then b else b\<lparr>bk_tokens := bk_tokens b - 1\<rparr>)"
  have l': "l' = put_bucket run ip b' l" and a: "a = Pass \<longleftrightarrow> \<not> bk_tokens b < 1"
    using out by (auto simp: b'_def split: if_splits)
  have b': "bk_maxTokens b' = tier_limit run l" "bk_lastRefill b' = t2" "0 \<le> bk_tokens b'" "bk_tokens b' \<le> tier_limit run l"
      "bk_tokens b' = bk_tokens b - (if a = Pass then 1 else 0)"
    using shape bd a by (simp_all add: b'_def)
  have "level run ip l' t2 = bk_tokens b'"
    using level_Some [of run l' ip b' t2] b' by (simp add: l' grow_def)
  moreover have "level run' ip' l' t2 = level run' ip' l t2" if "\<not> (run' = run \<and> ip' = ip)"
    using that by (auto simp: level_def getOrCreate_def l')
  ultimately have "level run' ip' l' t2 = level run' ip' l t2 - (if run' = run \<and> ip' = ip \<and> a = Pass then 1 else 0)"
    using b'(5) tok by (cases "run' = run \<and> ip' = ip") auto
  moreover have "rate_inv t2 l'" unfolding l' by (rule put_bucket_inv [OF inv(1)]) (use inv(2,3) b' in \<open>simp_all add: bucket_ok_def\<close>)
  moreover have "k = \<lceil>(1 - level run ip l t2) / tier_limit run l * 60\<rceil>" if "a = Limited (Some k)" for k
    using out that shape(1) tok by (auto simp: retryAfterSec_def REFILL_INTERVAL_MS_def split: if_splits)
  ultimately show ?thesis using a tok l' by auto
qed

lemma step_level:
  assumes "rate_inv t l" "t \<le> step_start x" "step_start x \<le> step_end x" "rate_do url x l = (a, l')"
  shows "rate_inv (step_end x) l' \<and> tier_limit run l' = tier_limit run l \<and>
    level run ip l' (step_end x) = level run ip l (step_end x) - (if touches url run ip x \<and> a = Some Pass then 1 else 0)"
proof (cases x)
  case (Hit r t1 t2)
  obtain c l1 where c: "rate_check url r t1 t2 l = (c, l1)" by fastforce
  have en: "rl_enabled l" using assms(1) by (simp add: rate_inv_def)
  have mono: "rate_inv t2 l" using rate_inv_mono [OF assms(1), of t2] assms(2,3) Hit by simp
  show ?thesis
  proof (cases "pathname url r")
    case (Inl e)
    then show ?thesis using assms(4) Hit c en mono by (auto simp: rate_check_def)
  next
    case (Inr p)
    have l: "l' = l1" "a = Some c" using assms(4) Hit c by simp_all
    from check_level [OF assms(1) _ _ Inr c, where run' = run and ip' = ip] assms(2,3) Hit Inr l show ?thesis by auto
  qed
next
  case (Sweep u)
  then show ?thesis using assms sweep_inv [OF assms(1), of u u] sweep_level [OF assms(1), of u run ip] by auto
qed

lemma run_level:
  "rate_inv t l \<Longrightarrow> clocked t xs \<Longrightarrow> rate_inv (end_time t xs) (rate_run url xs l) \<and>
     tier_limit run (rate_run url xs l) = tier_limit run l \<and> t \<le> end_time t xs \<and>
     of_nat (passed url run ip xs l) + level run ip (rate_run url xs l) (end_time t xs) \<le>
       level run ip l t + of_int (end_time t xs - t) / of_int REFILL_INTERVAL_MS * tier_limit run l"
proof (induction xs arbitrary: t l)
  case (Cons x xs)
  obtain a l' where s: "rate_do url x l = (a, l')" by fastforce
  let ?e = "step_end x"
  have t: "t \<le> step_start x" "step_start x \<le> ?e" "clocked ?e xs" using Cons.prems(2) by simp_all
  note sl = step_level [OF Cons.prems(1) t(1,2) s, of run ip]
  have ih: "rate_inv (end_time ?e xs) (rate_run url xs l')" "tier_limit run (rate_run url xs l') = tier_limit run l'" "?e \<le> end_time ?e xs"
      "of_nat (passed url run ip xs l') + level run ip (rate_run url xs l') (end_time ?e xs) \<le>
       level run ip l' ?e + of_int (end_time ?e xs - ?e) / of_int REFILL_INTERVAL_MS * tier_limit run l'"
    using Cons.IH [of ?e l'] sl t(3) by auto
  have g: "level run ip l ?e \<le> level run ip l t + of_int (?e - t) / of_int REFILL_INTERVAL_MS * tier_limit run l"
    using level_later [OF Cons.prems(1), of t ?e run ip] t(1,2) level_bounds [OF Cons.prems(1), of t run ip]
      grow_bounds [of "tier_limit run l" "?e - t" "level run ip l t"] tier_limit_nonneg [OF Cons.prems(1), of run] by fastforce
  have split: "of_int (end_time ?e xs - t) / of_int REFILL_INTERVAL_MS * tier_limit run l =
      of_int (?e - t) / of_int REFILL_INTERVAL_MS * tier_limit run l +
      of_int (end_time ?e xs - ?e) / of_int REFILL_INTERVAL_MS * tier_limit run l"
    by (simp add: add_divide_distrib [symmetric] distrib_right [symmetric])
  show ?case using ih sl g split t s by auto
qed simp

lemma create_inv:
  assumes "0 \<le> rl_generalLimit (createRateLimiter env opts)" "0 \<le> rl_runLimit (createRateLimiter env opts)"
    and "rl_enabled (createRateLimiter env opts)"
  shows "rate_inv t (createRateLimiter env opts)"
  using assms by (auto simp: rate_inv_def createRateLimiter_def tier_buckets_def map_get_def map_ok_def split: if_splits)

lemma clocked_append: "clocked a (xs @ ys) \<longleftrightarrow> clocked a xs \<and> clocked (end_time a xs) ys"
  by (induction xs arbitrary: a) auto

lemma end_time_append: "end_time a (xs @ ys) = end_time (end_time a xs) ys"
  by (induction xs arbitrary: a) auto

lemma run_level_other:
  "rate_inv t l \<Longrightarrow> clocked t xs \<Longrightarrow> list_all (\<lambda>x. \<not> touches url run ip x) xs \<Longrightarrow>
     level run ip (rate_run url xs l) (end_time t xs) = grow (tier_limit run l) (level run ip l t) (end_time t xs - t)"
proof (induction xs arbitrary: t l)
  case Nil
  then show ?case using level_bounds [of t l t run ip] by (simp add: grow_def)
next
  case (Cons x xs)
  obtain a l' where s: "rate_do url x l = (a, l')" by fastforce
  let ?e = "step_end x"
  have t: "t \<le> step_start x" "step_start x \<le> ?e" "clocked ?e xs" "\<not> touches url run ip x" using Cons.prems by simp_all
  note sl = step_level [OF Cons.prems(1) t(1,2) s, of run ip]
  have e: "?e \<le> end_time ?e xs" using run_level [of ?e l' xs url run] sl t(3) by blast
  have "level run ip l' ?e = grow (tier_limit run l) (level run ip l t) (?e - t)"
    using sl t level_later [OF Cons.prems(1), of t ?e run ip] by simp
  then show ?case
    using Cons.IH [of ?e l'] sl t Cons.prems(3) s e
      grow_grow [OF tier_limit_nonneg [OF Cons.prems(1), of run], of "?e - t" "end_time ?e xs - ?e" "level run ip l t"] by simp
qed

section \<open>What the limiter promises\<close>

text \<open>
  C19: the bound of the rate limiter. In every window of time, after any history of requests from any addresses and
  of clean-ups, an address gets at most the limit of the tier through, and what a steady refill of the limit per minute
  adds during the window; removing stale buckets does not give it more.
\<close>

theorem rate_limit_bound:
  assumes "L = createRateLimiter env opts" "rl_enabled L" "0 \<le> rl_generalLimit L" "0 \<le> rl_runLimit L"
    and "clocked t0 (xs @ ys)" "ys \<noteq> []"
  shows "of_nat (passed url run ip ys (rate_run url xs L)) \<le>
    tier_limit run L * (1 + of_int (end_time t0 (xs @ ys) - step_start (hd ys)) / 60000)"
proof -
  let ?l = "rate_run url xs L" and ?t = "step_start (hd ys)"
  have c: "clocked t0 xs" "clocked (end_time t0 xs) ys" using assms(5) by (simp_all add: clocked_append)
  obtain y ys' where ys: "ys = y # ys'" using assms(6) by (cases ys) auto
  have t: "end_time t0 xs \<le> ?t" "clocked ?t ys" "end_time (end_time t0 xs) ys = end_time ?t ys" using c(2) ys by auto
  have "rate_inv t0 L" using create_inv assms by simp
  note r = run_level [OF this c(1), of url run ip]
  have i: "rate_inv ?t ?l" using r rate_inv_mono t(1) by blast
  have b: "of_nat (passed url run ip ys ?l) + level run ip (rate_run url ys ?l) (end_time ?t ys) \<le>
      level run ip ?l ?t + of_int (end_time ?t ys - ?t) / of_int REFILL_INTERVAL_MS * tier_limit run ?l"
    "rate_inv (end_time ?t ys) (rate_run url ys ?l)"
    using run_level [OF i t(2), of url run ip] by simp_all
  have "0 \<le> level run ip (rate_run url ys ?l) (end_time ?t ys)" "level run ip ?l ?t \<le> tier_limit run L"
    using level_bounds [OF b(2) order_refl, of run ip] level_bounds [OF i order_refl, of run ip] r by auto
  then have "of_nat (passed url run ip ys ?l) \<le> tier_limit run L + of_int (end_time ?t ys - ?t) / 60000 * tier_limit run L"
    using b(1) r by (simp add: REFILL_INTERVAL_MS_def)
  then show ?thesis by (simp add: end_time_append t(3) algebra_simps)
qed

definition sample_limiter :: RateLimiter where
  "sample_limiter = createRateLimiter \<lparr>le_disable = None, le_general = None, le_run = Some ''2''\<rparr>
     \<lparr>lo_disabled = None, lo_generalLimit = None, lo_runLimit = None\<rparr>"

definition run_request :: HttpRequest where
  "run_request = \<lparr>rq_remoteAddress = Some ''a'', rq_url = Some ''/api/v1/run'', rq_host = None\<rparr>"

definition path_only :: url_path where
  "path_only u base = Inr u"

lemma sample_limits: "rl_enabled sample_limiter" "rl_generalLimit sample_limiter = 600" "rl_runLimit sample_limiter = 2"
  by (code_simp, code_simp, code_simp)

theorem rate_limit_bound_witness:
  "passed path_only True ''a'' [Hit run_request 0 0, Hit run_request 1 1, Hit run_request 2 2, Hit run_request 3 3] sample_limiter = 2 \<and>
   of_nat (passed path_only True ''a'' [Hit run_request 0 0, Hit run_request 1 1, Hit run_request 2 2, Hit run_request 3 3] sample_limiter)
     \<le> (2 :: rat) * (1 + 3 / 60000)"
proof
  show "passed path_only True ''a'' [Hit run_request 0 0, Hit run_request 1 1, Hit run_request 2 2, Hit run_request 3 3] sample_limiter = 2"
    by code_simp
  show "of_nat (passed path_only True ''a'' [Hit run_request 0 0, Hit run_request 1 1, Hit run_request 2 2, Hit run_request 3 3] sample_limiter)
     \<le> (2 :: rat) * (1 + 3 / 60000)"
    using rate_limit_bound [OF sample_limiter_def, of 0 "[]"
      "[Hit run_request 0 0, Hit run_request 1 1, Hit run_request 2 2, Hit run_request 3 3]" path_only True "''a''"] sample_limits
    by (simp add: tier_limit_def)
qed



end
