(* ===== verification/PermissionIntent.thy ===== *)
theory PermissionIntent
  imports Json "HOL-Library.List_Lexorder"
begin

text \<open>
  The identity of an action that is reviewed by a person (\<open>gateway/permission-intent.ts\<close> of packages/cortex): the
  canonical text of a value, and the texts whose SHA-256 digest identifies a tool, a policy, a scheduled action and
  a permission request. The digest is a parameter.
\<close>

section \<open>Canonical text\<close>

text \<open>
  A JavaScript value as the canonicaliser sees it. \<open>IUnsupported\<close> stands for everything it rejects on sight:
  undefined, functions, symbols, class instances, arrays with holes or further properties, objects with
  symbols or accessors, and a reference to an object it is inside of.
\<close>

datatype intent_value =
    INull | IBool bool | INum string | INonFinite | IStr string
  | IArr "intent_value list" | IObj "(string \<times> intent_value) list" | IUnsupported

fun intent_of :: "json \<Rightarrow> intent_value" where
  "intent_of JNull = INull"
| "intent_of (JBool b) = IBool b"
| "intent_of (JNum n) = INum n"
| "intent_of (JStr t) = IStr t"
| "intent_of (JArr vs) = IArr (map intent_of vs)"
| "intent_of (JObj kvs) = IObj (map (\<lambda>(k, v). (k, intent_of v)) kvs)"

definition MAX_CANONICAL_PERMISSION_DEPTH :: nat where "MAX_CANONICAL_PERMISSION_DEPTH = 256"

text \<open>\<open>None\<close> is the error \<open>Permission intent is invalid\<close>.\<close>

fun canonicalPermissionJsonValue :: "intent_value \<Rightarrow> nat \<Rightarrow> string option" where
  "canonicalPermissionJsonValue v depth =
     (if depth > MAX_CANONICAL_PERMISSION_DEPTH then None
      else (case v of
          INull \<Rightarrow> Some ''null''
        | IStr t \<Rightarrow> Some (json_string t)
        | IBool b \<Rightarrow> Some (if b then ''true'' else ''false'')
        | INonFinite \<Rightarrow> None
        | INum n \<Rightarrow> Some n
        | IArr vs \<Rightarrow> map_option (\<lambda>items. ''['' @ js_join '','' items @ '']'')
            (those (map (\<lambda>w. canonicalPermissionJsonValue w (depth + 1)) vs))
        | IObj kvs \<Rightarrow> map_option (\<lambda>items. ''{'' @ js_join '','' items @ ''}'')
            (those (map (\<lambda>(k, w). map_option (\<lambda>t. json_string k @ '':'' @ t) (canonicalPermissionJsonValue w (depth + 1)))
               (sort_key fst kvs)))
        | IUnsupported \<Rightarrow> None))"

declare canonicalPermissionJsonValue.simps [simp del]

definition canonicalPermissionJson :: "intent_value \<Rightarrow> string option" where
  "canonicalPermissionJson v = canonicalPermissionJsonValue v 0"

section \<open>What the canonical text is\<close>

text \<open>The values that have one: JSON up to a depth; and the JSON value with sorted names that is printed.\<close>

fun plain :: "intent_value \<Rightarrow> bool" where
  "plain INonFinite \<longleftrightarrow> False"
| "plain IUnsupported \<longleftrightarrow> False"
| "plain (IArr vs) \<longleftrightarrow> list_all plain vs"
| "plain (IObj kvs) \<longleftrightarrow> list_all (\<lambda>(k, v). plain v) kvs"
| "plain v \<longleftrightarrow> True"

fun nests_to :: "nat \<Rightarrow> intent_value \<Rightarrow> bool" where
  "nests_to n (IArr vs) \<longleftrightarrow> vs = [] \<or> 0 < n \<and> list_all (nests_to (n - 1)) vs"
| "nests_to n (IObj kvs) \<longleftrightarrow> kvs = [] \<or> 0 < n \<and> list_all (\<lambda>(k, v). nests_to (n - 1) v) kvs"
| "nests_to n v \<longleftrightarrow> True"

fun sorted_tree :: "intent_value \<Rightarrow> json" where
  "sorted_tree (IBool b) = JBool b"
| "sorted_tree (INum n) = JNum n"
| "sorted_tree (IStr t) = JStr t"
| "sorted_tree (IArr vs) = JArr (map sorted_tree vs)"
| "sorted_tree (IObj kvs) = JObj (sort_key fst (map (\<lambda>(k, v). (k, sorted_tree v)) kvs))"
| "sorted_tree v = JNull"

lemma those_map_some:
  "those (map f xs) = (if list_all (\<lambda>x. f x \<noteq> None) xs then Some (map (the \<circ> f) xs) else None)"
  by (induction xs) (auto split: option.splits)

lemma those_map_if:
  assumes "\<And>x. x \<in> set xs \<Longrightarrow> f x = (if P x then Some (g x) else None)"
  shows "those (map f xs) = (if list_all P xs then Some (map g xs) else None)"
  using assms by (induction xs) auto

lemma insort_key_map_snd:
  "insort_key fst (k, f v) (map (\<lambda>(k, v). (k, f v)) kvs) = map (\<lambda>(k, v). (k, f v)) (insort_key fst (k, v) kvs)"
  by (induction kvs) (auto simp: case_prod_unfold)

lemma sort_key_map_snd:
  "sort_key fst (map (\<lambda>(k, v). (k, f v)) kvs) = map (\<lambda>(k, v). (k, f v)) (sort_key fst kvs)"
proof (induction kvs)
  case (Cons kv kvs)
  then show ?case using insort_key_map_snd [of "fst kv" f "snd kv" "sort_key fst kvs"] by (cases kv) simp
qed simp

lemma list_all_guard: "list_all (\<lambda>x. P x \<and> c \<and> Q x) xs \<longleftrightarrow> list_all P xs \<and> (xs = [] \<or> c \<and> list_all Q xs)"
  by (cases xs) (auto simp: list_all_iff)

lemma list_all_sort_key [simp]: "list_all P (sort_key f xs) \<longleftrightarrow> list_all P xs"
  by (simp add: list_all_iff)

lemma canonical_value:
  "depth \<le> MAX_CANONICAL_PERMISSION_DEPTH \<Longrightarrow> canonicalPermissionJsonValue v depth =
     (if plain v \<and> nests_to (MAX_CANONICAL_PERMISSION_DEPTH - depth) v then Some (json_stringify (sorted_tree v)) else None)"
proof (induction v arbitrary: depth)
  case (IArr vs)
  let ?n = "MAX_CANONICAL_PERMISSION_DEPTH - depth"
  have e: "canonicalPermissionJsonValue w (depth + 1) =
      (if plain w \<and> 0 < ?n \<and> nests_to (?n - 1) w then Some (json_stringify (sorted_tree w)) else None)" if "w \<in> set vs" for w
    using IArr.IH [OF that, of "depth + 1"] IArr.prems
    by (cases "depth = MAX_CANONICAL_PERMISSION_DEPTH") (simp_all add: canonicalPermissionJsonValue.simps [of w])
  have "those (map (\<lambda>w. canonicalPermissionJsonValue w (depth + 1)) vs) =
      (if list_all (\<lambda>w. plain w \<and> 0 < ?n \<and> nests_to (?n - 1) w) vs then Some (map (\<lambda>w. json_stringify (sorted_tree w)) vs) else None)"
    by (rule those_map_if) (rule e)
  moreover have "canonicalPermissionJsonValue (IArr vs) depth = map_option (\<lambda>items. ''['' @ js_join '','' items @ '']'')
      (those (map (\<lambda>w. canonicalPermissionJsonValue w (depth + 1)) vs))"
    using IArr.prems by (simp add: canonicalPermissionJsonValue.simps [of "IArr vs"])
  ultimately show ?case by (simp add: list_all_guard comp_def)
next
  case (IObj kvs)
  let ?n = "MAX_CANONICAL_PERMISSION_DEPTH - depth"
  let ?g = "\<lambda>(k, w). json_string k @ '':'' @ json_stringify (sorted_tree w)"
  have e: "(case kv of (k, w) \<Rightarrow> map_option (\<lambda>t. json_string k @ '':'' @ t) (canonicalPermissionJsonValue w (depth + 1))) =
      (if (case kv of (k, w) \<Rightarrow> plain w \<and> 0 < ?n \<and> nests_to (?n - 1) w) then Some (?g kv) else None)" if "kv \<in> set (sort_key fst kvs)" for kv
  proof -
    obtain k w where kv: "kv = (k, w)" by (cases kv)
    have "canonicalPermissionJsonValue w (depth + 1) =
        (if plain w \<and> 0 < ?n \<and> nests_to (?n - 1) w then Some (json_stringify (sorted_tree w)) else None)"
      using IObj.IH [of kv w "depth + 1"] IObj.prems that kv
      by (cases "depth = MAX_CANONICAL_PERMISSION_DEPTH") (simp_all add: canonicalPermissionJsonValue.simps [of w])
    then show ?thesis using kv by auto
  qed
  have t: "those (map (\<lambda>(k, w). map_option (\<lambda>t. json_string k @ '':'' @ t) (canonicalPermissionJsonValue w (depth + 1))) (sort_key fst kvs)) =
      (if list_all (\<lambda>(k, w). plain w \<and> 0 < ?n \<and> nests_to (?n - 1) w) (sort_key fst kvs) then Some (map ?g (sort_key fst kvs)) else None)"
    by (rule those_map_if) (rule e)
  have m: "map (\<lambda>(k, v). json_string k @ '':'' @ json_stringify v) (sort_key fst (map (\<lambda>(k, v). (k, sorted_tree v)) kvs)) =
      map ?g (sort_key fst kvs)"
    unfolding sort_key_map_snd by (simp add: comp_def case_prod_unfold)
  have "canonicalPermissionJsonValue (IObj kvs) depth = map_option (\<lambda>items. ''{'' @ js_join '','' items @ ''}'')
      (those (map (\<lambda>(k, w). map_option (\<lambda>t. json_string k @ '':'' @ t) (canonicalPermissionJsonValue w (depth + 1))) (sort_key fst kvs)))"
    using IObj.prems by (simp add: canonicalPermissionJsonValue.simps [of "IObj kvs"])
  moreover have "list_all (\<lambda>(k, w). plain w \<and> 0 < ?n \<and> nests_to (?n - 1) w) (sort_key fst kvs) \<longleftrightarrow> plain (IObj kvs) \<and> nests_to ?n (IObj kvs)"
    unfolding list_all_sort_key by (cases kvs) (auto simp: list_all_iff)
  moreover have "json_stringify (sorted_tree (IObj kvs)) = ''{'' @ js_join '','' (map ?g (sort_key fst kvs)) @ ''}''"
    using m by simp
  ultimately show ?case by (simp only: t) simp
qed (simp_all add: canonicalPermissionJsonValue.simps)

lemma canonical_text:
  "canonicalPermissionJson v =
     (if plain v \<and> nests_to MAX_CANONICAL_PERMISSION_DEPTH v then Some (json_stringify (sorted_tree v)) else None)"
  using canonical_value [of 0 v] by (simp add: canonicalPermissionJson_def)

section \<open>Equality up to the order of properties\<close>

fun distinct_names :: "json \<Rightarrow> bool" where
  "distinct_names (JArr vs) \<longleftrightarrow> list_all distinct_names vs"
| "distinct_names (JObj kvs) \<longleftrightarrow> distinct (map fst kvs) \<and> list_all (\<lambda>(k, v). distinct_names v) kvs"
| "distinct_names v \<longleftrightarrow> True"

inductive json_same :: "json \<Rightarrow> json \<Rightarrow> bool" where
  same_null: "json_same JNull JNull"
| same_bool: "json_same (JBool b) (JBool b)"
| same_num: "json_same (JNum n) (JNum n)"
| same_str: "json_same (JStr t) (JStr t)"
| same_arr: "list_all2 json_same vs ws \<Longrightarrow> json_same (JArr vs) (JArr ws)"
| same_obj: "fst ` set a = fst ` set b \<Longrightarrow> (\<forall>k v w. map_of a k = Some v \<longrightarrow> map_of b k = Some w \<longrightarrow> json_same v w) \<Longrightarrow>
    json_same (JObj a) (JObj b)"

abbreviation sorted_json :: "json \<Rightarrow> json" where
  "sorted_json v \<equiv> sorted_tree (intent_of v)"

definition on_values :: "('a \<Rightarrow> 'b) \<Rightarrow> (string \<times> 'a) list \<Rightarrow> (string \<times> 'b) list" where
  "on_values f kvs = map (\<lambda>(k, v). (k, f v)) kvs"

lemma on_values_simps [simp]:
  "map fst (on_values f kvs) = map fst kvs"
  "on_values f (on_values g kvs) = on_values (\<lambda>x. f (g x)) kvs"
  "fst ` set (on_values f kvs) = fst ` set kvs"
  by (simp_all add: on_values_def comp_def case_prod_unfold image_image)

lemma set_on_values: "set (on_values f kvs) = (\<lambda>(k, v). (k, f v)) ` set kvs"
  by (simp add: on_values_def)

lemma on_values_cong: "(\<And>k v. (k, v) \<in> set kvs \<Longrightarrow> f v = g v) \<Longrightarrow> on_values f kvs = on_values g kvs"
  by (auto simp: on_values_def)

lemma on_values_id: "(\<And>k v. (k, v) \<in> set kvs \<Longrightarrow> f v = v) \<Longrightarrow> on_values f kvs = kvs"
  by (auto simp: on_values_def intro: map_idI)

lemma sorted_json_obj: "sorted_json (JObj kvs) = JObj (sort_key fst (on_values sorted_json kvs))"
  by (simp add: on_values_def comp_def case_prod_unfold)

lemma assoc_unique:
  assumes "distinct (map fst a)" "distinct (map fst b)" "set a = set (b :: (string \<times> 'v) list)"
  shows "sort_key fst a = sort_key fst b"
proof -
  have "inj_on fst (set a)" using assms(1) by (simp add: distinct_map)
  moreover have "distinct (map fst (sort_key fst a))" "distinct (map fst (sort_key fst b))"
    using assms by (simp_all add: distinct_map)
  ultimately show ?thesis
    by (intro map_sorted_distinct_set_unique [of fst]) (use assms(3) in simp_all)
qed

lemma distinct_sorted_keys: "distinct (map fst (sort_key fst kvs)) \<longleftrightarrow> distinct (map fst (kvs :: (string \<times> 'v) list))"
  by (simp add: distinct_map)

lemma sorted_json_names: "distinct_names v \<Longrightarrow> distinct_names (sorted_json v)"
proof (induction v)
  case (JObj kvs)
  have "distinct_names (sorted_json w)" if "(k, w) \<in> set kvs" for k w
    using JObj.IH [of "(k, w)" w] JObj.prems that by (auto simp: list_all_iff)
  then show ?case using JObj.prems
    by (auto simp: sorted_json_obj distinct_sorted_keys list_all_iff set_on_values simp del: intent_of.simps)
qed (auto simp: list_all_iff)

lemma sorted_json_idem: "distinct_names v \<Longrightarrow> sorted_json (sorted_json v) = sorted_json v"
proof (induction v)
  case (JObj kvs)
  let ?s = "sort_key fst (on_values sorted_json kvs)"
  have "on_values sorted_json ?s = ?s"
    by (rule on_values_id) (use JObj in \<open>auto simp: set_on_values list_all_iff\<close>)
  then show ?case by (simp add: sorted_json_obj sort_key_id_if_sorted del: intent_of.simps)
qed (auto simp: list_all_iff)

lemma set_prop_fresh: "k \<notin> fst ` set kvs \<Longrightarrow> set (set_prop k v kvs) = insert (k, v) (set kvs)"
proof -
  have "set (insert_index n k v kvs) = insert (k, v) (set kvs)" for n
    by (induction kvs) (auto split: option.splits if_splits)
  then show "k \<notin> fst ` set kvs \<Longrightarrow> ?thesis" by (auto simp: set_prop_def split: option.splits)
qed

lemma obj_of_set: "distinct (map fst kvs) \<Longrightarrow> set (obj_of kvs) = set kvs"
proof (induction kvs rule: rev_induct)
  case (snoc kv kvs)
  obtain k v where kv: "kv = (k, v)" by (cases kv)
  then have "k \<notin> fst ` set kvs" "set (obj_of kvs) = set kvs" using snoc by auto
  then show ?case using set_prop_fresh [of k "obj_of kvs" v] kv by (simp add: obj_of_def)
qed (simp add: obj_of_def)

lemma norm_obj: "json_norm (JObj kvs) = JObj (obj_of (on_values json_norm kvs))"
  by (simp add: on_values_def)

text \<open>Printing and reading a value does not change its identity.\<close>

lemma norm_tree: "distinct_names v \<Longrightarrow> sorted_json (json_norm v) = sorted_json v"
proof (induction v)
  case (JObj kvs)
  have d: "distinct (map fst kvs)" using JObj.prems by simp
  have "distinct (map fst (obj_of (on_values json_norm kvs)))" using obj_of_ordered by (simp add: prop_ordered_def)
  moreover have "set (on_values sorted_json (obj_of (on_values json_norm kvs))) = set (on_values sorted_json kvs)"
  proof -
    have "sorted_json (json_norm v) = sorted_json v" if "(k, v) \<in> set kvs" for k v
      using JObj.IH [of "(k, v)" v] JObj.prems that by (auto simp: list_all_iff)
    then have "on_values (\<lambda>v. sorted_json (json_norm v)) kvs = on_values sorted_json kvs" by (rule on_values_cong)
    moreover have "set (on_values sorted_json (obj_of (on_values json_norm kvs))) = set (on_values sorted_json (on_values json_norm kvs))"
      using obj_of_set [of "on_values json_norm kvs"] d by (simp only: set_on_values [of sorted_json] on_values_simps(1))
    ultimately show ?thesis by (simp only: on_values_simps)
  qed
  ultimately have "sort_key fst (on_values sorted_json (obj_of (on_values json_norm kvs))) = sort_key fst (on_values sorted_json kvs)"
    using d by (intro assoc_unique) simp_all
  then show ?case by (simp add: sorted_json_obj norm_obj del: intent_of.simps json_norm.simps)
qed (auto simp: list_all_iff)

lemma sorted_json_nums: "json_nums num v \<Longrightarrow> json_nums num (sorted_json v)"
proof (induction v)
  case (JObj kvs)
  then show ?case by (force simp: sorted_json_obj list_all_iff set_on_values simp del: intent_of.simps)
qed (auto simp: list_all_iff)

lemma map_of_on_values: "map_of (on_values f kvs) k = map_option f (map_of kvs k)"
  by (induction kvs) (auto simp: on_values_def)

lemma same_tree: "json_same v w \<Longrightarrow> distinct_names v \<Longrightarrow> distinct_names w \<Longrightarrow> sorted_json v = sorted_json w"
proof (induction rule: json_same.induct)
  case (same_arr vs ws)
  then have "map sorted_json vs = map sorted_json ws"
    by (auto simp: list_all2_conv_all_nth list_all_length intro: nth_equalityI)
  then show ?case by (simp add: comp_def)
next
  case (same_obj a b)
  have d: "distinct (map fst a)" "distinct (map fst b)" using same_obj.prems by simp_all
  have "map_of (on_values sorted_json a) k = map_of (on_values sorted_json b) k" for k
  proof (cases "map_of a k")
    case None
    then have "map_of b k = None" using same_obj.hyps(1) by (simp add: map_of_eq_None_iff)
    then show ?thesis using None by (simp add: map_of_on_values)
  next
    case (Some v)
    then have "k \<in> fst ` set b" using same_obj.hyps(1) by (metis map_of_eq_None_iff option.distinct(1))
    then obtain w where w: "map_of b k = Some w" using weak_map_of_SomeI by fastforce
    have "distinct_names v" "distinct_names w"
      using same_obj.prems Some w by (auto simp: list_all_iff dest!: map_of_SomeD)
    then show ?thesis using same_obj.IH Some w by (simp add: map_of_on_values)
  qed
  then have "map_of (on_values sorted_json a) = map_of (on_values sorted_json b)" by (rule ext)
  then have "set (on_values sorted_json a) = set (on_values sorted_json b)"
    using map_of_inject_set [of "on_values sorted_json a" "on_values sorted_json b"] d by simp
  then show ?case unfolding sorted_json_obj using d by (simp add: assoc_unique)
qed simp_all

lemma tree_same: "sorted_json v = sorted_json w \<Longrightarrow> distinct_names v \<Longrightarrow> distinct_names w \<Longrightarrow> json_same v w"
proof (induction v arbitrary: w)
  case (JArr vs)
  from JArr.prems(1) obtain ws where w: "w = JArr ws" "map sorted_json vs = map sorted_json ws"
    by (cases w) (auto simp: comp_def)
  have "list_all2 json_same vs ws"
    using JArr.IH JArr.prems w by (auto simp: list_all2_conv_all_nth list_all_length map_equality_iff)
  then show ?case using w by (simp add: same_arr)
next
  case (JObj a)
  from JObj.prems(1) obtain b where w: "w = JObj b" "sort_key fst (on_values sorted_json a) = sort_key fst (on_values sorted_json b)"
    by (cases w) (auto simp: on_values_def comp_def case_prod_unfold)
  have d: "distinct (map fst a)" "distinct (map fst b)" using JObj.prems w by simp_all
  have s: "set (on_values sorted_json a) = set (on_values sorted_json b)" using w(2) by (metis set_sort)
  then have m: "map_of (on_values sorted_json a) = map_of (on_values sorted_json b)"
    using map_of_inject_set [of "on_values sorted_json a" "on_values sorted_json b"] d by simp
  have "json_same v u" if v: "map_of a k = Some v" and u: "map_of b k = Some u" for k v u
  proof (rule JObj.IH [of "(k, v)" v])
    show "(k, v) \<in> set a" "v \<in> Basic_BNFs.snds (k, v)" using v by (auto dest: map_of_SomeD)
    show "sorted_json v = sorted_json u" using fun_cong [OF m, of k] v u by (simp add: map_of_on_values)
    show "distinct_names v" "distinct_names u"
      using JObj.prems(2,3) v u w(1) by (auto simp: list_all_iff dest!: map_of_SomeD)
  qed
  moreover have "fst ` set a = fst ` set b" using s by (metis on_values_simps(3))
  ultimately show ?case unfolding w(1) by (intro same_obj) blast+
next
  case JNull
  then show ?case by (cases w) (simp_all add: same_null)
next
  case (JBool b)
  then show ?case by (cases w) (simp_all add: same_bool)
next
  case (JNum n)
  then show ?case by (cases w) (simp_all add: same_num)
next
  case (JStr t)
  then show ?case by (cases w) (simp_all add: same_str)
qed

lemma printed_tree_inject:
  assumes "distinct_names v" "distinct_names w" "json_nums num v" "json_nums num w"
    and "json_stringify (sorted_json v) = json_stringify (sorted_json w)"
  shows "sorted_json v = sorted_json w"
proof -
  have "json_norm (sorted_json v) = json_norm (sorted_json w)"
    using json_reread [OF sorted_json_nums [OF assms(3)]] json_reread [OF sorted_json_nums [OF assms(4)]] assms(5) by simp
  then have "sorted_json (json_norm (sorted_json v)) = sorted_json (json_norm (sorted_json w))" by simp
  then show ?thesis using assms(1,2) by (simp add: norm_tree sorted_json_names sorted_json_idem)
qed

section \<open>Revisions and materials\<close>

datatype intent_error =
    IntentInvalid | ContractRevisionInvalid | ScheduleRevisionInvalid | TargetRevisionInvalid | PolicyRevisionInvalid
  | AgentIdentityInvalid

text \<open>The patterns \<open>SHA256_HEX\<close> and that of contract revisions and agent identities; both are anchored.\<close>

definition is_hex_digest :: "string \<Rightarrow> bool" where
  "is_hex_digest t \<longleftrightarrow> length t = 64 \<and>
     list_all (\<lambda>c. is_digit_char c \<or> CHR ''a'' \<le> c \<and> c \<le> CHR ''f'') t"

definition is_contract_name :: "string \<Rightarrow> bool" where
  "is_contract_name t \<longleftrightarrow> 1 \<le> length t \<and> length t \<le> 200 \<and>
     list_all (\<lambda>c. is_word_char c \<or> c \<in> {CHR ''.'', CHR '':'', CHR ''-''}) t"

definition validateTargetRevision :: "string option \<Rightarrow> bool" where
  "validateTargetRevision r = (case r of None \<Rightarrow> True
     | Some t \<Rightarrow> 1 \<le> length t \<and> length t \<le> 512 \<and> list_all (\<lambda>c. 32 \<le> (of_char c :: nat) \<and> of_char c \<noteq> (127 :: nat)) t)"

definition sha256PermissionRevision :: "(string \<Rightarrow> string) \<Rightarrow> intent_value \<Rightarrow> intent_error + string" where
  "sha256PermissionRevision digest v =
     (case canonicalPermissionJson v of None \<Rightarrow> Inl IntentInvalid | Some t \<Rightarrow> Inr (digest t))"

definition text_or_null :: "string option \<Rightarrow> json" where
  "text_or_null t = (case t of Some s \<Rightarrow> JStr s | None \<Rightarrow> JNull)"

text \<open>The declared surface of a tool.\<close>

record ToolSurface =
  ts_name :: string
  ts_inputSchema :: intent_value
  ts_isReadOnly :: "bool option"
  ts_requiresPermission :: "bool option"
  ts_category :: "string option"
  ts_requires :: "intent_value list option"
  ts_conditionalRevision :: "string option"
  ts_egress :: "(string \<times> string) option"

definition tool_material :: "ToolSurface \<Rightarrow> string option \<Rightarrow> intent_value" where
  "tool_material tool sensitive = IObj
     ([(''revision'', IStr (if sensitive = None then ''ownware.permission-tool.v1'' else ''ownware.permission-tool.v2'')),
       (''name'', IStr (ts_name tool)),
       (''inputSchema'', ts_inputSchema tool),
       (''isReadOnly'', IBool (case ts_isReadOnly tool of Some b \<Rightarrow> b | None \<Rightarrow> False)),
       (''requiresPermission'', IBool (case ts_requiresPermission tool of Some b \<Rightarrow> b | None \<Rightarrow> False)),
       (''category'', intent_of (text_or_null (ts_category tool))),
       (''requires'', IArr (case ts_requires tool of Some rs \<Rightarrow> rs | None \<Rightarrow> [])),
       (''conditionalEffectRevision'', intent_of (text_or_null (ts_conditionalRevision tool))),
       (''egressRevision'', intent_of (text_or_null (map_option fst (ts_egress tool)))),
       (''egressMediation'', intent_of (text_or_null (map_option snd (ts_egress tool))))] @
      (case sensitive of None \<Rightarrow> [] | Some r \<Rightarrow> [(''sensitiveInputRevision'', IStr r)]))"

definition permissionToolRevision :: "(string \<Rightarrow> string) \<Rightarrow> ToolSurface \<Rightarrow> string option \<Rightarrow> intent_error + string" where
  "permissionToolRevision digest tool sensitive =
     (if list_all (\<lambda>r. case r of None \<Rightarrow> True | Some t \<Rightarrow> is_contract_name t)
           [ts_conditionalRevision tool, map_option fst (ts_egress tool), sensitive]
      then sha256PermissionRevision digest (tool_material tool sensitive)
      else Inl ContractRevisionInvalid)"

text \<open>The input of a policy revision; every tool comes with the revision of its sensitive-input adapter.\<close>

record PolicyInput =
  pi_profileId :: string
  pi_candidateId :: "string option"
  pi_workspaceId :: "string option"
  pi_workspacePath :: "string option"
  pi_safetyLevel :: "string option"
  pi_permissionMode :: string
  pi_egressMode :: string
  pi_zoneConfig :: intent_value
  pi_tools :: "(ToolSurface \<times> string option) list"

fun tool_revisions :: "(string \<Rightarrow> string) \<Rightarrow> (ToolSurface \<times> string option) list \<Rightarrow> intent_error + string list" where
  "tool_revisions digest [] = Inr []"
| "tool_revisions digest ((tool, sensitive) # ts) =
     (case permissionToolRevision digest tool sensitive of
        Inl e \<Rightarrow> Inl e
      | Inr r \<Rightarrow> (case tool_revisions digest ts of Inl e \<Rightarrow> Inl e | Inr rs \<Rightarrow> Inr (r # rs)))"

definition permissionPolicyRevision :: "(string \<Rightarrow> string) \<Rightarrow> PolicyInput \<Rightarrow> intent_error + string" where
  "permissionPolicyRevision digest p =
     (case tool_revisions digest (pi_tools p) of
        Inl e \<Rightarrow> Inl e
      | Inr rs \<Rightarrow> sha256PermissionRevision digest (IObj
          [(''revision'', IStr ''ownware.permission-policy.v1''),
           (''profileId'', IStr (pi_profileId p)),
           (''candidateId'', intent_of (text_or_null (pi_candidateId p))),
           (''workspaceId'', intent_of (text_or_null (pi_workspaceId p))),
           (''workspacePath'', intent_of (text_or_null (pi_workspacePath p))),
           (''safetyLevel'', intent_of (text_or_null (pi_safetyLevel p))),
           (''permissionMode'', IStr (pi_permissionMode p)),
           (''egressMode'', IStr (pi_egressMode p)),
           (''zoneConfig'', pi_zoneConfig p),
           (''tools'', IArr (map IStr (sort rs)))]))"

text \<open>The action a scheduled run wants to take.\<close>

record ApprovalIntent =
  ai_approvalId :: string
  ai_scheduleId :: string
  ai_runId :: string
  ai_threadId :: "string option"
  ai_toolName :: string
  ai_toolInput :: json
  ai_policyRevision :: string
  ai_toolRevision :: string
  ai_targetRevision :: "string option"

definition approval_object :: "ApprovalIntent \<Rightarrow> obj" where
  "approval_object i =
     [(''intentRevision'', JNum ''1''),
      (''approvalId'', JStr (ai_approvalId i)),
      (''scheduleId'', JStr (ai_scheduleId i)),
      (''runId'', JStr (ai_runId i)),
      (''threadId'', text_or_null (ai_threadId i)),
      (''policyRevision'', JStr (ai_policyRevision i)),
      (''toolRevision'', JStr (ai_toolRevision i)),
      (''targetRevision'', text_or_null (ai_targetRevision i)),
      (''toolName'', JStr (ai_toolName i)),
      (''input'', ai_toolInput i)]"

definition scheduleApprovalIntentMaterial :: "ApprovalIntent \<Rightarrow> intent_error + string" where
  "scheduleApprovalIntentMaterial i =
     (if \<not> is_hex_digest (ai_policyRevision i) \<or> \<not> is_hex_digest (ai_toolRevision i) then Inl ScheduleRevisionInvalid
      else if \<not> validateTargetRevision (ai_targetRevision i) then Inl TargetRevisionInvalid
      else (case canonicalPermissionJson (intent_of (JObj (approval_object i))) of None \<Rightarrow> Inl IntentInvalid | Some t \<Rightarrow> Inr t))"

definition scheduleApprovalOperationHash :: "(string \<Rightarrow> string) \<Rightarrow> ApprovalIntent \<Rightarrow> intent_error + string" where
  "scheduleApprovalOperationHash digest i = map_sum id digest (scheduleApprovalIntentMaterial i)"

text \<open>A permission request of a run.\<close>

record PermissionRequestIntent =
  pm_runId :: string
  pm_requestId :: string
  pm_policyRevision :: string
  pm_agentId :: "string option"
  pm_toolName :: string
  pm_toolInput :: json

definition permissionIntentMaterial :: "PermissionRequestIntent \<Rightarrow> intent_error + string" where
  "permissionIntentMaterial i =
     (if \<not> is_hex_digest (pm_policyRevision i) then Inl PolicyRevisionInvalid
      else if (case pm_agentId i of None \<Rightarrow> False | Some a \<Rightarrow> \<not> is_contract_name a) then Inl AgentIdentityInvalid
      else (case canonicalPermissionJson (intent_of (JObj
          [(''intentRevision'', JNum ''1''),
           (''runId'', JStr (pm_runId i)),
           (''requestId'', JStr (pm_requestId i)),
           (''policyRevision'', JStr (pm_policyRevision i)),
           (''agentId'', text_or_null (pm_agentId i)),
           (''toolName'', JStr (pm_toolName i)),
           (''input'', pm_toolInput i)])) of None \<Rightarrow> Inl IntentInvalid | Some t \<Rightarrow> Inr t))"

section \<open>Identity\<close>

inductive_cases json_same_objE: "json_same (JObj a) (JObj b)"
inductive_cases json_same_strE: "json_same (JStr a) v"
inductive_cases json_same_nullE: "json_same JNull v"

lemma text_or_null_same: "json_same (text_or_null a) (text_or_null b) \<longleftrightarrow> a = b"
  by (cases a; cases b) (auto simp: text_or_null_def intro: same_null same_str elim: json_same_strE json_same_nullE)

lemma str_same: "json_same (JStr a) (JStr b) \<longleftrightarrow> a = b"
  by (auto intro: same_str elim: json_same_strE)

lemma text_or_null_simps [simp]: "distinct_names (text_or_null t)" "json_nums num (text_or_null t)"
  by (simp_all add: text_or_null_def split: option.split)

lemma approval_object_names: "distinct_names (JObj (approval_object i)) \<longleftrightarrow> distinct_names (ai_toolInput i)"
  by (simp add: approval_object_def)

text \<open>Two scheduled actions with the same material are the same action, up to the order of properties in the input.\<close>

lemma approval_same:
  "json_same (JObj (approval_object i)) (JObj (approval_object j)) \<longleftrightarrow>
     json_same (ai_toolInput i) (ai_toolInput j) \<and>
     i = j\<lparr>ai_toolInput := ai_toolInput i\<rparr>"
  (is "?l \<longleftrightarrow> ?r")
proof
  assume ?l
  then have v: "json_same (the (map_of (approval_object i) k)) (the (map_of (approval_object j) k))"
    if "map_of (approval_object i) k \<noteq> None" "map_of (approval_object j) k \<noteq> None" for k
    using that by (elim json_same_objE) fastforce
  have "ai_approvalId i = ai_approvalId j" using v [of "''approvalId''"] by (simp add: approval_object_def str_same)
  moreover have "ai_scheduleId i = ai_scheduleId j" using v [of "''scheduleId''"] by (simp add: approval_object_def str_same)
  moreover have "ai_runId i = ai_runId j" using v [of "''runId''"] by (simp add: approval_object_def str_same)
  moreover have "ai_threadId i = ai_threadId j" using v [of "''threadId''"] by (simp add: approval_object_def text_or_null_same)
  moreover have "ai_policyRevision i = ai_policyRevision j" using v [of "''policyRevision''"] by (simp add: approval_object_def str_same)
  moreover have "ai_toolRevision i = ai_toolRevision j" using v [of "''toolRevision''"] by (simp add: approval_object_def str_same)
  moreover have "ai_targetRevision i = ai_targetRevision j" using v [of "''targetRevision''"] by (simp add: approval_object_def text_or_null_same)
  moreover have "ai_toolName i = ai_toolName j" using v [of "''toolName''"] by (simp add: approval_object_def str_same)
  moreover have "json_same (ai_toolInput i) (ai_toolInput j)" using v [of "''input''"] by (simp add: approval_object_def)
  ultimately show ?r by simp
next
  assume ?r
  then have e: "json_same (ai_toolInput i) (ai_toolInput j)" and "i = j\<lparr>ai_toolInput := ai_toolInput i\<rparr>" by simp_all
  then obtain x where i: "i = j\<lparr>ai_toolInput := x\<rparr>" by blast
  show ?l by (rule same_obj) (use e in \<open>auto simp: i approval_object_def text_or_null_same str_same same_num split: if_splits\<close>)
qed

lemma intent_of_plain: "plain (intent_of v)"
  by (induction v) (auto simp: list_all_iff)

lemma norm_names: "distinct_names v \<Longrightarrow> distinct_names (json_norm v)"
proof (induction v)
  case (JObj kvs)
  have d: "distinct (map fst kvs)" using JObj.prems by simp
  have "distinct_names (json_norm w)" if "(k, w) \<in> set kvs" for k w
    using JObj.IH [of "(k, w)" w] JObj.prems that by (auto simp: list_all_iff)
  moreover have "set (obj_of (on_values json_norm kvs)) = set (on_values json_norm kvs)" using d by (simp add: obj_of_set)
  ultimately show ?case using obj_of_ordered [of "on_values json_norm kvs"]
    by (auto simp: norm_obj list_all_iff set_on_values prop_ordered_def simp del: json_norm.simps)
qed (auto simp: list_all_iff)

lemma norm_nests: "distinct_names v \<Longrightarrow> nests_to n (intent_of (json_norm v)) \<longleftrightarrow> nests_to n (intent_of v)"
proof (induction v arbitrary: n)
  case (JObj kvs)
  have d: "distinct (map fst kvs)" using JObj.prems by simp
  have e: "nests_to m (intent_of (json_norm w)) \<longleftrightarrow> nests_to m (intent_of w)" if "(k, w) \<in> set kvs" for k w m
    using JObj.IH [of "(k, w)" w] JObj.prems that by (auto simp: list_all_iff)
  have s: "set (obj_of (on_values json_norm kvs)) = (\<lambda>(k, v). (k, json_norm v)) ` set kvs"
    using d by (simp add: obj_of_set set_on_values)
  then have "obj_of (on_values json_norm kvs) = [] \<longleftrightarrow> kvs = []" by (metis image_is_empty set_empty)
  then show ?case using e by (auto simp: norm_obj list_all_iff s simp del: json_norm.simps)
qed (auto simp: list_all_iff)

lemma norm_same: "distinct_names v \<Longrightarrow> json_same v (json_norm v)"
  by (rule tree_same) (simp_all add: norm_tree norm_names)

lemma norm_nums: "json_nums num v \<Longrightarrow> distinct_names v \<Longrightarrow> json_nums num (json_norm v)"
proof (induction v)
  case (JObj kvs)
  have d: "distinct (map fst kvs)" using JObj.prems by simp
  have "json_nums num (json_norm w)" if "(k, w) \<in> set kvs" for k w
    using JObj.IH [of "(k, w)" w] JObj.prems that by (auto simp: list_all_iff)
  then show ?case using d by (auto simp: norm_obj list_all_iff obj_of_set set_on_values simp del: json_norm.simps)
qed (auto simp: list_all_iff)

lemma canonical_norm:
  "distinct_names v \<Longrightarrow> canonicalPermissionJson (intent_of (json_norm v)) = canonicalPermissionJson (intent_of v)"
  by (simp add: canonical_text intent_of_plain norm_nests norm_tree)

lemma canonical_same_iff:
  assumes "distinct_names v" "distinct_names w" "json_nums num v" "json_nums num w"
    and "canonicalPermissionJson (intent_of v) = Some s" "canonicalPermissionJson (intent_of w) = Some t"
  shows "s = t \<longleftrightarrow> json_same v w"
proof
  have st: "s = json_stringify (sorted_json v)" "t = json_stringify (sorted_json w)"
    using assms(5,6) by (auto simp: canonical_text split: if_splits)
  show "json_same v w" if "s = t" using tree_same printed_tree_inject [OF assms(1-4)] that st assms(1,2) by simp
  show "s = t" if "json_same v w" using same_tree [OF that assms(1,2)] st by simp
qed

text \<open>
  C18: the canonical text is an identity. A value has one exactly if it is plain JSON nested at most 256 levels deep; two
  values have the same text exactly if they differ in nothing but the order of properties; the text reads
  back as that value; and a value that was printed and read again, as the store does, keeps its text.
\<close>

theorem permission_identity:
  assumes "distinct_names v" "distinct_names w" "json_nums num v" "json_nums num w"
    and "canonicalPermissionJson (intent_of v) = Some s" "canonicalPermissionJson (intent_of w) = Some t"
  shows "(s = t \<longleftrightarrow> json_same v w) \<and> (\<exists>u. json_parse num s = Inr u \<and> json_same v u) \<and>
    json_parse num (json_stringify v) = Inr (json_norm v) \<and> canonicalPermissionJson (intent_of (json_norm v)) = Some s \<and>
    (\<forall>x. canonicalPermissionJson x = None \<longleftrightarrow> \<not> plain x \<or> \<not> nests_to 256 x)"
proof -
  let ?u = "json_norm (sorted_json v)"
  have "s = json_stringify (sorted_json v)" using assms(5) by (auto simp: canonical_text split: if_splits)
  then have "json_parse num s = Inr ?u" using json_reread [OF sorted_json_nums [OF assms(3)]] by simp
  moreover have "json_same v ?u"
    by (rule tree_same) (simp_all add: assms(1) norm_tree norm_names sorted_json_names sorted_json_idem)
  ultimately show ?thesis
    using canonical_same_iff [OF assms] canonical_norm [OF assms(1)] assms(5) json_reread [OF assms(3)]
    by (auto simp: canonical_text MAX_CANONICAL_PERMISSION_DEPTH_def)
qed

definition sample_action :: json where
  "sample_action = JObj [(''to'', JStr ''dana''), (''cc'', JArr [JNull, JNum ''2''])]"

definition sample_reordered :: json where
  "sample_reordered = JObj [(''cc'', JArr [JNull, JNum ''2'']), (''to'', JStr ''dana'')]"

theorem permission_identity_witness:
  "canonicalPermissionJson (intent_of sample_action) = canonicalPermissionJson (intent_of sample_reordered) \<and>
   json_same sample_action sample_reordered"
proof -
  have n: "lex_number ''2'' = Some (''2'', [])" by code_simp
  have c: "canonicalPermissionJson (intent_of sample_action) = Some (json_stringify sample_reordered)"
    "canonicalPermissionJson (intent_of sample_reordered) = Some (json_stringify sample_reordered)"
    by (code_simp, code_simp)
  have d: "distinct_names sample_action" "distinct_names sample_reordered"
    "json_nums id sample_action" "json_nums id sample_reordered"
    by (simp_all add: sample_action_def sample_reordered_def n)
  show ?thesis using permission_identity [OF d c] c by simp
qed

lemma approval_material_text:
  "scheduleApprovalIntentMaterial i = Inr s \<Longrightarrow> canonicalPermissionJson (intent_of (JObj (approval_object i))) = Some s"
  by (auto simp: scheduleApprovalIntentMaterial_def split: if_splits option.splits)

lemma approval_object_nums: "lex_number ''1'' = Some (''1'', []) \<Longrightarrow> num ''1'' = ''1'' \<Longrightarrow>
    json_nums num (JObj (approval_object i)) \<longleftrightarrow> json_nums num (ai_toolInput i)"
  by (simp add: approval_object_def)

lemma one_literal: "lex_number ''1'' = Some (''1'', [])"
  by code_simp

text \<open>Equal materials, equal actions; and reading the stored input again changes no material.\<close>

lemma approval_material_same:
  assumes "distinct_names (ai_toolInput i)" "distinct_names (ai_toolInput j)" "json_nums num (ai_toolInput i)" "json_nums num (ai_toolInput j)"
    and "num ''1'' = ''1''" "scheduleApprovalIntentMaterial i = Inr s" "scheduleApprovalIntentMaterial j = Inr s"
  shows "json_same (ai_toolInput i) (ai_toolInput j) \<and> i = j\<lparr>ai_toolInput := ai_toolInput i\<rparr>"
  using canonical_same_iff [OF _ _ _ _ approval_material_text [OF assms(6)] approval_material_text [OF assms(7)], of num] assms(1-5)
  by (simp add: approval_object_names approval_object_nums one_literal approval_same del: distinct_names.simps json_nums.simps)

lemma approval_material_reread:
  assumes "distinct_names (ai_toolInput i)"
  shows "scheduleApprovalIntentMaterial (i\<lparr>ai_toolInput := json_norm (ai_toolInput i)\<rparr>) = scheduleApprovalIntentMaterial i"
proof -
  let ?j = "i\<lparr>ai_toolInput := json_norm (ai_toolInput i)\<rparr>"
  have "json_same (JObj (approval_object i)) (JObj (approval_object ?j))"
    using norm_same [OF assms] by (simp add: approval_same)
  then have t: "sorted_json (JObj (approval_object i)) = sorted_json (JObj (approval_object ?j))"
    by (rule same_tree) (simp_all add: approval_object_names norm_names assms del: distinct_names.simps)
  have n: "nests_to m (intent_of (JObj (approval_object ?j))) \<longleftrightarrow> nests_to m (intent_of (JObj (approval_object i)))" for m
    by (simp add: approval_object_def norm_nests assms)
  show ?thesis unfolding scheduleApprovalIntentMaterial_def canonical_text t n
    by (simp only: intent_of_plain) simp
qed

end
