(* ===== verification/DraftHold.thy ===== *)
theory DraftHold
  imports PermissionIntent ToolExecutor
begin

text \<open>
  The safety envelope of unattended runs (packages/cortex): which tools a scheduled run gets
  (\<open>schedules/safety.ts\<close>), how a mutating tool is wrapped so that a call is parked for approval instead of executed
  (\<open>schedules/draft-hold.ts\<close>), and how an approved call is executed later (\<open>executeHeldTool\<close> of \<open>gateway/handlers/run.ts\<close>). A
  scheduled tool is a tool of the executor with the declarations the envelope reads.
\<close>

section \<open>Tools\<close>

record 'w ConditionalEffect =
  ce_contractRevision :: string
  ce_captureTargetRevision :: "obj \<Rightarrow> 'w \<Rightarrow> (js_thrown + string) \<times> 'w"
  ce_executeIfCurrent :: "obj \<Rightarrow> string \<Rightarrow> nat option \<Rightarrow> 'w \<Rightarrow> string list \<times> (js_thrown + ToolResult) \<times> 'w"

record 'w ScheduledTool = "'w ExecTool" +
  sd_inputSchema :: intent_value
  sd_isReadOnly :: "bool option"
  sd_category :: "string option"
  sd_requires :: "intent_value list option"
  sd_egress :: "(string \<times> string) option"
  sd_conditionalEffect :: "'w ConditionalEffect option"

definition tool_surface :: "'w ScheduledTool \<Rightarrow> ToolSurface" where
  "tool_surface t =
     \<lparr>ts_name = et_name t, ts_inputSchema = sd_inputSchema t, ts_isReadOnly = sd_isReadOnly t,
      ts_requiresPermission = Some (et_requiresPermission t), ts_category = sd_category t, ts_requires = sd_requires t,
      ts_conditionalRevision = map_option ce_contractRevision (sd_conditionalEffect t), ts_egress = sd_egress t\<rparr>"

definition provably_read_only :: "'w ScheduledTool \<Rightarrow> bool" where
  "provably_read_only t \<longleftrightarrow> sd_isReadOnly t = Some True"

section \<open>Safety levels\<close>

datatype SafetyLevel = ReadOnlyLevel | DraftApproval | FullAccess

definition DEFAULT_SAFETY_LEVEL :: SafetyLevel where
  "DEFAULT_SAFETY_LEVEL = DraftApproval"

fun safety_level_name :: "SafetyLevel \<Rightarrow> string" where
  "safety_level_name ReadOnlyLevel = ''read-only''"
| "safety_level_name DraftApproval = ''draft-approval''"
| "safety_level_name FullAccess = ''full-access''"

fun applySafetyLevel :: "'w ScheduledTool list \<Rightarrow> SafetyLevel \<Rightarrow> 'w ScheduledTool list" where
  "applySafetyLevel tools FullAccess = tools"
| "applySafetyLevel tools ReadOnlyLevel = filter provably_read_only tools"
| "applySafetyLevel tools DraftApproval = filter provably_read_only tools"

definition allowsMutatingTools :: "SafetyLevel \<Rightarrow> bool" where
  "allowsMutatingTools l \<longleftrightarrow> l = FullAccess"

section \<open>Holding a call\<close>

record HeldCall =
  hc_toolName :: string
  hc_toolInput :: obj
  hc_toolRevision :: string
  hc_targetRevision :: "string option"

text \<open>A sink parks a call, or throws.\<close>

type_synonym 'w hold_sink = "HeldCall \<Rightarrow> 'w \<Rightarrow> (js_thrown + unit) \<times> 'w"

definition HELD_RESULT_MESSAGE :: string where
  "HELD_RESULT_MESSAGE = ''Drafted and queued for the user's approval - nothing was sent or changed. '' @
     ''It will be reviewed in Approvals. Do not retry; continue with anything else, then stop.''"

definition held_result :: "string \<Rightarrow> ToolResult" where
  "held_result tool = \<lparr>content = HELD_RESULT_MESSAGE, isError = False,
     metadata = Some [(''held'', JBool True), (''toolName'', JStr tool)]\<rparr>"

definition not_held_result :: "string \<Rightarrow> ToolResult" where
  "not_held_result tool = \<lparr>content = ''Nothing was sent or changed, but this action could not be queued for approval. '' @
       ''Do not retry it automatically.'', isError = True,
     metadata = Some [(''held'', JBool False), (''toolName'', JStr tool)]\<rparr>"

definition capture_target :: "'w ScheduledTool \<Rightarrow> obj \<Rightarrow> 'w \<Rightarrow> (js_thrown + string option) \<times> 'w" where
  "capture_target tool input w = (case sd_conditionalEffect tool of
       None \<Rightarrow> (Inr None, w)
     | Some ce \<Rightarrow> (case ce_captureTargetRevision ce input w of
           (Inl e, w1) \<Rightarrow> (Inl e, w1)
         | (Inr t, w1) \<Rightarrow> (Inr (Some t), w1)))"

definition hold_execute :: "string \<Rightarrow> 'w ScheduledTool \<Rightarrow> 'w hold_sink \<Rightarrow> obj \<Rightarrow> 'w \<Rightarrow> ToolResult \<times> 'w" where
  "hold_execute toolRevision tool sink input w =
     (case capture_target tool input w of
        (Inl e, w1) \<Rightarrow> (not_held_result (et_name tool), w1)
      | (Inr target, w1) \<Rightarrow>
          (if \<not> validateTargetRevision target then (not_held_result (et_name tool), w1)
           else (case sink \<lparr>hc_toolName = et_name tool, hc_toolInput = input, hc_toolRevision = toolRevision,
                    hc_targetRevision = target\<rparr> w1 of
               (Inl e, w2) \<Rightarrow> (not_held_result (et_name tool), w2)
             | (Inr u, w2) \<Rightarrow> (held_result (et_name tool), w2))))"

definition holdTool :: "(string \<Rightarrow> string) \<Rightarrow> 'w ScheduledTool \<Rightarrow> 'w hold_sink \<Rightarrow> intent_error + 'w ScheduledTool" where
  "holdTool digest tool sink = (case permissionToolRevision digest (tool_surface tool) None of
       Inl e \<Rightarrow> Inl e
     | Inr revision \<Rightarrow> Inr (tool\<lparr>et_execute := (\<lambda>input deadline w. case hold_execute revision tool sink input w of (r, w') \<Rightarrow> ([], Inr r, w'))\<rparr>))"

fun hold_tools :: "(string \<Rightarrow> string) \<Rightarrow> 'w ScheduledTool list \<Rightarrow> 'w hold_sink \<Rightarrow> intent_error + 'w ScheduledTool list" where
  "hold_tools digest [] sink = Inr []"
| "hold_tools digest (t # ts) sink =
     (case (if provably_read_only t then Inr t else holdTool digest t sink) of
        Inl e \<Rightarrow> Inl e
      | Inr t' \<Rightarrow> (case hold_tools digest ts sink of Inl e \<Rightarrow> Inl e | Inr ts' \<Rightarrow> Inr (t' # ts')))"

fun applyRunSafety ::
  "(string \<Rightarrow> string) \<Rightarrow> 'w ScheduledTool list \<Rightarrow> SafetyLevel \<Rightarrow> 'w hold_sink option \<Rightarrow> intent_error + 'w ScheduledTool list" where
  "applyRunSafety digest tools FullAccess sink = Inr tools"
| "applyRunSafety digest tools ReadOnlyLevel sink = Inr (filter provably_read_only tools)"
| "applyRunSafety digest tools DraftApproval None = Inr (filter provably_read_only tools)"
| "applyRunSafety digest tools DraftApproval (Some sink) = hold_tools digest tools sink"

text \<open>The new contents of the spawner's pool.\<close>

definition envelopeSpawnerPool ::
  "(string \<Rightarrow> string) \<Rightarrow> 'w ScheduledTool list \<Rightarrow> SafetyLevel option \<Rightarrow> 'w hold_sink option \<Rightarrow> intent_error + 'w ScheduledTool list" where
  "envelopeSpawnerPool digest pool level sink = (case level of None \<Rightarrow> Inr pool | Some l \<Rightarrow> applyRunSafety digest pool l sink)"

section \<open>The line of the inbox\<close>

fun pick :: "obj \<Rightarrow> string list \<Rightarrow> string option" where
  "pick i [] = None"
| "pick i (k # ks) = (case str_field i k of
     Some v \<Rightarrow> if js_trim v \<noteq> [] then Some (js_trim v) else pick i ks
   | None \<Rightarrow> pick i ks)"

definition summarizeHeldCall :: "string \<Rightarrow> obj \<Rightarrow> string" where
  "summarizeHeldCall toolName i =
     (let target = pick i [''to'', ''recipient'', ''channel'', ''path'', ''file_path'', ''url'', ''query''];
          subject = pick i [''subject'', ''title'', ''message''] in
      case target of
        Some t \<Rightarrow> (case subject of
            Some s \<Rightarrow> toolName @ '' -> '' @ t @ '' - '' @ take 60 s
          | None \<Rightarrow> toolName @ '' -> '' @ t)
      | None \<Rightarrow> (case subject of Some s \<Rightarrow> toolName @ '' - '' @ take 60 s | None \<Rightarrow> toolName))"

section \<open>Executing an approved call\<close>

text \<open>The tool the reviewed call runs: with a target revision only through the conditional effect.\<close>

definition toolForHeldExecution :: "'w ScheduledTool \<Rightarrow> string option \<Rightarrow> 'w ScheduledTool option" where
  "toolForHeldExecution tool target = (case target of
       None \<Rightarrow> Some tool
     | Some t \<Rightarrow> (case sd_conditionalEffect tool of
           None \<Rightarrow> None
         | Some ce \<Rightarrow> Some (tool\<lparr>et_execute := (\<lambda>input. ce_executeIfCurrent ce input t)\<rparr>)))"

record AgentProfile =
  ap_candidateId :: "string option"
  ap_egressMode :: string
  ap_security :: intent_value

text \<open>What the handler asks of the registry, the workspaces and the assembler; \<open>None\<close> is a profile or a workspace that is gone.\<close>

record 'w HeldEnv =
  he_profile :: "string \<Rightarrow> 'w \<Rightarrow> (js_thrown + AgentProfile option) \<times> 'w"
  he_workspace :: "string \<Rightarrow> 'w \<Rightarrow> (js_thrown + string option) \<times> 'w"
  he_assemble :: "AgentProfile \<Rightarrow> string option \<Rightarrow> 'w \<Rightarrow> (js_thrown + 'w ScheduledTool list) \<times> 'w"
  he_timeoutMs :: "nat option"
  he_maxResultSize :: "int option"
  he_now :: "'w \<Rightarrow> int"
  he_num :: "string \<Rightarrow> string"
  he_callId :: string

record HeldParams =
  hp_profileId :: string
  hp_workspaceId :: "string option"
  hp_safetyLevel :: SafetyLevel
  hp_toolName :: string
  hp_toolInput :: json
  hp_policyRevision :: string
  hp_toolRevision :: string
  hp_targetRevision :: "string option"

fun intent_message :: "intent_error \<Rightarrow> string" where
  "intent_message IntentInvalid = ''Permission intent is invalid''"
| "intent_message ContractRevisionInvalid = ''Tool contract revision is invalid''"
| "intent_message ScheduleRevisionInvalid = ''Schedule approval revision is invalid''"
| "intent_message TargetRevisionInvalid = ''Target revision is invalid''"
| "intent_message PolicyRevisionInvalid = ''Permission policy revision is invalid''"
| "intent_message AgentIdentityInvalid = ''Permission agent identity is invalid''"

definition intent_thrown :: "intent_error \<Rightarrow> js_thrown" where
  "intent_thrown e = ThrownError ''Error'' (intent_message e)"

text \<open>The reviewed arguments; a draft is parked with an object.\<close>

definition input_object :: "json \<Rightarrow> obj" where
  "input_object v = (case v of JObj kvs \<Rightarrow> kvs | _ \<Rightarrow> [])"

text \<open>The context of the one call denies every further permission.\<close>

definition held_options :: "'w HeldEnv \<Rightarrow> 'w exec_options" where
  "held_options env = \<lparr>xo_requestPermission = (\<lambda>n r w. (Inr False, w)), xo_hooks = None,
     xo_defaultTimeoutMs = he_timeoutMs env, xo_maxResultSize = he_maxResultSize env, xo_now = he_now env, xo_num = he_num env\<rparr>"

type_synonym 'w held_outcome = "(js_thrown + ToolResult) option \<times> exec_event list \<times> 'w"

definition held_refusal :: "string \<Rightarrow> 'w \<Rightarrow> 'w held_outcome" where
  "held_refusal m w = (Some (Inr (error_result m)), [], w)"

definition held_throw :: "js_thrown \<Rightarrow> 'w \<Rightarrow> 'w held_outcome" where
  "held_throw e w = (Some (Inl e), [], w)"

definition run_held :: "'w HeldEnv \<Rightarrow> HeldParams \<Rightarrow> 'w ScheduledTool \<Rightarrow> 'w \<Rightarrow> 'w held_outcome" where
  "run_held env p tool w =
     (case toolForHeldExecution tool (hp_targetRevision p) of
        None \<Rightarrow> held_refusal ''This tool no longer supports the reviewed target precondition. Nothing was sent or changed.'' w
      | Some executable \<Rightarrow>
          (case executeTool (held_options env) (ExecTool.truncate executable)
                  \<lparr>tc_id = he_callId env, tc_name = hp_toolName p, tc_input = input_object (hp_toolInput p)\<rparr>
                  \<lparr>es_world = w, es_cache = None, es_timer = False\<rparr> of
             (r, evs, s) \<Rightarrow> (map_option (map_sum id er_result) r, evs, es_world s)))"

definition held_policy :: "HeldParams \<Rightarrow> AgentProfile \<Rightarrow> string option \<Rightarrow> 'w ScheduledTool list \<Rightarrow> PolicyInput" where
  "held_policy p profile path tools =
     \<lparr>pi_profileId = hp_profileId p, pi_candidateId = ap_candidateId profile, pi_workspaceId = hp_workspaceId p,
      pi_workspacePath = path, pi_safetyLevel = Some (safety_level_name (hp_safetyLevel p)), pi_permissionMode = ''auto'',
      pi_egressMode = ap_egressMode profile, pi_zoneConfig = ap_security profile,
      pi_tools = map (\<lambda>t. (tool_surface t, None)) tools\<rparr>"

definition check_held ::
  "(string \<Rightarrow> string) \<Rightarrow> 'w HeldEnv \<Rightarrow> HeldParams \<Rightarrow> AgentProfile \<Rightarrow> string option \<Rightarrow> 'w ScheduledTool list \<Rightarrow> 'w \<Rightarrow> 'w held_outcome" where
  "check_held digest env p profile path tools w =
     (case find (\<lambda>t. et_name t = hp_toolName p) tools of
        None \<Rightarrow> held_refusal (''The '' @ [CHR 0x22] @ hp_toolName p @ [CHR 0x22] @ '' tool is no longer available for this agent.'') w
      | Some tool \<Rightarrow>
          (if ap_egressMode profile = ''local-only'' \<and> map_option snd (sd_egress tool) \<noteq> Some ''none''
           then held_refusal (''This delayed action cannot execute because it has no run-scoped outbound controller. '' @
                  ''Start a new local-only run so the action can be evaluated at its dispatch boundary.'') w
           else (case permissionToolRevision digest (tool_surface tool) None of
               Inl e \<Rightarrow> held_throw (intent_thrown e) w
             | Inr revision \<Rightarrow>
                 (if revision \<noteq> hp_toolRevision p
                  then held_refusal ''This tool changed after the draft was reviewed. Nothing was sent or changed.'' w
                  else (case permissionPolicyRevision digest (held_policy p profile path tools) of
                      Inl e \<Rightarrow> held_throw (intent_thrown e) w
                    | Inr policy \<Rightarrow>
                        (if policy \<noteq> hp_policyRevision p
                         then held_refusal ''This agent, workspace, or permission policy changed after review. Nothing was sent or changed.'' w
                         else run_held env p tool w))))))"

definition held_workspace :: "'w HeldEnv \<Rightarrow> HeldParams \<Rightarrow> 'w \<Rightarrow> (js_thrown + string option) option \<times> 'w" where
  "held_workspace env p w = (case hp_workspaceId p of
       None \<Rightarrow> (Some (Inr None), w)
     | Some i \<Rightarrow> (case he_workspace env i w of
           (Inl e, w1) \<Rightarrow> (Some (Inl e), w1)
         | (Inr None, w1) \<Rightarrow> (None, w1)
         | (Inr (Some path), w1) \<Rightarrow> (Some (Inr (Some path)), w1)))"

definition executeHeldTool :: "(string \<Rightarrow> string) \<Rightarrow> 'w HeldEnv \<Rightarrow> HeldParams \<Rightarrow> 'w \<Rightarrow> 'w held_outcome" where
  "executeHeldTool digest env p w =
     (case he_profile env (hp_profileId p) w of
        (Inl e, w1) \<Rightarrow> held_throw e w1
      | (Inr None, w1) \<Rightarrow> held_refusal (''The agent for this draft ('' @ [CHR 0x22] @ hp_profileId p @ [CHR 0x22] @ '') no longer exists.'') w1
      | (Inr (Some profile), w1) \<Rightarrow>
          (case held_workspace env p w1 of
             (None, w2) \<Rightarrow> held_refusal ''This action needs its workspace, which no longer exists.'' w2
           | (Some (Inl e), w2) \<Rightarrow> held_throw e w2
           | (Some (Inr path), w2) \<Rightarrow>
               (case he_assemble env profile path w2 of
                  (Inl e, w3) \<Rightarrow> held_throw e w3
                | (Inr tools, w3) \<Rightarrow> check_held digest env p profile path tools w3)))"

section \<open>Nothing mutating runs\<close>

text \<open>The tools with the bodies of the mutating ones replaced.\<close>

definition disarm :: "('w ScheduledTool \<Rightarrow> obj \<Rightarrow> nat option \<Rightarrow> 'w \<Rightarrow> string list \<times> (js_thrown + ToolResult) \<times> 'w) \<Rightarrow>
    'w ScheduledTool \<Rightarrow> 'w ScheduledTool" where
  "disarm f t = (if provably_read_only t then t else t\<lparr>et_execute := f t\<rparr>)"

lemma disarm_simps [simp]:
  "provably_read_only (disarm f t) = provably_read_only t"
  "provably_read_only t \<Longrightarrow> disarm f t = t"
  by (simp_all add: disarm_def provably_read_only_def)

lemma capture_target_body: "capture_target (t\<lparr>et_execute := g\<rparr>) = capture_target t"
  by (intro ext) (simp add: capture_target_def)

lemma hold_execute_body: "hold_execute revision (t\<lparr>et_execute := g\<rparr>) sink = hold_execute revision t sink"
  by (intro ext) (simp add: hold_execute_def capture_target_body split: prod.split sum.split)

lemma tool_surface_body: "tool_surface (t\<lparr>et_execute := g\<rparr>) = tool_surface t"
  by (simp add: tool_surface_def)

lemma holdTool_disarm: "\<not> provably_read_only t \<Longrightarrow> holdTool digest (disarm f t) sink = holdTool digest t sink"
  by (simp add: holdTool_def disarm_def tool_surface_body hold_execute_body split: sum.split)

lemma hold_tools_disarm: "hold_tools digest (map (disarm f) tools) sink = hold_tools digest tools sink"
  by (induction tools) (auto simp: holdTool_disarm split: sum.split)

lemma filter_disarm: "filter provably_read_only (map (disarm f) tools) = filter provably_read_only tools"
  by (induction tools) auto

lemma applyRunSafety_disarm: "l \<noteq> FullAccess \<Longrightarrow> applyRunSafety digest (map (disarm f) tools) l sink = applyRunSafety digest tools l sink"
  by (cases l; cases sink) (simp_all add: filter_disarm hold_tools_disarm)

lemma hold_tools_mem:
  "hold_tools digest tools sink = Inr ts \<Longrightarrow> t \<in> set ts \<Longrightarrow>
     \<exists>t0 \<in> set tools. provably_read_only t0 \<and> t = t0 \<or> \<not> provably_read_only t0 \<and> holdTool digest t0 sink = Inr t"
  by (induction tools arbitrary: ts) (force split: sum.splits if_splits)+

text \<open>A call of a wrapped tool is parked as it is, or reported as not parked.\<close>

definition parks :: "(string \<Rightarrow> string) \<Rightarrow> 'w ScheduledTool \<Rightarrow> 'w hold_sink \<Rightarrow> 'w ScheduledTool \<Rightarrow> bool" where
  "parks digest t0 sink t \<longleftrightarrow> tool_surface t = tool_surface t0 \<and>
     (\<forall>input d w. \<exists>r w'. et_execute t input d w = ([], Inr r, w') \<and>
        (isError r \<or> (\<exists>revision target w1. permissionToolRevision digest (tool_surface t0) None = Inr revision \<and>
           capture_target t0 input w = (Inr target, w1) \<and> validateTargetRevision target \<and>
           sink \<lparr>hc_toolName = et_name t0, hc_toolInput = input, hc_toolRevision = revision, hc_targetRevision = target\<rparr> w1 = (Inr (), w'))))"

lemma hold_execute_parks:
  assumes "hold_execute revision tool sink input w = (r, w')" "\<not> isError r"
  shows "\<exists>target w1. capture_target tool input w = (Inr target, w1) \<and> validateTargetRevision target \<and>
    sink \<lparr>hc_toolName = et_name tool, hc_toolInput = input, hc_toolRevision = revision, hc_targetRevision = target\<rparr> w1 = (Inr (), w')"
  using assms by (auto simp: hold_execute_def not_held_result_def split: prod.splits sum.splits if_splits)

lemma holdTool_parks: "holdTool digest t0 sink = Inr t \<Longrightarrow> parks digest t0 sink t"
proof -
  assume "holdTool digest t0 sink = Inr t"
  then obtain revision where rv: "permissionToolRevision digest (tool_surface t0) None = Inr revision"
    and t: "t = t0\<lparr>et_execute := (\<lambda>input d w. case hold_execute revision t0 sink input w of (r, w') \<Rightarrow> ([], Inr r, w'))\<rparr>"
    by (auto simp: holdTool_def split: sum.splits)
  have "\<exists>r w'. et_execute t input d w = ([], Inr r, w') \<and>
      (isError r \<or> (\<exists>revision target w1. permissionToolRevision digest (tool_surface t0) None = Inr revision \<and>
         capture_target t0 input w = (Inr target, w1) \<and> validateTargetRevision target \<and>
         sink \<lparr>hc_toolName = et_name t0, hc_toolInput = input, hc_toolRevision = revision, hc_targetRevision = target\<rparr> w1 = (Inr (), w')))"
    for input d w
  proof -
    obtain r w' where r: "hold_execute revision t0 sink input w = (r, w')" by fastforce
    then show ?thesis using hold_execute_parks [OF r] rv by (cases "isError r") (auto simp: t)
  qed
  moreover have "tool_surface t = tool_surface t0" by (simp add: t tool_surface_body)
  ultimately show ?thesis by (simp add: parks_def)
qed

text \<open>
  C11: unattended runs cannot mutate. Below full access the tools handed to a run (and, by the same function, to the agents it
  spawns) do not depend on the bodies of tools that are not provably read-only, so no such body can run; each tool is a read-only one of
  the agent or, if there is a place to park, a wrapper with the declarations of the original whose calls never throw and
  report success only after exactly this call, with its revisions, was parked.
\<close>

theorem unattended_never_mutates:
  assumes "l \<noteq> FullAccess" "applyRunSafety digest tools l sink = Inr run"
  shows "(\<forall>f. applyRunSafety digest (map (disarm f) tools) l sink = Inr run \<and>
      envelopeSpawnerPool digest (map (disarm f) tools) (Some l) sink = Inr run) \<and>
    (\<forall>t \<in> set run. t \<in> set tools \<and> provably_read_only t \<or>
      (\<exists>t0 \<in> set tools. \<exists>k. l = DraftApproval \<and> sink = Some k \<and> parks digest t0 k t))"
proof -
  have "t \<in> set tools \<and> provably_read_only t \<or> (\<exists>t0 \<in> set tools. \<exists>k. l = DraftApproval \<and> sink = Some k \<and> parks digest t0 k t)"
    if "t \<in> set run" for t
  proof (cases "l = DraftApproval \<and> sink \<noteq> None")
    case True
    then obtain k where "sink = Some k" "hold_tools digest tools k = Inr run" using assms(2) by auto
    then show ?thesis using hold_tools_mem [of digest tools k run t] that holdTool_parks True by metis
  next
    case False
    then have "run = filter provably_read_only tools" using assms by (cases l; cases sink) simp_all
    then show ?thesis using that by simp
  qed
  then show ?thesis using assms by (simp add: applyRunSafety_disarm envelopeSpawnerPool_def)
qed

definition any_digest :: "string \<Rightarrow> string" where
  "any_digest t = replicate 64 (CHR ''a'')"

definition send_tool :: "bool \<Rightarrow> nat ScheduledTool" where
  "send_tool asks = \<lparr>et_name = ''send'', et_requiresPermission = asks, et_validateInput = None, et_timeoutMs = None,
     et_disableTimeout = False, et_maxResultSize = None, et_cacheKey = None,
     et_execute = (\<lambda>i d w. ([], Inr \<lparr>content = ''x'', isError = False, metadata = None\<rparr>, Suc w)),
     sd_inputSchema = IObj [], sd_isReadOnly = None, sd_category = None, sd_requires = None, sd_egress = None,
     sd_conditionalEffect = None\<rparr>"

lemma send_tool_fields [simp]:
  "et_name (send_tool asks) = ''send''" "et_requiresPermission (send_tool asks) = asks" "sd_conditionalEffect (send_tool asks) = None"
  "sd_isReadOnly (send_tool asks) = None" "sd_egress (send_tool asks) = None"
  by (simp_all add: send_tool_def)

definition counting_sink :: "nat hold_sink" where
  "counting_sink c w = (Inr (), w + 10)"

lemma any_revision: "permissionToolRevision any_digest (tool_surface (send_tool asks)) None = Inr (replicate 64 (CHR ''a''))"
  by (simp add: permissionToolRevision_def sha256PermissionRevision_def canonical_text tool_material_def tool_surface_def
      send_tool_def text_or_null_def any_digest_def MAX_CANONICAL_PERMISSION_DEPTH_def)

theorem unattended_never_mutates_witness:
  "\<exists>t. applyRunSafety any_digest [send_tool False] DraftApproval (Some counting_sink) = Inr [t] \<and>
     parks any_digest (send_tool False) counting_sink t \<and> (\<exists>r. et_execute t [] None 0 = ([], Inr r, 10) \<and> \<not> isError r)"
proof -
  have mut: "\<not> provably_read_only (send_tool False)" by (simp add: provably_read_only_def)
  obtain t where t: "holdTool any_digest (send_tool False) counting_sink = Inr t" by (simp add: holdTool_def any_revision)
  then have a: "applyRunSafety any_digest [send_tool False] DraftApproval (Some counting_sink) = Inr [t]" using mut by simp
  have "hold_execute revision (send_tool False) counting_sink [] 0 = (held_result ''send'', 10)" for revision
    by (simp add: hold_execute_def capture_target_def counting_sink_def validateTargetRevision_def)
  then have "et_execute t [] None 0 = ([], Inr (held_result ''send''), 10)" using t by (auto simp: holdTool_def any_revision)
  moreover have "\<not> isError (held_result ''send'')" by (simp add: held_result_def)
  moreover have "sd_isReadOnly t = None" using t by (auto simp: holdTool_def any_revision)
  ultimately show ?thesis
    using unattended_never_mutates [OF _ a] a by (auto simp: provably_read_only_def)
qed

section \<open>What an approved call may run\<close>

definition runs_at :: "('w, 'a) stage \<Rightarrow> 'w exec_state \<Rightarrow> (obj \<times> nat option) list" where
  "runs_at m s = runs_of (fst (snd (m s)))"

lemma then_runs:
  "runs_at (then_stage m k) s = runs_at m s @ (case m s of (Some (Inr (Inr a)), evs, s1) \<Rightarrow> runs_at (k a) s1 | _ \<Rightarrow> [])"
  by (simp add: runs_at_def then_stage_def split: prod.split option.split sum.split)

lemma quiet_runs: "quiet m \<Longrightarrow> runs_at m s = []"
  by (cases "m s") (auto simp: quiet_def runs_at_def)

text \<open>Stages that run nothing, in front of or after the one that runs the tool.\<close>

definition idle :: "('w, 'a) stage \<Rightarrow> bool" where
  "idle m \<longleftrightarrow> (\<forall>s. runs_at m s = [])"

definition runs_only :: "obj \<Rightarrow> ('w, 'a) stage \<Rightarrow> bool" where
  "runs_only i m \<longleftrightarrow> (\<forall>s. runs_at m s = [] \<or> (\<exists>d. runs_at m s = [(i, d)]))"

lemma idle_then: "idle m \<Longrightarrow> (\<And>a. idle (k a)) \<Longrightarrow> idle (then_stage m k)"
  by (simp add: idle_def then_runs split: prod.split option.split sum.split)

lemma idle_then_runs: "idle m \<Longrightarrow> (\<And>a. runs_only i (k a)) \<Longrightarrow> runs_only i (then_stage m k)"
  by (simp add: idle_def runs_only_def then_runs split: prod.split option.split sum.split)

lemma runs_then_idle: "runs_only i m \<Longrightarrow> (\<And>a. idle (k a)) \<Longrightarrow> runs_only i (then_stage m k)"
  by (simp add: idle_def runs_only_def then_runs split: prod.split option.split sum.split)

lemma idle_quiet: "quiet m \<Longrightarrow> idle m"
  by (simp add: idle_def quiet_runs)

lemma idle_stages:
  "idle (permission_stage opts tool call start)" "idle (validate_stage opts tool call start input)"
  "idle (arm_stage opts tool input)" "idle (present_stage opts tool result)" "idle (after_stage opts tool input result)"
  "idle (finish_stage opts call start input hit result)"
proof -
  show "idle (arm_stage opts tool input)" "idle (present_stage opts tool result)"
    "idle (after_stage opts tool input result)" "idle (finish_stage opts call start input hit result)"
    by (auto simp: idle_def runs_at_def arm_stage_def present_stage_def after_stage_def finish_stage_def Let_def
        split: option.splits prod.splits sum.splits)
qed (rule idle_quiet, rule quiet_permission, rule idle_quiet, rule quiet_validate)

lemma before_none: "xo_hooks opts = None \<Longrightarrow> runs_at (then_stage (before_stage opts tool call start) k) s = runs_at (k (tc_input call)) s"
  unfolding then_runs by (simp add: runs_at_def before_stage_def)

lemma held_hooks: "xo_hooks (held_options env) = None"
  by (simp add: held_options_def)

lemma runs_only_execute: "runs_only input (execute_stage opts tool input key)"
  unfolding runs_only_def
proof
  fix s
  obtain r evs s' where e: "execute_stage opts tool input key s = (r, evs, s')" by (metis prod_cases3)
  show "runs_at (execute_stage opts tool input key) s = [] \<or> (\<exists>d. runs_at (execute_stage opts tool input key) s = [(input, d)])"
    by (rule execute_stage_runs [OF e]) (use e in \<open>auto simp: runs_at_def split: if_splits\<close>)
qed

lemma held_call:
  assumes "executeTool (held_options env) tool call s0 = (r, evs, s)" "runs_of evs \<noteq> []"
  shows "\<not> et_requiresPermission tool \<and> (\<exists>d. runs_of evs = [(tc_input call, d)])"
proof -
  let ?o = "held_options env"
  let ?start = "xo_now ?o (es_world s0)"
  let ?rest = "\<lambda>input. then_stage (validate_stage ?o tool call ?start input) (\<lambda>_.
           then_stage (arm_stage ?o tool input) (\<lambda>key.
           then_stage (execute_stage ?o tool input key) (\<lambda>(result, hit).
           then_stage (present_stage ?o tool result) (\<lambda>shown.
           then_stage (after_stage ?o tool input shown) (\<lambda>final.
           finish_stage ?o call ?start input hit final)))))"
  let ?m = "then_stage (permission_stage ?o tool call ?start) (\<lambda>_. then_stage (before_stage ?o tool call ?start) ?rest)"
  have evs: "runs_at ?m s0 = runs_of evs" using assms(1) by (auto simp: executeTool_def Let_def runs_at_def split: prod.splits)
  have "runs_only input (?rest input)" for input
    by (intro idle_then_runs runs_then_idle runs_only_execute idle_stages) (auto intro!: idle_then idle_stages split: prod.split)
  moreover have "runs_at (then_stage (before_stage ?o tool call ?start) ?rest) s1 = runs_at (?rest (tc_input call)) s1" for s1
    by (rule before_none) (rule held_hooks)
  ultimately have mid: "runs_only (tc_input call) (then_stage (before_stage ?o tool call ?start) ?rest)"
    by (simp add: runs_only_def)
  have m: "runs_only (tc_input call) ?m" by (rule idle_then_runs [OF idle_stages(1) mid])
  have "runs_of evs = [] \<or> (\<exists>d. runs_of evs = [(tc_input call, d)])"
    using m [unfolded runs_only_def, THEN spec, of s0] unfolding evs .
  moreover have "\<not> et_requiresPermission tool"
  proof
    assume "et_requiresPermission tool"
    then have "runs_at ?m s0 = []" unfolding then_runs [of "permission_stage ?o tool call ?start"]
      by (simp add: runs_at_def permission_stage_def held_options_def Let_def)
    then show False using evs assms(2) by simp
  qed
  ultimately show ?thesis using assms(2) by simp
qed

lemma permission_refused:
  assumes "et_requiresPermission tool"
  shows "executeTool (held_options env) tool call \<lparr>es_world = w, es_cache = None, es_timer = False\<rparr> =
    (Some (Inr \<lparr>er_toolCall = call,
       er_result = error_result (''Permission denied for tool '' @ [CHR 0x22] @ et_name tool @ [CHR 0x22] @ ''.''),
       er_durationMs = 0, er_wasPermissionDenied = True, er_cacheHit = None\<rparr>),
     [AskedPermission (et_name tool)], \<lparr>es_world = w, es_cache = None, es_timer = False\<rparr>)"
  using assms by (simp add: executeTool_def then_stage_def permission_stage_def held_options_def refuse_def Let_def)

text \<open>The way to the checks: profile, workspace and tools were found.\<close>

lemma executeHeldTool_stages:
  assumes "executeHeldTool digest env p w = (r, evs, w')"
  obtains (early) "evs = []" "\<exists>x. r = Some x"
  | (checked) profile path tools w3 where "check_held digest env p profile path tools w3 = (r, evs, w')"
      "\<exists>w1 w2. he_profile env (hp_profileId p) w = (Inr (Some profile), w1) \<and> held_workspace env p w1 = (Some (Inr path), w2) \<and>
         he_assemble env profile path w2 = (Inr tools, w3)"
  using assms
  by (auto simp: executeHeldTool_def held_refusal_def held_throw_def split: prod.splits sum.splits option.splits)

lemma run_held_runs:
  assumes "run_held env p tool w = (r, evs, w')" "runs_of evs \<noteq> []"
  shows "\<not> et_requiresPermission tool \<and> (hp_targetRevision p \<noteq> None \<longrightarrow> sd_conditionalEffect tool \<noteq> None) \<and>
    (\<exists>d. runs_of evs = [(input_object (hp_toolInput p), d)])"
proof -
  obtain x where x: "toolForHeldExecution tool (hp_targetRevision p) = Some x"
    using assms by (auto simp: run_held_def held_refusal_def split: option.splits)
  then have same: "et_requiresPermission (ExecTool.truncate x) = et_requiresPermission tool"
    "hp_targetRevision p \<noteq> None \<longrightarrow> sd_conditionalEffect tool \<noteq> None"
    by (auto simp: toolForHeldExecution_def ExecTool.truncate_def split: option.splits)
  obtain r0 s where e: "executeTool (held_options env) (ExecTool.truncate x)
      \<lparr>tc_id = he_callId env, tc_name = hp_toolName p, tc_input = input_object (hp_toolInput p)\<rparr>
      \<lparr>es_world = w, es_cache = None, es_timer = False\<rparr> = (r0, evs, s)"
    using assms(1) x by (auto simp: run_held_def split: prod.splits)
  from held_call [OF e assms(2)] same show ?thesis by simp
qed

lemma check_held_tool:
  assumes "check_held digest env p profile path tools w = (r, evs, w')" "runs_of evs \<noteq> []"
  obtains tool where "find (\<lambda>t. et_name t = hp_toolName p) tools = Some tool"
    "ap_egressMode profile = ''local-only'' \<longrightarrow> map_option snd (sd_egress tool) = Some ''none''"
    "permissionToolRevision digest (tool_surface tool) None = Inr (hp_toolRevision p)"
    "permissionPolicyRevision digest (held_policy p profile path tools) = Inr (hp_policyRevision p)"
    "run_held env p tool w = (r, evs, w')"
  using assms by (auto simp: check_held_def held_refusal_def held_throw_def split: option.splits if_splits sum.splits)


definition mail_profile :: AgentProfile where
  "mail_profile = \<lparr>ap_candidateId = None, ap_egressMode = ''open'', ap_security = IObj []\<rparr>"

definition mail_env :: "bool \<Rightarrow> nat HeldEnv" where
  "mail_env asks = \<lparr>he_profile = (\<lambda>i w. (Inr (Some mail_profile), w)), he_workspace = (\<lambda>i w. (Inr None, w)),
     he_assemble = (\<lambda>p d w. (Inr [send_tool asks], w)), he_timeoutMs = None, he_maxResultSize = None, he_now = int,
     he_num = (\<lambda>l. l), he_callId = ''approve_1''\<rparr>"

definition mail_params :: HeldParams where
  "mail_params = \<lparr>hp_profileId = ''mail'', hp_workspaceId = None, hp_safetyLevel = DraftApproval, hp_toolName = ''send'',
     hp_toolInput = JObj [(''to'', JStr ''dana'')], hp_policyRevision = replicate 64 (CHR ''a''),
     hp_toolRevision = replicate 64 (CHR ''a''), hp_targetRevision = None\<rparr>"

lemma mail_mode: "ap_egressMode mail_profile = ''open''"
  by (simp add: mail_profile_def)

lemma mail_policy:
  "permissionPolicyRevision any_digest (held_policy mail_params mail_profile None [send_tool asks]) = Inr (hp_policyRevision mail_params)"
  by (simp add: permissionPolicyRevision_def any_revision held_policy_def sha256PermissionRevision_def canonical_text mail_params_def
      mail_profile_def text_or_null_def any_digest_def MAX_CANONICAL_PERMISSION_DEPTH_def)

lemma mail_lookups:
  "he_profile (mail_env asks) (hp_profileId mail_params) w = (Inr (Some mail_profile), w)"
  "held_workspace (mail_env asks) mail_params w = (Some (Inr None), w)"
  "he_assemble (mail_env asks) mail_profile None w = (Inr [send_tool asks], w)"
  "find (\<lambda>t. et_name t = hp_toolName mail_params) [send_tool asks] = Some (send_tool asks)"
  "permissionToolRevision any_digest (tool_surface (send_tool asks)) None = Inr (hp_toolRevision mail_params)"
  by (simp_all add: mail_env_def held_workspace_def any_revision) (simp_all add: mail_params_def send_tool_def)

lemma mail_runs:
  "runs_of (fst (snd (executeHeldTool any_digest (mail_env False) mail_params 0))) \<noteq> []"
proof -
  have c: "check_held any_digest (mail_env False) mail_params mail_profile None [send_tool False] 0 =
      run_held (mail_env False) mail_params (send_tool False) 0"
    unfolding check_held_def mail_lookups(4) by (simp add: mail_lookups(5) mail_policy mail_mode)
  have "runs_of (fst (snd (run_held (mail_env False) mail_params (send_tool False) 0))) \<noteq> []"
    by (simp add: run_held_def toolForHeldExecution_def mail_params_def ExecTool.truncate_def send_tool_def
        executeTool_def then_stage_def permission_stage_def before_stage_def validate_stage_def arm_stage_def execute_stage_def
        lookup_cache_def run_tool_def held_options_def Let_def split: prod.split)
  then show ?thesis by (simp add: executeHeldTool_def mail_lookups c)
qed


text \<open>
  C17: an approved call of a tool that asks for permission is refused. The context of the one call answers every question for permission with
  no, and the executor asks before such a tool runs; so whatever the agent, if the named tool still has the reviewed revisions (and
  needs no missing precondition), the user's approval ends in the error \<open>Permission denied\<close> and nothing runs.
\<close>

theorem approved_call_denied:
  assumes "he_profile env (hp_profileId p) w = (Inr (Some profile), w1)" "held_workspace env p w1 = (Some (Inr path), w2)"
    and "he_assemble env profile path w2 = (Inr tools, w3)" "find (\<lambda>t. et_name t = hp_toolName p) tools = Some tool"
    and "ap_egressMode profile \<noteq> ''local-only''"
    and "permissionToolRevision digest (tool_surface tool) None = Inr (hp_toolRevision p)"
    and "permissionPolicyRevision digest (held_policy p profile path tools) = Inr (hp_policyRevision p)"
    and "toolForHeldExecution tool (hp_targetRevision p) \<noteq> None" "et_requiresPermission tool"
  shows "executeHeldTool digest env p w =
    (Some (Inr (error_result (''Permission denied for tool '' @ [CHR 0x22] @ et_name tool @ [CHR 0x22] @ ''.''))), [AskedPermission (et_name tool)], w3)"
proof -
  obtain x where x: "toolForHeldExecution tool (hp_targetRevision p) = Some x" using assms(8) by blast
  then have "et_requiresPermission (ExecTool.truncate x)" "et_name (ExecTool.truncate x) = et_name tool"
    using assms(9) by (auto simp: toolForHeldExecution_def ExecTool.truncate_def split: option.splits)
  then have "run_held env p tool w3 = (Some (Inr (error_result (''Permission denied for tool '' @ [CHR 0x22] @ et_name tool @ [CHR 0x22] @ ''.''))),
      [AskedPermission (et_name tool)], w3)"
    using x by (simp add: run_held_def permission_refused)
  then show ?thesis using assms by (simp add: executeHeldTool_def check_held_def)
qed

theorem approved_call_denied_witness:
  "executeHeldTool any_digest (mail_env True) mail_params 0 =
     (Some (Inr (error_result (''Permission denied for tool '' @ [CHR 0x22] @ ''send'' @ [CHR 0x22] @ ''.''))), [AskedPermission ''send''], 0)"
proof -
  have "ap_egressMode mail_profile \<noteq> ''local-only''" by (simp add: mail_profile_def)
  moreover have "toolForHeldExecution (send_tool True) (hp_targetRevision mail_params) \<noteq> None"
    by (simp add: toolForHeldExecution_def mail_params_def)
  moreover have "et_requiresPermission (send_tool True)" "et_name (send_tool True) = ''send''" by (simp_all add: send_tool_def)
  ultimately show ?thesis
    using approved_call_denied [OF mail_lookups(1) mail_lookups(2,3) mail_lookups(4) _ mail_lookups(5) mail_policy, of True 0] by simp
qed

end
