(* ===== verification/ScheduleApprovals.thy ===== *)
theory ScheduleApprovals
  imports DraftHold JsMap
begin

text \<open>
  Drafts waiting for approval (packages/cortex): the store of \<open>schedules/approvals.ts\<close> over its three tables with the constraints and
  triggers of \<open>gateway/db/schema.ts\<close>, and the handlers of \<open>gateway/handlers/approvals.ts\<close> that discard a draft or approve and
  execute it. A handler is a sequence of steps between its awaits, so that requests interleave; each store operation is atomic.
  SHA-256, the printing of numbers, fresh identifiers and the clock are parameters.
\<close>

section \<open>Tables\<close>

datatype ApprovalStatus = ApPending | ApExecuting | ApApproved | ApDiscarded | ApFailed | ApIndeterminate

record ApprovalRow =
  ar_scheduleId :: string
  ar_runId :: string
  ar_threadId :: "string option"
  ar_toolName :: string
  ar_toolInput :: string
  ar_summary :: string
  ar_status :: ApprovalStatus
  ar_result :: "string option"
  ar_errorMessage :: "string option"
  ar_createdAt :: int
  ar_decidedAt :: "int option"

record BindingRow =
  br_intentRevision :: int
  br_operationHash :: string
  br_policyRevision :: string
  br_toolRevision :: string
  br_targetRevision :: "string option"
  br_boundAt :: int

record ClaimRow =
  cm_operationHash :: string
  cm_claimedAt :: int

record ScheduleRow =
  sr_name :: string
  sr_profileId :: string
  sr_workspaceId :: "string option"
  sr_safetyLevel :: SafetyLevel

record ApprovalDb =
  db_schedules :: "(string, ScheduleRow) js_map"
  db_runs :: "(string, string) js_map"
  db_threads :: "string list"
  db_approvals :: "(string, ApprovalRow) js_map"
  db_bindings :: "(string, BindingRow) js_map"
  db_claims :: "(string, ClaimRow) js_map"

datatype store_error = IntentRejected intent_error | ConstraintFailed | LifecycleAborted | ClaimLost | RowNotFound | StatusInvalid

text \<open>The two triggers on the approvals.\<close>

definition open_status :: "ApprovalStatus \<Rightarrow> bool" where
  "open_status st \<longleftrightarrow> st = ApPending \<or> st = ApExecuting"

definition lifecycle_ok :: "ApprovalStatus \<Rightarrow> int option \<Rightarrow> bool" where
  "lifecycle_ok st decided \<longleftrightarrow> (open_status st \<longleftrightarrow> decided = None)"

definition transition_ok :: "ApprovalStatus \<Rightarrow> ApprovalStatus \<Rightarrow> bool" where
  "transition_ok old new \<longleftrightarrow> old = new \<or>
     old = ApPending \<and> new \<in> {ApExecuting, ApDiscarded, ApIndeterminate} \<or>
     old = ApExecuting \<and> new \<in> {ApApproved, ApFailed, ApIndeterminate}"

definition insert_approval :: "string \<Rightarrow> ApprovalRow \<Rightarrow> ApprovalDb \<Rightarrow> store_error + ApprovalDb" where
  "insert_approval i row db =
     (if \<not> lifecycle_ok (ar_status row) (ar_decidedAt row) then Inl LifecycleAborted
      else if map_has (db_approvals db) i \<or> \<not> map_has (db_schedules db) (ar_scheduleId row) \<or> \<not> map_has (db_runs db) (ar_runId row) \<or>
              (case ar_threadId row of None \<Rightarrow> False | Some t \<Rightarrow> t \<notin> set (db_threads db)) then Inl ConstraintFailed
      else Inr (db\<lparr>db_approvals := map_set i row (db_approvals db)\<rparr>))"

definition insert_binding :: "string \<Rightarrow> BindingRow \<Rightarrow> ApprovalDb \<Rightarrow> store_error + ApprovalDb" where
  "insert_binding i b db =
     (if map_has (db_bindings db) i \<or> \<not> map_has (db_approvals db) i \<or> br_intentRevision b \<noteq> 1 \<or>
         \<not> is_hex_digest (br_operationHash b) \<or> \<not> is_hex_digest (br_policyRevision b) \<or> \<not> is_hex_digest (br_toolRevision b) \<or>
         \<not> validateTargetRevision (br_targetRevision b) \<or> br_boundAt b < 0 then Inl ConstraintFailed
      else Inr (db\<lparr>db_bindings := map_set i b (db_bindings db)\<rparr>))"

definition insert_claim :: "string \<Rightarrow> ClaimRow \<Rightarrow> ApprovalDb \<Rightarrow> store_error + ApprovalDb" where
  "insert_claim i c db =
     (if map_has (db_claims db) i \<or> \<not> map_has (db_bindings db) i \<or> \<not> is_hex_digest (cm_operationHash c) \<or> cm_claimedAt c < 0
      then Inl ConstraintFailed
      else Inr (db\<lparr>db_claims := map_set i c (db_claims db)\<rparr>))"

definition update_approval :: "string \<Rightarrow> ApprovalRow \<Rightarrow> ApprovalRow \<Rightarrow> ApprovalDb \<Rightarrow> store_error + ApprovalDb" where
  "update_approval i old new db =
     (if transition_ok (ar_status old) (ar_status new) \<and> lifecycle_ok (ar_status new) (ar_decidedAt new)
      then Inr (db\<lparr>db_approvals := map_set i new (db_approvals db)\<rparr>) else Inl LifecycleAborted)"

section \<open>Reading\<close>

record ApprovalDto =
  dto_id :: string
  dto_scheduleId :: string
  dto_runId :: string
  dto_threadId :: "string option"
  dto_toolName :: string
  dto_toolInput :: json
  dto_summary :: string
  dto_status :: ApprovalStatus
  dto_result :: json
  dto_errorMessage :: "string option"
  dto_createdAt :: int
  dto_decidedAt :: "int option"
  dto_intentRevision :: "int option"
  dto_claimedAt :: "int option"

record ClaimedApproval = ApprovalDto +
  ca_operationHash :: string
  ca_policyRevision :: string
  ca_toolRevision :: string
  ca_targetRevision :: "string option"

definition parseJson :: "(string \<Rightarrow> string) \<Rightarrow> string option \<Rightarrow> json" where
  "parseJson num t = (case t of
       None \<Rightarrow> JNull
     | Some s \<Rightarrow> (if s = [] then JNull else (case json_parse num s of Inr v \<Rightarrow> v | Inl e \<Rightarrow> JStr s)))"

definition rowToApproval :: "(string \<Rightarrow> string) \<Rightarrow> string \<Rightarrow> ApprovalRow \<Rightarrow> BindingRow option \<Rightarrow> ClaimRow option \<Rightarrow> ApprovalDto" where
  "rowToApproval num i row b c =
     \<lparr>dto_id = i, dto_scheduleId = ar_scheduleId row, dto_runId = ar_runId row, dto_threadId = ar_threadId row,
      dto_toolName = ar_toolName row, dto_toolInput = parseJson num (Some (ar_toolInput row)), dto_summary = ar_summary row,
      dto_status = ar_status row, dto_result = parseJson num (ar_result row), dto_errorMessage = ar_errorMessage row,
      dto_createdAt = ar_createdAt row, dto_decidedAt = ar_decidedAt row,
      dto_intentRevision = (case b of Some r \<Rightarrow> if br_intentRevision r = 1 then Some 1 else None | None \<Rightarrow> None),
      dto_claimedAt = map_option cm_claimedAt c\<rparr>"

definition approval_get :: "(string \<Rightarrow> string) \<Rightarrow> ApprovalDb \<Rightarrow> string \<Rightarrow> ApprovalDto option" where
  "approval_get num db i = map_option (\<lambda>row. rowToApproval num i row (map_get (db_bindings db) i) (map_get (db_claims db) i))
     (map_get (db_approvals db) i)"

definition countPending :: "ApprovalDb \<Rightarrow> string option \<Rightarrow> nat" where
  "countPending db profile = length (filter (\<lambda>(i, row). ar_status row = ApPending \<and>
     (case profile of None \<Rightarrow> True
      | Some p \<Rightarrow> (case map_get (db_schedules db) (ar_scheduleId row) of Some s \<Rightarrow> sr_profileId s = p | None \<Rightarrow> False)))
     (db_approvals db))"

definition countPendingForRun :: "ApprovalDb \<Rightarrow> string \<Rightarrow> nat" where
  "countPendingForRun db run = length (filter (\<lambda>(i, row). ar_runId row = run \<and> ar_status row = ApPending) (db_approvals db))"

section \<open>Writing\<close>

record CreateApprovalInput =
  ci_scheduleId :: string
  ci_runId :: string
  ci_threadId :: "string option"
  ci_toolName :: string
  ci_toolInput :: json
  ci_summary :: string
  ci_policyRevision :: string
  ci_toolRevision :: string
  ci_targetRevision :: "string option"

definition create_intent :: "string \<Rightarrow> CreateApprovalInput \<Rightarrow> ApprovalIntent" where
  "create_intent i c =
     \<lparr>ai_approvalId = i, ai_scheduleId = ci_scheduleId c, ai_runId = ci_runId c, ai_threadId = ci_threadId c,
      ai_toolName = ci_toolName c, ai_toolInput = ci_toolInput c, ai_policyRevision = ci_policyRevision c,
      ai_toolRevision = ci_toolRevision c, ai_targetRevision = ci_targetRevision c\<rparr>"

definition draft_row :: "int \<Rightarrow> CreateApprovalInput \<Rightarrow> ApprovalRow" where
  "draft_row now c =
     \<lparr>ar_scheduleId = ci_scheduleId c, ar_runId = ci_runId c, ar_threadId = ci_threadId c, ar_toolName = ci_toolName c,
      ar_toolInput = json_stringify (ci_toolInput c), ar_summary = ci_summary c, ar_status = ApPending, ar_result = None,
      ar_errorMessage = None, ar_createdAt = now, ar_decidedAt = None\<rparr>"

definition draft_binding :: "int \<Rightarrow> CreateApprovalInput \<Rightarrow> string \<Rightarrow> BindingRow" where
  "draft_binding now c h =
     \<lparr>br_intentRevision = 1, br_operationHash = h, br_policyRevision = ci_policyRevision c,
      br_toolRevision = ci_toolRevision c, br_targetRevision = ci_targetRevision c, br_boundAt = now\<rparr>"

text \<open>A transaction that throws leaves the tables as they were.\<close>

definition approval_create ::
  "(string \<Rightarrow> string) \<Rightarrow> (string \<Rightarrow> string) \<Rightarrow> string \<Rightarrow> int \<Rightarrow> CreateApprovalInput \<Rightarrow> ApprovalDb \<Rightarrow> (store_error + ApprovalDto) \<times> ApprovalDb" where
  "approval_create digest num i now c db =
     (case scheduleApprovalOperationHash digest (create_intent i c) of
        Inl e \<Rightarrow> (Inl (IntentRejected e), db)
      | Inr h \<Rightarrow>
          (case insert_approval i (draft_row now c) db of
             Inl e \<Rightarrow> (Inl e, db)
           | Inr db1 \<Rightarrow>
               (case insert_binding i (draft_binding now c h) db1 of
                  Inl e \<Rightarrow> (Inl e, db)
                | Inr db2 \<Rightarrow> (case approval_get num db2 i of None \<Rightarrow> (Inl RowNotFound, db2) | Some a \<Rightarrow> (Inr a, db2)))))"

datatype ClaimApprovalResult =
    Claimed ClaimedApproval | ClaimMissing | NotPending ApprovalDto | AlreadyClaimed ApprovalDto | IntentMismatch "ApprovalDto option"

definition row_intent :: "(string \<Rightarrow> string) \<Rightarrow> string \<Rightarrow> ApprovalRow \<Rightarrow> BindingRow \<Rightarrow> ApprovalIntent" where
  "row_intent num i row b =
     \<lparr>ai_approvalId = i, ai_scheduleId = ar_scheduleId row, ai_runId = ar_runId row, ai_threadId = ar_threadId row,
      ai_toolName = ar_toolName row, ai_toolInput = parseJson num (Some (ar_toolInput row)), ai_policyRevision = br_policyRevision b,
      ai_toolRevision = br_toolRevision b, ai_targetRevision = br_targetRevision b\<rparr>"

text \<open>The binding if the digest of the action as it is stored now is the one that was bound.\<close>

definition matching_binding :: "(string \<Rightarrow> string) \<Rightarrow> (string \<Rightarrow> string) \<Rightarrow> string \<Rightarrow> ApprovalRow \<Rightarrow> BindingRow option \<Rightarrow> BindingRow option" where
  "matching_binding digest num i row binding = (case binding of
       None \<Rightarrow> None
     | Some b \<Rightarrow> (if br_intentRevision b = 1 \<and> scheduleApprovalOperationHash digest (row_intent num i row b) = Inr (br_operationHash b)
                  then Some b else None))"

definition mismatch_message :: string where
  "mismatch_message = ''The stored approval identity no longer matches the reviewed action.''"

definition claimed_of :: "ApprovalDto \<Rightarrow> BindingRow \<Rightarrow> ClaimedApproval" where
  "claimed_of a b = ApprovalDto.extend (a\<lparr>dto_status := ApExecuting\<rparr>)
     (ClaimedApproval.fields (br_operationHash b) (br_policyRevision b) (br_toolRevision b) (br_targetRevision b))"

definition approval_claim ::
  "(string \<Rightarrow> string) \<Rightarrow> (string \<Rightarrow> string) \<Rightarrow> int \<Rightarrow> string \<Rightarrow> ApprovalDb \<Rightarrow> (store_error + ClaimApprovalResult) \<times> ApprovalDb" where
  "approval_claim digest num now i db =
     (case map_get (db_approvals db) i of
        None \<Rightarrow> (Inr ClaimMissing, db)
      | Some row \<Rightarrow>
          (let a = rowToApproval num i row (map_get (db_bindings db) i) (map_get (db_claims db) i) in
           if ar_status row = ApExecuting \<or> map_get (db_claims db) i \<noteq> None then (Inr (AlreadyClaimed a), db)
           else if ar_status row \<noteq> ApPending then (Inr (NotPending a), db)
           else (case matching_binding digest num i row (map_get (db_bindings db) i) of
               None \<Rightarrow>
                 (case update_approval i row (row\<lparr>ar_status := ApIndeterminate, ar_errorMessage := Some mismatch_message,
                        ar_decidedAt := Some now\<rparr>) db of
                    Inl e \<Rightarrow> (Inl e, db)
                  | Inr db1 \<Rightarrow> (Inr (IntentMismatch (approval_get num db1 i)), db1))
             | Some b \<Rightarrow>
                 (case insert_claim i \<lparr>cm_operationHash = br_operationHash b, cm_claimedAt = now\<rparr> db of
                    Inl e \<Rightarrow> (Inl e, db)
                  | Inr db1 \<Rightarrow>
                      (case update_approval i row (row\<lparr>ar_status := ApExecuting\<rparr>) db1 of
                         Inl e \<Rightarrow> (Inl e, db)
                       | Inr db2 \<Rightarrow> (case approval_get num db2 i of
                             None \<Rightarrow> (Inl ClaimLost, db)
                           | Some a' \<Rightarrow> (Inr (Claimed (claimed_of a' b)), db2)))))))"

definition restart_message :: string where
  "restart_message = ''Ownware restarted after this action was claimed; its external effect is unknown.''"

definition recover_row :: "ApprovalDb \<Rightarrow> int \<Rightarrow> string \<times> ApprovalRow \<Rightarrow> string \<times> ApprovalRow" where
  "recover_row db now r = (case r of (i, row) \<Rightarrow>
     (if ar_status row = ApExecuting \<and> map_has (db_claims db) i
      then (i, row\<lparr>ar_status := ApIndeterminate,
               ar_errorMessage := Some (case ar_errorMessage row of Some m \<Rightarrow> m | None \<Rightarrow> restart_message), ar_decidedAt := Some now\<rparr>)
      else (i, row)))"

definition recoverInterruptedClaims :: "int \<Rightarrow> ApprovalDb \<Rightarrow> nat \<times> ApprovalDb" where
  "recoverInterruptedClaims now db =
     (length (filter (\<lambda>(i, row). ar_status row = ApExecuting \<and> map_has (db_claims db) i) (db_approvals db)),
      db\<lparr>db_approvals := map (recover_row db now) (db_approvals db)\<rparr>)"

record DecideApprovalInput =
  di_status :: ApprovalStatus
  di_result :: "json option"
  di_errorMessage :: "string option"

definition approval_decide ::
  "(string \<Rightarrow> string) \<Rightarrow> int \<Rightarrow> string \<Rightarrow> DecideApprovalInput \<Rightarrow> ApprovalDb \<Rightarrow> (store_error + ApprovalDto option) \<times> ApprovalDb" where
  "approval_decide num now i d db =
     (case map_get (db_approvals db) i of
        None \<Rightarrow> (Inr None, db)
      | Some row \<Rightarrow>
          (if open_status (di_status d) then (Inl StatusInvalid, db)
           else if ar_status row \<noteq> (if di_status d = ApDiscarded then ApPending else ApExecuting)
             then (Inr (approval_get num db i), db)
           else if di_status d = ApDiscarded \<or> map_has (db_claims db) i then
             (case update_approval i row (row\<lparr>ar_status := di_status d, ar_result := map_option json_stringify (di_result d),
                    ar_errorMessage := di_errorMessage d, ar_decidedAt := Some now\<rparr>) db of
                Inl e \<Rightarrow> (Inl e, db)
              | Inr db1 \<Rightarrow> (Inr (approval_get num db1 i), db1))
           else (Inr (approval_get num db i), db)))"

section \<open>What the foreign keys do\<close>

definition drop_approvals :: "(ApprovalRow \<Rightarrow> bool) \<Rightarrow> ApprovalDb \<Rightarrow> ApprovalDb" where
  "drop_approvals P db =
     (let gone = map fst (filter (\<lambda>(i, row). P row) (db_approvals db)) in
      db\<lparr>db_approvals := filter (\<lambda>(i, row). i \<notin> set gone) (db_approvals db),
         db_bindings := filter (\<lambda>(i, b). i \<notin> set gone) (db_bindings db),
         db_claims := filter (\<lambda>(i, c). i \<notin> set gone) (db_claims db)\<rparr>)"

definition delete_thread :: "string \<Rightarrow> ApprovalDb \<Rightarrow> ApprovalDb" where
  "delete_thread t db = db\<lparr>db_threads := removeAll t (db_threads db),
     db_approvals := map (\<lambda>(i, row). (i, if ar_threadId row = Some t then row\<lparr>ar_threadId := None\<rparr> else row)) (db_approvals db)\<rparr>"

section \<open>Handlers\<close>

datatype RuntimePrincipal = OwnerPrincipal | DelegatedPrincipal string string

definition authorizePrincipalScope :: "RuntimePrincipal option \<Rightarrow> string option \<Rightarrow> string option \<Rightarrow> bool" where
  "authorizePrincipalScope who workspaceId profileId = (case who of
       None \<Rightarrow> True
     | Some OwnerPrincipal \<Rightarrow> True
     | Some (DelegatedPrincipal w p) \<Rightarrow> workspaceId = Some w \<and> profileId = Some p)"

datatype http_answer =
    Forbidden403 | NotFound404 string | Answer200 "ApprovalDto option" | Conflict409 "ApprovalDto option" | Error500 store_error

text \<open>Where a request waits: after each await of \<open>approveApproval\<close> and \<open>discardApproval\<close>.\<close>

datatype request_point =
    ApproveGet | ApproveClaim | ApproveSchedule ClaimedApproval | ApproveTool HeldParams | DiscardGet | Decide DecideApprovalInput

datatype request_next = Continue request_point | Respond http_answer

definition decide_failed :: "string \<Rightarrow> DecideApprovalInput" where
  "decide_failed m = \<lparr>di_status = ApFailed, di_result = None, di_errorMessage = Some m\<rparr>"

definition held_params :: "ScheduleRow \<Rightarrow> ClaimedApproval \<Rightarrow> HeldParams" where
  "held_params s b =
     \<lparr>hp_profileId = sr_profileId s, hp_workspaceId = sr_workspaceId s, hp_safetyLevel = sr_safetyLevel s,
      hp_toolName = dto_toolName b, hp_toolInput = dto_toolInput b, hp_policyRevision = ca_policyRevision b,
      hp_toolRevision = ca_toolRevision b, hp_targetRevision = ca_targetRevision b\<rparr>"

fun claim_answer :: "ClaimApprovalResult \<Rightarrow> request_next" where
  "claim_answer (Claimed b) = Continue (ApproveSchedule b)"
| "claim_answer ClaimMissing = Respond (Answer200 None)"
| "claim_answer (NotPending a) = Respond (Answer200 (Some a))"
| "claim_answer (AlreadyClaimed a) = Respond (Answer200 (Some a))"
| "claim_answer (IntentMismatch a) = Respond (Conflict409 a)"

definition tool_decision :: "js_thrown + ToolResult \<Rightarrow> DecideApprovalInput" where
  "tool_decision outcome = (case outcome of
       Inl e \<Rightarrow> decide_failed (thrown_message e)
     | Inr r \<Rightarrow> (if isError r then decide_failed (content r)
                 else \<lparr>di_status = ApApproved, di_result = Some (JStr (content r)), di_errorMessage = None\<rparr>))"

text \<open>One step of a request; \<open>outcome\<close> is what the execution of the held call comes to.\<close>

fun request_step ::
  "(string \<Rightarrow> string) \<Rightarrow> (string \<Rightarrow> string) \<Rightarrow> int \<Rightarrow> js_thrown + ToolResult \<Rightarrow> string \<Rightarrow> request_point \<Rightarrow> ApprovalDb \<Rightarrow> request_next \<times> ApprovalDb" where
  "request_step digest num now outcome i ApproveGet db = (case approval_get num db i of
       None \<Rightarrow> (Respond (NotFound404 i), db)
     | Some a \<Rightarrow> (if dto_status a \<noteq> ApPending then (Respond (Answer200 (Some a)), db) else (Continue ApproveClaim, db)))"
| "request_step digest num now outcome i ApproveClaim db = (case approval_claim digest num now i db of
       (Inl e, db') \<Rightarrow> (Respond (Error500 e), db')
     | (Inr r, db') \<Rightarrow> (claim_answer r, db'))"
| "request_step digest num now outcome i (ApproveSchedule b) db = (case map_get (db_schedules db) (dto_scheduleId b) of
       None \<Rightarrow> (Continue (Decide (decide_failed
                 ''The schedule disappeared after this draft was claimed; nothing was dispatched by Ownware.'')), db)
     | Some s \<Rightarrow> (Continue (ApproveTool (held_params s b)), db))"
| "request_step digest num now outcome i (ApproveTool p) db = (Continue (Decide (tool_decision outcome)), db)"
| "request_step digest num now outcome i DiscardGet db = (case approval_get num db i of
       None \<Rightarrow> (Respond (NotFound404 i), db)
     | Some a \<Rightarrow> (Continue (Decide \<lparr>di_status = ApDiscarded, di_result = None, di_errorMessage = None\<rparr>), db))"
| "request_step digest num now outcome i (Decide d) db = (case approval_decide num now i d db of
       (Inl e, db') \<Rightarrow> (Respond (Error500 e), db')
     | (Inr a, db') \<Rightarrow> (Respond (Answer200 a), db'))"

text \<open>\<open>ownerOnly\<close> in front of both handlers.\<close>

definition open_request :: "RuntimePrincipal option \<Rightarrow> bool \<Rightarrow> request_next" where
  "open_request who approve =
     (if \<not> authorizePrincipalScope who None None then Respond Forbidden403
      else Continue (if approve then ApproveGet else DiscardGet))"

section \<open>The system\<close>

text \<open>
  The tables, the requests in flight by number, and two histories that no code reads: what was ever parked and which executions were
  started. Identifiers are fresh, tool inputs are JSON values; schedules, runs and threads may change in any way, with what
  the foreign keys do to the approvals.
\<close>

record approval_system =
  sy_db :: ApprovalDb
  sy_requests :: "(nat, string \<times> request_point) js_map"
  sy_parked :: "(string \<times> ApprovalIntent) list"
  sy_dispatched :: "(string \<times> HeldParams) list"

definition fresh_system :: "ApprovalDb \<Rightarrow> approval_system" where
  "fresh_system db = \<lparr>sy_db = db\<lparr>db_approvals := [], db_bindings := [], db_claims := []\<rparr>, sy_requests = [], sy_parked = [], sy_dispatched = []\<rparr>"

definition after_step :: "nat \<Rightarrow> string \<Rightarrow> request_next \<times> ApprovalDb \<Rightarrow> approval_system \<Rightarrow> approval_system" where
  "after_step q i res s = (case res of
       (Respond a, db) \<Rightarrow> s\<lparr>sy_db := db, sy_requests := map_delete q (sy_requests s)\<rparr>
     | (Continue pt, db) \<Rightarrow> s\<lparr>sy_db := db, sy_requests := map_set q (i, pt) (sy_requests s),
         sy_dispatched := (case pt of ApproveTool p \<Rightarrow> [(i, p)] | _ \<Rightarrow> []) @ sy_dispatched s\<rparr>)"

inductive sys_step :: "(string \<Rightarrow> string) \<Rightarrow> (string \<Rightarrow> string) \<Rightarrow> approval_system \<Rightarrow> approval_system \<Rightarrow> bool"
  for digest num where
  park: "i \<notin> fst ` set (sy_parked s) \<Longrightarrow> distinct_names (ci_toolInput c) \<Longrightarrow> json_nums num (ci_toolInput c) \<Longrightarrow>
    approval_create digest num i now c (sy_db s) = (Inr a, db) \<Longrightarrow>
    sys_step digest num s (s\<lparr>sy_db := db, sy_parked := (i, create_intent i c) # sy_parked s\<rparr>)"
| request: "map_get (sy_requests s) q = None \<Longrightarrow> open_request who approve = Continue pt \<Longrightarrow>
    sys_step digest num s (s\<lparr>sy_requests := map_set q (i, pt) (sy_requests s)\<rparr>)"
| advance: "map_get (sy_requests s) q = Some (i, pt) \<Longrightarrow>
    sys_step digest num s (after_step q i (request_step digest num now outcome i pt (sy_db s)) s)"
| restart: "sys_step digest num s (s\<lparr>sy_db := snd (recoverInterruptedClaims now (sy_db s)), sy_requests := []\<rparr>)"
| remove: "sys_step digest num s (s\<lparr>sy_db := drop_approvals P (sy_db s)\<rparr>)"
| unlink: "sys_step digest num s (s\<lparr>sy_db := delete_thread t (sy_db s)\<rparr>)"
| change: "sys_step digest num s (s\<lparr>sy_db := (sy_db s)\<lparr>db_schedules := x, db_runs := y, db_threads := z\<rparr>\<rparr>)"

section \<open>The invariant\<close>

text \<open>A row is the draft of an intent; only its thread may have gone.\<close>

definition row_for :: "(string \<Rightarrow> string) \<Rightarrow> ApprovalIntent \<Rightarrow> ApprovalRow \<Rightarrow> bool" where
  "row_for num i row \<longleftrightarrow> ar_scheduleId row = ai_scheduleId i \<and> ar_runId row = ai_runId i \<and> ar_threadId row \<in> {ai_threadId i, None} \<and>
     ar_toolName row = ai_toolName i \<and> ar_toolInput row = json_stringify (ai_toolInput i) \<and>
     distinct_names (ai_toolInput i) \<and> json_nums num (ai_toolInput i)"

definition binding_for :: "ApprovalIntent \<Rightarrow> BindingRow \<Rightarrow> bool" where
  "binding_for i b \<longleftrightarrow> br_policyRevision b = ai_policyRevision i \<and> br_toolRevision b = ai_toolRevision i \<and>
     br_targetRevision b = ai_targetRevision i"

definition action_of :: "ApprovalIntent \<Rightarrow> HeldParams \<Rightarrow> bool" where
  "action_of i p \<longleftrightarrow> hp_toolName p = ai_toolName i \<and> json_same (ai_toolInput i) (hp_toolInput p) \<and>
     hp_policyRevision p = ai_policyRevision i \<and> hp_toolRevision p = ai_toolRevision i \<and> hp_targetRevision p = ai_targetRevision i"

definition bound_for :: "ApprovalIntent \<Rightarrow> ClaimedApproval \<Rightarrow> bool" where
  "bound_for i b \<longleftrightarrow> dto_toolName b = ai_toolName i \<and> json_same (ai_toolInput i) (dto_toolInput b) \<and>
     ca_policyRevision b = ai_policyRevision i \<and> ca_toolRevision b = ai_toolRevision i \<and> ca_targetRevision b = ai_targetRevision i"

definition holds :: "approval_system \<Rightarrow> string \<Rightarrow> nat \<Rightarrow> bool" where
  "holds s i q \<longleftrightarrow> (\<exists>b. map_get (sy_requests s) q = Some (i, ApproveSchedule b))"

definition db_inv :: "(string \<Rightarrow> string) \<Rightarrow> (string \<Rightarrow> ApprovalIntent option) \<Rightarrow> ApprovalDb \<Rightarrow> bool" where
  "db_inv num parked db \<longleftrightarrow>
     (\<forall>i row. map_get (db_approvals db) i = Some row \<longrightarrow> (\<exists>t. parked i = Some t \<and> row_for num t row) \<and>
        (ar_status row \<in> {ApPending, ApDiscarded} \<longrightarrow> map_get (db_claims db) i = None)) \<and>
     (\<forall>i b. map_get (db_bindings db) i = Some b \<longrightarrow> (\<exists>t. parked i = Some t \<and> binding_for t b)) \<and>
     (\<forall>i. map_get (db_claims db) i \<noteq> None \<longrightarrow> map_get (db_approvals db) i \<noteq> None)"

definition sys_inv :: "(string \<Rightarrow> string) \<Rightarrow> approval_system \<Rightarrow> bool" where
  "sys_inv num s \<longleftrightarrow> db_inv num (map_of (sy_parked s)) (sy_db s) \<and> distinct (map fst (sy_dispatched s)) \<and>
     (\<forall>i p. (i, p) \<in> set (sy_dispatched s) \<longrightarrow> (\<exists>t. map_of (sy_parked s) i = Some t \<and> action_of t p)) \<and>
     (\<forall>q i b. map_get (sy_requests s) q = Some (i, ApproveSchedule b) \<longrightarrow> (\<exists>t. map_of (sy_parked s) i = Some t \<and> bound_for t b)) \<and>
     (\<forall>i q r. holds s i q \<longrightarrow> holds s i r \<longrightarrow> q = r) \<and>
     (\<forall>i q. holds s i q \<longrightarrow> i \<notin> fst ` set (sy_dispatched s)) \<and>
     (\<forall>i. (\<exists>q. holds s i q) \<or> i \<in> fst ` set (sy_dispatched s) \<longrightarrow> map_get (db_approvals (sy_db s)) i \<noteq> None \<longrightarrow>
        map_get (db_claims (sy_db s)) i \<noteq> None) \<and>
     (\<forall>q i pt. map_get (sy_requests s) q = Some (i, pt) \<longrightarrow> (\<exists>p. pt = ApproveTool p) \<or> (\<exists>d. pt = Decide d \<and> di_status d = ApApproved) \<longrightarrow>
        i \<in> fst ` set (sy_dispatched s)) \<and>
     (\<forall>i row. map_get (db_approvals (sy_db s)) i = Some row \<longrightarrow> ar_status row = ApApproved \<longrightarrow> i \<in> fst ` set (sy_dispatched s))"

lemma row_get_set [simp]: "map_get (map_set k v m) k' = (if k' = k then Some v else map_get m k')"
  by (simp add: map_get_def map_set_def update_conv)

lemma row_get_delete [simp]: "map_get (map_delete k m) k' = (if k' = k then None else map_get m k')"
  by (simp add: map_get_def map_delete_def delete_conv)

lemma map_has_get: "map_has m k \<longleftrightarrow> map_get m k \<noteq> None"
  by (simp add: map_has_def map_get_def)

lemma map_get_filter: "map_get (filter (\<lambda>(i, x). P i) m) k = (if P k then map_get m k else None)"
  by (induction m) (auto simp: map_get_def)

lemma map_get_rows: "map_get (map (\<lambda>(i, x). (i, f i x)) m) k = map_option (f k) (map_get m k)"
  by (induction m) (auto simp: map_get_def)

text \<open>What every operation but parking and claiming does to the tables.\<close>

definition shrinks :: "(string \<Rightarrow> string) \<Rightarrow> ApprovalDb \<Rightarrow> ApprovalDb \<Rightarrow> bool" where
  "shrinks num db db' \<longleftrightarrow>
     (\<forall>i row'. map_get (db_approvals db') i = Some row' \<longrightarrow> map_get (db_claims db') i = map_get (db_claims db) i \<and>
        (\<exists>row. map_get (db_approvals db) i = Some row \<and> (\<forall>t. row_for num t row \<longrightarrow> row_for num t row') \<and>
           (ar_status row' \<in> {ApPending, ApDiscarded} \<longrightarrow> ar_status row \<in> {ApPending, ApDiscarded}))) \<and>
     (\<forall>i b. map_get (db_bindings db') i = Some b \<longrightarrow> map_get (db_bindings db) i = Some b) \<and>
     (\<forall>i. map_get (db_claims db') i \<noteq> None \<longrightarrow> map_get (db_approvals db) i \<noteq> None \<longrightarrow> map_get (db_approvals db') i \<noteq> None) \<and>
     (\<forall>i. map_get (db_claims db') i \<noteq> None \<longrightarrow> map_get (db_claims db) i \<noteq> None)"

lemma shrinks_refl: "shrinks num db db"
  by (auto simp: shrinks_def)

lemma shrinks_inv: "shrinks num db db' \<Longrightarrow> db_inv num parked db \<Longrightarrow> db_inv num parked db'"
  unfolding shrinks_def db_inv_def by (intro conjI allI impI) (metis | blast)+

lemma row_for_thread: "row_for num t row \<Longrightarrow> row_for num t (row\<lparr>ar_threadId := None\<rparr>)"
  by (simp add: row_for_def)

lemma row_for_fields:
  "row_for num t (row\<lparr>ar_status := a\<rparr>) = row_for num t row" "row_for num t (row\<lparr>ar_result := b\<rparr>) = row_for num t row"
  "row_for num t (row\<lparr>ar_errorMessage := c\<rparr>) = row_for num t row" "row_for num t (row\<lparr>ar_decidedAt := d\<rparr>) = row_for num t row"
  by (simp_all add: row_for_def)

lemma recover_get:
  "map_get (db_approvals (snd (recoverInterruptedClaims now db))) i = map_option (\<lambda>row. snd (recover_row db now (i, row))) (map_get (db_approvals db) i)"
proof -
  have "db_approvals (snd (recoverInterruptedClaims now db)) =
      map (\<lambda>(i, row). (i, snd (recover_row db now (i, row)))) (db_approvals db)"
    by (auto simp: recoverInterruptedClaims_def recover_row_def)
  then show ?thesis by (simp only: map_get_rows)
qed

lemma shrinks_recover: "shrinks num db (snd (recoverInterruptedClaims now db))"
proof -
  have "db_bindings (snd (recoverInterruptedClaims now db)) = db_bindings db"
    "db_claims (snd (recoverInterruptedClaims now db)) = db_claims db"
    by (simp_all add: recoverInterruptedClaims_def)
  then show ?thesis by (auto simp: shrinks_def recover_get recover_row_def row_for_fields split: if_splits)
qed

lemma shrinks_drop: "shrinks num db (drop_approvals P db)"
  by (auto simp: shrinks_def drop_approvals_def Let_def map_get_filter split: if_splits)

lemma shrinks_unlink: "shrinks num db (delete_thread t db)"
  using row_for_thread by (auto simp: shrinks_def delete_thread_def map_get_rows [where f = "\<lambda>i row. if ar_threadId row = Some t then row\<lparr>ar_threadId := None\<rparr> else row"])

lemma shrinks_change: "shrinks num db (db\<lparr>db_schedules := x, db_runs := y, db_threads := z\<rparr>)"
  by (auto simp: shrinks_def)

lemma shrinks_row:
  assumes "map_get (db_approvals db) i = Some row" "\<And>t. row_for num t row \<Longrightarrow> row_for num t row'"
    and "ar_status row' \<in> {ApPending, ApDiscarded} \<Longrightarrow> ar_status row \<in> {ApPending, ApDiscarded}"
  shows "shrinks num db (db\<lparr>db_approvals := map_set i row' (db_approvals db)\<rparr>)"
  using assms by (auto simp: shrinks_def)

text \<open>What a decision and a claim do.\<close>

lemma decide_cases:
  assumes "approval_decide num now i d db = (r, db')"
  obtains (same) "db' = db"
  | (decided) row where "map_get (db_approvals db) i = Some row"
      "ar_status row = (if di_status d = ApDiscarded then ApPending else ApExecuting)"
      "db' = db\<lparr>db_approvals := map_set i (row\<lparr>ar_status := di_status d, ar_result := map_option json_stringify (di_result d),
                    ar_errorMessage := di_errorMessage d, ar_decidedAt := Some now\<rparr>) (db_approvals db)\<rparr>"
      "di_status d \<noteq> ApPending"
  using assms
  by (auto simp: approval_decide_def update_approval_def open_status_def split: option.splits if_splits sum.splits)

lemma claim_cases:
  assumes "approval_claim digest num now i db = (r, db')"
  obtains (same) "db' = db" "\<And>b. r \<noteq> Inr (Claimed b)"
  | (mismatch) row where "map_get (db_approvals db) i = Some row" "\<And>b. r \<noteq> Inr (Claimed b)" "ar_status row = ApPending"
      "db' = db\<lparr>db_approvals := map_set i (row\<lparr>ar_status := ApIndeterminate, ar_errorMessage := Some mismatch_message,
                        ar_decidedAt := Some now\<rparr>) (db_approvals db)\<rparr>"
  | (claimed) row b c where "map_get (db_approvals db) i = Some row" "ar_status row = ApPending" "map_get (db_claims db) i = None"
      "map_get (db_bindings db) i = Some b" "scheduleApprovalOperationHash digest (row_intent num i row b) = Inr (br_operationHash b)"
      "db' = db\<lparr>db_claims := map_set i \<lparr>cm_operationHash = br_operationHash b, cm_claimedAt = now\<rparr> (db_claims db),
         db_approvals := map_set i (row\<lparr>ar_status := ApExecuting\<rparr>) (db_approvals db)\<rparr>"
      "r = Inr (Claimed c)" "dto_scheduleId c = ar_scheduleId row" "dto_toolName c = ar_toolName row"
      "dto_toolInput c = parseJson num (Some (ar_toolInput row))" "ca_policyRevision c = br_policyRevision b"
      "ca_toolRevision c = br_toolRevision b" "ca_targetRevision c = br_targetRevision b" "dto_runId c = ar_runId row"
      "dto_threadId c = ar_threadId row" "dto_id c = i"
proof (cases "map_get (db_approvals db) i")
  case None
  then show ?thesis using assms same by (auto simp: approval_claim_def)
next
  case (Some row)
  show ?thesis
  proof (cases "ar_status row = ApPending \<and> map_get (db_claims db) i = None")
    case False
    then show ?thesis using assms same Some by (auto simp: approval_claim_def Let_def split: if_splits)
  next
    case True
    show ?thesis
    proof (cases "matching_binding digest num i row (map_get (db_bindings db) i)")
      case None
      then show ?thesis using assms Some True mismatch
        by (auto simp: approval_claim_def Let_def update_approval_def transition_ok_def lifecycle_ok_def open_status_def)
    next
      case b: (Some b)
      then have mb: "map_get (db_bindings db) i = Some b" "scheduleApprovalOperationHash digest (row_intent num i row b) = Inr (br_operationHash b)"
        by (auto simp: matching_binding_def split: option.splits if_splits)
      show ?thesis
      proof (cases "insert_claim i \<lparr>cm_operationHash = br_operationHash b, cm_claimedAt = now\<rparr> db")
        case (Inl e)
        then show ?thesis using assms Some True b same by (auto simp: approval_claim_def Let_def)
      next
        case ic: (Inr db1)
        then have db1: "db1 = db\<lparr>db_claims := map_set i \<lparr>cm_operationHash = br_operationHash b, cm_claimedAt = now\<rparr> (db_claims db)\<rparr>"
          by (simp add: insert_claim_def split: if_splits)
        show ?thesis
        proof (cases "update_approval i row (row\<lparr>ar_status := ApExecuting\<rparr>) db1")
          case (Inl e)
          then show ?thesis using assms Some True b ic same by (auto simp: approval_claim_def Let_def)
        next
          case up: (Inr db2)
          then have db2: "db2 = db1\<lparr>db_approvals := map_set i (row\<lparr>ar_status := ApExecuting\<rparr>) (db_approvals db1)\<rparr>"
            by (simp add: update_approval_def split: if_splits)
          obtain a where a: "approval_get num db2 i = Some a" by (simp add: approval_get_def db2)
          have f: "dto_scheduleId a = ar_scheduleId row" "dto_toolName a = ar_toolName row" "dto_runId a = ar_runId row"
            "dto_threadId a = ar_threadId row" "dto_id a = i" "dto_toolInput a = parseJson num (Some (ar_toolInput row))"
            using a by (auto simp: approval_get_def db2 rowToApproval_def)
          have res: "(r, db') = (Inr (Claimed (claimed_of a b)), db2)"
            using assms Some True b ic up a by (simp add: approval_claim_def Let_def)
          show ?thesis
            by (rule claimed [of row b "claimed_of a b"])
              (use Some True mb res f db1 db2 in \<open>auto simp: claimed_of_def ApprovalDto.extend_def ClaimedApproval.fields_def\<close>)
        qed
      qed
    qed
  qed
qed

lemma sys_inv_actions:
  assumes "sys_inv num s"
  shows "(i, p) \<in> set (sy_dispatched s) \<Longrightarrow> \<exists>t. map_of (sy_parked s) i = Some t \<and> action_of t p"
    and "map_get (sy_requests s) q = Some (i, ApproveSchedule b) \<Longrightarrow> \<exists>t. map_of (sy_parked s) i = Some t \<and> bound_for t b"
  using assms unfolding sys_inv_def by meson+

text \<open>Steps that start no execution and make no claim.\<close>

definition harmless :: "approval_system \<Rightarrow> string \<Rightarrow> request_point \<Rightarrow> bool" where
  "harmless s i pt \<longleftrightarrow> (\<forall>b. pt \<noteq> ApproveSchedule b) \<and>
     ((\<exists>p. pt = ApproveTool p) \<or> (\<exists>d. pt = Decide d \<and> di_status d = ApApproved) \<longrightarrow> i \<in> fst ` set (sy_dispatched s))"

lemma sys_inv_quiet:
  assumes inv: "sys_inv num s" and db: "shrinks num (sy_db s) db'"
    and approved: "\<And>i row. map_get (db_approvals db') i = Some row \<Longrightarrow> ar_status row = ApApproved \<Longrightarrow>
        (\<exists>row'. map_get (db_approvals (sy_db s)) i = Some row' \<and> ar_status row' = ApApproved) \<or> i \<in> fst ` set (sy_dispatched s)"
    and reqs: "\<And>q i pt. map_get rs q = Some (i, pt) \<Longrightarrow> map_get (sy_requests s) q = Some (i, pt) \<or> harmless s i pt"
  shows "sys_inv num (s\<lparr>sy_db := db', sy_requests := rs\<rparr>)"
proof -
  let ?s = "s\<lparr>sy_db := db', sy_requests := rs\<rparr>"
  have sched: "map_get (sy_requests s) q = Some (i, ApproveSchedule b)" if "map_get rs q = Some (i, ApproveSchedule b)" for q i b
    using reqs [OF that] by (auto simp: harmless_def)
  then have holds: "holds s i q" if "holds ?s i q" for i q using that by (auto simp: holds_def)
  have rows: "map_get (db_approvals (sy_db s)) i \<noteq> None \<and> map_get (db_claims db') i = map_get (db_claims (sy_db s)) i"
    if "map_get (db_approvals db') i \<noteq> None" for i
    using db that unfolding shrinks_def by fastforce
  have "db_inv num (map_of (sy_parked s)) db'" using inv db by (auto simp: sys_inv_def intro: shrinks_inv)
  moreover have "map_get (db_claims db') i \<noteq> None"
    if "(\<exists>q. holds ?s i q) \<or> i \<in> fst ` set (sy_dispatched s)" "map_get (db_approvals db') i \<noteq> None" for i
    using inv that holds rows unfolding sys_inv_def by (metis (no_types, lifting))
  moreover have "i \<in> fst ` set (sy_dispatched s)"
    if "map_get rs q = Some (i, pt)" "(\<exists>p. pt = ApproveTool p) \<or> (\<exists>d. pt = Decide d \<and> di_status d = ApApproved)" for q i pt
    using inv reqs [OF that(1)] that(2) unfolding sys_inv_def harmless_def by (metis (no_types, lifting))
  moreover have "i \<in> fst ` set (sy_dispatched s)" if "map_get (db_approvals db') i = Some row" "ar_status row = ApApproved" for i row
    using inv approved [OF that] unfolding sys_inv_def by (metis (no_types, lifting))
  moreover have "\<exists>t. map_of (sy_parked s) i = Some t \<and> bound_for t b" if "map_get rs q = Some (i, ApproveSchedule b)" for q i b
    using inv sched [OF that] unfolding sys_inv_def by (metis (no_types, lifting))
  moreover have "q = r" if "holds ?s i q" "holds ?s i r" for i q r
    using inv holds that unfolding sys_inv_def by (metis (no_types, lifting))
  moreover have "i \<notin> fst ` set (sy_dispatched s)" if "holds ?s i q" for i q
    using inv holds that unfolding sys_inv_def by (metis (no_types, lifting))
  ultimately show ?thesis using inv unfolding sys_inv_def by simp
qed

lemma parse_draft:
  assumes "row_for num t row"
  shows "parseJson num (Some (ar_toolInput row)) = json_norm (ai_toolInput t)"
proof -
  have "json_parse num (json_stringify (ai_toolInput t)) = Inr (json_norm (ai_toolInput t))"
    using assms by (auto simp: row_for_def intro: json_reread)
  moreover have "json_stringify (ai_toolInput t) \<noteq> []"
    using assms printed_first [of num "ai_toolInput t"] by (fastforce simp: row_for_def)
  ultimately show ?thesis using assms by (simp add: parseJson_def row_for_def)
qed

lemma sys_inv_claim:
  assumes inv: "sys_inv num s" and q: "map_get (sy_requests s) q = Some (i, ApproveClaim)"
    and c: "approval_claim digest num now i (sy_db s) = (Inr (Claimed b), db')"
  shows "sys_inv num (s\<lparr>sy_db := db', sy_requests := map_set q (i, ApproveSchedule b) (sy_requests s)\<rparr>)"
  using c
proof (cases rule: claim_cases)
  case (claimed row bd c')
  let ?s = "s\<lparr>sy_db := db', sy_requests := map_set q (i, ApproveSchedule b) (sy_requests s)\<rparr>"
  have b: "c' = b" using claimed(7) by simp
  have d: "db_inv num (map_of (sy_parked s)) (sy_db s)" using inv by (simp add: sys_inv_def)
  obtain t where t: "map_of (sy_parked s) i = Some t" "row_for num t row" "binding_for t bd"
    using d claimed(1,4) unfolding db_inv_def by (metis option.inject)
  have bound: "bound_for t b"
    using t claimed(9-13) norm_same [of "ai_toolInput t"] parse_draft [OF t(2)]
    by (auto simp: b bound_for_def row_for_def binding_for_def)
  have free: "\<not> holds s i r" "i \<notin> fst ` set (sy_dispatched s)" for r
    using inv claimed(1,3) unfolding sys_inv_def by (metis (no_types, lifting) option.distinct(1))+
  have h: "holds ?s j r \<longleftrightarrow> (if r = q then j = i else holds s j r)" for j r
    using q by (auto simp: holds_def)
  have rt: "row_for num t (row\<lparr>ar_status := ApExecuting\<rparr>)" using t(2) by (simp add: row_for_fields)
  have dbi: "db_inv num (map_of (sy_parked s)) db'"
    using d t(1) rt unfolding db_inv_def claimed(6) by (auto split: if_splits)
  have "map_get (db_claims db') j \<noteq> None"
    if "(\<exists>r. holds ?s j r) \<or> j \<in> fst ` set (sy_dispatched s)" "map_get (db_approvals db') j \<noteq> None" for j
  proof (cases "j = i")
    case False
    then have "(\<exists>r. holds s j r) \<or> j \<in> fst ` set (sy_dispatched s)" "map_get (db_approvals (sy_db s)) j \<noteq> None"
      using that h claimed(6) by (auto split: if_splits)
    then have "map_get (db_claims (sy_db s)) j \<noteq> None" using inv unfolding sys_inv_def by (metis (no_types, lifting))
    then show ?thesis using claimed(6) False by simp
  qed (simp add: claimed(6))
  moreover have "\<exists>t. map_of (sy_parked s) j = Some t \<and> bound_for t b'"
    if "map_get (sy_requests ?s) r = Some (j, ApproveSchedule b')" for r j b'
    using inv that t(1) bound unfolding sys_inv_def by (auto split: if_splits)
  moreover have "r = r'" if "holds ?s j r" "holds ?s j r'" for j r r'
    using inv that h free(1) unfolding sys_inv_def by (metis (no_types, lifting))
  moreover have "j \<notin> fst ` set (sy_dispatched s)" if "holds ?s j r" for j r
    using inv that h free(2) unfolding sys_inv_def by (metis (no_types, lifting))
  moreover have "j \<in> fst ` set (sy_dispatched s)"
    if "map_get (sy_requests ?s) r = Some (j, pt)" "(\<exists>p. pt = ApproveTool p) \<or> (\<exists>d. pt = Decide d \<and> di_status d = ApApproved)" for r j pt
    using inv that unfolding sys_inv_def by (auto split: if_splits)
  moreover have "j \<in> fst ` set (sy_dispatched s)" if "map_get (db_approvals db') j = Some row'" "ar_status row' = ApApproved" for j row'
    using inv that claimed(6) unfolding sys_inv_def by (auto split: if_splits)
  ultimately show ?thesis using inv dbi unfolding sys_inv_def by simp
qed blast+

lemma sys_inv_dispatch:
  assumes inv: "sys_inv num s" and q: "map_get (sy_requests s) q = Some (i, ApproveSchedule b)"
  shows "sys_inv num (s\<lparr>sy_requests := map_set q (i, ApproveTool (held_params sch b)) (sy_requests s),
     sy_dispatched := (i, held_params sch b) # sy_dispatched s\<rparr>)"
proof -
  let ?p = "held_params sch b"
  let ?s = "s\<lparr>sy_requests := map_set q (i, ApproveTool ?p) (sy_requests s), sy_dispatched := (i, ?p) # sy_dispatched s\<rparr>"
  have hq: "holds s i q" using q by (auto simp: holds_def)
  have h: "holds ?s j r \<longleftrightarrow> r \<noteq> q \<and> holds s j r" for j r by (auto simp: holds_def)
  obtain t where t: "map_of (sy_parked s) i = Some t" "bound_for t b" using inv q unfolding sys_inv_def by metis
  have act: "action_of t ?p" using t(2) by (simp add: action_of_def bound_for_def held_params_def)
  have new: "i \<notin> fst ` set (sy_dispatched s)" using inv hq unfolding sys_inv_def by metis
  have other: "j \<noteq> i" if "holds ?s j r" for j r
    using inv hq that h unfolding sys_inv_def by (metis (no_types, lifting))
  have "map_get (db_claims (sy_db s)) j \<noteq> None"
    if "(\<exists>r. holds ?s j r) \<or> j \<in> fst ` set (sy_dispatched ?s)" "map_get (db_approvals (sy_db s)) j \<noteq> None" for j
  proof -
    have "(\<exists>r. holds s j r) \<or> j \<in> fst ` set (sy_dispatched s)" using that(1) h hq by auto
    then show ?thesis using inv that(2) unfolding sys_inv_def by (metis (no_types, lifting))
  qed
  moreover have "j \<notin> fst ` set (sy_dispatched ?s)" if "holds ?s j r" for j r
    using inv that other [OF that] h unfolding sys_inv_def by auto
  moreover have "\<exists>t. map_of (sy_parked s) j = Some t \<and> action_of t p" if "(j, p) \<in> set (sy_dispatched ?s)" for j p
    using inv that t(1) act unfolding sys_inv_def by auto
  moreover have "\<exists>t. map_of (sy_parked s) j = Some t \<and> bound_for t b'"
    if "map_get (sy_requests ?s) r = Some (j, ApproveSchedule b')" for r j b'
    using inv that unfolding sys_inv_def by (auto split: if_splits)
  moreover have "r = r'" if "holds ?s j r" "holds ?s j r'" for j r r'
    using inv that h unfolding sys_inv_def by (metis (no_types, lifting))
  moreover have "j \<in> fst ` set (sy_dispatched ?s)"
    if "map_get (sy_requests ?s) r = Some (j, pt)" "(\<exists>p. pt = ApproveTool p) \<or> (\<exists>d. pt = Decide d \<and> di_status d = ApApproved)" for r j pt
    using inv that unfolding sys_inv_def by (auto split: if_splits)
  moreover have "j \<in> fst ` set (sy_dispatched ?s)" if "map_get (db_approvals (sy_db s)) j = Some row" "ar_status row = ApApproved" for j row
    using inv that unfolding sys_inv_def by auto
  ultimately show ?thesis using inv new unfolding sys_inv_def by simp
qed

lemma create_cases:
  assumes "approval_create digest num i now c db = (Inr a, db')"
  obtains h where "scheduleApprovalOperationHash digest (create_intent i c) = Inr h" "map_get (db_approvals db) i = None"
    "map_get (db_bindings db) i = None" "is_hex_digest h" "0 \<le> now"
    "db' = db\<lparr>db_approvals := map_set i (draft_row now c) (db_approvals db), db_bindings := map_set i (draft_binding now c h) (db_bindings db)\<rparr>"
  using assms
  by (auto simp: approval_create_def insert_approval_def insert_binding_def map_has_get draft_binding_def split: sum.splits if_splits option.splits)

lemma sys_inv_park:
  assumes inv: "sys_inv num s" and i: "i \<notin> fst ` set (sy_parked s)"
    and ok: "distinct_names (ci_toolInput c)" "json_nums num (ci_toolInput c)"
    and cr: "approval_create digest num i now c (sy_db s) = (Inr a, db')"
  shows "sys_inv num (s\<lparr>sy_db := db', sy_parked := (i, create_intent i c) # sy_parked s\<rparr>)"
  using cr
proof (cases rule: create_cases)
  case (1 h)
  let ?s = "s\<lparr>sy_db := db', sy_parked := (i, create_intent i c) # sy_parked s\<rparr>"
  have d: "db_inv num (map_of (sy_parked s)) (sy_db s)" using inv by (simp add: sys_inv_def)
  have fresh: "map_of (sy_parked s) i = None" using i by (simp add: map_of_eq_None_iff)
  have nc: "map_get (db_claims (sy_db s)) i = None" using d 1(2) unfolding db_inv_def by metis
  have keep: "map_of (sy_parked ?s) j = Some t" if "map_of (sy_parked s) j = Some t" for j t using that fresh by auto
  have rf: "row_for num (create_intent i c) (draft_row now c)" "binding_for (create_intent i c) (draft_binding now c h)"
    using ok by (simp_all add: row_for_def binding_for_def create_intent_def draft_row_def draft_binding_def)
  have dbi: "db_inv num (map_of (sy_parked ?s)) db'"
    using d nc rf keep unfolding db_inv_def 1(6) by (auto split: if_splits; metis)
  have free: "\<not> holds s i q" "i \<notin> fst ` set (sy_dispatched s)" for q
    using inv fresh unfolding sys_inv_def holds_def by (metis option.distinct(1), metis imageE option.distinct(1) prod.collapse)
  have h: "holds ?s = holds s" by (intro ext) (simp add: holds_def)
  have "map_get (db_claims db') j \<noteq> None"
    if "(\<exists>q. holds ?s j q) \<or> j \<in> fst ` set (sy_dispatched s)" "map_get (db_approvals db') j \<noteq> None" for j
  proof -
    have "j \<noteq> i" using that(1) free h by auto
    then have "map_get (db_approvals (sy_db s)) j \<noteq> None" using that(2) 1(6) by simp
    moreover have "(\<exists>q. holds s j q) \<or> j \<in> fst ` set (sy_dispatched s)" using that(1) h by simp
    ultimately have "map_get (db_claims (sy_db s)) j \<noteq> None" using inv unfolding sys_inv_def by (metis (no_types, lifting))
    then show ?thesis using 1(6) by simp
  qed
  moreover have "\<exists>t. map_of (sy_parked ?s) j = Some t \<and> action_of t p" if "(j, p) \<in> set (sy_dispatched s)" for j p
    using sys_inv_actions(1) [OF inv that] keep by blast
  moreover have "\<exists>t. map_of (sy_parked ?s) j = Some t \<and> bound_for t b" if "map_get (sy_requests s) q = Some (j, ApproveSchedule b)" for q j b
    using sys_inv_actions(2) [OF inv that] keep by blast
  moreover have "j \<in> fst ` set (sy_dispatched s)" if "map_get (db_approvals db') j = Some row" "ar_status row = ApApproved" for j row
    using inv that 1(6) unfolding sys_inv_def by (auto simp: draft_row_def split: if_splits)
  ultimately show ?thesis using inv dbi h unfolding sys_inv_def by simp
qed

lemma quiet_answer:
  assumes inv: "sys_inv num s" and db: "shrinks num (sy_db s) db'"
    and approved: "\<And>j row. map_get (db_approvals db') j = Some row \<Longrightarrow> ar_status row = ApApproved \<Longrightarrow>
        (\<exists>row'. map_get (db_approvals (sy_db s)) j = Some row' \<and> ar_status row' = ApApproved) \<or> j \<in> fst ` set (sy_dispatched s)"
    and pt: "\<And>pt. nx = Continue pt \<Longrightarrow> harmless s i pt \<and> (\<forall>p. pt \<noteq> ApproveTool p)"
  shows "sys_inv num (after_step q i (nx, db') s)"
proof (cases nx)
  case (Continue pt)
  have "sys_inv num (s\<lparr>sy_db := db', sy_requests := map_set q (i, pt) (sy_requests s)\<rparr>)"
    by (rule sys_inv_quiet [OF inv db approved]) (use assms(4) [OF Continue] in \<open>auto split: if_splits\<close>)
  moreover have "after_step q i (nx, db') s = s\<lparr>sy_db := db', sy_requests := map_set q (i, pt) (sy_requests s)\<rparr>"
    using assms(4) [OF Continue] Continue by (cases pt) (simp_all add: after_step_def)
  ultimately show ?thesis by simp
next
  case (Respond a)
  have "sys_inv num (s\<lparr>sy_db := db', sy_requests := map_delete q (sy_requests s)\<rparr>)"
    by (rule sys_inv_quiet [OF inv db approved]) (auto split: if_splits)
  then show ?thesis using Respond by (simp add: after_step_def)
qed

lemma harmless_simps [simp]:
  "harmless s i ApproveGet" "harmless s i ApproveClaim" "harmless s i DiscardGet" "harmless s i (Decide (decide_failed m))"
  by (simp_all add: harmless_def decide_failed_def)

lemma sys_inv_advance:
  assumes inv: "sys_inv num s" and q: "map_get (sy_requests s) q = Some (i, pt)"
  shows "sys_inv num (after_step q i (request_step digest num now outcome i pt (sy_db s)) s)"
proof (cases pt)
  case ApproveGet
  show ?thesis unfolding ApproveGet
    by (auto simp: shrinks_refl split: option.split intro!: quiet_answer [OF inv])
next
  case ApproveClaim
  obtain r db' where c: "approval_claim digest num now i (sy_db s) = (r, db')" by fastforce
  show ?thesis
    using c
  proof (cases rule: claim_cases)
    case (claimed row bd b)
    then show ?thesis using sys_inv_claim [OF inv, of q i digest now b db'] q ApproveClaim c by (simp add: after_step_def)
  next
    case same
    have "sys_inv num (after_step q i (case r of Inl e \<Rightarrow> Respond (Error500 e) | Inr x \<Rightarrow> claim_answer x, db') s)"
      by (rule quiet_answer [OF inv]) (use same in \<open>auto simp: shrinks_refl split: sum.splits elim: claim_answer.elims\<close>)
    then show ?thesis using ApproveClaim c by (cases r) simp_all
  next
    case (mismatch row)
    have sh: "shrinks num (sy_db s) db'" unfolding mismatch(4)
      by (rule shrinks_row [OF mismatch(1)]) (simp_all add: row_for_fields)
    have "sys_inv num (after_step q i (case r of Inl e \<Rightarrow> Respond (Error500 e) | Inr x \<Rightarrow> claim_answer x, db') s)"
      by (rule quiet_answer [OF inv sh]) (use mismatch in \<open>auto split: sum.splits if_splits elim: claim_answer.elims\<close>)
    then show ?thesis using ApproveClaim c by (cases r) simp_all
  qed
next
  case (ApproveSchedule b)
  show ?thesis
  proof (cases "map_get (db_schedules (sy_db s)) (dto_scheduleId b)")
    case None
    then show ?thesis unfolding ApproveSchedule by (auto simp: shrinks_refl intro!: quiet_answer [OF inv])
  next
    case (Some sch)
    then show ?thesis using sys_inv_dispatch [OF inv, of q i b sch] q ApproveSchedule by (simp add: after_step_def)
  qed
next
  case (ApproveTool p)
  have "i \<in> fst ` set (sy_dispatched s)" using inv q ApproveTool unfolding sys_inv_def by (metis (no_types, lifting))
  then have "harmless s i (Decide (tool_decision outcome))" by (simp add: harmless_def)
  then show ?thesis unfolding ApproveTool by (auto simp: shrinks_refl intro!: quiet_answer [OF inv])
next
  case DiscardGet
  show ?thesis unfolding DiscardGet
    by (auto simp: shrinks_refl harmless_def split: option.split intro!: quiet_answer [OF inv])
next
  case (Decide d)
  obtain r db' where c: "approval_decide num now i d (sy_db s) = (r, db')" by fastforce
  have ap: "di_status d = ApApproved \<Longrightarrow> i \<in> fst ` set (sy_dispatched s)"
    using inv q Decide unfolding sys_inv_def by (metis (no_types, lifting))
  have "shrinks num (sy_db s) db' \<and> (\<forall>j row. map_get (db_approvals db') j = Some row \<longrightarrow> ar_status row = ApApproved \<longrightarrow>
        (\<exists>row'. map_get (db_approvals (sy_db s)) j = Some row' \<and> ar_status row' = ApApproved) \<or> j \<in> fst ` set (sy_dispatched s))"
    using c
  proof (cases rule: decide_cases)
    case (decided row)
    have "shrinks num (sy_db s) db'" unfolding decided(3)
      by (rule shrinks_row [OF decided(1)]) (use decided(2,4) in \<open>auto simp: row_for_fields split: if_splits\<close>)
    then show ?thesis using decided ap by (auto split: if_splits)
  qed (simp add: shrinks_refl)
  then have "sys_inv num (after_step q i (case r of Inl e \<Rightarrow> Respond (Error500 e) | Inr x \<Rightarrow> Respond (Answer200 x), db') s)"
    by (intro quiet_answer [OF inv]) (auto split: sum.splits)
  then show ?thesis using Decide c by (cases r) simp_all
qed

lemma sys_inv_step: "sys_step digest num s s' \<Longrightarrow> sys_inv num s \<Longrightarrow> sys_inv num s'"
proof (induction rule: sys_step.induct)
  case (park i s c now a db)
  then show ?case by (intro sys_inv_park)
next
  case (request s q who approve pt i)
  have "sys_inv num (s\<lparr>sy_db := sy_db s, sy_requests := map_set q (i, pt) (sy_requests s)\<rparr>)"
    by (rule sys_inv_quiet [OF request.prems shrinks_refl])
      (use request.hyps(2) in \<open>auto simp: open_request_def split: if_splits\<close>)
  then show ?case by simp
next
  case (advance s q i pt now outcome)
  then show ?case by (intro sys_inv_advance)
next
  case (restart s now)
  show ?case
    by (rule sys_inv_quiet [OF restart.prems shrinks_recover])
      (auto simp: recover_get recover_row_def jm.find_empty split: if_splits)
next
  case (remove s P)
  have "sys_inv num (s\<lparr>sy_db := drop_approvals P (sy_db s), sy_requests := sy_requests s\<rparr>)"
    by (rule sys_inv_quiet [OF remove.prems shrinks_drop])
      (auto simp: drop_approvals_def Let_def map_get_filter split: if_splits)
  then show ?case by simp
next
  case (unlink s t)
  have "sys_inv num (s\<lparr>sy_db := delete_thread t (sy_db s), sy_requests := sy_requests s\<rparr>)"
    by (rule sys_inv_quiet [OF unlink.prems shrinks_unlink])
      (auto simp: delete_thread_def map_get_rows [where f = "\<lambda>i row. if ar_threadId row = Some t then row\<lparr>ar_threadId := None\<rparr> else row"] split: if_splits)
  then show ?case by simp
next
  case (change s z y x)
  have "sys_inv num (s\<lparr>sy_db := (sy_db s)\<lparr>db_schedules := x, db_runs := y, db_threads := z\<rparr>, sy_requests := sy_requests s\<rparr>)"
    by (rule sys_inv_quiet [OF change.prems shrinks_change]) auto
  then show ?case by simp
qed

lemma sys_inv_fresh: "sys_inv num (fresh_system db)"
  by (simp add: sys_inv_def fresh_system_def db_inv_def holds_def map_get_def)

lemma sys_inv_reachable: "(sys_step digest num)\<^sup>*\<^sup>* (fresh_system db) s \<Longrightarrow> sys_inv num s"
  by (induction rule: rtranclp_induct) (auto intro: sys_inv_fresh sys_inv_step)

section \<open>At most once\<close>

text \<open>
  C8: a draft is executed at most once, and as it was parked. For every interleaving of requests that approve and discard drafts, with
  restarts at any moment, deletions of schedules, runs and threads and drafts parked in between: no draft's execution is started
  twice; every execution that is started has the tool, the arguments, the revisions and the target with which that draft was
  parked; a draft that is pending or discarded was never started, and one recorded as approved was.
\<close>

theorem approvals_at_most_once:
  assumes "(sys_step digest num)\<^sup>*\<^sup>* (fresh_system db) s"
  shows "distinct (map fst (sy_dispatched s)) \<and>
    (\<forall>i p. (i, p) \<in> set (sy_dispatched s) \<longrightarrow> (\<exists>t. map_of (sy_parked s) i = Some t \<and> action_of t p)) \<and>
    (\<forall>i row. map_get (db_approvals (sy_db s)) i = Some row \<longrightarrow>
       (ar_status row \<in> {ApPending, ApDiscarded} \<longrightarrow> i \<notin> fst ` set (sy_dispatched s)) \<and>
       (ar_status row = ApApproved \<longrightarrow> i \<in> fst ` set (sy_dispatched s)))"
proof -
  have inv: "sys_inv num s" by (rule sys_inv_reachable [OF assms])
  have "i \<notin> fst ` set (sy_dispatched s)"
    if "map_get (db_approvals (sy_db s)) i = Some row" "ar_status row \<in> {ApPending, ApDiscarded}" for i row
  proof
    assume "i \<in> fst ` set (sy_dispatched s)"
    then have "map_get (db_claims (sy_db s)) i \<noteq> None" using inv that(1) unfolding sys_inv_def by (metis (no_types, lifting) option.distinct(1))
    moreover have "map_get (db_claims (sy_db s)) i = None" using inv that unfolding sys_inv_def db_inv_def by (metis (no_types, lifting))
    ultimately show False by simp
  qed
  moreover have "distinct (map fst (sy_dispatched s))" using inv by (simp add: sys_inv_def)
  moreover have "i \<in> fst ` set (sy_dispatched s)" if "map_get (db_approvals (sy_db s)) i = Some row" "ar_status row = ApApproved" for i row
    using inv that unfolding sys_inv_def by (metis (no_types, lifting))
  ultimately show ?thesis using sys_inv_actions(1) [OF inv] by blast
qed

section \<open>Exactly the reviewed action\<close>

lemma json_ok_names: "json_ok num v \<Longrightarrow> distinct_names v"
  by (induction v) (auto simp: list_all_iff prop_ordered_def)

lemma parseJson_ok: "num_ok num \<Longrightarrow> distinct_names (parseJson num t) \<and> json_nums num (parseJson num t)"
  using json_parse_ok json_ok_norm json_ok_names
  by (fastforce simp: parseJson_def split: option.split sum.split)

text \<open>
  C9: a claim hands out exactly the reviewed action, even if other writers changed the stored row. If the binding of a draft was made for an
  intent, and the digest does not collide on that intent and the stored one, then a claim that succeeds returns the identifiers, the
  tool, the arguments up to the order of properties and the revisions of that intent; the draft was pending and unclaimed before, and is
  executing and claimed afterwards.
\<close>

theorem claim_exact:
  assumes "approval_claim digest num now i db = (Inr (Claimed c), db')" "map_get (db_bindings db) i = Some b"
    and "scheduleApprovalOperationHash digest t = Inr (br_operationHash b)" "distinct_names (ai_toolInput t)" "json_nums num (ai_toolInput t)"
    and "num_ok num" "num ''1'' = ''1''"
    and "\<And>row u v. map_get (db_approvals db) i = Some row \<Longrightarrow> scheduleApprovalIntentMaterial t = Inr u \<Longrightarrow>
        scheduleApprovalIntentMaterial (row_intent num i row b) = Inr v \<Longrightarrow> digest u = digest v \<Longrightarrow> u = v"
  shows "dto_id c = ai_approvalId t \<and> dto_scheduleId c = ai_scheduleId t \<and> dto_runId c = ai_runId t \<and> dto_threadId c = ai_threadId t \<and>
    dto_toolName c = ai_toolName t \<and> json_same (ai_toolInput t) (dto_toolInput c) \<and> ca_policyRevision c = ai_policyRevision t \<and>
    ca_toolRevision c = ai_toolRevision t \<and> ca_targetRevision c = ai_targetRevision t \<and>
    (\<exists>row row'. map_get (db_approvals db) i = Some row \<and> ar_status row = ApPending \<and> map_get (db_claims db) i = None \<and>
       map_get (db_approvals db') i = Some row' \<and> ar_status row' = ApExecuting \<and> map_get (db_claims db') i \<noteq> None)"
  using assms(1)
proof (cases rule: claim_cases)
  case (claimed row bd c')
  have e: "bd = b" "c' = c" using claimed(4,7) assms(2) by simp_all
  let ?j = "row_intent num i row b"
  obtain u v where uv: "scheduleApprovalIntentMaterial t = Inr u" "scheduleApprovalIntentMaterial ?j = Inr v" "digest u = digest v"
    using assms(3) claimed(5) e(1) by (auto simp: scheduleApprovalOperationHash_def map_sum_def split: sum.splits)
  have "u = v" using assms(8) [OF claimed(1) uv] .
  moreover have "distinct_names (ai_toolInput ?j)" "json_nums num (ai_toolInput ?j)"
    using parseJson_ok [OF assms(6)] by (simp_all add: row_intent_def)
  ultimately have same: "json_same (ai_toolInput t) (ai_toolInput ?j) \<and> t = ?j\<lparr>ai_toolInput := ai_toolInput t\<rparr>"
    using approval_material_same [OF assms(4) _ assms(5) _ assms(7) uv(1)] uv(2) by simp
  then have "ai_approvalId t = i" "ai_scheduleId t = ar_scheduleId row" "ai_runId t = ar_runId row" "ai_threadId t = ar_threadId row"
    "ai_toolName t = ar_toolName row" "ai_policyRevision t = br_policyRevision b" "ai_toolRevision t = br_toolRevision b"
    "ai_targetRevision t = br_targetRevision b"
    by (metis ApprovalIntent.select_convs ApprovalIntent.update_convs(6) row_intent_def)+
  then show ?thesis using same claimed e by (simp add: row_intent_def)
qed blast+

text \<open>
  C10: what was parked can be approved. Right after a draft is parked, and after any number of prints and reads of its row, a claim
  succeeds: the stored text of the arguments gives the digest that was bound.
\<close>

theorem draft_claimable:
  assumes "approval_create digest num i now c db = (Inr a, db1)" "distinct_names (ci_toolInput c)" "json_nums num (ci_toolInput c)"
    and "map_get (db_claims db) i = None" "0 \<le> later"
  shows "\<exists>b db2. approval_claim digest num later i db1 = (Inr (Claimed b), db2) \<and> json_same (ci_toolInput c) (dto_toolInput b) \<and>
    dto_status a = ApPending \<and> dto_status b = ApExecuting \<and> (\<forall>x. fst (approval_claim digest num later i db2) \<noteq> Inr (Claimed x))"
  using assms(1)
proof (cases rule: create_cases)
  case (1 h)
  have rf: "row_for num (create_intent i c) (draft_row now c)"
    using assms(2,3) by (simp add: row_for_def create_intent_def draft_row_def)
  let ?b = "draft_binding now c h"
  have ri: "row_intent num i (draft_row now c) ?b = (create_intent i c)\<lparr>ai_toolInput := json_norm (ai_toolInput (create_intent i c))\<rparr>"
    using parse_draft [OF rf] by (simp add: row_intent_def draft_row_def draft_binding_def create_intent_def)
  have d: "distinct_names (ai_toolInput (create_intent i c))" using assms(2) by (simp add: create_intent_def)
  have hash: "scheduleApprovalOperationHash digest (row_intent num i (draft_row now c) ?b) = Inr h"
    using 1(1) approval_material_reread [OF d] unfolding ri scheduleApprovalOperationHash_def by simp
  obtain r db2 where cl: "approval_claim digest num later i db1 = (r, db2)" by fastforce
  have db1: "map_get (db_approvals db1) i = Some (draft_row now c)" "map_get (db_bindings db1) i = Some ?b" "map_get (db_claims db1) i = None"
    using 1(6) assms(4) by simp_all
  have m: "matching_binding digest num i (draft_row now c) (Some ?b) = Some ?b"
    using hash by (simp add: matching_binding_def draft_binding_def)
  have "\<exists>b. r = Inr (Claimed b) \<and> dto_status b = ApExecuting"
    using cl db1 m 1(4) assms(5)
    by (auto simp: approval_claim_def Let_def insert_claim_def update_approval_def map_has_get draft_row_def draft_binding_def transition_ok_def
        lifecycle_ok_def open_status_def approval_get_def claimed_of_def ApprovalDto.extend_def ClaimedApproval.fields_def)
  then obtain b where b: "r = Inr (Claimed b)" "dto_status b = ApExecuting" by blast
  have "dto_toolInput b = json_norm (ci_toolInput c) \<and> map_get (db_claims db2) i \<noteq> None"
    using cl
  proof (cases rule: claim_cases)
    case (claimed row bd c')
    then show ?thesis using b(1) db1(1) parse_draft [OF rf] by (simp add: create_intent_def)
  qed (use b(1) in blast)+
  moreover have "fst (approval_claim digest num later i db2) \<noteq> Inr (Claimed x)" if "map_get (db_claims db2) i \<noteq> None" for x
  proof -
    obtain r' db3 where cl': "approval_claim digest num later i db2 = (r', db3)" by fastforce
    then show ?thesis by (cases rule: claim_cases) (use that cl' in auto)
  qed
  moreover have "dto_status a = ApPending"
    using assms(1) by (auto simp: approval_create_def insert_approval_def insert_binding_def approval_get_def rowToApproval_def draft_row_def
        split: sum.splits if_splits option.splits)
  ultimately show ?thesis using cl b norm_same [OF assms(2)] by auto
qed

text \<open>
  Deleting the thread of a pending draft is said to keep the draft; it sets the thread to nothing, and as the thread is part of the
  identity, the draft can then never be claimed.
\<close>

lemma deleted_thread_mismatch:
  assumes "approval_create digest num i now c db = (Inr a, db1)" "distinct_names (ci_toolInput c)" "json_nums num (ci_toolInput c)"
    and "map_get (db_claims db) i = None" "ci_threadId c = Some t" "num ''1'' = ''1''" "inj_on digest M"
    and "\<And>x s. scheduleApprovalIntentMaterial x = Inr s \<Longrightarrow> ai_approvalId x = i \<Longrightarrow> s \<in> M"
  shows "\<exists>x. fst (approval_claim digest num later i (delete_thread t db1)) = Inr (IntentMismatch x)"
  using assms(1)
proof (cases rule: create_cases)
  case (1 h)
  let ?row = "(draft_row now c)\<lparr>ar_threadId := None\<rparr>" and ?b = "draft_binding now c h" and ?t = "create_intent i c"
  let ?j = "row_intent num i ?row ?b"
  have rf: "row_for num ?t (draft_row now c)" using assms(2,3) by (simp add: row_for_def create_intent_def draft_row_def)
  have in_j: "ai_toolInput ?j = json_norm (ci_toolInput c)"
    using parse_draft [OF rf] by (simp add: row_intent_def create_intent_def)
  have "scheduleApprovalOperationHash digest ?j \<noteq> Inr h"
  proof
    assume "scheduleApprovalOperationHash digest ?j = Inr h"
    then obtain u v where uv: "scheduleApprovalIntentMaterial ?t = Inr u" "scheduleApprovalIntentMaterial ?j = Inr v" "digest u = digest v"
      using 1(1) by (auto simp: scheduleApprovalOperationHash_def map_sum_def split: sum.splits)
    have "u \<in> M" "v \<in> M" using assms(8) uv by (simp_all add: create_intent_def row_intent_def)
    then have e: "u = v" using inj_onD [OF assms(7) uv(3)] by simp
    have "ai_threadId ?t = ai_threadId ?j"
      using approval_material_same [of ?t ?j num u] uv e in_j assms(2,3,6) norm_names norm_nums
      by (simp add: create_intent_def)
    then show False using assms(5) by (simp add: create_intent_def row_intent_def)
  qed
  then have m: "matching_binding digest num i ?row (Some ?b) = None" by (simp add: matching_binding_def draft_binding_def)
  have "map_get (db_approvals (delete_thread t db1)) i = Some ?row" "map_get (db_bindings (delete_thread t db1)) i = Some ?b"
    "map_get (db_claims (delete_thread t db1)) i = None"
    using 1(6) assms(4,5) by (simp_all add: delete_thread_def draft_row_def
        map_get_rows [where f = "\<lambda>i row. if ar_threadId row = Some t then row\<lparr>ar_threadId := None\<rparr> else row"])
  then show ?thesis using m
    by (simp add: approval_claim_def Let_def draft_row_def update_approval_def transition_ok_def lifecycle_ok_def open_status_def)
qed

section \<open>A run\<close>

definition sample_tables :: ApprovalDb where
  "sample_tables = \<lparr>db_schedules = [(''s1'', \<lparr>sr_name = ''daily'', sr_profileId = ''mail'', sr_workspaceId = None, sr_safetyLevel = DraftApproval\<rparr>)],
     db_runs = [(''r1'', ''s1'')], db_threads = [], db_approvals = [], db_bindings = [], db_claims = []\<rparr>"

definition sample_draft :: CreateApprovalInput where
  "sample_draft = \<lparr>ci_scheduleId = ''s1'', ci_runId = ''r1'', ci_threadId = None, ci_toolName = ''send'',
     ci_toolInput = JObj [(''to'', JStr ''dana'')], ci_summary = ''send'', ci_policyRevision = replicate 64 (CHR ''a''),
     ci_toolRevision = replicate 64 (CHR ''a''), ci_targetRevision = None\<rparr>"

definition same_number :: "string \<Rightarrow> string" where
  "same_number l = l"

definition parked_db :: ApprovalDb where
  "parked_db = snd (approval_create any_digest same_number ''a1'' 5 sample_draft sample_tables)"

definition asked_system :: approval_system where
  "asked_system = \<lparr>sy_db = parked_db, sy_requests = [(0, ''a1'', ApproveGet)], sy_parked = [(''a1'', create_intent ''a1'' sample_draft)], sy_dispatched = []\<rparr>"

definition sample_advance :: "approval_system \<Rightarrow> approval_system" where
  "sample_advance s = (case map_get (sy_requests s) 0 of
     Some (i, pt) \<Rightarrow> after_step 0 i (request_step any_digest same_number 7 (Inr \<lparr>content = ''sent'', isError = False, metadata = None\<rparr>) i pt (sy_db s)) s
   | None \<Rightarrow> s)"

lemma sample_input: "distinct_names (ci_toolInput sample_draft)" "json_nums num (ci_toolInput sample_draft)"
  by (simp_all add: sample_draft_def)

lemma sample_create: "\<exists>a. approval_create any_digest same_number ''a1'' 5 sample_draft sample_tables = (Inr a, parked_db)"
proof -
  have "\<not> isl (fst (approval_create any_digest same_number ''a1'' 5 sample_draft sample_tables))" by code_simp
  then show ?thesis unfolding parked_db_def by (metis isl_def prod.collapse sum.exhaust)
qed

lemma sample_advance_step: "(sys_step any_digest same_number)\<^sup>*\<^sup>* s (sample_advance s)"
proof (cases "map_get (sy_requests s) 0")
  case (Some x)
  then show ?thesis unfolding sample_advance_def
    by (cases x) (auto intro!: r_into_rtranclp [where r = "sys_step any_digest same_number"] advance)
qed (simp add: sample_advance_def)

lemma sample_asked: "(sys_step any_digest same_number)\<^sup>*\<^sup>* (fresh_system sample_tables) asked_system"
proof -
  let ?s = "(fresh_system sample_tables)\<lparr>sy_db := parked_db, sy_parked := [(''a1'', create_intent ''a1'' sample_draft)]\<rparr>"
  obtain a where "approval_create any_digest same_number ''a1'' 5 sample_draft sample_tables = (Inr a, parked_db)" using sample_create by blast
  moreover have "sy_db (fresh_system sample_tables) = sample_tables" by (simp add: fresh_system_def sample_tables_def)
  ultimately have "sys_step any_digest same_number (fresh_system sample_tables) ?s"
    using park [of "''a1''" "fresh_system sample_tables" sample_draft same_number any_digest 5 a parked_db] sample_input
    by (simp add: fresh_system_def)
  moreover have "sys_step any_digest same_number ?s (?s\<lparr>sy_requests := map_set 0 (''a1'', ApproveGet) (sy_requests ?s)\<rparr>)"
    by (rule request [where who = None and approve = True]) (simp_all add: fresh_system_def open_request_def authorizePrincipalScope_def map_get_def)
  moreover have "?s\<lparr>sy_requests := map_set 0 (''a1'', ApproveGet) (sy_requests ?s)\<rparr> = asked_system"
    by (simp add: fresh_system_def asked_system_def map_set_def)
  ultimately show ?thesis by (metis (no_types, lifting) converse_rtranclp_into_rtranclp rtranclp.rtrancl_refl)
qed

lemma sample_run: "(sys_step any_digest same_number)\<^sup>*\<^sup>* (fresh_system sample_tables) ((sample_advance ^^ n) asked_system)"
  by (induction n) (use sample_asked sample_advance_step in \<open>auto intro: rtranclp_trans\<close>)

lemma sample_parked: "sy_parked ((sample_advance ^^ n) s) = sy_parked s"
proof -
  have "sy_parked (sample_advance x) = sy_parked x" for x
    by (auto simp: sample_advance_def after_step_def split: option.split prod.split request_next.split)
  then show ?thesis by (induction n) simp_all
qed

theorem approvals_at_most_once_witness:
  "map fst (sy_dispatched ((sample_advance ^^ 3) asked_system)) = [''a1''] \<and>
   (\<exists>p. (''a1'', p) \<in> set (sy_dispatched ((sample_advance ^^ 3) asked_system)) \<and> action_of (create_intent ''a1'' sample_draft) p)"
proof -
  let ?s = "(sample_advance ^^ 3) asked_system"
  have d: "map fst (sy_dispatched ?s) = [''a1'']" by code_simp
  obtain p where p: "(''a1'', p) \<in> set (sy_dispatched ?s)" using d by (cases "sy_dispatched ?s") auto
  then obtain t where "map_of (sy_parked ?s) ''a1'' = Some t" "action_of t p"
    using approvals_at_most_once [OF sample_run [of 3]] by blast
  then show ?thesis using d p by (auto simp: sample_parked asked_system_def)
qed

lemma sample_claim: "\<exists>c db. approval_claim any_digest same_number 7 ''a1'' parked_db = (Inr (Claimed c), db)"
proof -
  obtain a where a: "approval_create any_digest same_number ''a1'' 5 sample_draft sample_tables = (Inr a, parked_db)" using sample_create by blast
  have "case fst (approval_claim any_digest same_number 7 ''a1'' parked_db) of Inr (Claimed c) \<Rightarrow> True | _ \<Rightarrow> False" by code_simp
  then show ?thesis by (cases "approval_claim any_digest same_number 7 ''a1'' parked_db") (auto split: sum.splits ClaimApprovalResult.splits)
qed

theorem draft_claimable_witness:
  "\<exists>b db2. approval_claim any_digest same_number 7 ''a1'' parked_db = (Inr (Claimed b), db2) \<and> dto_status b = ApExecuting"
proof -
  obtain a where a: "approval_create any_digest same_number ''a1'' 5 sample_draft sample_tables = (Inr a, parked_db)" using sample_create by blast
  have "map_get (db_claims sample_tables) ''a1'' = None" by (simp add: sample_tables_def map_get_def)
  from draft_claimable [OF a sample_input this, of 7] show ?thesis by auto
qed

theorem claim_exact_witness:
  "\<exists>c db. approval_claim any_digest same_number 7 ''a1'' parked_db = (Inr (Claimed c), db) \<and> dto_toolName c = ''send'' \<and>
     json_same (JObj [(''to'', JStr ''dana'')]) (dto_toolInput c)"
proof -
  obtain c db where cl: "approval_claim any_digest same_number 7 ''a1'' parked_db = (Inr (Claimed c), db)" using sample_claim by blast
  let ?t = "create_intent ''a1'' sample_draft"
  obtain a where a: "approval_create any_digest same_number ''a1'' 5 sample_draft sample_tables = (Inr a, parked_db)" using sample_create by blast
  from a obtain h where h1: "scheduleApprovalOperationHash any_digest ?t = Inr h" and pd: "parked_db = sample_tables\<lparr>
      db_approvals := map_set ''a1'' (draft_row 5 sample_draft) (db_approvals sample_tables),
      db_bindings := map_set ''a1'' (draft_binding 5 sample_draft h) (db_bindings sample_tables)\<rparr>"
    by (rule create_cases)
  have h: "scheduleApprovalOperationHash any_digest ?t = Inr h" "map_get (db_approvals parked_db) ''a1'' = Some (draft_row 5 sample_draft)"
    "map_get (db_bindings parked_db) ''a1'' = Some (draft_binding 5 sample_draft h)"
    using h1 by (simp_all add: pd)
  have rf: "row_for same_number ?t (draft_row 5 sample_draft)"
    using sample_input by (simp add: row_for_def create_intent_def draft_row_def)
  have ri: "row_intent same_number ''a1'' (draft_row 5 sample_draft) (draft_binding 5 sample_draft h) = ?t\<lparr>ai_toolInput := json_norm (ai_toolInput ?t)\<rparr>"
    using parse_draft [OF rf] by (simp add: row_intent_def draft_row_def draft_binding_def create_intent_def)
  have d: "distinct_names (ai_toolInput ?t)" "json_nums same_number (ai_toolInput ?t)" using sample_input by (simp_all add: create_intent_def)
  have n: "num_ok same_number" "same_number ''1'' = ''1''" by (simp_all add: num_ok_def same_number_def)
  have hb: "scheduleApprovalOperationHash any_digest ?t = Inr (br_operationHash (draft_binding 5 sample_draft h))" using h(1) by (simp add: draft_binding_def)
  have col: "u = v" if "map_get (db_approvals parked_db) ''a1'' = Some row" "scheduleApprovalIntentMaterial ?t = Inr u"
    "scheduleApprovalIntentMaterial (row_intent same_number ''a1'' row (draft_binding 5 sample_draft h)) = Inr v" for row u v
    using that h(2) ri approval_material_reread [OF d(1)] by simp
  from claim_exact [OF cl h(3) hb d n col] cl show ?thesis by (auto simp: create_intent_def sample_draft_def)
qed

end
