(* ===== verification/Spec2Isabelle.thy ===== *)
theory Spec2Isabelle
  imports Hitl ZoneManager DefaultRules ResultCache ToolRegistry MessageBuilder CompactionManager ToolResultDrop
    Fallback PartialJson Orchestrator LoopRuns RateLimit ScheduleApprovals
begin

text \<open>
  A verification development for the ownware agent runtime.

  The program. Ownware runs language-model agents: \<open>packages/loom\<close> is the engine (agent loop, tools,
  permissions, security zones, messages, compaction, providers), \<open>packages/cortex\<close> the gateway with its
  stores and schedules, and the command line, client, interface and channel adapters are built on them. This development
  models the engine: the loop itself, everything that decides whether a tool call may run, what becomes of
  its output, and what becomes of the history; and of the gateway the parts that guard it: the rate limiter, and how
  the actions of unattended runs are held back, identified and executed after approval.

  How the parts interact. The loop (core/loop.ts) checks its limits, shrinks the history (rewriting passes, compaction
  manager), starts a turn, builds a request (system prompt, reminders, cache markers), streams the model's answer
  and, on a provider error, compacts, waits, falls back or ends the session. Tool calls pass an
  egress route, the \<open>tool.pre\<close> hooks, the permission check with the user's approval and the host's
  authorisation, and then run, read-only ones concurrently; results are redacted, capped, cached, reported and appended to the
  history. The permission check is the evaluator, whose first safety rule can be the zone
  manager, which classifies the call (using the shell validator for commands), looks for dangerous
  combinations with recent calls, applies threshold and approvals and writes an audit entry. An ask goes to the approval system.
  Independently, policies decide which tools exist for an agent, guards wrap a tool's body, and an
  executor and an orchestrator run tools for hosts that do not use the loop. A scheduled run gets its tools through a safety
  envelope that parks mutating calls as drafts in a store; a request to approve claims a draft and the gateway executes it through the
  executor if nothing of it changed.

  Theories, in order of dependency (sources under packages/loom/src):

  \<^item> \<open>Prelude\<close>: JavaScript strings and the string methods the sources call, JSON values, first-match
    tables, and the interface \<open>machine\<close>. \<open>JsRegex\<close>: regular expressions, their matching relation, an executable
    matcher and its correctness. \<open>Glob\<close>: the glob rewritings and the interface \<open>name_matcher\<close>. \<open>JsMap\<close>: the
    JavaScript map and the interface \<open>keyed_store\<close>. \<open>JsValue\<close>: \<open>parseInt\<close>, \<open>Number\<close>, \<open>JSON.stringify\<close>. \<open>Json\<close>: \<open>JSON.parse\<close>.
  \<^item> Decisions: \<open>Permissions\<close> (permissions/types.ts, rules.ts, session-store.ts, evaluator.ts), \<open>Hitl\<close>
    (permissions/hitl.ts), \<open>ShellSecurity\<close> (tools/builtins/shell-security.ts), \<open>ToolGuard\<close> (tools/policy.ts, guard.ts),
    \<open>ZoneTypes\<close>, \<open>ZoneClassifier\<close>, \<open>ZoneCombinations\<close>, \<open>ZoneExpansion\<close>, \<open>ZoneManager\<close> (zones/), \<open>AuditLog\<close> and
    \<open>DefaultRules\<close> (security/).
  \<^item> Tools: \<open>ToolRegistry\<close>, \<open>ResultCache\<close>, \<open>ToolHooks\<close>, \<open>ToolExecutor\<close>, \<open>Orchestrator\<close>, \<open>PartialJson\<close> (tools/ of the
    same names), \<open>Sanitizer\<close> (tools/builtins/output-sanitizer.ts).
  \<^item> Messages: \<open>Messages\<close> (types.ts, pairing.ts), \<open>MessageTokens\<close> (tokens.ts, truncation.ts), \<open>TextTruncate\<close>
    (truncate.ts), \<open>MessageBuilder\<close> (builder.ts), all of messages/; \<open>MessageGroups\<close>, \<open>CompactionStrategies\<close>,
    \<open>CompactionManager\<close>, \<open>ToolResultDrop\<close> (compaction/).
  \<^item> Providers: \<open>Errors\<close> (core/errors.ts), \<open>Retry\<close>, \<open>Fallback\<close>, \<open>Router\<close>, \<open>Pricing\<close> (provider/).
  \<^item> The loop: \<open>PromptCache\<close> (core/system-prompt.ts, cache-control.ts and the request builders of core/loop.ts), \<open>Reminders\<close>
    (reminders/), \<open>HookRuntime\<close> (hooks/), \<open>LoopEvents\<close> (core/events.ts), \<open>LoopProc\<close> (processes that yield and interleave),
    \<open>ModelStream\<close> (\<open>streamModelResponse\<close>), \<open>LoopTools\<close> (\<open>executeTools\<close>, \<open>executeSingleToolGen\<close>), \<open>AgentLoop\<close>
    (\<open>loop\<close>); \<open>LoopLife\<close>, \<open>LoopEnd\<close>, \<open>LoopHistory\<close> and \<open>LoopRuns\<close> hold the lemmas and properties of its runs.
  \<^item> The gateway (under packages/cortex/src): \<open>RateLimit\<close> (gateway/middleware/rate-limit.ts), \<open>PermissionIntent\<close>
    (gateway/permission-intent.ts), \<open>DraftHold\<close> (schedules/safety.ts, draft-hold.ts, \<open>executeHeldTool\<close> of gateway/handlers/run.ts),
    \<open>ScheduleApprovals\<close> (schedules/approvals.ts with its tables of gateway/db/schema.ts, gateway/handlers/approvals.ts).
  Conventions. State is passed explicitly; a class becomes a record (or the one field it has) and a
  method a function on it, named after the method with a prefix where two classes share a name.
  Code outside the sources and the host's callbacks (providers, tools, hooks, timers, egress control, storage) are functions of
  an abstract world of type \<open>'w\<close>, which they may change; the interleaving of concurrent tools is a schedule. \<open>Date.now()\<close> and ISO
  timestamps are arguments or left out. Errors are values: \<open>js_thrown\<close> in a sum, or an error branch of the
  result. The platform's URL parser, the \<open>RegExp\<close> constructor on a profile's own patterns
  and SHA-256 are parameters; no property assumes anything of them beyond what it states. Strings are
  lists of characters below 256 (a few longer characters of messages are written as ASCII), except in \<open>TextTruncate\<close>, which works on
  UTF-16 code units. Numbers that are only printed carry their text, money and fractions are
  rationals, addresses 32-bit words. A pattern whose rewriting is not a sequence of
  literals, dots and stars is outside the model and gives \<open>None\<close>.

  What is shown. For the loop: in every run a tool is dispatched at most once and only when all its gates
  let it pass; the history stays in the order providers require and every call is answered; the event log follows the
  life of a session; with a limit on turns the loop ends. For a model call and a batch of tool calls:
  their contracts. For hooks, reminders and markers: they fail closed, reach the model, stay within the limit.
  For the evaluator: the order of its sources of decisions and that an ask of a safety rule is final.
  For approvals: every promise is settled at most once and has a live timer until then, and
  only an explicit approval approves. For the validator and the guards: exact characterisations of
  what passes, and that the floors of a shell policy cannot be opened. For the zones: the exact
  zone of a shell call, the screening of IPv4 hosts, combination detection by backtracking sound and complete against a
  specification, that a call in zone \<open>NEVER\<close> is asked about in every reachable state, and that the manager is
  final as first safety rule. For messages and compaction: grouping, pairing and its repair, budgets, the
  breaker. For providers: retries, fallback and routing. For
  the gateway: the bound of the rate limiter and the honesty of its waiting times, that the canonical text of an action
  identifies it, that unattended runs cannot mutate anything, what an approved call may run, and that under every interleaving of requests,
  restarts and deletions a draft is executed at most once and as it was parked. For executor, cache, sanitizer and registry: discipline, bounds,
  round trips. Lemmas that are not properties record further facts, some of them behaviour that differs from what comments promise.

  Bounds and fuel. Loops are structural recursion or \<open>function\<close>s with a measure. The JSON reader has fuel 2 * length + 1, which
  \<open>parse_fuel\<close> shows to be enough; the matcher bounds the iterations of a star by the rest of the subject,
  which \<open>ends_correct\<close> shows to be enough. The batches of the orchestrator and the agent loop may run for ever and are
  \<open>partial_function (option)\<close>; \<open>orchestrator_answers\<close> and \<open>loop_terminates\<close> say when they return. A stream is the finite list of
  what its iterator delivers, a process of a tool is well-founded. The limits of the code (100 history entries,
  10 rate-limit retries, 2 compactions, 4 markers, 100000 characters) are kept as the code has them.

  Not modelled: core/session.ts (construction and delegation), the provider adapters (network code over vendor
  SDKs), message serializers, agents, memory, checkpoints, MCP and skills (files and network), the rest of the gateway
  (HTTP routes over SQLite and PostgreSQL), the command line, client, user interface, website and channel adapters
  (presentation and I/O).
\<close>

end
